(* ===== verification/Prelude.thy ===== *)
theory Prelude
  imports Main "HOL-Library.Word" "HOL-Library.Monad_Syntax" "HOL-Library.List_Lexorder"
begin

text \<open>
  Shared vocabulary of the development.

  \<^item> Machine integers and fixed-size byte arrays. A Rust \<open>u64\<close> is a 64-bit word. An array
    \<open>[u8; N]\<close> is the word of \<open>8 * N\<close> bits whose big-endian bytes are the array:
    \<open>to_be N\<close> lists the bytes, \<open>from_be\<close> reads them back. Rust compares arrays
    lexicographically; \<open>to_be_less_iff\<close> below shows that this is the order of the words.
  \<^item> Computations that may not return. A value of type \<open>'a exec\<close> is \<open>Some\<close> of what the
    function returns and \<open>None\<close> when it panics (arithmetic overflow in a build with overflow
    checks, a failed \<open>expect\<close>) or never ends. Errors that the code returns
    (\<open>Result\<close>) are values of a sum type inside it.
  \<^item> Rust's integer operators under both build profiles: with overflow checks (debug) they panic,
    without (release) they wrap.
\<close>

named_theorems arith_defs \<open>definitions of the integer operators\<close>
named_theorems exec_simps \<open>rules that run a computation that may not return\<close>

type_synonym u8 = "8 word"
type_synonym u16 = "16 word"
type_synonym u32 = "32 word"
type_synonym u64 = "64 word"
type_synonym bytes32 = "256 word"
type_synonym bytes33 = "264 word"
type_synonym byte_vec = "u8 list"

type_synonym 'a exec = "'a option"
type_synonym ('e, 'a) result = "'e + 'a"

section \<open>Integer operators\<close>

definition add_u64 :: "bool \<Rightarrow> u64 \<Rightarrow> u64 \<Rightarrow> u64 exec" where
  [arith_defs]: "add_u64 checks a b =
     (if unat a + unat b < 2 ^ 64 \<or> \<not> checks then Some (a + b) else None)"

definition sub_u64 :: "bool \<Rightarrow> u64 \<Rightarrow> u64 \<Rightarrow> u64 exec" where
  [arith_defs]: "sub_u64 checks a b = (if b \<le> a \<or> \<not> checks then Some (a - b) else None)"

definition saturating_add :: "u64 \<Rightarrow> u64 \<Rightarrow> u64" where
  [arith_defs]: "saturating_add a b = (if unat a + unat b < 2 ^ 64 then a + b else - 1)"

definition saturating_sub :: "u64 \<Rightarrow> u64 \<Rightarrow> u64" where
  [arith_defs]: "saturating_sub a b = (if b \<le> a then a - b else 0)"

lemma unat_add_u64_no_overflow:
  "unat (a :: u64) + unat b < 2 ^ 64 \<Longrightarrow> unat (a + b) = unat a + unat b"
  by (simp add: unat_word_ariths)

lemma unat_sub_u64_no_underflow: "(b :: u64) \<le> a \<Longrightarrow> unat (a - b) = unat a - unat b"
  by (rule unat_sub)

lemma unat_lt_length: "unat (w :: 'a::len word) < 2 ^ LENGTH('a)"
  by (rule unsigned_less)

lemma unat_u64_less: "unat (a :: u64) < 2 ^ 64"
  using unat_lt_length [of a] by simp

lemma add_u64_Some:
  "add_u64 checks a b = Some c \<Longrightarrow> unat a + unat b < 2 ^ 64 \<Longrightarrow> unat c = unat a + unat b"
  by (auto simp: arith_defs unat_add_u64_no_overflow)

lemma add_u64_exact: "unat a + unat b < 2 ^ 64 \<Longrightarrow> add_u64 checks a b = Some (a + b)"
  by (simp add: arith_defs)

lemma sub_u64_exact: "b \<le> a \<Longrightarrow> sub_u64 checks a b = Some (a - b)"
  by (simp add: arith_defs)

lemma add_u64_eq: "add_u64 checks a b = Some c \<Longrightarrow> c = a + b"
  by (auto simp: arith_defs split: if_splits)

lemma sub_u64_eq: "sub_u64 checks a b = Some c \<Longrightarrow> c = a - b"
  by (auto simp: arith_defs split: if_splits)

lemma unat_saturating_add: "unat (saturating_add a b) = min (unat a + unat b) (2 ^ 64 - 1)"
proof -
  have "unat (- 1 :: u64) = 2 ^ 64 - 1"
    by (simp add: unsigned_minus_1_eq_mask mask_eq_exp_minus_1)
  then show ?thesis
    by (simp add: saturating_add_def unat_add_u64_no_overflow min_def)
qed

lemma unat_saturating_sub: "unat (saturating_sub a b) = unat a - unat b"
  by (auto simp: saturating_sub_def unat_sub_u64_no_underflow word_le_nat_alt)

section \<open>Big-endian bytes\<close>

definition to_be :: "nat \<Rightarrow> 'a::len word \<Rightarrow> byte_vec" where
  "to_be n w = map (\<lambda>i. word_of_nat (unat w div 256 ^ i)) (rev [0..<n])"

definition be_value :: "byte_vec \<Rightarrow> nat" where
  "be_value bs = foldl (\<lambda>acc b. 256 * acc + unat b) 0 bs"

definition from_be :: "byte_vec \<Rightarrow> 'a::len word" where
  "from_be bs = word_of_nat (be_value bs)"

lemma length_to_be [simp]: "length (to_be n w) = n"
  by (simp add: to_be_def)

lemma foldl_be_append:
  "foldl (\<lambda>acc b. 256 * acc + unat b) a bs = a * 256 ^ length bs + be_value (bs :: byte_vec)"
proof (induction bs arbitrary: a rule: rev_induct)
  case Nil
  then show ?case by (simp add: be_value_def)
next
  case (snoc b bs)
  let ?f = "\<lambda>acc b. 256 * acc + unat (b :: u8)"
  have "be_value (bs @ [b]) = 256 * be_value bs + unat b"
    by (simp add: be_value_def)
  then show ?case
    using snoc.IH [of a] by (simp add: distrib_left mult.left_commute)
qed

lemma be_value_Nil [simp]: "be_value [] = 0"
  by (simp add: be_value_def)

lemma be_value_Cons: "be_value (b # bs) = unat b * 256 ^ length bs + be_value bs"
  using foldl_be_append [of "unat b" bs] by (simp add: be_value_def)

lemma be_value_less: "be_value bs < 256 ^ length bs"
proof (induction bs)
  case Nil
  then show ?case by simp
next
  case (Cons b bs)
  let ?m = "(256 :: nat) ^ length bs"
  have "Suc (unat b) \<le> 256" using unat_lt_length [of b] by simp
  then have "Suc (unat b) * ?m \<le> 256 * ?m" by (rule mult_le_mono1)
  moreover have "unat b * ?m + be_value bs < Suc (unat b) * ?m" using Cons.IH by simp
  ultimately show ?case
    by (simp only: be_value_Cons list.size power_Suc add_0_right add_Suc_right less_le_trans)
qed

lemma be_value_append: "be_value (bs @ cs) = be_value bs * 256 ^ length cs + be_value cs"
  using foldl_be_append [of "be_value bs" cs] by (simp add: be_value_def)

lemma to_be_Suc: "to_be (Suc n) w = word_of_nat (unat w div 256 ^ n) # to_be n w"
  by (simp add: to_be_def)

lemma to_be_zero: "to_be n 0 = replicate n 0"
  by (induction n) (simp_all add: to_be_Suc, simp add: to_be_def)

lemma unat_u8_of_nat: "unat (word_of_nat n :: u8) = n mod 256"
  by (simp add: unat_of_nat)

lemma mod_split_256: "(x div 256 ^ n) mod 256 * 256 ^ n + x mod 256 ^ n = x mod 256 ^ Suc (n :: nat)"
  for x :: nat
  by (metis mod_mult2_eq mult.commute power_Suc2)

lemma be_value_to_be: "be_value (to_be n w) = unat w mod 256 ^ n"
proof (induction n)
  case 0
  then show ?case by (simp add: to_be_def)
next
  case (Suc n)
  have "be_value (to_be (Suc n) w) = (unat w div 256 ^ n) mod 256 * 256 ^ n + unat w mod 256 ^ n"
    by (simp only: to_be_Suc be_value_Cons unat_u8_of_nat length_to_be Suc.IH)
  also have "\<dots> = unat w mod 256 ^ Suc n"
    by (rule mod_split_256)
  finally show ?case .
qed

lemma from_be_to_be:
  fixes w :: "'a::len word"
  assumes "LENGTH('a) \<le> 8 * n"
  shows "from_be (to_be n w) = w"
proof -
  have "unat w < 2 ^ LENGTH('a)" by (rule unat_lt_length)
  also have "(2 :: nat) ^ LENGTH('a) \<le> 2 ^ (8 * n)"
    using assms by (simp add: power_increasing)
  also have "(2 :: nat) ^ (8 * n) = 256 ^ n"
    by (simp add: power_mult)
  finally show ?thesis
    by (simp add: from_be_def be_value_to_be)
qed

lemma from_be_to_be_u64 [simp]: "from_be (to_be 8 w) = (w :: u64)"
  by (rule from_be_to_be) simp

lemma from_be_to_be_32 [simp]: "from_be (to_be 32 w) = (w :: bytes32)"
  by (rule from_be_to_be) simp

lemma from_be_to_be_33 [simp]: "from_be (to_be 33 w) = (w :: bytes33)"
  by (rule from_be_to_be) simp

lemma be_value_inj: "length bs = length cs \<Longrightarrow> be_value bs = be_value cs \<Longrightarrow> bs = cs"
proof (induction bs cs rule: list_induct2)
  case Nil
  then show ?case by simp
next
  case (Cons b bs c cs)
  let ?m = "(256 :: nat) ^ length bs"
  have eq: "unat b * ?m + be_value bs = unat c * ?m + be_value cs"
    using Cons.prems Cons.hyps by (simp add: be_value_Cons)
  have lt: "be_value bs < ?m" "be_value cs < ?m"
    using be_value_less [of bs] be_value_less [of cs] Cons.hyps by simp_all
  have "unat b = (unat b * ?m + be_value bs) div ?m" using lt by simp
  also have "\<dots> = (unat c * ?m + be_value cs) div ?m" by (simp only: eq)
  also have "\<dots> = unat c" using lt by simp
  finally have "b = c" by (rule unsigned_word_eqI)
  moreover from this eq have "be_value bs = be_value cs" by simp
  ultimately show ?case using Cons.IH by simp
qed

lemma to_be_from_be:
  assumes "length bs = n" and "8 * n = LENGTH('a::len)"
  shows "to_be n (from_be bs :: 'a word) = bs"
proof (rule be_value_inj)
  have "be_value bs < 2 ^ LENGTH('a)"
    using be_value_less [of bs] assms by (simp add: power_mult flip: assms(2))
  then have "unat (from_be bs :: 'a word) = be_value bs"
    by (simp add: from_be_def unat_of_nat)
  then show "be_value (to_be n (from_be bs :: 'a word)) = be_value bs"
    using be_value_less [of bs] assms(1) by (simp add: be_value_to_be)
  show "length (to_be n (from_be bs :: 'a word)) = length bs"
    using assms(1) by simp
qed

lemma to_be_inj: "LENGTH('a) \<le> 8 * n \<Longrightarrow> to_be n (v :: 'a::len word) = to_be n w \<longleftrightarrow> v = w"
  by (metis from_be_to_be)

lemma to_be_inj_u64 [simp]: "to_be 8 (v :: u64) = to_be 8 w \<longleftrightarrow> v = w"
  by (rule to_be_inj) simp

lemma to_be_inj_32 [simp]: "to_be 32 (v :: bytes32) = to_be 32 w \<longleftrightarrow> v = w"
  by (rule to_be_inj) simp

lemma to_be_inj_33 [simp]: "to_be 33 (v :: bytes33) = to_be 33 w \<longleftrightarrow> v = w"
  by (rule to_be_inj) simp

lemma be_value_lex_less:
  "length bs = length cs \<Longrightarrow> bs < cs \<longleftrightarrow> be_value bs < be_value cs"
proof (induction bs cs rule: list_induct2)
  case Nil
  then show ?case by simp
next
  case (Cons b bs c cs)
  let ?m = "(256 :: nat) ^ length bs"
  have lt: "be_value bs < ?m" "be_value cs < ?m"
    using be_value_less [of bs] be_value_less [of cs] Cons.hyps by simp_all
  have step: "x * ?m + be_value bs' < y * ?m + be_value cs'"
    if "x < y" "be_value bs' < ?m" for x y :: nat and bs' cs'
  proof -
    have "x * ?m + ?m \<le> y * ?m"
      using mult_le_mono1 [of "Suc x" y ?m] that by simp
    with that show ?thesis by simp
  qed
  consider "unat b < unat c" | "unat b = unat c" | "unat c < unat b" by linarith
  then show ?case
  proof cases
    case 1
    then show ?thesis
      using step [of "unat b" "unat c" bs cs] lt Cons.hyps
      by (simp add: be_value_Cons word_less_nat_alt)
  next
    case 2
    then have "b = c" by (rule unsigned_word_eqI)
    then show ?thesis using Cons by (simp add: be_value_Cons)
  next
    case 3
    then show ?thesis
      using step [of "unat c" "unat b" cs bs] lt Cons.hyps
      by (auto simp: be_value_Cons word_less_nat_alt)
  qed
qed

text \<open>The lexicographic order of arrays of bytes is the order of the words that stand for them.\<close>

lemma to_be_less_iff:
  assumes "LENGTH('a::len) \<le> 8 * n"
  shows "to_be n (v :: 'a word) < to_be n w \<longleftrightarrow> v < w"
proof -
  have "unat u < 256 ^ n" for u :: "'a word"
  proof -
    have "unat u < 2 ^ LENGTH('a)" by (rule unat_lt_length)
    also have "(2 :: nat) ^ LENGTH('a) \<le> 2 ^ (8 * n)"
      using assms by (simp add: power_increasing)
    finally show ?thesis by (simp add: power_mult)
  qed
  then show ?thesis
    by (simp add: be_value_lex_less be_value_to_be word_less_nat_alt)
qed

section \<open>Lists and computations\<close>

lemma append_eq_prefix_length:
  "length xs = length ys \<Longrightarrow> xs @ us = ys @ vs \<longleftrightarrow> xs = ys \<and> us = vs"
  by (rule append_eq_append_conv) (rule disjI1)

lemma to_be_append_inj:
  "to_be n v @ us = to_be n w @ vs \<longleftrightarrow> to_be n v = to_be n w \<and> us = vs"
  by (simp add: append_eq_prefix_length)

lemma bind_eq_SomeE:
  assumes "Option.bind m f = Some y"
  obtains x where "m = Some x" and "f x = Some y"
  using assms by (cases m) auto

lemma bind_Some_iff: "Option.bind m f = Some y \<longleftrightarrow> (\<exists>x. m = Some x \<and> f x = Some y)"
  by (cases m) auto

text \<open>Rotating the numbers below \<open>w\<close> keeps how many of them have a property.\<close>

lemma rotate_inj:
  fixes a w :: nat
  shows "inj_on (\<lambda>i. (a + i) mod w) {..<w}"
proof (rule linorder_inj_onI)
  fix i j assume "i < j" and "i \<in> {..<w}" and "j \<in> {..<w}"
  then have "\<not> w dvd (a + j) - (a + i)" by (auto dest: dvd_imp_le)
  then show "(a + i) mod w \<noteq> (a + j) mod w"
    using \<open>i < j\<close> mod_eq_dvd_iff_nat [of "a + i" "a + j" w] by auto
qed auto

lemma card_rotate:
  fixes a w :: nat
  assumes "0 < w"
  shows "card {i. i < w \<and> Q ((a + i) mod w)} = card {j. j < w \<and> Q j}"
proof -
  let ?f = "\<lambda>i. (a + i) mod w"
  have "?f ` {..<w} = {..<w}"
    using assms by (intro endo_inj_surj rotate_inj) auto
  then have "{j. j < w \<and> Q j} = {j \<in> ?f ` {..<w}. Q j}" by auto
  also have "\<dots> = ?f ` {i. i < w \<and> Q (?f i)}" by auto
  finally have "{j. j < w \<and> Q j} = ?f ` {i. i < w \<and> Q (?f i)}" .
  moreover have "inj_on ?f {i. i < w \<and> Q (?f i)}"
    by (rule inj_on_subset [OF rotate_inj]) auto
  ultimately show ?thesis by (simp add: card_image)
qed

lemma bind_returns: "m = Some x \<Longrightarrow> f x = r \<Longrightarrow> Option.bind m f = r"
  by simp

end
