(* ===== verification/Collections.thy ===== *)
theory Collections
  imports Prelude
begin

text \<open>
  The ordered collections of Rust's standard library that the program keeps its state in.

  \<^item> \<open>BTreeMap\<close> iterates in the order of its keys, so a map is modelled by its entries in that
    order: an association list with strictly increasing keys (\<open>bt_wf\<close>).
  \<^item> \<open>BTreeSet\<close> orders, finds and identifies its elements with \<open>Ord::cmp\<close> alone (never with
    \<open>Eq\<close>), so a set is the strictly increasing list of its elements under a comparison function.

  The locale \<open>ordered_map\<close> states what a client may rely on for a map, \<open>cmp_order\<close> what a
  comparison function has to satisfy for the set operations to behave as a set; both are interpreted
  on the definitions here (maps) and in the theory of transactions (comparison).
\<close>

section \<open>Ordered maps\<close>

type_synonym ('k, 'v) btree_map = "('k \<times> 'v) list"

abbreviation bt_get :: "('k, 'v) btree_map \<Rightarrow> 'k \<Rightarrow> 'v option" where
  "bt_get \<equiv> map_of"

fun bt_insert :: "'k::linorder \<Rightarrow> 'v \<Rightarrow> ('k, 'v) btree_map \<Rightarrow> ('k, 'v) btree_map" where
  "bt_insert k v [] = [(k, v)]"
| "bt_insert k v ((k', v') # m) =
     (if k < k' then (k, v) # (k', v') # m
      else if k = k' then (k, v) # m
      else (k', v') # bt_insert k v m)"

fun bt_remove :: "'k \<Rightarrow> ('k, 'v) btree_map \<Rightarrow> ('k, 'v) btree_map" where
  "bt_remove k [] = []"
| "bt_remove k ((k', v') # m) = (if k = k' then m else (k', v') # bt_remove k m)"

definition bt_contains_key :: "('k, 'v) btree_map \<Rightarrow> 'k \<Rightarrow> bool" where
  "bt_contains_key m k \<longleftrightarrow> bt_get m k \<noteq> None"

definition bt_wf :: "('k::linorder, 'v) btree_map \<Rightarrow> bool" where
  "bt_wf m \<longleftrightarrow> sorted_wrt (<) (map fst m)"

text \<open>\<open>map.get(k).unwrap_or(d)\<close>, and the value that \<open>map.entry(k).or_insert(d)\<close> yields.\<close>

definition bt_get_or :: "'v \<Rightarrow> ('k, 'v) btree_map \<Rightarrow> 'k \<Rightarrow> 'v" where
  "bt_get_or d m k = (case bt_get m k of Some v \<Rightarrow> v | None \<Rightarrow> d)"

lemma alist_from_keys:
  assumes "distinct (map fst xs)"
  shows "xs = map (\<lambda>k. (k, the (map_of xs k))) (map fst xs)"
proof (rule nth_equalityI)
  fix i
  assume i: "i < length xs"
  then have "map_of xs (fst (xs ! i)) = Some (snd (xs ! i))"
    using assms by simp
  with i show "xs ! i = map (\<lambda>k. (k, the (map_of xs k))) (map fst xs) ! i"
    by simp
qed simp

locale ordered_map =
  fixes empty :: "'m"
    and get :: "'m \<Rightarrow> 'k::linorder \<Rightarrow> 'v option"
    and insert_entry :: "'k \<Rightarrow> 'v \<Rightarrow> 'm \<Rightarrow> 'm"
    and remove_entry :: "'k \<Rightarrow> 'm \<Rightarrow> 'm"
    and entries :: "'m \<Rightarrow> ('k \<times> 'v) list"
    and invar :: "'m \<Rightarrow> bool"
  assumes get_empty: "get empty k = None"
    and get_insert: "invar m \<Longrightarrow> get (insert_entry k v m) k' = (if k' = k then Some v else get m k')"
    and get_remove: "invar m \<Longrightarrow> get (remove_entry k m) k' = (if k' = k then None else get m k')"
    and invar_empty: "invar empty"
    and invar_insert: "invar m \<Longrightarrow> invar (insert_entry k v m)"
    and invar_remove: "invar m \<Longrightarrow> invar (remove_entry k m)"
    and entries_increasing: "invar m \<Longrightarrow> sorted_wrt (<) (map fst (entries m))"
    and get_entries: "invar m \<Longrightarrow> get m k = map_of (entries m) k"
begin

lemma distinct_keys: "invar m \<Longrightarrow> distinct (map fst (entries m))"
  using entries_increasing strict_sorted_iff by blast

lemma entry_iff_get: "invar m \<Longrightarrow> (k, v) \<in> set (entries m) \<longleftrightarrow> get m k = Some v"
  by (simp add: get_entries distinct_keys)

text \<open>The entries are determined by what a lookup returns.\<close>

lemma entries_ext:
  assumes "invar m" and "invar n" and "\<And>k. get m k = get n k"
  shows "entries m = entries n"
proof -
  have eq: "map_of (entries m) = map_of (entries n)"
    using assms by (auto simp: get_entries [symmetric])
  have "set (map fst (entries m)) = set (map fst (entries n))"
    using eq by (metis dom_map_of_conv_image_fst set_map)
  then have keys: "map fst (entries m) = map fst (entries n)"
    using assms entries_increasing strict_sorted_equal by blast
  have "entries m = map (\<lambda>k. (k, the (map_of (entries m) k))) (map fst (entries m))"
    using assms distinct_keys alist_from_keys by blast
  also have "\<dots> = map (\<lambda>k. (k, the (map_of (entries n) k))) (map fst (entries n))"
    by (simp only: eq keys)
  also have "\<dots> = entries n"
    using assms distinct_keys alist_from_keys by metis
  finally show ?thesis .
qed

lemma insert_commute:
  "invar m \<Longrightarrow> k \<noteq> k' \<Longrightarrow>
   entries (insert_entry k v (insert_entry k' v' m)) = entries (insert_entry k' v' (insert_entry k v m))"
  by (rule entries_ext) (auto simp: get_insert invar_insert)

lemma dom_get:
  assumes "invar m"
  shows "dom (get m) = set (map fst (entries m))"
proof -
  have "get m = map_of (entries m)"
    using assms by (intro ext) (rule get_entries)
  then show ?thesis by (simp add: dom_map_of_conv_image_fst)
qed

lemma finite_keys: "invar m \<Longrightarrow> finite (dom (get m))"
  by (simp add: dom_get)

text \<open>A sum over the entries is a sum over the keys, so it changes by what one entry contributes.\<close>

lemma sum_entries:
  fixes f :: "'v \<Rightarrow> nat"
  assumes "invar m"
  shows "(\<Sum>e\<leftarrow>entries m. f (snd e)) = (\<Sum>k\<in>dom (get m). f (the (get m k)))"
proof -
  let ?g = "\<lambda>k. f (the (map_of (entries m) k))"
  have "(\<Sum>e\<leftarrow>entries m. f (snd e)) = (\<Sum>k\<leftarrow>map fst (entries m). ?g k)"
    by (subst (1) alist_from_keys [OF distinct_keys [OF assms]]) (simp add: comp_def)
  also have "\<dots> = (\<Sum>k\<in>set (map fst (entries m)). ?g k)"
    by (rule sum_list_distinct_conv_sum_set [OF distinct_keys [OF assms]])
  finally show ?thesis using assms by (simp only: dom_get get_entries)
qed

lemma sum_insert_entry:
  fixes f :: "'v \<Rightarrow> nat"
  assumes "invar m"
  shows "(\<Sum>e\<leftarrow>entries (insert_entry k v m). f (snd e)) + (case get m k of Some w \<Rightarrow> f w | None \<Rightarrow> 0)
       = (\<Sum>e\<leftarrow>entries m. f (snd e)) + f v"
proof -
  let ?n = "insert_entry k v m"
  have dom: "dom (get ?n) = insert k (dom (get m))"
    using assms by (auto simp: get_insert split: if_splits)
  have "(\<Sum>j\<in>dom (get ?n). f (the (get ?n j)))
      = f v + (\<Sum>j\<in>dom (get m) - {k}. f (the (get ?n j)))"
    using assms by (simp add: dom sum.insert_remove finite_keys get_insert)
  also have "(\<Sum>j\<in>dom (get m) - {k}. f (the (get ?n j))) = (\<Sum>j\<in>dom (get m) - {k}. f (the (get m j)))"
    using assms by (intro sum.cong) (auto simp: get_insert)
  finally have new: "(\<Sum>j\<in>dom (get ?n). f (the (get ?n j)))
      = f v + (\<Sum>j\<in>dom (get m) - {k}. f (the (get m j)))" .
  have old: "(\<Sum>j\<in>dom (get m) - {k}. f (the (get m j))) + (case get m k of Some w \<Rightarrow> f w | None \<Rightarrow> 0)
      = (\<Sum>j\<in>dom (get m). f (the (get m j)))"
  proof (cases "get m k")
    case None
    then have "dom (get m) - {k} = dom (get m)" by auto
    with None show ?thesis by simp
  next
    case (Some w)
    then have "k \<in> dom (get m)" by auto
    with Some show ?thesis
      using sum.remove [OF finite_keys [OF assms], of k "\<lambda>j. f (the (get m j))"] by simp
  qed
  show ?thesis
    using assms new old by (simp add: sum_entries invar_insert)
qed

lemma sum_remove_entry:
  fixes f :: "'v \<Rightarrow> nat"
  assumes "invar m"
  shows "(\<Sum>e\<leftarrow>entries (remove_entry k m). f (snd e)) + (case get m k of Some w \<Rightarrow> f w | None \<Rightarrow> 0)
       = (\<Sum>e\<leftarrow>entries m. f (snd e))"
proof -
  let ?n = "remove_entry k m"
  have dom: "dom (get ?n) = dom (get m) - {k}"
    using assms by (auto simp: get_remove split: if_splits)
  have eq: "(\<Sum>j\<in>dom (get ?n). f (the (get ?n j))) = (\<Sum>j\<in>dom (get m) - {k}. f (the (get m j)))"
    using assms by (intro sum.cong) (auto simp: dom get_remove)
  show ?thesis
  proof (cases "get m k")
    case None
    then have "dom (get m) - {k} = dom (get m)" by auto
    with None eq show ?thesis
      using assms by (simp add: sum_entries invar_remove)
  next
    case (Some w)
    then have "k \<in> dom (get m)" by auto
    with Some eq show ?thesis
      using assms sum.remove [OF finite_keys [OF assms], of k "\<lambda>j. f (the (get m j))"]
      by (simp add: sum_entries invar_remove)
  qed
qed

end

lemma bt_insert_keys: "set (map fst (bt_insert k v m)) = insert k (set (map fst m))"
  by (induction k v m rule: bt_insert.induct) auto

lemma bt_remove_set: "set (bt_remove k m) \<subseteq> set m"
  by (induction k m rule: bt_remove.induct) auto

lemma bt_wf_Cons: "bt_wf ((k, v) # m) \<longleftrightarrow> (\<forall>x\<in>set (map fst m). k < x) \<and> bt_wf m"
  by (simp add: bt_wf_def)

lemma bt_wf_insert: "bt_wf m \<Longrightarrow> bt_wf (bt_insert k v m)"
proof (induction k v m rule: bt_insert.induct)
  case (1 k v)
  then show ?case by (simp add: bt_wf_def)
next
  case (2 k v k' v' m)
  from 2(2) have tail: "\<forall>x\<in>set (map fst m). k' < x" and wf: "bt_wf m"
    by (auto simp only: bt_wf_Cons)
  consider "k < k'" | "k = k'" | "k' < k" by (rule linorder_cases)
  then show ?case
  proof cases
    case 1
    with tail wf show ?thesis by (auto simp: bt_wf_Cons simp del: set_map)
  next
    case 2
    with tail wf show ?thesis by (simp add: bt_wf_Cons del: set_map)
  next
    case 3
    with 2(1) wf have "bt_wf (bt_insert k v m)" by auto
    with 3 tail show ?thesis by (auto simp: bt_wf_Cons bt_insert_keys simp del: set_map)
  qed
qed

lemma bt_wf_remove: "bt_wf m \<Longrightarrow> bt_wf (bt_remove k m)"
proof (induction k m rule: bt_remove.induct)
  case (2 k k' v' m)
  have "set (map fst (bt_remove k m)) \<subseteq> set (map fst m)"
    using bt_remove_set by fastforce
  with 2 show ?case by (auto simp: bt_wf_Cons simp del: set_map)
qed (simp add: bt_wf_def)

lemma bt_get_insert: "bt_get (bt_insert k v m) k' = (if k' = k then Some v else bt_get m k')"
  by (induction k v m rule: bt_insert.induct) auto

lemma bt_get_remove: "bt_wf m \<Longrightarrow> bt_get (bt_remove k m) k' = (if k' = k then None else bt_get m k')"
proof (induction k m rule: bt_remove.induct)
  case (2 k k0 v0 m)
  have "bt_get m k0 = None"
    using 2(2) by (fastforce simp: bt_wf_def map_of_eq_None_iff)
  with 2 show ?case by (auto simp: bt_wf_def)
qed simp

interpretation btm: ordered_map "[]" bt_get bt_insert bt_remove "\<lambda>m. m" bt_wf
proof unfold_locales
  show "bt_wf m \<Longrightarrow> sorted_wrt (<) (map fst m)" for m :: "('a, 'b) btree_map"
    by (simp add: bt_wf_def)
qed (simp_all add: bt_get_insert bt_get_remove bt_wf_insert bt_wf_remove, simp add: bt_wf_def)

lemma bt_wf_Nil [simp]: "bt_wf []"
  by (simp add: bt_wf_def)

lemma bt_get_or_insert: "bt_get_or d (bt_insert k v m) k' = (if k' = k then v else bt_get_or d m k')"
  by (simp add: bt_get_or_def bt_get_insert)

lemmas bt_simps = bt_get_insert bt_get_remove bt_wf_insert bt_wf_remove bt_get_or_def
  bt_contains_key_def

section \<open>Ordered sets under a comparison function\<close>

datatype ordering = Less | Equal | Greater

fun reverse_ordering :: "ordering \<Rightarrow> ordering" where
  "reverse_ordering Less = Greater"
| "reverse_ordering Equal = Equal"
| "reverse_ordering Greater = Less"

definition cmp_of :: "'a::linorder \<Rightarrow> 'a \<Rightarrow> ordering" where
  "cmp_of a b = (if a < b then Less else if a = b then Equal else Greater)"

fun bset_contains :: "('a \<Rightarrow> 'a \<Rightarrow> ordering) \<Rightarrow> 'a \<Rightarrow> 'a list \<Rightarrow> bool" where
  "bset_contains cmp x [] = False"
| "bset_contains cmp x (y # ys) =
     (case cmp x y of Less \<Rightarrow> False | Equal \<Rightarrow> True | Greater \<Rightarrow> bset_contains cmp x ys)"

fun bset_insert :: "('a \<Rightarrow> 'a \<Rightarrow> ordering) \<Rightarrow> 'a \<Rightarrow> 'a list \<Rightarrow> 'a list" where
  "bset_insert cmp x [] = [x]"
| "bset_insert cmp x (y # ys) =
     (case cmp x y of Less \<Rightarrow> x # y # ys | Equal \<Rightarrow> y # ys | Greater \<Rightarrow> y # bset_insert cmp x ys)"

fun bset_remove :: "('a \<Rightarrow> 'a \<Rightarrow> ordering) \<Rightarrow> 'a \<Rightarrow> 'a list \<Rightarrow> 'a list" where
  "bset_remove cmp x [] = []"
| "bset_remove cmp x (y # ys) =
     (case cmp x y of Less \<Rightarrow> y # ys | Equal \<Rightarrow> ys | Greater \<Rightarrow> y # bset_remove cmp x ys)"

definition bset_wf :: "('a \<Rightarrow> 'a \<Rightarrow> ordering) \<Rightarrow> 'a list \<Rightarrow> bool" where
  "bset_wf cmp xs \<longleftrightarrow> sorted_wrt (\<lambda>x y. cmp x y = Less) xs"

locale cmp_order =
  fixes cmp :: "'a \<Rightarrow> 'a \<Rightarrow> ordering"
  assumes cmp_refl: "cmp x x = Equal"
    and cmp_reverse: "cmp y x = reverse_ordering (cmp x y)"
    and cmp_trans: "cmp x y = Less \<Longrightarrow> cmp y z = Less \<Longrightarrow> cmp x z = Less"
    and cmp_equal: "cmp x y = Equal \<Longrightarrow> cmp x z = cmp y z"
begin

lemma greater_iff: "cmp x y = Greater \<longleftrightarrow> cmp y x = Less"
  using cmp_reverse [of x y] by (cases "cmp x y"; cases "cmp y x") auto

lemma less_not_equal: "cmp x y = Less \<Longrightarrow> cmp z y = Equal \<Longrightarrow> cmp x z = Less"
  using cmp_equal [of z y x] greater_iff [of y x] greater_iff [of z x] by simp

lemma wf_Cons: "bset_wf cmp (x # xs) \<longleftrightarrow> (\<forall>y\<in>set xs. cmp x y = Less) \<and> bset_wf cmp xs"
  by (simp add: bset_wf_def)

lemma contains_iff: "bset_wf cmp xs \<Longrightarrow> bset_contains cmp x xs \<longleftrightarrow> (\<exists>y\<in>set xs. cmp x y = Equal)"
proof (induction xs)
  case (Cons y ys)
  then show ?case
    by (cases "cmp x y") (force simp: wf_Cons dest: cmp_trans)+
qed simp

lemma insert_present: "bset_wf cmp xs \<Longrightarrow> bset_contains cmp x xs \<Longrightarrow> bset_insert cmp x xs = xs"
  by (induction xs) (auto simp: wf_Cons split: ordering.splits)

lemma set_insert_absent:
  "\<not> bset_contains cmp x xs \<Longrightarrow> set (bset_insert cmp x xs) = insert x (set xs)"
  by (induction xs) (auto split: ordering.splits)

lemma length_insert_absent:
  "\<not> bset_contains cmp x xs \<Longrightarrow> length (bset_insert cmp x xs) = Suc (length xs)"
  by (induction xs) (auto split: ordering.splits)

lemma wf_insert: "bset_wf cmp xs \<Longrightarrow> bset_wf cmp (bset_insert cmp x xs)"
proof (induction xs)
  case (Cons y ys)
  have sub: "set (bset_insert cmp x zs) \<subseteq> insert x (set zs)" for zs
    by (induction zs) (auto split: ordering.splits)
  show ?case
  proof (cases "cmp x y")
    case Less
    with Cons.prems show ?thesis by (auto simp: wf_Cons dest: cmp_trans)
  next
    case Greater
    then have "cmp y x = Less" by (simp add: greater_iff)
    with Cons sub [of ys] Greater show ?thesis by (auto simp: wf_Cons)
  qed (use Cons in simp)
qed (simp add: bset_wf_def)

lemma remove_eq_filter: "bset_wf cmp xs \<Longrightarrow> bset_remove cmp x xs = filter (\<lambda>y. cmp x y \<noteq> Equal) xs"
proof (induction xs)
  case (Cons y ys)
  have "filter (\<lambda>z. cmp x z \<noteq> Equal) ys = ys" if "cmp x y = Less \<or> cmp x y = Equal"
  proof (rule filter_True, rule ballI)
    fix z
    assume "z \<in> set ys"
    with Cons.prems have "cmp y z = Less" by (simp add: wf_Cons)
    with that have "cmp x z = Less" using cmp_trans cmp_equal by metis
    then show "cmp x z \<noteq> Equal" by simp
  qed
  with Cons show ?case by (cases "cmp x y") (simp_all add: wf_Cons)
qed simp

lemma wf_filter: "bset_wf cmp xs \<Longrightarrow> bset_wf cmp (filter P xs)"
  by (simp add: bset_wf_def sorted_wrt_filter)

lemma wf_remove: "bset_wf cmp xs \<Longrightarrow> bset_wf cmp (bset_remove cmp x xs)"
  by (simp add: remove_eq_filter wf_filter)

lemma wf_unique: "bset_wf cmp xs \<Longrightarrow> x \<in> set xs \<Longrightarrow> y \<in> set xs \<Longrightarrow> cmp x y = Equal \<Longrightarrow> x = y"
  by (induction xs) (auto simp: wf_Cons greater_iff [symmetric] cmp_reverse [of x])

lemma wf_distinct: "bset_wf cmp xs \<Longrightarrow> distinct xs"
  by (induction xs) (auto simp: wf_Cons cmp_refl)

lemma remove_member: "bset_wf cmp xs \<Longrightarrow> x \<in> set xs \<Longrightarrow> set (bset_remove cmp x xs) = set xs - {x}"
  using wf_unique by (auto simp: remove_eq_filter cmp_refl)

lemma length_remove_member:
  assumes "bset_wf cmp xs" and "x \<in> set xs"
  shows "length (bset_remove cmp x xs) = length xs - 1"
proof -
  have "length (bset_remove cmp x xs) = card (set xs - {x})"
    using assms by (metis remove_member wf_remove wf_distinct distinct_card)
  then show ?thesis
    using assms wf_distinct by (simp add: distinct_card)
qed

text \<open>The last element is the greatest one.\<close>

lemma last_greatest: "bset_wf cmp xs \<Longrightarrow> x \<in> set xs \<Longrightarrow> x \<noteq> last xs \<Longrightarrow> cmp x (last xs) = Less"
  by (induction xs) (auto simp: wf_Cons split: if_splits)

end

end
