(* ===== verification/Models.thy ===== *)
theory Models
  imports Collections
begin

text \<open>
  The data model of \<open>rp-core\<close>: keys, transactions, blocks and slash proofs, their canonical byte
  encodings, hashes and signature checks (\<open>rp-core/src/crypto.rs\<close>, \<open>traits.rs\<close>,
  \<open>errors.rs\<close> and \<open>models/\<close>).

  The cryptographic crates (\<open>sha2\<close>, \<open>p256\<close>) are not part of the repository. What the code
  calls of them is the record \<open>crypto\<close>, an argument \<open>E\<close> of every definition that uses them, with
  the types of keys \<open>'vk\<close> and signatures \<open>'sig\<close> left open. The same record carries the build
  profile: whether integer overflow is checked. The law of \<open>p256\<close> that theorems assume is
  \<open>sec1_ok\<close>: reading back the compressed encoding of a key gives the key. The converse is not assumed:
  \<open>from_sec1_bytes\<close> may read a key from other 33-byte strings too (the compact form, tag \<open>0x05\<close>).
\<close>

section \<open>Cryptography and keys\<close>

record ('vk, 'sig) crypto =
  overflow_checks :: bool
  sha256 :: "byte_vec \<Rightarrow> bytes32"
  sec1_compressed :: "'vk \<Rightarrow> bytes33"
  from_sec1_bytes :: "bytes33 \<Rightarrow> 'vk option"
  ecdsa_verify :: "'vk \<Rightarrow> byte_vec \<Rightarrow> 'sig \<Rightarrow> bool"
  secret_verifying_key :: "byte_vec \<Rightarrow> 'vk option"

definition sec1_ok :: "('vk, 'sig, 'z) crypto_scheme \<Rightarrow> bool" where
  "sec1_ok E \<longleftrightarrow> (\<forall>k. from_sec1_bytes E (sec1_compressed E k) = Some k)"

definition PUBLIC_KEY_SIZE :: nat where
  "PUBLIC_KEY_SIZE = 33"

type_synonym PublicKeyBytes = bytes33

definition verifying_key_to_bytes :: "('vk, 'sig, 'z) crypto_scheme \<Rightarrow> 'vk \<Rightarrow> PublicKeyBytes" where
  "verifying_key_to_bytes E key = sec1_compressed E key"

definition verifying_key_bytes :: "('vk, 'sig, 'z) crypto_scheme \<Rightarrow> 'vk \<Rightarrow> byte_vec" where
  "verifying_key_bytes E key = to_be PUBLIC_KEY_SIZE (verifying_key_to_bytes E key)"

definition verifying_key_from_bytes ::
  "('vk, 'sig, 'z) crypto_scheme \<Rightarrow> PublicKeyBytes \<Rightarrow> (string, 'vk) result" where
  "verifying_key_from_bytes E bytes =
     (case from_sec1_bytes E bytes of
        Some key \<Rightarrow> Inr key
      | None \<Rightarrow> Inl ''invalid verifying key'')"

definition genesis_verifying_key :: "('vk, 'sig, 'z) crypto_scheme \<Rightarrow> 'vk exec" where
  "genesis_verifying_key E = secret_verifying_key E (replicate 32 1)"

text \<open>The \<open>serde\<close> adapter of keys, on the bytes that the format carries.\<close>

datatype key_error = InvalidLength nat | InvalidKey string

definition serialize_verifying_key :: "('vk, 'sig, 'z) crypto_scheme \<Rightarrow> 'vk \<Rightarrow> byte_vec" where
  "serialize_verifying_key E key = to_be PUBLIC_KEY_SIZE (verifying_key_to_bytes E key)"

definition deserialize_verifying_key ::
  "('vk, 'sig, 'z) crypto_scheme \<Rightarrow> byte_vec \<Rightarrow> (key_error, 'vk) result" where
  "deserialize_verifying_key E bytes =
     (if length bytes \<noteq> PUBLIC_KEY_SIZE then Inl (InvalidLength (length bytes))
      else case verifying_key_from_bytes E (from_be bytes) of
             Inl e \<Rightarrow> Inl (InvalidKey e)
           | Inr key \<Rightarrow> Inr key)"

section \<open>Errors\<close>

datatype SlashError =
    DifferentSlots | IdenticalBlocks | ValidatorMismatchA | ValidatorMismatchB
  | InvalidBlockA | InvalidBlockB

datatype BlockError =
    InvalidSignature | InvalidHeight | InvalidSlot | InvalidValidator | InvalidTransaction
  | InvalidSlashProof SlashError | InvalidStateRoot

section \<open>Transactions, slash proofs and blocks\<close>

datatype ('vk, 'sig) TransactionData =
    Transfer 'vk u64
  | Stake u64
  | Unstake u64
  | Slash "('vk, 'sig) SlashProof"
and ('vk, 'sig) Transaction =
    Transaction (sender: 'vk) (data: "('vk, 'sig) TransactionData") (sequence: u64) (fee: u64)
      (tx_signature: "'sig option")
and ('vk, 'sig) SlashProof =
    SlashProof (proof_validator: 'vk) (block_a: "('vk, 'sig) Block") (block_b: "('vk, 'sig) Block")
and ('vk, 'sig) Block =
    Block (height: u64) (slot: u64) (previous_hash: bytes32) (validator: 'vk)
      (transactions: "('vk, 'sig) Transaction list") (signature: "'sig option")
      (slash_proofs: "('vk, 'sig) SlashProof list") (state_root: bytes32)

record UnstakeRequest =
  amount :: u64
  unlock_slot :: u64

section \<open>Canonical bytes\<close>

definition u64_to_bytes :: "u64 \<Rightarrow> byte_vec" where
  "u64_to_bytes n = to_be 8 n"

definition str_to_bytes :: "byte_vec \<Rightarrow> byte_vec" where
  "str_to_bytes s = u64_to_bytes (word_of_nat (length s)) @ s"

definition vec_to_bytes :: "('a \<Rightarrow> byte_vec) \<Rightarrow> 'a list \<Rightarrow> byte_vec" where
  "vec_to_bytes f xs = u64_to_bytes (word_of_nat (length xs)) @ concat (map f xs)"

lemma vec_to_bytes_cong [fundef_cong]:
  "xs = ys \<Longrightarrow> (\<And>x. x \<in> set ys \<Longrightarrow> f x = g x) \<Longrightarrow> vec_to_bytes f xs = vec_to_bytes g ys"
  by (simp add: vec_to_bytes_def cong: map_cong)

fun tx_to_bytes :: "('vk, 'sig, 'z) crypto_scheme \<Rightarrow> ('vk, 'sig) Transaction \<Rightarrow> byte_vec"
and data_to_bytes :: "('vk, 'sig, 'z) crypto_scheme \<Rightarrow> ('vk, 'sig) TransactionData \<Rightarrow> byte_vec"
and proof_to_bytes :: "('vk, 'sig, 'z) crypto_scheme \<Rightarrow> ('vk, 'sig) SlashProof \<Rightarrow> byte_vec"
and block_to_bytes :: "('vk, 'sig, 'z) crypto_scheme \<Rightarrow> ('vk, 'sig) Block \<Rightarrow> byte_vec"
where
  "tx_to_bytes E (Transaction sndr dat sqn fe sg) =
     verifying_key_bytes E sndr @ data_to_bytes E dat @ u64_to_bytes sqn @ u64_to_bytes fe"
| "data_to_bytes E (Transfer receiver amt) =
     [0] @ verifying_key_bytes E receiver @ u64_to_bytes amt"
| "data_to_bytes E (Stake amt) = [1] @ u64_to_bytes amt"
| "data_to_bytes E (Unstake amt) = [2] @ u64_to_bytes amt"
| "data_to_bytes E (Slash proof) = [3] @ proof_to_bytes E proof"
| "proof_to_bytes E (SlashProof v a b) =
     verifying_key_bytes E v @ block_to_bytes E a @ block_to_bytes E b"
| "block_to_bytes E (Block h sl prev v txs sg proofs root) =
     u64_to_bytes h @ u64_to_bytes sl @ to_be 32 prev @ verifying_key_bytes E v
     @ vec_to_bytes (tx_to_bytes E) txs @ vec_to_bytes (proof_to_bytes E) proofs @ to_be 32 root"

record ('vk, 'sig) BlockNode =
  block :: "('vk, 'sig) Block"
  children :: "bytes32 list"

definition block_node_to_bytes ::
  "('vk, 'sig, 'z) crypto_scheme \<Rightarrow> ('vk, 'sig) BlockNode \<Rightarrow> byte_vec" where
  "block_node_to_bytes E node =
     block_to_bytes E (block node) @ concat (map (to_be 32) (children node))"

section \<open>Hashes and signatures\<close>

definition hash :: "('vk, 'sig, 'z) crypto_scheme \<Rightarrow> byte_vec \<Rightarrow> bytes32" where
  "hash E bytes = sha256 E bytes"

definition tx_hash :: "('vk, 'sig, 'z) crypto_scheme \<Rightarrow> ('vk, 'sig) Transaction \<Rightarrow> bytes32" where
  "tx_hash E tx = hash E (tx_to_bytes E tx)"

definition block_hash :: "('vk, 'sig, 'z) crypto_scheme \<Rightarrow> ('vk, 'sig) Block \<Rightarrow> bytes32" where
  "block_hash E b = hash E (block_to_bytes E b)"

definition tx_is_valid :: "('vk, 'sig, 'z) crypto_scheme \<Rightarrow> ('vk, 'sig) Transaction \<Rightarrow> bool" where
  "tx_is_valid E tx =
     (case tx_signature tx of
        Some sg \<Rightarrow> ecdsa_verify E (sender tx) (to_be 32 (tx_hash E tx)) sg
      | None \<Rightarrow> False)"

definition block_is_valid :: "('vk, 'sig, 'z) crypto_scheme \<Rightarrow> ('vk, 'sig) Block \<Rightarrow> bool" where
  "block_is_valid E b =
     (case signature b of
        Some sg \<Rightarrow> ecdsa_verify E (validator b) (to_be 32 (block_hash E b)) sg
      | None \<Rightarrow> False)"

definition validate ::
  "('vk, 'sig, 'z) crypto_scheme \<Rightarrow> ('vk, 'sig) SlashProof \<Rightarrow> (SlashError, unit) result" where
  "validate E p =
     (if slot (block_a p) \<noteq> slot (block_b p) then Inl DifferentSlots
      else if block_hash E (block_a p) = block_hash E (block_b p) then Inl IdenticalBlocks
      else if validator (block_a p) \<noteq> proof_validator p then Inl ValidatorMismatchA
      else if validator (block_b p) \<noteq> proof_validator p then Inl ValidatorMismatchB
      else if \<not> block_is_valid E (block_a p) then Inl InvalidBlockA
      else if \<not> block_is_valid E (block_b p) then Inl InvalidBlockB
      else Inr ())"

section \<open>The order of transactions\<close>

definition transaction_eq ::
  "('vk, 'sig, 'z) crypto_scheme \<Rightarrow> ('vk, 'sig) Transaction \<Rightarrow> ('vk, 'sig) Transaction \<Rightarrow> bool" where
  "transaction_eq E a b \<longleftrightarrow> tx_hash E a = tx_hash E b"

definition transaction_cmp ::
  "('vk, 'sig, 'z) crypto_scheme \<Rightarrow> ('vk, 'sig) Transaction \<Rightarrow> ('vk, 'sig) Transaction \<Rightarrow> ordering" where
  "transaction_cmp E a b =
     (case reverse_ordering (cmp_of (fee a) (fee b)) of
        Equal \<Rightarrow> cmp_of (tx_hash E a) (tx_hash E b)
      | other \<Rightarrow> other)"

lemma transaction_cmp_Less:
  "transaction_cmp E a b = Less \<longleftrightarrow>
     fee b < fee a \<or> fee a = fee b \<and> tx_hash E a < tx_hash E b"
  by (auto simp: transaction_cmp_def cmp_of_def)

lemma transaction_cmp_Equal:
  "transaction_cmp E a b = Equal \<longleftrightarrow> fee a = fee b \<and> tx_hash E a = tx_hash E b"
  by (auto simp: transaction_cmp_def cmp_of_def)

interpretation txo: cmp_order "transaction_cmp E" for E
proof unfold_locales
  show "transaction_cmp E y x = reverse_ordering (transaction_cmp E x y)" for x y
    by (auto simp: transaction_cmp_def cmp_of_def)
  show "transaction_cmp E x y = Less \<Longrightarrow> transaction_cmp E y z = Less \<Longrightarrow>
    transaction_cmp E x z = Less" for x y z
    by (auto simp: transaction_cmp_Less)
  show "transaction_cmp E x y = Equal \<Longrightarrow> transaction_cmp E x z = transaction_cmp E y z" for x y z
    by (drule iffD1 [OF transaction_cmp_Equal]) (simp add: transaction_cmp_def split: ordering.split)
qed (simp add: transaction_cmp_Equal)

section \<open>What a hash commits to\<close>

text \<open>
  The encodings leave the signatures out. \<open>unsigned_tx\<close> and its companions erase every signature of a
  value, inner ones included; \<open>tx_sized\<close> says that every vector is shorter than \<open>2 ^ 64\<close>, which
  Rust guarantees (a vector holds at most \<open>isize::MAX\<close> bytes).
\<close>

fun unsigned_tx :: "('vk, 'sig) Transaction \<Rightarrow> ('vk, 'sig) Transaction"
and unsigned_data :: "('vk, 'sig) TransactionData \<Rightarrow> ('vk, 'sig) TransactionData"
and unsigned_proof :: "('vk, 'sig) SlashProof \<Rightarrow> ('vk, 'sig) SlashProof"
and unsigned_block :: "('vk, 'sig) Block \<Rightarrow> ('vk, 'sig) Block"
where
  "unsigned_tx (Transaction sndr dat sqn fe sg) = Transaction sndr (unsigned_data dat) sqn fe None"
| "unsigned_data (Transfer r amt) = Transfer r amt"
| "unsigned_data (Stake amt) = Stake amt"
| "unsigned_data (Unstake amt) = Unstake amt"
| "unsigned_data (Slash proof) = Slash (unsigned_proof proof)"
| "unsigned_proof (SlashProof v a b) = SlashProof v (unsigned_block a) (unsigned_block b)"
| "unsigned_block (Block h sl prev v txs sg proofs root) =
     Block h sl prev v (map unsigned_tx txs) None (map unsigned_proof proofs) root"

fun tx_sized :: "('vk, 'sig) Transaction \<Rightarrow> bool"
and data_sized :: "('vk, 'sig) TransactionData \<Rightarrow> bool"
and proof_sized :: "('vk, 'sig) SlashProof \<Rightarrow> bool"
and block_sized :: "('vk, 'sig) Block \<Rightarrow> bool"
where
  "tx_sized (Transaction sndr dat sqn fe sg) = data_sized dat"
| "data_sized (Transfer r amt) = True"
| "data_sized (Stake amt) = True"
| "data_sized (Unstake amt) = True"
| "data_sized (Slash proof) = proof_sized proof"
| "proof_sized (SlashProof v a b) = (block_sized a \<and> block_sized b)"
| "block_sized (Block h sl prev v txs sg proofs root) =
     (length txs < 2 ^ 64 \<and> length proofs < 2 ^ 64 \<and> list_all tx_sized txs \<and> list_all proof_sized proofs)"

lemma u64_of_nat_inj: "m < 2 ^ 64 \<Longrightarrow> n < 2 ^ 64 \<Longrightarrow> (word_of_nat m :: u64) = word_of_nat n \<Longrightarrow> m = n"
  by (drule arg_cong [where f = unat]) (simp add: unat_of_nat)

lemma key_bytes_inj: "sec1_ok E \<Longrightarrow>
  verifying_key_bytes E k @ us = verifying_key_bytes E l @ vs \<longleftrightarrow> k = l \<and> us = vs"
  by (auto simp: verifying_key_bytes_def PUBLIC_KEY_SIZE_def to_be_append_inj verifying_key_to_bytes_def
      sec1_ok_def dest: arg_cong [where f = "from_sec1_bytes E"])

lemma u64_bytes_inj: "u64_to_bytes m @ us = u64_to_bytes n @ vs \<longleftrightarrow> m = n \<and> us = vs"
  by (simp add: u64_to_bytes_def to_be_append_inj)

text \<open>A vector of prefix-free encodings is prefix-free: the length says how many elements follow.\<close>

lemma concat_bytes_inj:
  assumes "\<And>x y us vs. x \<in> set xs \<Longrightarrow> y \<in> set ys \<Longrightarrow> f x @ us = f y @ vs \<Longrightarrow> e x = e y \<and> us = vs"
    and "length xs = length ys" and "concat (map f xs) @ us = concat (map f ys) @ vs"
  shows "map e xs = map e ys \<and> us = vs"
  using assms(2,1,3)
proof (induction xs ys arbitrary: us vs rule: list_induct2)
  case (Cons x xs y ys)
  from Cons.prems(2) have "f x @ concat (map f xs) @ us = f y @ concat (map f ys) @ vs" by simp
  then have "e x = e y" and "concat (map f xs) @ us = concat (map f ys) @ vs"
    using Cons.prems(1) [of x y] by auto
  moreover from this(2) have "map e xs = map e ys \<and> us = vs"
    by (intro Cons.IH) (use Cons.prems(1) in \<open>auto\<close>)
  ultimately show ?case by simp
qed simp

lemma vec_bytes_inj:
  assumes "\<And>x y us vs. x \<in> set xs \<Longrightarrow> y \<in> set ys \<Longrightarrow> f x @ us = f y @ vs \<Longrightarrow> e x = e y \<and> us = vs"
    and "length xs < 2 ^ 64" and "length ys < 2 ^ 64"
    and "vec_to_bytes f xs @ us = vec_to_bytes f ys @ vs"
  shows "map e xs = map e ys \<and> us = vs"
proof -
  from assms(4) have "(word_of_nat (length xs) :: u64) = word_of_nat (length ys)"
    and body: "concat (map f xs) @ us = concat (map f ys) @ vs"
    by (simp_all add: vec_to_bytes_def u64_bytes_inj)
  then have "length xs = length ys"
    using assms(2,3) u64_of_nat_inj by blast
  with assms(1) body show ?thesis using concat_bytes_inj by blast
qed

lemma to_bytes_prefix_free:
  assumes "sec1_ok E"
  shows data_bytes_inj: "data_sized d \<Longrightarrow> data_sized d' \<Longrightarrow> data_to_bytes E d @ us = data_to_bytes E d' @ vs \<Longrightarrow>
      unsigned_data d = unsigned_data d' \<and> us = vs"
    and tx_bytes_inj: "tx_sized tx \<Longrightarrow> tx_sized tx' \<Longrightarrow> tx_to_bytes E tx @ us = tx_to_bytes E tx' @ vs \<Longrightarrow>
      unsigned_tx tx = unsigned_tx tx' \<and> us = vs"
    and proof_bytes_inj: "proof_sized p \<Longrightarrow> proof_sized p' \<Longrightarrow> proof_to_bytes E p @ us = proof_to_bytes E p' @ vs \<Longrightarrow>
      unsigned_proof p = unsigned_proof p' \<and> us = vs"
    and block_bytes_inj: "block_sized b \<Longrightarrow> block_sized b' \<Longrightarrow> block_to_bytes E b @ us = block_to_bytes E b' @ vs \<Longrightarrow>
      unsigned_block b = unsigned_block b' \<and> us = vs"
proof (induction d and tx and p and b arbitrary: d' us vs and tx' us vs and p' us vs and b' us vs)
  case (Transaction sndr dat sqn fe sg)
  obtain sndr' dat' sqn' fe' sg' where tx': "tx' = Transaction sndr' dat' sqn' fe' sg'"
    by (cases tx')
  with Transaction.prems have keys: "sndr = sndr'"
    and body: "data_to_bytes E dat @ u64_to_bytes sqn @ u64_to_bytes fe @ us
      = data_to_bytes E dat' @ u64_to_bytes sqn' @ u64_to_bytes fe' @ vs"
    by (simp_all add: key_bytes_inj [OF assms])
  have "unsigned_data dat = unsigned_data dat'
      \<and> u64_to_bytes sqn @ u64_to_bytes fe @ us = u64_to_bytes sqn' @ u64_to_bytes fe' @ vs"
    by (rule Transaction.IH) (use Transaction.prems body tx' in simp_all)
  with keys tx' show ?case by (simp add: u64_bytes_inj)
next
  case (Transfer r amt)
  then show ?case by (cases d') (auto simp: key_bytes_inj [OF assms] u64_bytes_inj)
next
  case (Stake amt)
  then show ?case by (cases d') (auto simp: u64_bytes_inj)
next
  case (Unstake amt)
  then show ?case by (cases d') (auto simp: u64_bytes_inj)
next
  case (Slash pf)
  from Slash.prems obtain pf' where d': "d' = Slash pf'"
    by (cases d') auto
  have "unsigned_proof pf = unsigned_proof pf' \<and> us = vs"
    by (rule Slash.IH) (use Slash.prems d' in simp_all)
  with d' show ?case by simp
next
  case (SlashProof v a b)
  obtain v' a' b' where p': "p' = SlashProof v' a' b'" by (cases p')
  with SlashProof.prems have keys: "v = v'"
    and body: "block_to_bytes E a @ block_to_bytes E b @ us = block_to_bytes E a' @ block_to_bytes E b' @ vs"
    by (simp_all add: key_bytes_inj [OF assms])
  have a: "unsigned_block a = unsigned_block a' \<and> block_to_bytes E b @ us = block_to_bytes E b' @ vs"
    by (rule SlashProof.IH(1)) (use SlashProof.prems body p' in simp_all)
  have "unsigned_block b = unsigned_block b' \<and> us = vs"
    by (rule SlashProof.IH(2)) (use SlashProof.prems a p' in simp_all)
  with keys a p' show ?case by simp
next
  case (Block h sl prev v txs sg proofs root)
  obtain h' sl' prev' v' txs' sg' proofs' root'
    where b': "b' = Block h' sl' prev' v' txs' sg' proofs' root'" by (cases b')
  let ?rest = "vec_to_bytes (proof_to_bytes E) proofs @ to_be 32 root @ us"
  let ?rest' = "vec_to_bytes (proof_to_bytes E) proofs' @ to_be 32 root' @ vs"
  from Block.prems(3) b' have fixed: "h = h'" "sl = sl'" "prev = prev'" "v = v'"
    and body: "vec_to_bytes (tx_to_bytes E) txs @ ?rest = vec_to_bytes (tx_to_bytes E) txs' @ ?rest'"
    by (simp_all add: key_bytes_inj [OF assms] u64_bytes_inj to_be_append_inj)
  have len: "length txs < 2 ^ 64" "length proofs < 2 ^ 64" "length txs' < 2 ^ 64" "length proofs' < 2 ^ 64"
    using Block.prems b' by simp_all
  have txs: "map unsigned_tx txs = map unsigned_tx txs' \<and> ?rest = ?rest'"
    by (rule vec_bytes_inj [OF _ len(1,3) body], rule Block.IH(1))
       (use Block.prems b' in \<open>auto simp: list_all_iff\<close>)
  have "map unsigned_proof proofs = map unsigned_proof proofs' \<and> to_be 32 root @ us = to_be 32 root' @ vs"
    by (rule vec_bytes_inj [OF _ len(2,4) conjunct2 [OF txs]], rule Block.IH(2))
       (use Block.prems b' in \<open>auto simp: list_all_iff\<close>)
  with fixed txs b' show ?case by (simp add: to_be_append_inj)
qed

lemma unsigned_to_bytes:
  shows "data_to_bytes E (unsigned_data d) = data_to_bytes E d"
    and "tx_to_bytes E (unsigned_tx tx) = tx_to_bytes E tx"
    and "proof_to_bytes E (unsigned_proof p) = proof_to_bytes E p"
    and "block_to_bytes E (unsigned_block b) = block_to_bytes E b"
proof (induction d and tx and p and b)
  case (Block h sl prev v txs sg proofs root)
  then have "map (tx_to_bytes E \<circ> unsigned_tx) txs = map (tx_to_bytes E) txs"
    and "map (proof_to_bytes E \<circ> unsigned_proof) proofs = map (proof_to_bytes E) proofs"
    by simp_all
  then show ?case by (simp only: unsigned_block.simps block_to_bytes.simps vec_to_bytes_def length_map map_map)
qed simp_all

text \<open>The header fields of blocks with equal encodings agree, whatever the keys are.\<close>

lemma block_bytes_header:
  "block_to_bytes E b = block_to_bytes E b' \<Longrightarrow>
     height b = height b' \<and> slot b = slot b' \<and> previous_hash b = previous_hash b'"
  by (cases b; cases b') (simp add: u64_bytes_inj to_be_append_inj)

lemma validate_Inr_iff:
  "validate E p = Inr u \<longleftrightarrow>
     slot (block_a p) = slot (block_b p)
   \<and> block_hash E (block_a p) \<noteq> block_hash E (block_b p)
   \<and> validator (block_a p) = proof_validator p \<and> validator (block_b p) = proof_validator p
   \<and> block_is_valid E (block_a p) \<and> block_is_valid E (block_b p)"
  by (simp add: validate_def)

end
