(* ===== verification/Concrete.thy ===== *)
theory Concrete
  imports Models
begin

text \<open>
  A concrete instance of the external crates, small enough to compute with. Keys are bytes, encoded
  as a compressed point with prefix \<open>2\<close>; a signature is the signed message with the signer's key; the
  digest keeps the first and the last sixteen bytes of its input, plus one. The witnesses of the development
  evaluate the model on it; no theorem of the model depends on it.
\<close>

type_synonym demo_sig = "u8 \<times> byte_vec"

definition demo_digest :: "byte_vec \<Rightarrow> bytes32" where
  "demo_digest bs = word_of_nat (1 + be_value (take 16 bs) + 2 ^ 128 * be_value (drop (length bs - 16) bs))"

definition demo_key :: "u8 \<Rightarrow> bytes33" where
  "demo_key k = word_of_nat (2 * 2 ^ 256 + unat k)"

definition demo_key_of :: "bytes33 \<Rightarrow> u8 option" where
  "demo_key_of w = (if unat w div 256 = 2 * 2 ^ 248 then Some (word_of_nat (unat w mod 256)) else None)"

definition demo :: "(u8, demo_sig) crypto" where
  "demo = \<lparr> overflow_checks = True, sha256 = demo_digest, sec1_compressed = demo_key,
            from_sec1_bytes = demo_key_of, ecdsa_verify = (\<lambda>k m sg. sg = (k, m)),
            secret_verifying_key = (\<lambda>bs. Some (hd bs)) \<rparr>"

lemma demo_sel [simp]:
  "overflow_checks demo = True"
  "sha256 demo = demo_digest"
  "sec1_compressed demo = demo_key"
  "from_sec1_bytes demo = demo_key_of"
  "ecdsa_verify demo k m sg \<longleftrightarrow> sg = (k, m)"
  "secret_verifying_key demo bs = Some (hd bs)"
  by (simp_all add: demo_def)

lemma demo_key_bytes [simp]: "verifying_key_to_bytes demo k = demo_key k"
  by (simp add: verifying_key_to_bytes_def)

lemma unat_demo_key: "unat (demo_key k) = 2 * 2 ^ 256 + unat k"
proof -
  have "2 * 2 ^ 256 + unat k < 2 ^ LENGTH(264)"
    using unat_lt_length [of k] by simp
  then show ?thesis by (simp only: demo_key_def unat_of_nat mod_less)
qed

lemma unat_demo_key_parts: "(2 * 2 ^ 256 + unat k) div 256 = 2 * 2 ^ 248" "(2 * 2 ^ 256 + unat k) mod 256 = unat k"
  for k :: u8
  using unat_lt_length [of k] by (simp_all add: mod_add_left_eq [symmetric])

lemma demo_key_of_key [simp]: "demo_key_of (demo_key k) = Some k"
  unfolding demo_key_of_def unat_demo_key unat_demo_key_parts by simp

lemma demo_key_inj [simp]: "demo_key k = demo_key l \<longleftrightarrow> k = l"
  by (metis demo_key_of_key option.inject)

lemma demo_key_less [simp]: "demo_key k < demo_key l \<longleftrightarrow> k < l"
  by (simp only: word_less_nat_alt unat_demo_key nat_add_left_cancel_less)

lemma sec1_ok_demo: "sec1_ok demo"
  by (simp add: sec1_ok_def)

section \<open>Digests and signatures\<close>

lemma drop_to_be: "drop m (to_be (m + n) w) = to_be n w"
  by (induction m) (simp_all add: to_be_Suc)

lemma be_value_take_to_be: "be_value (take m (to_be (m + n) w)) = unat w mod 256 ^ (m + n) div 256 ^ n"
proof -
  have "to_be (m + n) w = take m (to_be (m + n) w) @ to_be n w"
    using append_take_drop_id [of m "to_be (m + n) w"] by (simp add: drop_to_be del: append_take_drop_id)
  then have "be_value (to_be (m + n) w) = be_value (take m (to_be (m + n) w)) * 256 ^ n + be_value (to_be n w)"
    by (metis be_value_append length_to_be)
  moreover have "be_value (to_be n w) < 256 ^ n" using be_value_less [of "to_be n w"] by simp
  ultimately show ?thesis by (simp add: be_value_to_be)
qed

lemma demo_digest_ends:
  assumes "length xs = 16" and "length ys = 16"
  shows "demo_digest (xs @ zs @ ys) = word_of_nat (1 + be_value xs + 2 ^ 128 * be_value ys)"
  using assms by (simp add: demo_digest_def)

lemma demo_digest_leaf:
  "demo_digest (to_be 33 (demo_key k) @ to_be 8 (v :: u64)) = word_of_nat (1 + 2 ^ 121 + 2 ^ 128 * (unat k * 2 ^ 64 + unat v))"
proof -
  let ?b = "to_be 33 (demo_key k)"
  have k: "unat k < 256" using unat_lt_length [of k] by simp
  have "be_value (take 16 ?b) = (2 * 2 ^ 256 + unat k) mod 256 ^ 33 div 256 ^ 17"
    using be_value_take_to_be [of 16 17 "demo_key k"] by (simp only: unat_demo_key) simp
  also have "\<dots> = 2 ^ 121" using k by simp
  finally have first: "be_value (take 16 ?b) = 2 ^ 121" .
  have "be_value (to_be 8 (demo_key k)) = (2 * 2 ^ 256 + unat k) mod 256 ^ 8"
    by (simp only: be_value_to_be unat_demo_key)
  also have "\<dots> = unat k" using k by (simp add: mod_add_left_eq [symmetric])
  finally have "be_value (to_be 8 (demo_key k) @ to_be 8 v) = unat k * 2 ^ 64 + unat v"
    using unat_lt_length [of v] by (simp add: be_value_append be_value_to_be [of 8 v])
  moreover have "drop 25 ?b = to_be 8 (demo_key k)"
    using drop_to_be [of 25 8 "demo_key k"] by simp
  ultimately show ?thesis using first by (simp add: demo_digest_def)
qed

lemma demo_digest_node:
  "demo_digest (to_be 32 (l :: bytes32) @ to_be 32 (r :: bytes32)) =
     word_of_nat (1 + unat l div 2 ^ 128 + 2 ^ 128 * (unat r mod 2 ^ 128))"
proof -
  have "be_value (take 16 (to_be 32 l)) = unat l div 2 ^ 128"
    using be_value_take_to_be [of 16 16 l] unat_lt_length [of l] by simp
  moreover have "drop 16 (to_be 32 r) = to_be 16 r"
    using drop_to_be [of 16 16 r] by simp
  ultimately show ?thesis by (simp add: demo_digest_def be_value_to_be)
qed

lemma block_hash_demo:
  "block_hash demo (Block h sl prev v txs sg proofs root) =
     word_of_nat (1 + (unat h * 2 ^ 64 + unat sl) + 2 ^ 128 * (unat root mod 2 ^ 128))"
proof -
  let ?mid = "to_be 32 prev @ verifying_key_bytes demo v @ vec_to_bytes (tx_to_bytes demo) txs
    @ vec_to_bytes (proof_to_bytes demo) proofs @ take 16 (to_be 32 root)"
  have root: "to_be 32 root = take 16 (to_be 32 root) @ to_be 16 root"
    using append_take_drop_id [of 16 "to_be 32 root"] drop_to_be [of 16 16 root]
    by (simp del: append_take_drop_id)
  have "block_to_bytes demo (Block h sl prev v txs sg proofs root)
      = (to_be 8 h @ to_be 8 sl) @ ?mid @ to_be 16 root"
    by (subst block_to_bytes.simps, subst root) (simp add: u64_to_bytes_def)
  then have "block_hash demo (Block h sl prev v txs sg proofs root)
      = demo_digest ((to_be 8 h @ to_be 8 sl) @ ?mid @ to_be 16 root)"
    by (simp only: block_hash_def hash_def demo_sel)
  also have "\<dots> = word_of_nat (1 + be_value (to_be 8 h @ to_be 8 sl) + 2 ^ 128 * be_value (to_be 16 root))"
    by (rule demo_digest_ends) simp_all
  also have "be_value (to_be 8 h @ to_be 8 sl) = unat h * 2 ^ 64 + unat sl"
    using unat_lt_length [of h] unat_lt_length [of sl] by (simp add: be_value_append be_value_to_be)
  also have "be_value (to_be 16 root) = unat root mod 2 ^ 128"
    by (simp add: be_value_to_be)
  finally show ?thesis .
qed

lemma block_hash_demo_low:
  "unat (block_hash demo b) mod 2 ^ 128 = (1 + (unat (height b) * 2 ^ 64 + unat (slot b))) mod 2 ^ 128"
proof (cases b)
  case (Block h sl prev v txs sg proofs root)
  let ?x = "1 + (unat h * 2 ^ 64 + unat sl)" and ?r = "unat root mod 2 ^ 128"
  have "unat (block_hash demo b) mod 2 ^ 128 = (?x + 2 ^ 128 * ?r) mod 2 ^ 256 mod 2 ^ 128"
    by (simp only: Block block_hash_demo unat_of_nat) simp
  also have "\<dots> = (?x + 2 ^ 128 * ?r) mod 2 ^ 128"
    by (rule mod_mod_cancel) (simp add: le_imp_power_dvd)
  also have "\<dots> = ?x mod 2 ^ 128" by (rule mod_mult_self2)
  finally show ?thesis by (simp only: Block Block.sel)
qed

definition sign_tx :: "(u8, demo_sig) Transaction \<Rightarrow> (u8, demo_sig) Transaction" where
  "sign_tx tx = Transaction (sender tx) (data tx) (sequence tx) (fee tx)
     (Some (sender tx, to_be 32 (tx_hash demo tx)))"

definition sign_block :: "(u8, demo_sig) Block \<Rightarrow> (u8, demo_sig) Block" where
  "sign_block b = Block (height b) (slot b) (previous_hash b) (validator b) (transactions b)
     (Some (validator b, to_be 32 (block_hash demo b))) (slash_proofs b) (state_root b)"

lemma sign_tx_sel [simp]:
  "sender (sign_tx tx) = sender tx" "data (sign_tx tx) = data tx"
  "sequence (sign_tx tx) = sequence tx" "fee (sign_tx tx) = fee tx"
  "tx_hash demo (sign_tx tx) = tx_hash demo tx"
  by (cases tx; simp add: sign_tx_def tx_hash_def)+

lemma sign_block_sel [simp]:
  "height (sign_block b) = height b" "slot (sign_block b) = slot b"
  "previous_hash (sign_block b) = previous_hash b" "validator (sign_block b) = validator b"
  "transactions (sign_block b) = transactions b" "slash_proofs (sign_block b) = slash_proofs b"
  "state_root (sign_block b) = state_root b" "block_hash demo (sign_block b) = block_hash demo b"
  by (cases b; simp add: sign_block_def block_hash_def)+

lemma sign_tx_valid [simp]: "tx_is_valid demo (sign_tx tx)"
proof -
  have "tx_signature (sign_tx tx) = Some (sender tx, to_be 32 (tx_hash demo tx))"
    by (simp add: sign_tx_def)
  then show ?thesis by (simp add: tx_is_valid_def)
qed

lemma sign_block_valid [simp]: "block_is_valid demo (sign_block b)"
proof -
  have "signature (sign_block b) = Some (validator b, to_be 32 (block_hash demo b))"
    by (simp add: sign_block_def)
  then show ?thesis by (simp add: block_is_valid_def)
qed

lemmas demo_simps = bt_get_or_def bt_wf_def PUBLIC_KEY_SIZE_def

end
