(* ===== verification/Ledger.thy ===== *)
theory Ledger
  imports Concrete
begin

text \<open>
  The account state of \<open>rp-core/src/state.rs\<close>: balances, nonces, stakes and pending unstake requests,
  the validation and application of transactions, slashing, the choice of the next validator and
  the state root.

  Every \<open>+=\<close> and \<open>-=\<close> of the code is an operator of the prelude, so a build with overflow
  checks panics (\<open>None\<close>) where the code would. The theorems show when that cannot happen.
\<close>

section \<open>State and queries\<close>

definition EPOCH_LENGTH :: u64 where
  "EPOCH_LENGTH = 32"

definition UNSTAKE_LOCK_EPOCHS :: u64 where
  "UNSTAKE_LOCK_EPOCHS = 2"

record State =
  balances :: "(PublicKeyBytes, u64) btree_map"
  nonces :: "(PublicKeyBytes, u64) btree_map"
  stakes :: "(PublicKeyBytes, u64) btree_map"
  unstaking :: "(PublicKeyBytes, UnstakeRequest list) btree_map"

definition State_new :: State where
  "State_new = \<lparr> balances = [], nonces = [], stakes = [], unstaking = [] \<rparr>"

definition get_balance :: "('vk, 'sig, 'z) crypto_scheme \<Rightarrow> State \<Rightarrow> 'vk \<Rightarrow> u64" where
  "get_balance E s account = bt_get_or 0 (balances s) (verifying_key_to_bytes E account)"

definition get_nonce :: "('vk, 'sig, 'z) crypto_scheme \<Rightarrow> State \<Rightarrow> 'vk \<Rightarrow> u64" where
  "get_nonce E s account = bt_get_or 0 (nonces s) (verifying_key_to_bytes E account)"

definition is_valid_tx ::
  "('vk, 'sig, 'z) crypto_scheme \<Rightarrow> State \<Rightarrow> ('vk, 'sig) Transaction \<Rightarrow> bool" where
  "is_valid_tx E s tx =
     (let tx_valid = tx_is_valid E tx;
          sender_balance = get_balance E s (sender tx);
          data_ok = (case data tx of
              Transfer receiver amt \<Rightarrow> \<not> sender_balance < amt
            | Stake amt \<Rightarrow> \<not> sender_balance < amt
            | Unstake amt \<Rightarrow> \<not> bt_get_or 0 (stakes s) (verifying_key_to_bytes E (sender tx)) < amt
            | Slash p \<Rightarrow> (case validate E p of Inr _ \<Rightarrow> True | Inl _ \<Rightarrow> False))
      in if \<not> data_ok then False
         else if sequence tx \<noteq> get_nonce E s (sender tx) then False
         else tx_valid)"

section \<open>Updates\<close>

text \<open>\<open>*map.entry(k).or_insert(0) += v\<close> and \<open>-= v\<close>.\<close>

definition entry_add ::
  "('vk, 'sig, 'z) crypto_scheme \<Rightarrow> ('k::linorder, u64) btree_map \<Rightarrow> 'k \<Rightarrow> u64 \<Rightarrow> ('k, u64) btree_map exec" where
  "entry_add E m k v =
     do { n \<leftarrow> add_u64 (overflow_checks E) (bt_get_or 0 m k) v; Some (bt_insert k n m) }"

definition entry_sub ::
  "('vk, 'sig, 'z) crypto_scheme \<Rightarrow> ('k::linorder, u64) btree_map \<Rightarrow> 'k \<Rightarrow> u64 \<Rightarrow> ('k, u64) btree_map exec" where
  "entry_sub E m k v =
     do { n \<leftarrow> sub_u64 (overflow_checks E) (bt_get_or 0 m k) v; Some (bt_insert k n m) }"

definition apply_slash ::
  "('vk, 'sig, 'z) crypto_scheme \<Rightarrow> State \<Rightarrow> ('vk, 'sig) SlashProof \<Rightarrow> (SlashError, State) result" where
  "apply_slash E s p =
     (case validate E p of
        Inl e \<Rightarrow> Inl e
      | Inr _ \<Rightarrow>
          let k = verifying_key_to_bytes E (proof_validator p)
          in Inr (s\<lparr>stakes := bt_remove k (stakes s), unstaking := bt_remove k (unstaking s)\<rparr>))"

definition apply_tx ::
  "('vk, 'sig, 'z) crypto_scheme \<Rightarrow> State \<Rightarrow> ('vk, 'sig) Transaction \<Rightarrow> u64 \<Rightarrow> State exec" where
  "apply_tx E s tx current_slot =
     (let k = verifying_key_to_bytes E (sender tx) in
      case data tx of
        Transfer receiver amt \<Rightarrow> do {
          bal1 \<leftarrow> entry_sub E (balances s) k amt;
          bal2 \<leftarrow> entry_add E bal1 (verifying_key_to_bytes E receiver) amt;
          non \<leftarrow> entry_add E (nonces s) k 1;
          Some (s\<lparr>balances := bal2, nonces := non\<rparr>) }
      | Stake amt \<Rightarrow> do {
          bal \<leftarrow> entry_sub E (balances s) k amt;
          stk \<leftarrow> entry_add E (stakes s) k amt;
          non \<leftarrow> entry_add E (nonces s) k 1;
          Some (s\<lparr>balances := bal, stakes := stk, nonces := non\<rparr>) }
      | Unstake amt \<Rightarrow> do {
          stk \<leftarrow> entry_sub E (stakes s) k amt;
          unlock \<leftarrow> add_u64 (overflow_checks E) current_slot (UNSTAKE_LOCK_EPOCHS * EPOCH_LENGTH);
          let reqs = bt_get_or [] (unstaking s) k @ [\<lparr>amount = amt, unlock_slot = unlock\<rparr>];
          non \<leftarrow> entry_add E (nonces s) k 1;
          Some (s\<lparr>stakes := stk, unstaking := bt_insert k reqs (unstaking s), nonces := non\<rparr>) }
      | Slash p \<Rightarrow> do {
          let s1 = (case apply_slash E s p of Inr s' \<Rightarrow> s' | Inl _ \<Rightarrow> s);
          non \<leftarrow> entry_add E (nonces s1) k 1;
          Some (s1\<lparr>nonces := non\<rparr>) })"

section \<open>Validator selection\<close>

fun sum_u64 :: "bool \<Rightarrow> u64 \<Rightarrow> u64 list \<Rightarrow> u64 exec" where
  "sum_u64 checks acc [] = Some acc"
| "sum_u64 checks acc (x # xs) = do { a \<leftarrow> add_u64 checks acc x; sum_u64 checks a xs }"

fun pick_validator :: "bool \<Rightarrow> u64 \<Rightarrow> u64 \<Rightarrow> (u64 \<times> 'vk) list \<Rightarrow> 'vk option exec" where
  "pick_validator checks ticket cumulative [] = Some None"
| "pick_validator checks ticket cumulative ((stake, key) # rest) = do {
     c \<leftarrow> add_u64 checks cumulative stake;
     if ticket < c then Some (Some key) else pick_validator checks ticket c rest }"

definition valid_stakes :: "('vk, 'sig, 'z) crypto_scheme \<Rightarrow> State \<Rightarrow> (u64 \<times> 'vk) list" where
  "valid_stakes E s =
     List.map_filter (\<lambda>(key_bytes, stake).
       case verifying_key_from_bytes E key_bytes of
         Inr key \<Rightarrow> Some (stake, key)
       | Inl _ \<Rightarrow> None) (stakes s)"

definition get_expected_validator ::
  "('vk, 'sig, 'z) crypto_scheme \<Rightarrow> State \<Rightarrow> u64 \<Rightarrow> 'vk option exec" where
  "get_expected_validator E s next_block_height =
     (if stakes s = [] then Some None
      else do {
        total \<leftarrow> sum_u64 (overflow_checks E) 0 (map fst (valid_stakes E s));
        if total = 0 then Some None
        else pick_validator (overflow_checks E) (next_block_height mod total) 0 (valid_stakes E s) })"

section \<open>State root\<close>

definition leaf_hash :: "('vk, 'sig, 'z) crypto_scheme \<Rightarrow> PublicKeyBytes \<times> u64 \<Rightarrow> bytes32" where
  "leaf_hash E e = hash E (to_be PUBLIC_KEY_SIZE (fst e) @ u64_to_bytes (snd e))"

definition node_hash :: "('vk, 'sig, 'z) crypto_scheme \<Rightarrow> bytes32 \<Rightarrow> bytes32 \<Rightarrow> bytes32" where
  "node_hash E left right = hash E (to_be 32 left @ to_be 32 right)"

fun merkle_level :: "('vk, 'sig, 'z) crypto_scheme \<Rightarrow> bytes32 list \<Rightarrow> bytes32 list" where
  "merkle_level E [] = []"
| "merkle_level E [left] = [node_hash E left left]"
| "merkle_level E (left # right # rest) = node_hash E left right # merkle_level E rest"

lemma length_merkle_level [simp]: "length (merkle_level E hs) = (length hs + 1) div 2"
  by (induction E hs rule: merkle_level.induct) simp_all

function merkle_root :: "('vk, 'sig, 'z) crypto_scheme \<Rightarrow> bytes32 list \<Rightarrow> bytes32" where
  "merkle_root E hashes =
     (if 1 < length hashes then merkle_root E (merkle_level E hashes)
      else if hashes = [] then 0 else last hashes)"
  by pat_completeness auto
termination
  by (relation "measure (length \<circ> snd)") auto

declare merkle_root.simps [simp del]

definition compute_state_root :: "('vk, 'sig, 'z) crypto_scheme \<Rightarrow> State \<Rightarrow> bytes32" where
  "compute_state_root E s = merkle_root E (map (leaf_hash E) (sort_key fst (balances s)))"

section \<open>Well-formed states and the coins they hold\<close>

definition state_wf :: "State \<Rightarrow> bool" where
  "state_wf s \<longleftrightarrow> bt_wf (balances s) \<and> bt_wf (nonces s) \<and> bt_wf (stakes s) \<and> bt_wf (unstaking s)"

abbreviation coins :: "('k \<times> u64) list \<Rightarrow> nat" where
  "coins m \<equiv> (\<Sum>e\<leftarrow>m. unat (snd e))"

abbreviation locked_in :: "UnstakeRequest list \<Rightarrow> nat" where
  "locked_in rs \<equiv> (\<Sum>r\<leftarrow>rs. unat (amount r))"

definition total_supply :: "State \<Rightarrow> nat" where
  "total_supply s = coins (balances s) + coins (stakes s) + (\<Sum>e\<leftarrow>unstaking s. locked_in (snd e))"

lemma state_wf_new: "state_wf State_new"
  by (simp add: state_wf_def State_new_def)

lemma coins_get_le: "unat (bt_get_or 0 m k) \<le> coins m"
proof (cases "bt_get m k")
  case (Some v)
  then have "(k, v) \<in> set m" by (rule map_of_SomeD)
  then have "unat v \<in> set (map (\<lambda>e. unat (snd e)) m)" by force
  then show ?thesis using Some member_le_sum_list by (fastforce simp: bt_get_or_def)
qed (simp add: bt_get_or_def)

lemma coins_insert:
  "bt_wf m \<Longrightarrow> coins (bt_insert k v m) + unat (bt_get_or 0 m k) = coins m + unat v"
  using btm.sum_insert_entry [of m unat k v] by (simp add: bt_get_or_def split: option.splits)

lemma entry_add_exact:
  assumes "bt_wf m" and "coins m + unat v < 2 ^ 64"
  obtains m' where "entry_add E m k v = Some m'" and "bt_wf m'" and "coins m' = coins m + unat v"
proof
  have fits: "unat (bt_get_or 0 m k) + unat v < 2 ^ 64"
    using assms(2) coins_get_le [of m k] by linarith
  let ?m = "bt_insert k (bt_get_or 0 m k + v) m"
  show "entry_add E m k v = Some ?m"
    using fits by (simp add: entry_add_def add_u64_exact)
  show "bt_wf ?m" using assms(1) by (rule bt_wf_insert)
  show "coins ?m = coins m + unat v"
    using coins_insert [OF assms(1), of k "bt_get_or 0 m k + v"] fits
    by (simp add: unat_add_u64_no_overflow)
qed

lemma entry_sub_exact:
  assumes "bt_wf m" and "v \<le> bt_get_or 0 m k"
  obtains m' where "entry_sub E m k v = Some m'" and "bt_wf m'" and "coins m' + unat v = coins m"
proof
  let ?m = "bt_insert k (bt_get_or 0 m k - v) m"
  show "entry_sub E m k v = Some ?m"
    using assms(2) by (simp add: entry_sub_def sub_u64_exact)
  show "bt_wf ?m" using assms(1) by (rule bt_wf_insert)
  show "coins ?m + unat v = coins m"
    using coins_insert [OF assms(1), of k "bt_get_or 0 m k - v"] assms(2)
    by (simp add: unat_sub_u64_no_underflow word_le_nat_alt)
qed

lemma entry_add_nonce:
  assumes "bt_wf m" and "unat (bt_get_or 0 m k) + 1 < 2 ^ 64"
  obtains m' where "entry_add E m k 1 = Some m'" and "bt_wf m'"
proof
  show "entry_add E m k 1 = Some (bt_insert k (bt_get_or 0 m k + 1) m)"
    using assms(2) by (simp add: entry_add_def add_u64_exact)
  show "bt_wf (bt_insert k (bt_get_or 0 m k + 1) m)" using assms(1) by (rule bt_wf_insert)
qed

lemma apply_slash_wf: "apply_slash E s p = Inr s' \<Longrightarrow> state_wf s \<Longrightarrow> state_wf s'"
  by (auto simp: apply_slash_def state_wf_def bt_wf_remove Let_def split: sum.splits)

lemma entry_add_wf: "entry_add E m k v = Some m' \<Longrightarrow> bt_wf m \<Longrightarrow> bt_wf m'"
  by (auto simp: entry_add_def bind_Some_iff bt_wf_insert)

lemma entry_sub_wf: "entry_sub E m k v = Some m' \<Longrightarrow> bt_wf m \<Longrightarrow> bt_wf m'"
  by (auto simp: entry_sub_def bind_Some_iff bt_wf_insert)

lemma apply_tx_wf:
  assumes "apply_tx E s tx current_slot = Some s'" and "state_wf s"
  shows "state_wf s'"
proof -
  have "state_wf (case apply_slash E s p of Inr s1 \<Rightarrow> s1 | Inl _ \<Rightarrow> s)" for p
    using assms(2) apply_slash_wf by (auto split: sum.split)
  with assms show ?thesis
    by (auto simp: apply_tx_def Let_def bind_Some_iff state_wf_def bt_wf_insert split: TransactionData.splits
        dest!: entry_add_wf entry_sub_wf)
qed

lemma apply_slash_supply: "apply_slash E s p = Inr s' \<Longrightarrow> state_wf s \<Longrightarrow> total_supply s' \<le> total_supply s"
proof -
  assume ok: "apply_slash E s p = Inr s'" and wf: "state_wf s"
  let ?k = "verifying_key_to_bytes E (proof_validator p)"
  have s': "s' = s\<lparr>stakes := bt_remove ?k (stakes s), unstaking := bt_remove ?k (unstaking s)\<rparr>"
    using ok by (auto simp: apply_slash_def Let_def split: sum.splits)
  have "coins (bt_remove ?k (stakes s)) \<le> coins (stakes s)"
    using btm.sum_remove_entry [of "stakes s" unat ?k] wf by (simp add: state_wf_def)
  moreover have "(\<Sum>e\<leftarrow>bt_remove ?k (unstaking s). locked_in (snd e)) \<le> (\<Sum>e\<leftarrow>unstaking s. locked_in (snd e))"
    using btm.sum_remove_entry [of "unstaking s" locked_in ?k] wf by (simp add: state_wf_def)
  ultimately show ?thesis by (simp add: s' total_supply_def)
qed

definition is_slash :: "('vk, 'sig) Transaction \<Rightarrow> bool" where
  "is_slash tx \<longleftrightarrow> (case data tx of Slash _ \<Rightarrow> True | _ \<Rightarrow> False)"

definition tx_in_range ::
  "('vk, 'sig, 'z) crypto_scheme \<Rightarrow> State \<Rightarrow> ('vk, 'sig) Transaction \<Rightarrow> u64 \<Rightarrow> bool" where
  "tx_in_range E s tx current_slot \<longleftrightarrow>
     unat (get_nonce E s (sender tx)) + 1 < 2 ^ 64 \<and> unat current_slot + 64 < 2 ^ 64"

text \<open>One lemma per kind of transaction; \<open>non\<close> is the nonce map after the increment they share.\<close>

lemma apply_transfer:
  assumes "data tx = Transfer r amt" and "state_wf s" and "is_valid_tx E s tx"
    and "total_supply s < 2 ^ 64"
    and non: "entry_add E (nonces s) (verifying_key_to_bytes E (sender tx)) 1 = Some non" "bt_wf non"
  shows "\<exists>s'. apply_tx E s tx current_slot = Some s' \<and> state_wf s' \<and> total_supply s' = total_supply s"
proof -
  let ?k = "verifying_key_to_bytes E (sender tx)"
  have wf: "bt_wf (balances s)" using assms(2) by (simp add: state_wf_def)
  have "amt \<le> bt_get_or 0 (balances s) ?k"
    using assms(1,3) by (simp add: is_valid_tx_def get_balance_def Let_def split: if_splits)
  then obtain b1 where b1: "entry_sub E (balances s) ?k amt = Some b1" "bt_wf b1"
      "coins b1 + unat amt = coins (balances s)"
    by (rule entry_sub_exact [OF wf])
  have "coins b1 + unat amt < 2 ^ 64" using b1(3) assms(4) by (simp add: total_supply_def)
  then obtain b2 where "entry_add E b1 (verifying_key_to_bytes E r) amt = Some b2" "bt_wf b2"
      "coins b2 = coins b1 + unat amt"
    by (rule entry_add_exact [OF b1(2)])
  then show ?thesis
    using assms b1 by (simp add: apply_tx_def state_wf_def total_supply_def)
qed

lemma apply_stake:
  assumes "data tx = Stake amt" and "state_wf s" and "is_valid_tx E s tx" and "total_supply s < 2 ^ 64"
    and non: "entry_add E (nonces s) (verifying_key_to_bytes E (sender tx)) 1 = Some non" "bt_wf non"
  shows "\<exists>s'. apply_tx E s tx current_slot = Some s' \<and> state_wf s' \<and> total_supply s' = total_supply s"
proof -
  let ?k = "verifying_key_to_bytes E (sender tx)"
  have wf: "bt_wf (balances s)" "bt_wf (stakes s)" using assms(2) by (simp_all add: state_wf_def)
  have "amt \<le> bt_get_or 0 (balances s) ?k"
    using assms(1,3) by (simp add: is_valid_tx_def get_balance_def Let_def split: if_splits)
  then obtain b1 where b1: "entry_sub E (balances s) ?k amt = Some b1" "bt_wf b1"
      "coins b1 + unat amt = coins (balances s)"
    by (rule entry_sub_exact [OF wf(1)])
  have "coins (stakes s) + unat amt < 2 ^ 64"
    using b1(3) assms(4) by (simp add: total_supply_def)
  then obtain st where "entry_add E (stakes s) ?k amt = Some st" "bt_wf st"
      "coins st = coins (stakes s) + unat amt"
    by (rule entry_add_exact [OF wf(2)])
  then show ?thesis
    using assms b1 by (simp add: apply_tx_def state_wf_def total_supply_def)
qed

lemma apply_unstake:
  assumes "data tx = Unstake amt" and "state_wf s" and "is_valid_tx E s tx"
    and "unat current_slot + 64 < 2 ^ 64"
    and non: "entry_add E (nonces s) (verifying_key_to_bytes E (sender tx)) 1 = Some non" "bt_wf non"
  shows "\<exists>s'. apply_tx E s tx current_slot = Some s' \<and> state_wf s' \<and> total_supply s' = total_supply s"
proof -
  let ?k = "verifying_key_to_bytes E (sender tx)"
  have wf: "bt_wf (stakes s)" "bt_wf (unstaking s)" using assms(2) by (simp_all add: state_wf_def)
  have "amt \<le> bt_get_or 0 (stakes s) ?k"
    using assms(1,3) by (simp add: is_valid_tx_def Let_def split: if_splits)
  then obtain st where st: "entry_sub E (stakes s) ?k amt = Some st" "bt_wf st"
      "coins st + unat amt = coins (stakes s)"
    by (rule entry_sub_exact [OF wf(1)])
  have unlock: "add_u64 (overflow_checks E) current_slot (UNSTAKE_LOCK_EPOCHS * EPOCH_LENGTH)
      = Some (current_slot + 64)"
    using assms(4) by (simp add: UNSTAKE_LOCK_EPOCHS_def EPOCH_LENGTH_def add_u64_exact)
  let ?reqs = "bt_get_or [] (unstaking s) ?k @ [\<lparr>amount = amt, unlock_slot = current_slot + 64\<rparr>]"
  have "(\<Sum>e\<leftarrow>bt_insert ?k ?reqs (unstaking s). locked_in (snd e))
      = (\<Sum>e\<leftarrow>unstaking s. locked_in (snd e)) + unat amt"
    using btm.sum_insert_entry [OF wf(2), of locked_in ?k ?reqs]
    by (simp add: bt_get_or_def split: option.splits)
  then show ?thesis
    using assms st unlock
    by (simp add: apply_tx_def state_wf_def total_supply_def bt_wf_insert Let_def)
qed

lemma apply_slash_tx:
  assumes "data tx = Slash p" and "state_wf s" and "is_valid_tx E s tx"
    and non: "entry_add E (nonces s) (verifying_key_to_bytes E (sender tx)) 1 = Some non" "bt_wf non"
  shows "\<exists>s'. apply_tx E s tx current_slot = Some s' \<and> state_wf s' \<and> total_supply s' \<le> total_supply s"
proof -
  obtain s1 where s1: "apply_slash E s p = Inr s1"
    using assms(1,3) by (auto simp: is_valid_tx_def apply_slash_def Let_def split: if_splits sum.splits)
  moreover have "nonces s1 = nonces s"
    using s1 by (auto simp: apply_slash_def Let_def split: sum.splits)
  ultimately show ?thesis
    using assms apply_slash_wf [OF s1 assms(2)] apply_slash_supply [OF s1 assms(2)]
    by (simp add: apply_tx_def state_wf_def total_supply_def Let_def)
qed

lemma apply_tx_total:
  assumes "state_wf s" and "is_valid_tx E s tx" and "total_supply s < 2 ^ 64" and "tx_in_range E s tx current_slot"
  shows "\<exists>s'. apply_tx E s tx current_slot = Some s' \<and> state_wf s' \<and>
    (if is_slash tx then total_supply s' \<le> total_supply s else total_supply s' = total_supply s)"
proof -
  obtain non where non: "entry_add E (nonces s) (verifying_key_to_bytes E (sender tx)) 1 = Some non" "bt_wf non"
    using entry_add_nonce [of "nonces s"] assms(1,4)
    unfolding tx_in_range_def get_nonce_def state_wf_def by blast
  have range: "unat current_slot + 64 < 2 ^ 64" using assms(4) by (simp add: tx_in_range_def)
  show ?thesis
  proof (cases "data tx")
    case (Transfer r amt)
    then show ?thesis using apply_transfer [OF Transfer assms(1-3) non] by (simp add: is_slash_def)
  next
    case (Stake amt)
    then show ?thesis using apply_stake [OF Stake assms(1-3) non] by (simp add: is_slash_def)
  next
    case (Unstake amt)
    then show ?thesis using apply_unstake [OF Unstake assms(1,2) range non] by (simp add: is_slash_def)
  next
    case (Slash p)
    then show ?thesis using apply_slash_tx [OF Slash assms(1,2) non] by (simp add: is_slash_def)
  qed
qed

text \<open>
  C1: conservation of coins. On a well-formed state whose supply fits 64 bits, applying a
  transaction that \<open>is_valid_tx\<close> accepts returns a state: no addition or subtraction
  overflows, in either build profile. The new state is well-formed and holds exactly as many coins
  (balances, stakes and unstake requests together) as before; a slash transaction may only burn.
  The nonce and the slot have to leave room for the increments.
\<close>

theorem apply_tx_conserves_supply:
  assumes "state_wf s" and "is_valid_tx E s tx" and "total_supply s < 2 ^ 64" and "tx_in_range E s tx current_slot"
  shows "\<exists>s'. apply_tx E s tx current_slot = Some s' \<and> state_wf s' \<and>
    (if is_slash tx then total_supply s' \<le> total_supply s else total_supply s' = total_supply s)"
  using assms by (rule apply_tx_total)

definition demo_state :: State where
  "demo_state = \<lparr> balances = [(demo_key 1, 100), (demo_key 2, 7)], nonces = [(demo_key 1, 4)],
     stakes = [(demo_key 1, 2), (demo_key 3, 3)], unstaking = [] \<rparr>"

definition demo_transfer :: "(u8, demo_sig) Transaction" where
  "demo_transfer = sign_tx (Transaction 1 (Transfer 2 30) 4 9 None)"

lemma state_wf_demo: "state_wf demo_state"
  by (simp add: state_wf_def demo_state_def bt_wf_def)

lemma demo_transfer_valid: "is_valid_tx demo demo_state demo_transfer"
  by (simp add: is_valid_tx_def demo_transfer_def demo_state_def get_balance_def get_nonce_def bt_get_or_def)

theorem apply_tx_conserves_supply_witness:
  "is_valid_tx demo demo_state demo_transfer \<and> total_supply demo_state = 112 \<and>
   (\<exists>s'. apply_tx demo demo_state demo_transfer 10 = Some s' \<and> state_wf s' \<and> total_supply s' = 112)"
proof -
  have total: "total_supply demo_state = 112"
    by (simp add: total_supply_def demo_state_def)
  moreover have "tx_in_range demo demo_state demo_transfer 10"
    by (simp add: tx_in_range_def demo_transfer_def demo_state_def get_nonce_def bt_get_or_def)
  moreover have "\<not> is_slash demo_transfer"
    by (simp add: is_slash_def demo_transfer_def)
  ultimately show ?thesis
    using apply_tx_conserves_supply [OF state_wf_demo demo_transfer_valid, of 10] demo_transfer_valid by simp
qed

section \<open>Nonces and replay\<close>

text \<open>Whatever the transaction does, it advances the sender's nonce by one and no other nonce.\<close>

lemma apply_tx_nonces:
  assumes "apply_tx E s tx current_slot = Some s'"
  shows "nonces s' = bt_insert (verifying_key_to_bytes E (sender tx)) (get_nonce E s (sender tx) + 1) (nonces s)"
proof -
  have non: "entry_add E m k 1 = Some m' \<Longrightarrow> m' = bt_insert k (bt_get_or 0 m k + 1) m"
    for m m' :: "(PublicKeyBytes, u64) btree_map" and k
    by (auto simp: entry_add_def bind_Some_iff dest: add_u64_eq)
  have "nonces (case apply_slash E s p of Inr s1 \<Rightarrow> s1 | Inl _ \<Rightarrow> s) = nonces s" for p
    by (auto simp: apply_slash_def Let_def split: sum.splits)
  then show ?thesis
    using assms
    by (auto simp: apply_tx_def get_nonce_def Let_def bind_Some_iff dest!: non
        split: TransactionData.splits)
qed

lemma apply_tx_get_nonce:
  "apply_tx E s tx current_slot = Some s' \<Longrightarrow>
   bt_get_or 0 (nonces s') k =
     (if k = verifying_key_to_bytes E (sender tx) then get_nonce E s (sender tx) + 1
      else bt_get_or 0 (nonces s) k)"
  by (simp add: apply_tx_nonces bt_get_or_insert)

lemma is_valid_tx_sequence: "is_valid_tx E s tx \<Longrightarrow> sequence tx = get_nonce E s (sender tx)"
  by (simp add: is_valid_tx_def Let_def split: if_splits)

section \<open>Fees and unstake requests\<close>

lemma apply_tx_fee: "apply_tx E s (Transaction sndr dat sqn fe sg) current_slot
    = apply_tx E s (Transaction sndr dat sqn fe' sg') current_slot"
  by (simp add: apply_tx_def)

lemma apply_tx_unstaking:
  assumes "apply_tx E s tx current_slot = Some s'" and "\<not> is_slash tx"
  shows "\<exists>rs. bt_get_or [] (unstaking s') k = bt_get_or [] (unstaking s) k @ rs"
  using assms
  by (auto simp: apply_tx_def is_slash_def Let_def bind_Some_iff bt_get_or_insert
      split: TransactionData.splits)

end
