(* ===== verification/Selection.thy ===== *)
theory Selection
  imports Ledger
begin

text \<open>
  Validator selection (\<open>get_expected_validator\<close> of \<open>rp-core/src/state.rs\<close>): the height picks
  a ticket, the ticket falls into the interval of one validator. The theorems show that the
  selection always returns, that over any period of heights every validator is chosen exactly
  as often as it has staked coins, and that a slashed validator is not chosen. For the last, every stake has to be
  kept under the compressed encoding of its key, because \<open>apply_slash\<close> removes only that entry; the updates of
  a ledger keep it so (\<open>keys_compressed\<close>).
\<close>

abbreviation weight :: "(u64 \<times> 'vk) list \<Rightarrow> nat" where
  "weight xs \<equiv> (\<Sum>x\<leftarrow>xs. unat (fst x))"

lemma sum_u64_exact:
  "unat acc + (\<Sum>x\<leftarrow>xs. unat x) < 2 ^ 64 \<Longrightarrow>
   \<exists>t. sum_u64 checks acc xs = Some t \<and> unat t = unat acc + (\<Sum>x\<leftarrow>xs. unat x)"
proof (induction xs arbitrary: acc)
  case (Cons x xs)
  then have fits: "unat acc + unat x < 2 ^ 64" by simp
  then have "unat (acc + x) = unat acc + unat x" by (rule unat_add_u64_no_overflow)
  with Cons.IH [of "acc + x"] Cons.prems fits show ?case
    by (simp add: add_u64_exact add.assoc)
qed simp

lemma pick_validator_Cons:
  assumes "unat cum + unat st < 2 ^ 64"
  shows "pick_validator checks t cum ((st, key) # rest) =
    (if unat t < unat cum + unat st then Some (Some key) else pick_validator checks t (cum + st) rest)"
  using assms by (simp add: add_u64_exact word_less_nat_alt unat_add_u64_no_overflow)

lemma pick_validator_total:
  "unat cum + weight xs < 2 ^ 64 \<Longrightarrow> unat t < unat cum + weight xs \<Longrightarrow> unat cum \<le> unat t \<Longrightarrow>
   \<exists>key\<in>snd ` set xs. pick_validator checks t cum xs = Some (Some key)"
proof (induction xs arbitrary: cum)
  case (Cons x xs)
  obtain st key where x: "x = (st, key)" by (cases x)
  have fits: "unat cum + unat st < 2 ^ 64" using Cons.prems(1) x by simp
  then have sum: "unat (cum + st) = unat cum + unat st" by (rule unat_add_u64_no_overflow)
  show ?case
  proof (cases "unat t < unat cum + unat st")
    case True
    then show ?thesis using x fits by (simp add: pick_validator_Cons del: pick_validator.simps)
  next
    case False
    then have "\<exists>key\<in>snd ` set xs. pick_validator checks t (cum + st) xs = Some (Some key)"
      using Cons.prems x sum by (intro Cons.IH) simp_all
    then show ?thesis using x fits False by (auto simp: pick_validator_Cons simp del: pick_validator.simps)
  qed
qed simp

text \<open>The tickets that pick a validator are exactly as many as its weight.\<close>

lemma pick_validator_share:
  "unat cum + weight xs < 2 ^ 64 \<Longrightarrow>
   card {h. unat cum \<le> h \<and> h < unat cum + weight xs
            \<and> pick_validator checks (word_of_nat h) cum xs = Some (Some v)}
   = weight (filter (\<lambda>x. snd x = v) xs)"
proof (induction xs arbitrary: cum)
  case (Cons x xs)
  obtain st key where x: "x = (st, key)" by (cases x)
  let ?P = "\<lambda>c ys h. pick_validator checks (word_of_nat h) c ys = Some (Some v)"
  have fits: "unat cum + unat st < 2 ^ 64" using Cons.prems(1) x by simp
  then have sum: "unat (cum + st) = unat cum + unat st" by (rule unat_add_u64_no_overflow)
  have nat: "unat (word_of_nat h :: u64) = h" if "h < unat cum + weight (x # xs)" for h
    using that Cons.prems by (simp add: unat_of_nat)
  let ?A = "if key = v then {unat cum..<unat cum + unat st} else {}"
  let ?B = "{h. unat (cum + st) \<le> h \<and> h < unat (cum + st) + weight xs \<and> ?P (cum + st) xs h}"
  have "{h. unat cum \<le> h \<and> h < unat cum + weight (x # xs) \<and> ?P cum (x # xs) h} = ?A \<union> ?B"
    using fits nat by (auto simp: x sum pick_validator_Cons simp del: pick_validator.simps)
  moreover have "finite ?B" by (rule finite_subset [of _ "{..<unat (cum + st) + weight xs}"]) auto
  moreover have "?A \<inter> ?B = {}" by (auto simp: sum)
  moreover have "card ?B = weight (filter (\<lambda>x. snd x = v) xs)"
    using Cons.prems x sum by (intro Cons.IH) simp
  ultimately show ?case by (simp add: card_Un_disjoint x)
qed simp

lemma stakes_nonempty: "weight (valid_stakes E s) > 0 \<Longrightarrow> stakes s \<noteq> []"
  by (auto simp: valid_stakes_def map_filter_def)

lemma get_expected_validator_eq:
  assumes "0 < weight (valid_stakes E s)" and "weight (valid_stakes E s) < 2 ^ 64"
  obtains t where "unat t = weight (valid_stakes E s)"
    and "\<And>h. get_expected_validator E s h = pick_validator (overflow_checks E) (h mod t) 0 (valid_stakes E s)"
proof -
  obtain t where t: "sum_u64 (overflow_checks E) 0 (map fst (valid_stakes E s)) = Some t"
      "unat t = weight (valid_stakes E s)"
    using sum_u64_exact [of 0 "map fst (valid_stakes E s)" "overflow_checks E"] assms(2)
    by (auto simp: comp_def)
  moreover have "t \<noteq> 0"
  proof
    assume "t = 0"
    then have "unat t = 0" by simp
    with t(2) assms(1) show False by linarith
  qed
  ultimately show thesis
    using stakes_nonempty [OF assms(1)] that [of t] by (simp add: get_expected_validator_def)
qed

text \<open>
  C16: proportional selection. Over any period of consecutive heights, as many as there are staked
  coins and starting at any height \<open>h0\<close> below the end of the 64-bit range,
  \<open>get_expected_validator\<close> returns a validator exactly as often as it has coins staked.
\<close>

theorem expected_validator_proportional:
  assumes "0 < weight (valid_stakes E s)" and "unat h0 + weight (valid_stakes E s) < 2 ^ 64"
  shows "card {i. i < weight (valid_stakes E s) \<and> get_expected_validator E s (h0 + word_of_nat i) = Some (Some v)}
    = weight (filter (\<lambda>x. snd x = v) (valid_stakes E s))"
proof -
  let ?w = "weight (valid_stakes E s)"
  have small: "?w < 2 ^ 64" using assms(2) by simp
  obtain t where t: "unat t = ?w"
    and eq: "\<And>h. get_expected_validator E s h = pick_validator (overflow_checks E) (h mod t) 0 (valid_stakes E s)"
    using get_expected_validator_eq [OF assms(1) small] by metis
  let ?Q = "\<lambda>j. pick_validator (overflow_checks E) (word_of_nat j) 0 (valid_stakes E s) = Some (Some v)"
  have "(h0 + word_of_nat i) mod t = word_of_nat ((unat h0 + i) mod ?w)" if "i < ?w" for i
  proof -
    have "unat (h0 + word_of_nat i) = unat h0 + i"
      using that assms(2) by (simp add: unat_add_u64_no_overflow unat_of_nat)
    moreover have "(unat h0 + i) mod ?w < 2 ^ 64"
      by (rule le_less_trans [OF less_imp_le [OF mod_less_divisor [OF assms(1)]] small])
    ultimately have "unat ((h0 + word_of_nat i) mod t) = unat (word_of_nat ((unat h0 + i) mod ?w) :: u64)"
      using t by (simp add: unat_mod unat_of_nat)
    then show ?thesis by (rule unsigned_word_eqI)
  qed
  then have "{i. i < ?w \<and> get_expected_validator E s (h0 + word_of_nat i) = Some (Some v)}
      = {i. i < ?w \<and> ?Q ((unat h0 + i) mod ?w)}"
    by (auto simp: eq)
  also have "card \<dots> = card {j. j < ?w \<and> ?Q j}" by (rule card_rotate [OF assms(1)])
  also have "\<dots> = weight (filter (\<lambda>x. snd x = v) (valid_stakes E s))"
    using pick_validator_share [of 0 "valid_stakes E s"] small by simp
  finally show ?thesis .
qed

lemma valid_stakes_demo: "valid_stakes demo demo_state = [(2, 1), (3, 3)]"
  by (simp add: valid_stakes_def demo_state_def map_filter_def verifying_key_from_bytes_def)

theorem expected_validator_proportional_witness:
  "weight (valid_stakes demo demo_state) = 5 \<and>
   card {i. i < 5 \<and> get_expected_validator demo demo_state (1000003 + word_of_nat i) = Some (Some 3)} = 3"
  using expected_validator_proportional [of demo demo_state 1000003 3] by (simp add: valid_stakes_demo)

lemma valid_stakes_iff:
  "(st, v) \<in> set (valid_stakes E s) \<longleftrightarrow> (\<exists>k. (k, st) \<in> set (stakes s) \<and> from_sec1_bytes E k = Some v)"
  by (force simp: valid_stakes_def map_filter_def verifying_key_from_bytes_def split: option.splits sum.splits)

lemma expected_validator_returned:
  assumes "0 < weight (valid_stakes E s)" and "weight (valid_stakes E s) < 2 ^ 64"
  shows "\<exists>key\<in>snd ` set (valid_stakes E s). get_expected_validator E s h = Some (Some key)"
proof -
  obtain t where t: "unat t = weight (valid_stakes E s)"
    and eq: "\<And>h. get_expected_validator E s h = pick_validator (overflow_checks E) (h mod t) 0 (valid_stakes E s)"
    using get_expected_validator_eq [OF assms] by metis
  have "unat (h mod t) < unat t"
    using t assms(1) by (simp add: unat_mod)
  then show ?thesis
    using pick_validator_total [of 0 "valid_stakes E s" "h mod t"] assms(2) t eq by simp
qed

text \<open>
  the selection returns. Whenever some coins are staked under valid keys (fewer than
  \<open>2 ^ 64\<close> of them), \<open>get_expected_validator\<close> neither panics nor answers \<open>None\<close>: for every
  height it returns a key that the state holds a stake for.
\<close>

theorem expected_validator_exists:
  assumes "0 < weight (valid_stakes E s)" and "weight (valid_stakes E s) < 2 ^ 64"
  shows "\<exists>v k st. get_expected_validator E s h = Some (Some v) \<and> (k, st) \<in> set (stakes s)
    \<and> verifying_key_from_bytes E k = Inr v"
  using expected_validator_returned [OF assms, of h]
  by (fastforce simp: valid_stakes_iff verifying_key_from_bytes_def)

theorem expected_validator_exists_witness:
  "\<exists>v k st. get_expected_validator demo demo_state 1000003 = Some (Some v)
    \<and> (k, st) \<in> set (stakes demo_state) \<and> verifying_key_from_bytes demo k = Inr v"
  using expected_validator_exists [of demo demo_state 1000003] by (simp add: valid_stakes_demo)

lemma pick_validator_member:
  "pick_validator checks t cum xs = Some (Some key) \<Longrightarrow> key \<in> snd ` set xs"
proof (induction xs arbitrary: cum)
  case (Cons x xs)
  obtain st key' where x: "x = (st, key')" by (cases x)
  with Cons.prems obtain c where "(if t < c then Some (Some key') else pick_validator checks t c xs) = Some (Some key)"
    by (auto simp: bind_Some_iff)
  then show ?case using Cons.IH [of c] x by (auto split: if_splits)
qed simp

lemma expected_validator_member:
  "get_expected_validator E s h = Some (Some v) \<Longrightarrow> v \<in> snd ` set (valid_stakes E s)"
  by (auto simp: get_expected_validator_def bind_Some_iff dest: pick_validator_member split: if_splits)

section \<open>Slashing\<close>

text \<open>A sequence of the updates a block makes: transactions with their slot, and slash proofs.\<close>

type_synonym ('vk, 'sig) update = "(('vk, 'sig) Transaction \<times> u64) + ('vk, 'sig) SlashProof"

fun apply_update :: "('vk, 'sig, 'z) crypto_scheme \<Rightarrow> State \<Rightarrow> ('vk, 'sig) update \<Rightarrow> State exec" where
  "apply_update E s (Inl (tx, current_slot)) = apply_tx E s tx current_slot"
| "apply_update E s (Inr p) = (case apply_slash E s p of Inr s' \<Rightarrow> Some s' | Inl _ \<Rightarrow> None)"

fun apply_updates :: "('vk, 'sig, 'z) crypto_scheme \<Rightarrow> State \<Rightarrow> ('vk, 'sig) update list \<Rightarrow> State exec" where
  "apply_updates E s [] = Some s"
| "apply_updates E s (u # us) = do { s' \<leftarrow> apply_update E s u; apply_updates E s' us }"

text \<open>Every stake is kept under the compressed encoding of a key.\<close>

definition keys_compressed :: "('vk, 'sig, 'z) crypto_scheme \<Rightarrow> State \<Rightarrow> bool" where
  "keys_compressed E s \<longleftrightarrow> set (map fst (stakes s)) \<subseteq> range (verifying_key_to_bytes E)"

lemma verifying_key_to_bytes_inj:
  "sec1_ok E \<Longrightarrow> verifying_key_to_bytes E a = verifying_key_to_bytes E b \<longleftrightarrow> a = b"
  by (metis sec1_ok_def option.inject verifying_key_to_bytes_def)

lemma apply_slash_eq:
  assumes "apply_slash E s p = Inr s'"
  shows "s' = s\<lparr> stakes := bt_remove (verifying_key_to_bytes E (proof_validator p)) (stakes s),
    unstaking := bt_remove (verifying_key_to_bytes E (proof_validator p)) (unstaking s) \<rparr>"
  using assms by (auto simp: apply_slash_def Let_def split: sum.splits)

lemma entry_keys:
  "entry_add E m k v = Some m' \<Longrightarrow> \<exists>n. m' = bt_insert k n m"
  "entry_sub E m k v = Some m' \<Longrightarrow> \<exists>n. m' = bt_insert k n m"
  by (auto simp: entry_add_def entry_sub_def bind_Some_iff)

text \<open>What a transaction does to the stakes and unstake requests: at most an entry for its sender, or a slash.\<close>

lemma apply_tx_stakes:
  assumes "apply_tx E s tx current_slot = Some s'"
  obtains (same) "stakes s' = stakes s" and "unstaking s' = unstaking s"
  | (own) n r where "stakes s' = bt_insert (verifying_key_to_bytes E (sender tx)) n (stakes s)"
      and "unstaking s' = unstaking s \<or> unstaking s' = bt_insert (verifying_key_to_bytes E (sender tx)) r (unstaking s)"
  | (slashed) p s1 where "apply_slash E s p = Inr s1" and "stakes s' = stakes s1" and "unstaking s' = unstaking s1"
proof (cases "data tx")
  case (Transfer r amt)
  then show thesis using assms same by (auto simp: apply_tx_def Let_def bind_Some_iff)
next
  case (Stake amt)
  then show thesis using assms own by (auto simp: apply_tx_def Let_def bind_Some_iff dest!: entry_keys)
next
  case (Unstake amt)
  then obtain n r where "stakes s' = bt_insert (verifying_key_to_bytes E (sender tx)) n (stakes s)"
    and "unstaking s' = bt_insert (verifying_key_to_bytes E (sender tx)) r (unstaking s)"
    using assms by (auto simp: apply_tx_def Let_def bind_Some_iff dest!: entry_keys)
  then show thesis using own by blast
next
  case (Slash p)
  then show thesis using assms same slashed by (auto simp: apply_tx_def Let_def bind_Some_iff split: sum.splits)
qed

lemma slash_keys: "apply_slash E s p = Inr s' \<Longrightarrow> keys_compressed E s \<Longrightarrow> keys_compressed E s'"
  using bt_remove_set [of _ "stakes s"] by (fastforce simp: keys_compressed_def dest!: apply_slash_eq)

lemma apply_tx_keys:
  assumes "apply_tx E s tx current_slot = Some s'" and ok: "keys_compressed E s"
  shows "keys_compressed E s'"
  using assms(1)
proof (cases rule: apply_tx_stakes)
  case (slashed p s1)
  with slash_keys [OF slashed(1) ok] show ?thesis by (simp add: keys_compressed_def)
qed (use ok in \<open>auto simp: keys_compressed_def bt_insert_keys simp del: set_map\<close>)

lemma apply_update_keys: "apply_update E s u = Some s' \<Longrightarrow> keys_compressed E s \<Longrightarrow> keys_compressed E s'"
  by (cases u) (auto intro: apply_tx_keys slash_keys split: sum.splits)

lemma apply_update_wf: "apply_update E s u = Some s' \<Longrightarrow> state_wf s \<Longrightarrow> state_wf s'"
  by (cases u) (auto intro: apply_tx_wf apply_slash_wf split: sum.splits)

lemma apply_updates_ok:
  "apply_updates E s us = Some s' \<Longrightarrow> state_wf s \<and> keys_compressed E s \<Longrightarrow> state_wf s' \<and> keys_compressed E s'"
  by (induction us arbitrary: s) (auto simp: bind_Some_iff dest: apply_update_wf apply_update_keys)

text \<open>The accounts of \<open>v\<close> hold no stake and no unstake request.\<close>

definition unstaked :: "('vk, 'sig, 'z) crypto_scheme \<Rightarrow> 'vk \<Rightarrow> State \<Rightarrow> bool" where
  "unstaked E v s \<longleftrightarrow> bt_get (stakes s) (verifying_key_to_bytes E v) = None
     \<and> bt_get (unstaking s) (verifying_key_to_bytes E v) = None"

definition sent_by :: "'vk \<Rightarrow> ('vk, 'sig) update \<Rightarrow> bool" where
  "sent_by v u \<longleftrightarrow> (case u of Inl (tx, _) \<Rightarrow> sender tx = v | Inr _ \<Rightarrow> False)"

lemma slash_unstaked:
  "apply_slash E s p = Inr s' \<Longrightarrow> state_wf s \<Longrightarrow> v = proof_validator p \<or> unstaked E v s \<Longrightarrow> unstaked E v s'"
  by (auto simp: unstaked_def state_wf_def bt_get_remove dest!: apply_slash_eq)

lemma apply_tx_unstaked:
  assumes "apply_tx E s tx current_slot = Some s'" and "sec1_ok E" and "state_wf s" and "unstaked E v s" and "sender tx \<noteq> v"
  shows "unstaked E v s'"
  using assms(1)
proof (cases rule: apply_tx_stakes)
  case (own n r)
  moreover have "verifying_key_to_bytes E v \<noteq> verifying_key_to_bytes E (sender tx)"
    using assms(2,5) by (simp add: verifying_key_to_bytes_inj)
  ultimately show ?thesis using assms(4) by (auto simp: unstaked_def bt_get_insert)
next
  case (slashed p s1)
  then show ?thesis using slash_unstaked [OF slashed(1) assms(3), of v] assms(4) by (simp add: unstaked_def)
qed (use assms(4) in \<open>simp add: unstaked_def\<close>)

lemma apply_update_unstaked:
  assumes "sec1_ok E" and "apply_update E s u = Some s'" and "state_wf s" and "unstaked E v s" and "\<not> sent_by v u"
  shows "unstaked E v s'"
proof (cases u)
  case (Inl t)
  then show ?thesis using assms by (cases t) (auto simp: sent_by_def intro: apply_tx_unstaked)
next
  case (Inr p)
  then obtain "apply_slash E s p = Inr s'" using assms(2) by (auto split: sum.splits)
  then show ?thesis by (rule slash_unstaked [OF _ assms(3) disjI2 [OF assms(4)]])
qed

lemma apply_updates_unstaked:
  "sec1_ok E \<Longrightarrow> apply_updates E s us = Some s' \<Longrightarrow> state_wf s \<Longrightarrow> unstaked E v s \<Longrightarrow>
   \<forall>u\<in>set us. \<not> sent_by v u \<Longrightarrow> unstaked E v s'"
proof (induction us arbitrary: s)
  case (Cons u us)
  then obtain s1 where s1: "apply_update E s u = Some s1" "apply_updates E s1 us = Some s'"
    by (auto simp: bind_Some_iff)
  then have "state_wf s1" "unstaked E v s1"
    using apply_update_wf apply_update_unstaked [OF Cons.prems(1) s1(1)] Cons.prems by simp_all
  then show ?case using Cons s1 by simp
qed simp

lemma unstaked_not_selected:
  assumes "sec1_ok E" and "keys_compressed E s" and "unstaked E v s"
  shows "get_expected_validator E s h \<noteq> Some (Some v)"
proof
  assume "get_expected_validator E s h = Some (Some v)"
  then obtain k st where k: "(k, st) \<in> set (stakes s)" "from_sec1_bytes E k = Some v"
    by (auto dest!: expected_validator_member simp: valid_stakes_iff)
  then obtain w where "k = verifying_key_to_bytes E w" using assms(2) by (force simp: keys_compressed_def)
  moreover from this k(2) assms(1) have "w = v" by (simp add: sec1_ok_def verifying_key_to_bytes_def)
  ultimately show False
    using k(1) assms(3) by (metis unstaked_def weak_map_of_SomeI option.distinct(1))
qed

text \<open>
  C17: slashing takes effect and lasts. Take a ledger that began without stakes, whatever the balances,
  and went through any updates. Once \<open>apply_slash\<close> accepts a proof, no height selects the slashed
  validator and its stake and unstake requests are gone, and this stays so through any further
  transactions and slashes as long as the validator sends no transaction itself. The slash leaves the
  balances, the nonces and every other stake as they are.
\<close>

theorem slashed_validator_never_selected:
  assumes "sec1_ok E" and "state_wf s0" and "stakes s0 = []" and "apply_updates E s0 us = Some s"
    and "apply_slash E s p = Inr s'"
    and "apply_updates E s' us' = Some s''" and "\<forall>u\<in>set us'. \<not> sent_by (proof_validator p) u"
  shows "get_expected_validator E s'' h \<noteq> Some (Some (proof_validator p))
    \<and> bt_get (stakes s'') (verifying_key_to_bytes E (proof_validator p)) = None
    \<and> bt_get (unstaking s'') (verifying_key_to_bytes E (proof_validator p)) = None
    \<and> balances s' = balances s \<and> nonces s' = nonces s
    \<and> (\<forall>k. k \<noteq> verifying_key_to_bytes E (proof_validator p) \<longrightarrow> bt_get (stakes s') k = bt_get (stakes s) k)"
proof -
  have s: "state_wf s" "keys_compressed E s"
    using apply_updates_ok [OF assms(4)] assms(2,3) by (simp_all add: keys_compressed_def)
  have s': "state_wf s'" "keys_compressed E s'" "unstaked E (proof_validator p) s'"
    using apply_slash_wf [OF assms(5) s(1)] slash_keys [OF assms(5) s(2)] slash_unstaked [OF assms(5) s(1) disjI1 [OF refl]] .
  have "keys_compressed E s''" using apply_updates_ok [OF assms(6)] s' by blast
  moreover have gone: "unstaked E (proof_validator p) s''"
    using apply_updates_unstaked [OF assms(1,6) s'(1,3) assms(7)] .
  ultimately have "get_expected_validator E s'' h \<noteq> Some (Some (proof_validator p))"
    by (rule unstaked_not_selected [OF assms(1)])
  moreover have "bt_get (stakes s') k = bt_get (stakes s) k" if "k \<noteq> verifying_key_to_bytes E (proof_validator p)" for k
    using that apply_slash_eq [OF assms(5)] s(1) by (simp add: bt_get_remove state_wf_def)
  moreover have "balances s' = balances s" "nonces s' = nonces s" using apply_slash_eq [OF assms(5)] by simp_all
  ultimately show ?thesis using gone by (simp add: unstaked_def)
qed

definition demo_proof :: "(u8, demo_sig) SlashProof" where
  "demo_proof = SlashProof 3 (sign_block (Block 1 8 0 3 [] None [] 0)) (sign_block (Block 2 8 0 3 [] None [] 0))"

lemma demo_proof_valid: "validate demo demo_proof = Inr ()"
  by (simp add: validate_def demo_proof_def block_hash_demo)

text \<open>
  Validator 3 stakes ten coins and is then the choice; after the slash and a later stake of
  validator 1 it is not.
\<close>

definition demo_funded :: State where
  "demo_funded = State_new\<lparr>balances := [(demo_key 1, 50), (demo_key 3, 50)]\<rparr>"

definition demo_stake :: "u8 \<Rightarrow> (u8, demo_sig) update" where
  "demo_stake k = Inl (sign_tx (Transaction k (Stake 10) 0 1 None), 5)"

theorem slashed_validator_never_selected_witness:
  "\<exists>s s' s''. apply_updates demo demo_funded [demo_stake 3] = Some s
     \<and> get_expected_validator demo s 3 = Some (Some 3)
     \<and> apply_slash demo s demo_proof = Inr s' \<and> apply_updates demo s' [demo_stake 1] = Some s''
     \<and> get_expected_validator demo s'' 3 \<noteq> Some (Some 3) \<and> bt_get (stakes s'') (demo_key 3) = None"
proof -
  let ?s = "demo_funded\<lparr>balances := [(demo_key 1, 50), (demo_key 3, 40)], stakes := [(demo_key 3, 10)], nonces := [(demo_key 3, 1)]\<rparr>"
  have s: "apply_updates demo demo_funded [demo_stake 3] = Some ?s"
    by (simp add: demo_funded_def demo_stake_def State_new_def apply_tx_def entry_add_def entry_sub_def bt_get_or_def
        arith_defs Let_def)
  have sel: "get_expected_validator demo ?s 3 = Some (Some 3)"
    by (simp add: get_expected_validator_def valid_stakes_def map_filter_def verifying_key_from_bytes_def arith_defs)
  obtain s' where s': "apply_slash demo ?s demo_proof = Inr s'"
    by (simp add: apply_slash_def demo_proof_valid Let_def)
  have v: "proof_validator demo_proof = 3" by (simp add: demo_proof_def)
  then have "s' = ?s\<lparr>stakes := []\<rparr>"
    using apply_slash_eq [OF s'] by (simp add: demo_funded_def State_new_def)
  then obtain s'' where s'': "apply_updates demo s' [demo_stake 1] = Some s''"
    by (simp add: demo_funded_def demo_stake_def State_new_def apply_tx_def entry_add_def entry_sub_def bt_get_or_def
        arith_defs Let_def)
  have "state_wf demo_funded" "stakes demo_funded = []"
    by (simp_all add: demo_funded_def State_new_def state_wf_def bt_wf_def)
  moreover have "\<not> sent_by 3 (demo_stake 1)" by (simp add: sent_by_def demo_stake_def)
  ultimately show ?thesis
    using slashed_validator_never_selected [OF sec1_ok_demo _ _ s s' s'', of 3] v s sel s' s'' by auto
qed

end
