(* ===== verification/StateRoot.thy ===== *)
theory StateRoot
  imports Ledger
begin

text \<open>
  The state root (\<open>compute_state_root\<close> of \<open>rp-core/src/state.rs\<close>) is the root of a binary hash tree over
  the sorted balances; a level of odd length repeats its last hash. The theorems show that
  the root does not depend on the order of insertions, that it commits to every balance unless
  two of the hashed messages collide, and that it covers nothing but the balances.
\<close>

lemma sort_balances: "bt_wf m \<Longrightarrow> sort_key fst m = m"
  by (simp add: bt_wf_def sort_key_id_if_sorted strict_sorted_iff)

lemma compute_state_root_wf: "state_wf s \<Longrightarrow> compute_state_root E s = merkle_root E (map (leaf_hash E) (balances s))"
  by (simp add: compute_state_root_def state_wf_def sort_balances)

section \<open>The messages that are hashed\<close>

definition leaf_message :: "PublicKeyBytes \<times> u64 \<Rightarrow> byte_vec" where
  "leaf_message e = to_be 33 (fst e) @ to_be 8 (snd e)"

definition node_message :: "bytes32 \<Rightarrow> bytes32 \<Rightarrow> byte_vec" where
  "node_message l r = to_be 32 l @ to_be 32 r"

fun level_messages :: "bytes32 list \<Rightarrow> byte_vec list" where
  "level_messages [] = []"
| "level_messages [l] = [node_message l l]"
| "level_messages (l # r # rest) = node_message l r # level_messages rest"

function tree_messages :: "('vk, 'sig, 'z) crypto_scheme \<Rightarrow> bytes32 list \<Rightarrow> byte_vec list" where
  "tree_messages E hs =
     (if 1 < length hs then level_messages hs @ tree_messages E (merkle_level E hs) else [])"
  by pat_completeness auto
termination
  by (relation "measure (length \<circ> snd)") auto

declare tree_messages.simps [simp del]

definition root_messages :: "('vk, 'sig, 'z) crypto_scheme \<Rightarrow> State \<Rightarrow> byte_vec set" where
  "root_messages E s =
     leaf_message ` set (balances s) \<union> set (tree_messages E (map (leaf_hash E) (balances s)))"

lemma leaf_hash_message: "leaf_hash E e = hash E (leaf_message e)"
  by (simp add: leaf_hash_def leaf_message_def PUBLIC_KEY_SIZE_def u64_to_bytes_def)

lemma merkle_level_messages: "merkle_level E hs = map (hash E) (level_messages hs)"
  by (induction hs rule: level_messages.induct) (simp_all add: node_hash_def node_message_def)

lemma length_node_message [simp]: "length (node_message l r) = 64"
  by (simp add: node_message_def)

lemma length_leaf_message [simp]: "length (leaf_message e) = 41"
  by (simp add: leaf_message_def)

lemma node_message_inj [simp]: "node_message l r = node_message l' r' \<longleftrightarrow> l = l' \<and> r = r'"
  by (simp add: node_message_def to_be_append_inj)

lemma leaf_message_inj: "leaf_message e = leaf_message e' \<Longrightarrow> e = e'"
  by (cases e; cases e') (simp add: leaf_message_def to_be_append_inj)

lemma level_messages_parts: "m \<in> set (level_messages hs) \<Longrightarrow> \<exists>l\<in>set hs. \<exists>r\<in>set hs. m = node_message l r"
  by (induction hs rule: level_messages.induct) auto

section \<open>Every hash of the tree has one height\<close>

inductive at_height :: "('vk, 'sig, 'z) crypto_scheme \<Rightarrow> byte_vec set \<Rightarrow> nat \<Rightarrow> bytes32 \<Rightarrow> bool"
  for E M where
  leaf: "leaf_message e \<in> M \<Longrightarrow> at_height E M 0 (hash E (leaf_message e))"
| node: "node_message l r \<in> M \<Longrightarrow> at_height E M i l \<Longrightarrow> at_height E M i r \<Longrightarrow>
    at_height E M (Suc i) (hash E (node_message l r))"

inductive_cases at_height_0: "at_height E M 0 x"
inductive_cases at_height_Suc: "at_height E M (Suc i) x"

lemma messages_neq: "leaf_message e \<noteq> node_message l r"
proof
  assume "leaf_message e = node_message l r"
  then have "length (leaf_message e) = length (node_message l r)" by (rule arg_cong)
  then show False by (simp only: length_leaf_message length_node_message)
qed

lemma at_height_unique:
  assumes inj: "inj_on (hash E) M"
  shows "at_height E M i x \<Longrightarrow> at_height E M j x \<Longrightarrow> i = j"
proof (induction i x arbitrary: j rule: at_height.induct)
  case (leaf e)
  show ?case
  proof (cases j)
    case (Suc j')
    with leaf.prems obtain l r where "hash E (leaf_message e) = hash E (node_message l r)"
      "node_message l r \<in> M"
      by (auto elim: at_height_Suc)
    then have "leaf_message e = node_message l r" using leaf.hyps inj_onD [OF inj] by blast
    then show ?thesis by (simp add: messages_neq)
  qed simp
next
  case (node l r i)
  show ?case
  proof (cases j)
    case 0
    with node.prems obtain e where "hash E (node_message l r) = hash E (leaf_message e)" "leaf_message e \<in> M"
      by (auto elim: at_height_0)
    then have "leaf_message e = node_message l r" using node.hyps(1) inj_onD [OF inj] by metis
    then show ?thesis by (simp add: messages_neq)
  next
    case (Suc j')
    with node.prems obtain l' r' where "hash E (node_message l r) = hash E (node_message l' r')"
      "node_message l' r' \<in> M" "at_height E M j' l'"
      by (auto elim: at_height_Suc)
    then have "l' = l" using node.hyps(1) inj_onD [OF inj] by (metis node_message_inj)
    with Suc node.IH(1) \<open>at_height E M j' l'\<close> show ?thesis by simp
  qed
qed

lemma merkle_level_height:
  assumes "set (level_messages hs) \<subseteq> M" and "\<forall>h\<in>set hs. at_height E M i h"
  shows "\<forall>h\<in>set (merkle_level E hs). at_height E M (Suc i) h"
proof
  fix h
  assume "h \<in> set (merkle_level E hs)"
  then obtain m where m: "m \<in> set (level_messages hs)" "h = hash E m"
    by (auto simp: merkle_level_messages)
  then obtain l r where "l \<in> set hs" "r \<in> set hs" "m = node_message l r"
    using level_messages_parts by blast
  with m assms show "at_height E M (Suc i) h" by (auto intro: at_height.node)
qed

lemma merkle_root_height:
  assumes "hs \<noteq> []" and "set (tree_messages E hs) \<subseteq> M" and "\<forall>h\<in>set hs. at_height E M i h"
  shows "\<exists>j. at_height E M (i + j) (merkle_root E hs) \<and> (0 < j \<longleftrightarrow> 1 < length hs)"
  using assms
proof (induction E hs arbitrary: i rule: merkle_root.induct)
  case (1 E hs)
  show ?case
  proof (cases "1 < length hs")
    case True
    have sub: "set (level_messages hs) \<subseteq> M" "set (tree_messages E (merkle_level E hs)) \<subseteq> M"
      using 1(3) True by (simp_all add: tree_messages.simps [of E hs])
    have "merkle_level E hs \<noteq> []" using True by (auto dest: arg_cong [where f = length])
    then obtain j where "at_height E M (Suc i + j) (merkle_root E (merkle_level E hs))"
      using 1(1) [OF True _ sub(2) merkle_level_height [OF sub(1) 1(4)]] by blast
    with True show ?thesis
      by (intro exI [of _ "Suc j"]) (simp add: merkle_root.simps [of E hs])
  next
    case False
    with 1 show ?thesis
      by (intro exI [of _ 0]) (simp add: merkle_root.simps [of E hs])
  qed
qed

section \<open>A level determines the one below\<close>

lemma level_messages_distinct: "distinct hs \<Longrightarrow> distinct (level_messages hs)"
proof (induction hs rule: level_messages.induct)
  case (3 l r rest)
  then have "node_message l r \<notin> set (level_messages rest)"
    using level_messages_parts [of "node_message l r" rest] by auto
  with 3 show ?case by simp
qed simp_all

lemma level_messages_inj: "distinct hs \<Longrightarrow> distinct hs' \<Longrightarrow> level_messages hs = level_messages hs' \<Longrightarrow> hs = hs'"
proof (induction hs arbitrary: hs' rule: level_messages.induct)
  case 1
  then show ?case by (cases hs' rule: level_messages.cases) simp_all
next
  case (2 l)
  then show ?case by (cases hs' rule: level_messages.cases) auto
next
  case (3 l r rest)
  then show ?case by (cases hs' rule: level_messages.cases) auto
qed

lemma merkle_level_inj:
  assumes "inj_on (hash E) M" and "set (level_messages hs) \<subseteq> M" and "set (level_messages hs') \<subseteq> M"
    and "distinct hs" and "distinct hs'" and "merkle_level E hs = merkle_level E hs'"
  shows "hs = hs'"
proof (rule level_messages_inj)
  show "level_messages hs = level_messages hs'"
    using inj_on_subset [OF assms(1), of "set (level_messages hs) \<union> set (level_messages hs')"] assms(2,3,6)
    by (simp add: merkle_level_messages inj_on_map_eq_map)
qed fact+

lemma merkle_root_inj:
  assumes inj: "inj_on (hash E) M"
  shows "hs \<noteq> [] \<Longrightarrow> hs' \<noteq> [] \<Longrightarrow> set (tree_messages E hs) \<subseteq> M \<Longrightarrow> set (tree_messages E hs') \<subseteq> M \<Longrightarrow>
    \<forall>h\<in>set hs. at_height E M i h \<Longrightarrow> \<forall>h\<in>set hs'. at_height E M i h \<Longrightarrow> distinct hs \<Longrightarrow> distinct hs' \<Longrightarrow>
    merkle_root E hs = merkle_root E hs' \<Longrightarrow> hs = hs'"
proof (induction "length hs" arbitrary: hs hs' i rule: less_induct)
  case less
  obtain j where j: "at_height E M (i + j) (merkle_root E hs)" "0 < j \<longleftrightarrow> 1 < length hs"
    using merkle_root_height [OF less.prems(1,3,5)] by blast
  obtain j' where j': "at_height E M (i + j') (merkle_root E hs')" "0 < j' \<longleftrightarrow> 1 < length hs'"
    using merkle_root_height [OF less.prems(2,4,6)] by blast
  have "i + j = i + j'"
    by (rule at_height_unique [OF inj j(1)]) (simp only: less.prems(9) j'(1))
  with j(2) j'(2) have len: "1 < length hs \<longleftrightarrow> 1 < length hs'" by simp
  show ?case
  proof (cases "1 < length hs")
    case True
    with len have True': "1 < length hs'" by simp
    have sub: "set (level_messages hs) \<subseteq> M" "set (tree_messages E (merkle_level E hs)) \<subseteq> M"
      "set (level_messages hs') \<subseteq> M" "set (tree_messages E (merkle_level E hs')) \<subseteq> M"
      using less.prems(3,4) True True'
      by (simp_all add: tree_messages.simps [of E hs] tree_messages.simps [of E hs'])
    have dist: "distinct (merkle_level E hs)" "distinct (merkle_level E hs')"
      using level_messages_distinct [OF less.prems(7)] level_messages_distinct [OF less.prems(8)]
        inj_on_subset [OF inj sub(1)] inj_on_subset [OF inj sub(3)]
      by (simp_all add: merkle_level_messages distinct_map)
    have "merkle_level E hs = merkle_level E hs'"
    proof (rule less.hyps [OF _ _ _ sub(2,4)])
      show "\<forall>h\<in>set (merkle_level E hs). at_height E M (Suc i) h"
        and "\<forall>h\<in>set (merkle_level E hs'). at_height E M (Suc i) h"
        using merkle_level_height sub(1,3) less.prems(5,6) by blast+
      show "merkle_root E (merkle_level E hs) = merkle_root E (merkle_level E hs')"
        using less.prems(9) True True' by (simp add: merkle_root.simps [of E hs] merkle_root.simps [of E hs'])
    qed (use True True' dist in \<open>auto dest: arg_cong [where f = length]\<close>)
    then show ?thesis by (rule merkle_level_inj [OF inj sub(1,3) less.prems(7,8)])
  next
    case False
    with len less.prems show ?thesis
      by (cases hs; cases hs') (simp_all add: merkle_root.simps)
  qed
qed

section \<open>What the root commits to\<close>

lemma leaves_height:
  "root_messages E s \<subseteq> M \<Longrightarrow> \<forall>h\<in>set (map (leaf_hash E) (balances s)). at_height E M 0 h"
  by (auto simp: root_messages_def leaf_hash_message intro: at_height.leaf)

lemma leaves_inj_on: "inj_on (hash E) M \<Longrightarrow> leaf_message ` A \<subseteq> M \<Longrightarrow> inj_on (leaf_hash E) A"
  by (rule inj_onI, rule leaf_message_inj, rule inj_onD [of "hash E" M]) (auto simp: leaf_hash_message)

lemma merkle_root_hashed:
  assumes "root_messages E s \<subseteq> M" and "balances s \<noteq> []"
  shows "\<exists>m\<in>M. merkle_root E (map (leaf_hash E) (balances s)) = hash E m"
proof -
  obtain j where "at_height E M (0 + j) (merkle_root E (map (leaf_hash E) (balances s)))"
    using merkle_root_height [OF _ _ leaves_height [OF assms(1)]] assms by (auto simp: root_messages_def)
  then show ?thesis by (cases rule: at_height.cases) auto
qed

lemma state_root_binding:
  assumes wf: "state_wf s" "state_wf s'"
    and inj: "inj_on (hash E) (root_messages E s \<union> root_messages E s')"
    and zero: "0 \<notin> hash E ` (root_messages E s \<union> root_messages E s')"
    and eq: "compute_state_root E s = compute_state_root E s'"
  shows "balances s = balances s'"
proof -
  let ?M = "root_messages E s \<union> root_messages E s'"
  let ?leaves = "\<lambda>s. map (leaf_hash E) (balances s)"
  have roots: "merkle_root E (?leaves s) = merkle_root E (?leaves s')"
    using eq wf by (simp add: compute_state_root_wf)
  have empty: "merkle_root E [] = 0" by (simp add: merkle_root.simps)
  have nonzero: "merkle_root E (?leaves t) \<noteq> 0" if "root_messages E t \<subseteq> ?M" "balances t \<noteq> []" for t
    using merkle_root_hashed [OF that] zero by force
  show ?thesis
  proof (cases "balances s = [] \<or> balances s' = []")
    case True
    then show ?thesis using nonzero [of s] nonzero [of s'] roots empty by (metis Un_upper1 Un_upper2 list.map_disc_iff)
  next
    case False
    have sub: "set (balances s) \<subseteq> set (balances s) \<union> set (balances s')"
      "set (balances s') \<subseteq> set (balances s) \<union> set (balances s')" by auto
    have leaf: "inj_on (leaf_hash E) (set (balances s) \<union> set (balances s'))"
      by (rule leaves_inj_on [OF inj]) (auto simp: root_messages_def)
    have dist: "distinct (?leaves s)" "distinct (?leaves s')"
      using wf inj_on_subset [OF leaf sub(1)] inj_on_subset [OF leaf sub(2)]
      by (simp_all add: distinct_map state_wf_def bt_wf_def strict_sorted_iff)
    have "?leaves s = ?leaves s'"
      using False by (intro merkle_root_inj [OF inj _ _ _ _ leaves_height leaves_height dist roots])
        (auto simp: root_messages_def)
    then show ?thesis using leaf by (simp add: inj_on_map_eq_map)
  qed
qed

text \<open>
  C14: the state root commits to the balances. Two well-formed states with the same root have the
  same balances, unless two of the messages hashed for the two roots have the same digest or one
  of them has the digest zero (the root of the empty state). In particular neither the repetition of the
  last hash of an odd level nor trees of different depth can be confused.
\<close>

theorem state_root_commits_to_balances:
  assumes "state_wf s" and "state_wf s'"
    and "inj_on (hash E) (root_messages E s \<union> root_messages E s')"
    and "0 \<notin> hash E ` (root_messages E s \<union> root_messages E s')"
  shows "compute_state_root E s = compute_state_root E s' \<longleftrightarrow> balances s = balances s'"
  using assms state_root_binding compute_state_root_def by metis

definition demo_one :: State where
  "demo_one = State_new\<lparr>balances := [(demo_key 1, 5)]\<rparr>"

definition demo_two :: State where
  "demo_two = State_new\<lparr>balances := [(demo_key 1, 5), (demo_key 2, 7)]\<rparr>"

lemma demo_digests:
  "hash demo (leaf_message (demo_key 1, 5)) = word_of_nat (1 + 2 ^ 121 + 2 ^ 128 * (2 ^ 64 + 5))"
  "hash demo (leaf_message (demo_key 2, 7)) = word_of_nat (1 + 2 ^ 121 + 2 ^ 128 * (2 ^ 65 + 7))"
  "hash demo (node_message l r) = word_of_nat (1 + unat l div 2 ^ 128 + 2 ^ 128 * (unat r mod 2 ^ 128))"
  by (simp_all add: hash_def leaf_message_def node_message_def demo_digest_leaf demo_digest_node)

lemma demo_root_messages:
  "root_messages demo demo_one = {leaf_message (demo_key 1, 5)}"
  "root_messages demo demo_two = {leaf_message (demo_key 1, 5), leaf_message (demo_key 2, 7),
     node_message (hash demo (leaf_message (demo_key 1, 5))) (hash demo (leaf_message (demo_key 2, 7)))}"
  by (auto simp: root_messages_def demo_one_def demo_two_def State_new_def tree_messages.simps leaf_hash_message)

theorem state_root_commits_to_balances_witness:
  "compute_state_root demo demo_one \<noteq> compute_state_root demo demo_two"
proof -
  have wf: "state_wf demo_one" "state_wf demo_two"
    by (simp_all add: demo_one_def demo_two_def State_new_def state_wf_def bt_wf_def)
  have inj: "inj_on (hash demo) (root_messages demo demo_one \<union> root_messages demo demo_two)"
    unfolding inj_on_def by (simp add: demo_root_messages demo_digests)
  have "0 \<notin> hash demo ` (root_messages demo demo_one \<union> root_messages demo demo_two)"
    by (simp add: demo_root_messages demo_digests)
  then show ?thesis
    using state_root_commits_to_balances [OF wf inj] by (simp add: demo_one_def demo_two_def)
qed

end
