(* ===== verification/StateCodec.thy ===== *)
theory StateCodec
  imports Ledger
begin

text \<open>
  The byte encoding of states (\<open>ToBytes\<close> and \<open>FromBytes\<close> of \<open>rp-core/src/state.rs\<close>), which
  snapshots are stored in. The reader keeps the index \<open>i\<close> of the code. Its one panic is
  \<open>Vec::with_capacity\<close> on a length that it has just read: the allocation is refused when the
  vector would exceed \<open>isize::MAX\<close> bytes (16 bytes per request, 64-bit \<open>usize\<close>); running out of memory
  on a smaller request is not modelled.
\<close>

section \<open>Writing\<close>

definition write_u64_map :: "(PublicKeyBytes, u64) btree_map \<Rightarrow> byte_vec" where
  "write_u64_map m =
     to_be 8 (word_of_nat (length m) :: u64) @ concat (map (\<lambda>(k, v). to_be PUBLIC_KEY_SIZE k @ to_be 8 v) m)"

definition write_request :: "UnstakeRequest \<Rightarrow> byte_vec" where
  "write_request req = to_be 8 (amount req) @ to_be 8 (unlock_slot req)"

definition write_requests :: "PublicKeyBytes \<times> UnstakeRequest list \<Rightarrow> byte_vec" where
  "write_requests e = to_be PUBLIC_KEY_SIZE (fst e) @ to_be 8 (word_of_nat (length (snd e)) :: u64)
     @ concat (map write_request (snd e))"

definition State_to_bytes :: "State \<Rightarrow> byte_vec" where
  "State_to_bytes s =
     write_u64_map (balances s) @ write_u64_map (nonces s) @ write_u64_map (stakes s)
     @ to_be 8 (word_of_nat (length (unstaking s)) :: u64) @ concat (map write_requests (unstaking s))"

section \<open>Reading\<close>

definition read_u64 :: "byte_vec \<Rightarrow> nat \<Rightarrow> (string, u64 \<times> nat) result" where
  "read_u64 bytes i =
     (if i + 8 > length bytes then Inl ''Unexpected EOF reading u64''
      else Inr (from_be (take 8 (drop i bytes)), i + 8))"

definition read_key :: "byte_vec \<Rightarrow> nat \<Rightarrow> (string, PublicKeyBytes \<times> nat) result" where
  "read_key bytes i =
     (if i + PUBLIC_KEY_SIZE > length bytes then Inl ''Unexpected EOF reading key''
      else Inr (from_be (take PUBLIC_KEY_SIZE (drop i bytes)), i + PUBLIC_KEY_SIZE))"

fun read_entries ::
  "byte_vec \<Rightarrow> nat \<Rightarrow> nat \<Rightarrow> (PublicKeyBytes, u64) btree_map
    \<Rightarrow> (string, (PublicKeyBytes, u64) btree_map \<times> nat) result" where
  "read_entries bytes i 0 m = Inr (m, i)"
| "read_entries bytes i (Suc n) m =
     (case read_key bytes i of
        Inl e \<Rightarrow> Inl e
      | Inr (k, i1) \<Rightarrow>
          (case read_u64 bytes i1 of
             Inl e \<Rightarrow> Inl e
           | Inr (v, i2) \<Rightarrow> read_entries bytes i2 n (bt_insert k v m)))"

definition read_u64_map ::
  "byte_vec \<Rightarrow> nat \<Rightarrow> (string, (PublicKeyBytes, u64) btree_map \<times> nat) result" where
  "read_u64_map bytes i =
     (case read_u64 bytes i of
        Inl e \<Rightarrow> Inl e
      | Inr (len, i1) \<Rightarrow> read_entries bytes i1 (unat len) [])"

fun read_requests ::
  "byte_vec \<Rightarrow> nat \<Rightarrow> nat \<Rightarrow> UnstakeRequest list \<Rightarrow> (string, UnstakeRequest list \<times> nat) result" where
  "read_requests bytes i 0 acc = Inr (acc, i)"
| "read_requests bytes i (Suc n) acc =
     (case read_u64 bytes i of
        Inl e \<Rightarrow> Inl e
      | Inr (amt, i1) \<Rightarrow>
          (case read_u64 bytes i1 of
             Inl e \<Rightarrow> Inl e
           | Inr (unlock, i2) \<Rightarrow>
               read_requests bytes i2 n (acc @ [\<lparr>amount = amt, unlock_slot = unlock\<rparr>])))"

definition with_capacity :: "u64 \<Rightarrow> unit exec" where
  "with_capacity n = (if unat n * 16 \<le> 2 ^ 63 - 1 then Some () else None)"

fun read_unstaking ::
  "byte_vec \<Rightarrow> nat \<Rightarrow> nat \<Rightarrow> (PublicKeyBytes, UnstakeRequest list) btree_map
    \<Rightarrow> (string, (PublicKeyBytes, UnstakeRequest list) btree_map \<times> nat) result exec" where
  "read_unstaking bytes i 0 m = Some (Inr (m, i))"
| "read_unstaking bytes i (Suc n) m =
     (case read_key bytes i of
        Inl e \<Rightarrow> Some (Inl e)
      | Inr (k, i1) \<Rightarrow>
          (case read_u64 bytes i1 of
             Inl e \<Rightarrow> Some (Inl e)
           | Inr (req_len, i2) \<Rightarrow> do {
               with_capacity req_len;
               case read_requests bytes i2 (unat req_len) [] of
                 Inl e \<Rightarrow> Some (Inl e)
               | Inr (requests, i3) \<Rightarrow> read_unstaking bytes i3 n (bt_insert k requests m) }))"

definition State_from_bytes :: "byte_vec \<Rightarrow> (string, State) result exec" where
  "State_from_bytes bytes =
     (case read_u64_map bytes 0 of
        Inl e \<Rightarrow> Some (Inl e)
      | Inr (bal, i1) \<Rightarrow>
     (case read_u64_map bytes i1 of
        Inl e \<Rightarrow> Some (Inl e)
      | Inr (non, i2) \<Rightarrow>
     (case read_u64_map bytes i2 of
        Inl e \<Rightarrow> Some (Inl e)
      | Inr (stk, i3) \<Rightarrow>
     (case read_u64 bytes i3 of
        Inl e \<Rightarrow> Some (Inl e)
      | Inr (unstaking_len, i4) \<Rightarrow> do {
          r \<leftarrow> read_unstaking bytes i4 (unat unstaking_len) [];
          case r of
            Inl e \<Rightarrow> Some (Inl e)
          | Inr (uns, _) \<Rightarrow>
              Some (Inr \<lparr>balances = bal, nonces = non, stakes = stk, unstaking = uns\<rparr>) }))))"

section \<open>Reading back what was written\<close>

lemma read_u64_at: "read_u64 (pre @ to_be 8 v @ suf) (length pre) = Inr (v, length pre + 8)"
  by (simp add: read_u64_def)

lemma read_key_at: "read_key (pre @ to_be PUBLIC_KEY_SIZE k @ suf) (length pre) = Inr (k, length pre + PUBLIC_KEY_SIZE)"
  by (simp add: read_key_def PUBLIC_KEY_SIZE_def)

lemma bt_insert_last: "\<forall>x\<in>set (map fst m). x < k \<Longrightarrow> bt_insert k v m = m @ [(k, v)]"
  by (induction k v m rule: bt_insert.induct) auto

lemma bt_insert_snoc: "bt_wf (acc @ (k, v) # m) \<Longrightarrow> bt_insert k v acc = acc @ [(k, v)]"
  by (rule bt_insert_last) (auto simp: bt_wf_def sorted_wrt_append)

lemma read_entries_at:
  "bt_wf (acc @ m) \<Longrightarrow>
   read_entries (pre @ concat (map (\<lambda>(k, v). to_be PUBLIC_KEY_SIZE k @ to_be 8 v) m) @ suf) (length pre) (length m) acc
     = Inr (acc @ m, length pre + 41 * length m)"
proof (induction m arbitrary: pre acc)
  case (Cons e m)
  obtain k v where e: "e = (k, v)" by (cases e)
  let ?rest = "concat (map (\<lambda>(k, v). to_be PUBLIC_KEY_SIZE k @ to_be 8 v) m) @ suf"
  let ?pre1 = "pre @ to_be PUBLIC_KEY_SIZE k"
  let ?pre2 = "?pre1 @ to_be 8 v"
  have "read_entries (?pre2 @ ?rest) (length ?pre2) (length m) (acc @ [(k, v)])
      = Inr ((acc @ [(k, v)]) @ m, length ?pre2 + 41 * length m)"
    by (rule Cons.IH) (use Cons.prems e in simp)
  then show ?case
    using read_key_at [of pre k "to_be 8 v @ ?rest"] read_u64_at [of ?pre1 v ?rest]
      bt_insert_snoc [of acc k v m] Cons.prems
    by (simp add: e PUBLIC_KEY_SIZE_def ac_simps)
qed simp

lemma read_u64_map_at:
  assumes "bt_wf m" and "length m < 2 ^ 64"
  shows "read_u64_map (pre @ write_u64_map m @ suf) (length pre) = Inr (m, length pre + length (write_u64_map m))"
proof -
  let ?body = "concat (map (\<lambda>(k, v). to_be PUBLIC_KEY_SIZE k @ to_be 8 v) m)"
  have "unat (word_of_nat (length m) :: u64) = length m"
    using assms(2) by (simp add: unat_of_nat)
  moreover have "length ?body = 41 * length m"
    by (induction m) (auto simp: PUBLIC_KEY_SIZE_def)
  ultimately show ?thesis
    using read_entries_at [of "[]" m "pre @ to_be 8 (word_of_nat (length m) :: u64)" suf] assms(1)
      read_u64_at [of pre "word_of_nat (length m)" "?body @ suf"]
    by (simp add: read_u64_map_def write_u64_map_def)
qed

lemma request_eta: "\<lparr>amount = amount r, unlock_slot = unlock_slot r\<rparr> = r"
  by simp

lemma read_requests_at:
  "read_requests (pre @ concat (map write_request rs) @ suf) (length pre) (length rs) acc
     = Inr (acc @ rs, length pre + length (concat (map write_request rs)))"
proof (induction rs arbitrary: pre acc)
  case (Cons r rs)
  let ?rest = "concat (map write_request rs) @ suf"
  have "read_requests ((pre @ write_request r) @ ?rest) (length (pre @ write_request r)) (length rs) (acc @ [r])
      = Inr ((acc @ [r]) @ rs, length (pre @ write_request r) + length (concat (map write_request rs)))"
    by (rule Cons.IH)
  then show ?case
    using read_u64_at [of pre "amount r" "to_be 8 (unlock_slot r) @ ?rest"]
      read_u64_at [of "pre @ to_be 8 (amount r)" "unlock_slot r" ?rest]
    by (simp add: write_request_def [of r] request_eta ac_simps)
qed simp

definition state_sized :: "State \<Rightarrow> bool" where
  "state_sized s \<longleftrightarrow> length (balances s) < 2 ^ 64 \<and> length (nonces s) < 2 ^ 64 \<and> length (stakes s) < 2 ^ 64
     \<and> length (unstaking s) < 2 ^ 64 \<and> (\<forall>e\<in>set (unstaking s). length (snd e) * 16 \<le> 2 ^ 63 - 1)"

lemma read_unstaking_at:
  "bt_wf (acc @ m) \<Longrightarrow> \<forall>e\<in>set m. length (snd e) * 16 \<le> 2 ^ 63 - 1 \<Longrightarrow>
   \<exists>j. read_unstaking (pre @ concat (map write_requests m) @ suf) (length pre) (length m) acc = Some (Inr (acc @ m, j))"
proof (induction m arbitrary: pre acc)
  case (Cons e m)
  obtain k rs where e: "e = (k, rs)" by (cases e)
  let ?rest = "concat (map write_requests m) @ suf"
  let ?len = "word_of_nat (length rs) :: u64"
  let ?pre1 = "pre @ to_be PUBLIC_KEY_SIZE k"
  let ?pre2 = "?pre1 @ to_be 8 ?len"
  let ?pre3 = "?pre2 @ concat (map write_request rs)"
  have len: "unat ?len = length rs" and cap: "with_capacity ?len = Some ()"
    using Cons.prems(2) e by (simp_all add: unat_of_nat with_capacity_def)
  obtain j where "read_unstaking (?pre3 @ ?rest) (length ?pre3) (length m) (acc @ [(k, rs)])
      = Some (Inr ((acc @ [(k, rs)]) @ m, j))"
    using Cons.IH [of "acc @ [(k, rs)]" ?pre3] Cons.prems e by auto
  then show ?case
    using read_key_at [of pre k "to_be 8 ?len @ concat (map write_request rs) @ ?rest"]
      read_u64_at [of ?pre1 ?len "concat (map write_request rs) @ ?rest"]
      read_requests_at [of ?pre2 rs ?rest "[]"] bt_insert_snoc [of acc k rs m] Cons.prems(1) len cap
    by (intro exI [of _ j]) (simp add: e write_requests_def [of "(k, rs)"] ac_simps)
qed simp

lemma state_bytes_decode:
  assumes "state_wf s" and "state_sized s"
  shows "State_from_bytes (State_to_bytes s @ suf) = Some (Inr s)"
proof -
  let ?n = "word_of_nat (length (unstaking s)) :: u64"
  let ?body = "to_be 8 ?n @ concat (map write_requests (unstaking s)) @ suf"
  let ?p1 = "write_u64_map (balances s)"
  let ?p2 = "?p1 @ write_u64_map (nonces s)"
  let ?p3 = "?p2 @ write_u64_map (stakes s)"
  have wf: "bt_wf (balances s)" "bt_wf (nonces s)" "bt_wf (stakes s)" "bt_wf (unstaking s)"
    using assms(1) by (simp_all add: state_wf_def)
  have n: "unat ?n = length (unstaking s)"
    using assms(2) by (simp add: unat_of_nat state_sized_def)
  obtain j where "read_unstaking (State_to_bytes s @ suf) (length (?p3 @ to_be 8 ?n)) (length (unstaking s)) []
      = Some (Inr (unstaking s, j))"
    using read_unstaking_at [of "[]" "unstaking s" "?p3 @ to_be 8 ?n" suf] wf(4) assms(2)
    by (auto simp: State_to_bytes_def state_sized_def)
  then show ?thesis
    using read_u64_map_at [OF wf(1), of "[]" "write_u64_map (nonces s) @ write_u64_map (stakes s) @ ?body"]
      read_u64_map_at [OF wf(2), of ?p1 "write_u64_map (stakes s) @ ?body"]
      read_u64_map_at [OF wf(3), of ?p2 ?body] assms(2)
      read_u64_at [of ?p3 ?n "concat (map write_requests (unstaking s)) @ suf"] n
    by (simp add: State_from_bytes_def state_sized_def State_to_bytes_def ac_simps)
qed

text \<open>
  C15: snapshots round trip. \<open>from_bytes\<close> applied to what \<open>to_bytes\<close> wrote returns the
  state itself, without an error and without a panic. Bytes after the encoding are
  ignored. The hypotheses hold for every state a program can hold in memory.
\<close>

theorem state_bytes_roundtrip:
  assumes "state_wf s" and "state_sized s"
  shows "State_from_bytes (State_to_bytes s @ suf) = Some (Inr s)"
  using assms by (rule state_bytes_decode)

theorem state_bytes_roundtrip_witness:
  "State_from_bytes (State_to_bytes demo_state @ [9]) = Some (Inr demo_state)"
  by (rule state_bytes_roundtrip [OF state_wf_demo]) (simp add: state_sized_def demo_state_def)

section \<open>Reading arbitrary bytes\<close>

lemma read_entries_wf: "read_entries bytes i n m = Inr (m', j) \<Longrightarrow> bt_wf m \<Longrightarrow> bt_wf m'"
  by (induction bytes i n m rule: read_entries.induct)
     (auto simp: bt_wf_insert split: sum.splits prod.splits)

lemma read_u64_map_wf: "read_u64_map bytes i = Inr (m, j) \<Longrightarrow> bt_wf m"
  by (auto simp: read_u64_map_def split: sum.splits prod.splits dest: read_entries_wf)

lemma read_unstaking_wf: "read_unstaking bytes i n m = Some (Inr (m', j)) \<Longrightarrow> bt_wf m \<Longrightarrow> bt_wf m'"
  by (induction bytes i n m rule: read_unstaking.induct)
     (auto simp: bt_wf_insert bind_Some_iff split: sum.splits prod.splits)

lemma State_from_bytes_wf: "State_from_bytes bytes = Some (Inr s) \<Longrightarrow> state_wf s"
  using read_u64_map_wf read_unstaking_wf [OF _ bt_wf_Nil]
  unfolding State_from_bytes_def state_wf_def
  by (auto elim!: bind_eq_SomeE split: sum.split_asm prod.split_asm)

text \<open>
  A corrupt length makes the reader panic. On these 73 bytes (three empty maps, one account,
  a request count of \<open>2 ^ 64 - 1\<close>) \<open>from_bytes\<close> does not return the error "Unexpected EOF": the
  capacity that it asks for before reading the requests is refused.
\<close>

theorem state_from_bytes_capacity_panic:
  "State_from_bytes (replicate 24 0 @ to_be 8 (1 :: u64) @ to_be 33 (0 :: bytes33) @ to_be 8 (- 1 :: u64)) = None"
proof -
  let ?key = "to_be PUBLIC_KEY_SIZE (0 :: bytes33)"
  let ?max = "to_be 8 (- 1 :: u64)"
  let ?one = "to_be 8 (1 :: u64)"
  have zeros: "replicate 24 (0 :: u8) = write_u64_map [] @ write_u64_map [] @ write_u64_map []"
    by (simp add: write_u64_map_def to_be_zero replicate_add [symmetric])
  have m: "length (write_u64_map []) = 8" by (simp add: write_u64_map_def)
  have max: "unat (- 1 :: u64) = 2 ^ 64 - 1"
    by (simp add: unsigned_minus_1_eq_mask mask_eq_exp_minus_1)
  have "with_capacity (- 1) = None"
    by (simp only: with_capacity_def max) simp
  then show ?thesis
    using read_u64_map_at [of "[]" "[]" "write_u64_map [] @ write_u64_map [] @ ?one @ ?key @ ?max"]
      read_u64_map_at [of "[]" "write_u64_map []" "write_u64_map [] @ ?one @ ?key @ ?max"]
      read_u64_map_at [of "[]" "write_u64_map [] @ write_u64_map []" "?one @ ?key @ ?max"]
      read_u64_at [of "write_u64_map [] @ write_u64_map [] @ write_u64_map []" 1 "?key @ ?max"]
      read_key_at [of "write_u64_map [] @ write_u64_map [] @ write_u64_map [] @ ?one" 0 ?max]
      read_u64_at [of "write_u64_map [] @ write_u64_map [] @ write_u64_map [] @ ?one @ ?key" "- 1" "[]"]
    unfolding zeros by (simp add: State_from_bytes_def m PUBLIC_KEY_SIZE_def)
qed

end
