(* ===== verification/CoreChain.thy ===== *)
theory CoreChain
  imports Selection StateRoot StateCodec "HOL-Library.Product_Lexorder"
begin

text \<open>
  Block validation and fork choice (\<open>rp-core/src/blockchain.rs\<close>). The two loops of
  \<open>validate_and_apply_block\<close> are \<open>apply_txs\<close> and \<open>apply_slashes\<close>.
\<close>

fun apply_txs ::
  "('vk, 'sig, 'z) crypto_scheme \<Rightarrow> u64 \<Rightarrow> State \<Rightarrow> ('vk, 'sig) Transaction list \<Rightarrow> (BlockError, State) result exec"
where
  "apply_txs E current_slot s [] = Some (Inr s)"
| "apply_txs E current_slot s (tx # txs) =
     (if \<not> is_valid_tx E s tx then Some (Inl InvalidTransaction)
      else do { s' \<leftarrow> apply_tx E s tx current_slot; apply_txs E current_slot s' txs })"

fun apply_slashes ::
  "('vk, 'sig, 'z) crypto_scheme \<Rightarrow> State \<Rightarrow> ('vk, 'sig) SlashProof list \<Rightarrow> (BlockError, State) result"
where
  "apply_slashes E s [] = Inr s"
| "apply_slashes E s (p # ps) =
     (case apply_slash E s p of
        Inl e \<Rightarrow> Inl (InvalidSlashProof e)
      | Inr s' \<Rightarrow> apply_slashes E s' ps)"

definition validate_and_apply_block ::
  "('vk, 'sig, 'z) crypto_scheme \<Rightarrow> ('vk, 'sig) Block \<Rightarrow> State \<Rightarrow> ('vk, 'sig) Block
    \<Rightarrow> (BlockError, State) result exec" where
  "validate_and_apply_block E parent_block parent_state b =
     (if \<not> block_is_valid E b then Some (Inl InvalidSignature)
      else do {
        next_height \<leftarrow> add_u64 (overflow_checks E) (height parent_block) 1;
        if height b \<noteq> next_height then Some (Inl InvalidHeight)
        else if slot b \<le> slot parent_block then Some (Inl InvalidSlot)
        else do {
          expected \<leftarrow> get_expected_validator E parent_state (height b);
          if (case expected of Some v \<Rightarrow> validator b \<noteq> v | None \<Rightarrow> False)
          then Some (Inl InvalidValidator)
          else do {
            r \<leftarrow> apply_txs E (slot b) parent_state (transactions b);
            case r of
              Inl e \<Rightarrow> Some (Inl e)
            | Inr s1 \<Rightarrow>
                (case apply_slashes E s1 (slash_proofs b) of
                   Inl e \<Rightarrow> Some (Inl e)
                 | Inr s2 \<Rightarrow>
                     (if state_root b \<noteq> compute_state_root E s2 then Some (Inl InvalidStateRoot)
                      else Some (Inr s2))) }}})"

definition should_replace_head :: "bytes32 \<Rightarrow> ('vk, 'sig) Block \<Rightarrow> ('vk, 'sig) Block \<Rightarrow> bytes32 \<Rightarrow> bool" where
  "should_replace_head candidate_hash candidate_block current_head head_hash =
     (if height candidate_block \<noteq> height current_head then height current_head < height candidate_block
      else if slot candidate_block \<noteq> slot current_head then slot current_head < slot candidate_block
      else head_hash < candidate_hash)"

section \<open>What an accepted block has passed\<close>

definition block_accepted ::
  "('vk, 'sig, 'z) crypto_scheme \<Rightarrow> ('vk, 'sig) Block \<Rightarrow> State \<Rightarrow> ('vk, 'sig) Block \<Rightarrow> State \<Rightarrow> bool" where
  "block_accepted E parent s b s' \<longleftrightarrow> validate_and_apply_block E parent s b = Some (Inr s')"

lemma block_acceptedD:
  assumes "block_accepted E parent s b s'"
  obtains expected s1 where "block_is_valid E b" and "height b = height parent + 1" and "slot parent < slot b"
    and "overflow_checks E \<longrightarrow> unat (height parent) + 1 < 2 ^ 64"
    and "get_expected_validator E s (height b) = Some expected" and "\<forall>v. expected = Some v \<longrightarrow> validator b = v"
    and "apply_txs E (slot b) s (transactions b) = Some (Inr s1)"
    and "apply_slashes E s1 (slash_proofs b) = Inr s'" and "state_root b = compute_state_root E s'"
  using assms
  by (auto simp: block_accepted_def validate_and_apply_block_def arith_defs elim!: bind_eq_SomeE
      split: if_split_asm sum.split_asm option.split_asm)

abbreviation of_sender :: "('vk, 'sig, 'z) crypto_scheme \<Rightarrow> PublicKeyBytes \<Rightarrow> ('vk, 'sig) Transaction \<Rightarrow> bool" where
  "of_sender E k tx \<equiv> verifying_key_to_bytes E (sender tx) = k"

lemma apply_txs_sequences:
  "apply_txs E current_slot s txs = Some (Inr s') \<Longrightarrow>
   map sequence (filter (of_sender E k) txs)
     = map (\<lambda>i. bt_get_or 0 (nonces s) k + word_of_nat i) [0..<length (filter (of_sender E k) txs)]"
proof (induction txs arbitrary: s)
  case (Cons tx txs)
  then obtain s1 where valid: "is_valid_tx E s tx" and s1: "apply_tx E s tx current_slot = Some s1"
    and rest: "apply_txs E current_slot s1 txs = Some (Inr s')"
    by (auto simp: bind_Some_iff split: if_splits)
  show ?case
  proof (cases "of_sender E k tx")
    case True
    then show ?thesis
      using Cons.IH [OF rest] is_valid_tx_sequence [OF valid] apply_tx_get_nonce [OF s1, of k]
      by (simp add: get_nonce_def upt_conv_Cons map_Suc_upt [symmetric] add.assoc del: upt_Suc map_Suc_upt)
  next
    case False
    then show ?thesis
      using Cons.IH [OF rest] apply_tx_get_nonce [OF s1, of k] by simp
  qed
qed simp

section \<open>Transactions of a block\<close>

text \<open>
  C3: no replay and no gap. In a block that \<open>validate_and_apply_block\<close> accepts, the
  transactions of one sender carry, in the order of the block, the consecutive sequence numbers that
  start at the sender's nonce in the parent state. So no transaction of an earlier block of
  the chain can be applied again, and none can be applied twice or out of order.
\<close>

theorem accepted_block_sequences:
  assumes "validate_and_apply_block E parent s b = Some (Inr s')"
  shows "map sequence (filter (of_sender E k) (transactions b))
    = map (\<lambda>i. bt_get_or 0 (nonces s) k + word_of_nat i) [0..<length (filter (of_sender E k) (transactions b))]"
proof -
  obtain s1 where "apply_txs E (slot b) s (transactions b) = Some (Inr s1)"
    using assms by (auto simp: block_accepted_def [symmetric] elim: block_acceptedD)
  then show ?thesis by (rule apply_txs_sequences)
qed

section \<open>Validation returns and conserves the supply\<close>

lemma weight_map_filter:
  "(\<And>k st x. f (k, st) = Some x \<Longrightarrow> fst x = st) \<Longrightarrow> weight (List.map_filter f xs) \<le> coins xs"
proof (induction xs)
  case (Cons e xs)
  obtain k st where e: "e = (k, st)" by (cases e)
  have "weight (List.map_filter f xs) \<le> coins xs" by (rule Cons.IH) (rule Cons.prems)
  then show ?case using Cons.prems [of k st] e by (cases "f (k, st)") (simp_all add: List.map_filter_simps)
qed (simp add: List.map_filter_simps)

lemma weight_valid_le: "weight (valid_stakes E s) \<le> coins (stakes s)"
  unfolding valid_stakes_def by (rule weight_map_filter) (auto split: sum.splits)

lemma get_expected_validator_returns:
  assumes "weight (valid_stakes E s) < 2 ^ 64"
  shows "\<exists>r. get_expected_validator E s h = Some r"
proof (cases "0 < weight (valid_stakes E s)")
  case True
  then show ?thesis using expected_validator_returned assms by blast
next
  case False
  then have zero: "weight (valid_stakes E s) = 0" by (simp only: not_gr_zero)
  obtain t where t: "sum_u64 (overflow_checks E) 0 (map fst (valid_stakes E s)) = Some t"
    and "unat t = weight (valid_stakes E s)"
    using sum_u64_exact [of 0 "map fst (valid_stakes E s)" "overflow_checks E"] assms
    by (auto simp: comp_def simp del: sum_list_eq_0_iff)
  then have "t = 0" using zero by (simp only: unat_eq_zero)
  with t show ?thesis by (simp add: get_expected_validator_def)
qed

definition block_in_range :: "State \<Rightarrow> ('vk, 'sig) Block \<Rightarrow> ('vk, 'sig) Block \<Rightarrow> bool" where
  "block_in_range s parent b \<longleftrightarrow>
     unat (height parent) + 1 < 2 ^ 64 \<and> unat (slot b) + 64 < 2 ^ 64 \<and>
     (\<forall>e\<in>set (nonces s). unat (snd e) + length (transactions b) < 2 ^ 64) \<and> length (transactions b) < 2 ^ 64"

lemma apply_txs_total:
  assumes "state_wf s" and "total_supply s < 2 ^ 64" and "unat current_slot + 64 < 2 ^ 64"
    and "\<And>k. unat (bt_get_or 0 (nonces s) k) + length txs < 2 ^ 64"
  shows "\<exists>r. apply_txs E current_slot s txs = Some r \<and> (\<forall>s'. r = Inr s' \<longrightarrow> state_wf s' \<and>
    (if \<exists>tx\<in>set txs. is_slash tx then total_supply s' \<le> total_supply s else total_supply s' = total_supply s))"
  using assms
proof (induction txs arbitrary: s)
  case (Cons tx txs)
  show ?case
  proof (cases "is_valid_tx E s tx")
    case True
    have "unat (get_nonce E s (sender tx)) + 1 < 2 ^ 64"
      using Cons.prems(4) [of "verifying_key_to_bytes E (sender tx)"] by (simp add: get_nonce_def)
    then obtain s1 where s1: "apply_tx E s tx current_slot = Some s1" "state_wf s1"
      "if is_slash tx then total_supply s1 \<le> total_supply s else total_supply s1 = total_supply s"
      using apply_tx_total [OF Cons.prems(1) True Cons.prems(2), of current_slot] Cons.prems(3)
      by (auto simp: tx_in_range_def)
    have "unat (bt_get_or 0 (nonces s1) k) + length txs < 2 ^ 64" for k
    proof (cases "of_sender E k tx")
      case sender: True
      have nonce: "unat (get_nonce E s (sender tx)) + unat (1 :: u64) < 2 ^ 64"
        using \<open>unat (get_nonce E s (sender tx)) + 1 < 2 ^ 64\<close> by simp
      show ?thesis
        using apply_tx_get_nonce [OF s1(1), of k] sender Cons.prems(4) [of k]
          unat_add_u64_no_overflow [OF nonce]
        by (simp add: get_nonce_def)
    next
      case False
      then show ?thesis
        using apply_tx_get_nonce [OF s1(1), of k] Cons.prems(4) [of k] by simp
    qed
    moreover have "total_supply s1 < 2 ^ 64"
      using s1(3) Cons.prems(2) by (simp split: if_splits)
    ultimately obtain r where r: "apply_txs E current_slot s1 txs = Some r"
      "\<forall>s'. r = Inr s' \<longrightarrow> state_wf s' \<and>
        (if \<exists>tx\<in>set txs. is_slash tx then total_supply s' \<le> total_supply s1 else total_supply s' = total_supply s1)"
      using Cons.IH [OF s1(2) _ Cons.prems(3)] by blast
    with s1 True show ?thesis by (auto split: if_splits)
  qed simp
qed simp

lemma apply_slashes_supply:
  "apply_slashes E s ps = Inr s' \<Longrightarrow> state_wf s \<Longrightarrow>
   state_wf s' \<and> total_supply s' \<le> total_supply s \<and> (ps = [] \<longrightarrow> s' = s)"
proof (induction ps arbitrary: s)
  case (Cons p ps)
  then obtain s1 where s1: "apply_slash E s p = Inr s1" "apply_slashes E s1 ps = Inr s'"
    by (auto split: sum.splits)
  then show ?case
    using Cons.IH [OF s1(2)] apply_slash_wf [OF s1(1) Cons.prems(2)]
      apply_slash_supply [OF s1(1) Cons.prems(2)] by auto
qed simp

lemma validate_total:
  assumes "state_wf s" and "total_supply s < 2 ^ 64" and "block_in_range s parent b"
  shows "\<exists>r. validate_and_apply_block E parent s b = Some r \<and> (\<forall>s'. r = Inr s' \<longrightarrow>
    state_wf s' \<and> total_supply s' \<le> total_supply s \<and>
    (slash_proofs b = [] \<longrightarrow> (\<forall>tx\<in>set (transactions b). \<not> is_slash tx) \<longrightarrow> total_supply s' = total_supply s))"
proof -
  have nonces: "unat (bt_get_or 0 (nonces s) k) + length (transactions b) < 2 ^ 64" for k
    using assms(3) by (auto simp: block_in_range_def bt_get_or_def split: option.splits dest!: map_of_SomeD)
  obtain r1 where r1: "apply_txs E (slot b) s (transactions b) = Some r1" "\<forall>s'. r1 = Inr s' \<longrightarrow> state_wf s' \<and>
      (if \<exists>tx\<in>set (transactions b). is_slash tx then total_supply s' \<le> total_supply s else total_supply s' = total_supply s)"
    using apply_txs_total [OF assms(1,2) _ nonces] assms(3) unfolding block_in_range_def by blast
  have "weight (valid_stakes E s) < 2 ^ 64"
    using weight_valid_le [of E s] assms(2) by (simp add: total_supply_def)
  then obtain expected where expected: "get_expected_validator E s (height parent + 1) = Some expected"
    using get_expected_validator_returns by blast
  have next_height: "add_u64 (overflow_checks E) (height parent) 1 = Some (height parent + 1)"
    using assms(3) by (simp add: block_in_range_def add_u64_exact)
  have "\<exists>r. validate_and_apply_block E parent s b = Some r"
    by (simp add: validate_and_apply_block_def next_height expected r1(1) split: sum.split)
  then obtain r where r: "validate_and_apply_block E parent s b = Some r" ..
  have "state_wf s' \<and> total_supply s' \<le> total_supply s \<and>
      (slash_proofs b = [] \<longrightarrow> (\<forall>tx\<in>set (transactions b). \<not> is_slash tx) \<longrightarrow> total_supply s' = total_supply s)"
    if "r = Inr s'" for s'
  proof -
    have "block_accepted E parent s b s'" using r that by (simp add: block_accepted_def)
    then obtain s1 where s1: "apply_txs E (slot b) s (transactions b) = Some (Inr s1)"
      "apply_slashes E s1 (slash_proofs b) = Inr s'"
      by (auto elim: block_acceptedD)
    with r1 show ?thesis using apply_slashes_supply [OF s1(2)] by (auto split: if_splits)
  qed
  with r show ?thesis by blast
qed

text \<open>
  C2: block validation returns and never mints. On a well-formed parent state whose supply
  fits 64 bits, and for heights, slots and nonces away from the end of their range,
  \<open>validate_and_apply_block\<close> returns (an error or a state) without panicking in either build
  profile. A state that it returns is well-formed and holds at most the coins of the parent state,
  exactly as many when the block slashes nobody.
\<close>

theorem validate_and_apply_block_conserves:
  assumes "state_wf s" and "total_supply s < 2 ^ 64" and "block_in_range s parent b"
  shows "\<exists>r. validate_and_apply_block E parent s b = Some r \<and> (\<forall>s'. r = Inr s' \<longrightarrow>
    state_wf s' \<and> total_supply s' \<le> total_supply s \<and>
    (slash_proofs b = [] \<longrightarrow> (\<forall>tx\<in>set (transactions b). \<not> is_slash tx) \<longrightarrow> total_supply s' = total_supply s))"
  using assms by (rule validate_total)

section \<open>A concrete block\<close>

definition demo_genesis :: "(u8, demo_sig) Block" where
  "demo_genesis = Block 0 0 0 1 [] None [] 0"

definition demo_after :: State where
  "demo_after = \<lparr> balances = [(demo_key 1, 70), (demo_key 2, 37)], nonces = [(demo_key 1, 5)],
     stakes = [(demo_key 1, 2), (demo_key 3, 3)], unstaking = [] \<rparr>"

definition demo_block :: "(u8, demo_sig) Block" where
  "demo_block = sign_block (Block 1 8 (block_hash demo demo_genesis) 1 [demo_transfer] None []
     (compute_state_root demo demo_after))"

lemma apply_demo_transfer: "apply_tx demo demo_state demo_transfer 8 = Some demo_after"
  by (simp add: apply_tx_def demo_transfer_def demo_state_def demo_after_def entry_sub_def entry_add_def
      arith_defs bt_get_or_def Let_def)

lemma demo_expected: "get_expected_validator demo demo_state 1 = Some (Some 1)"
  by (simp add: get_expected_validator_def valid_stakes_demo arith_defs) (simp add: demo_state_def)

lemma demo_block_accepted:
  "validate_and_apply_block demo demo_genesis demo_state demo_block = Some (Inr demo_after)"
  by (simp add: validate_and_apply_block_def demo_block_def demo_genesis_def demo_expected
      apply_demo_transfer demo_transfer_valid arith_defs)

theorem accepted_block_sequences_witness:
  "validate_and_apply_block demo demo_genesis demo_state demo_block = Some (Inr demo_after) \<and>
   map sequence (filter (of_sender demo (demo_key 1)) (transactions demo_block)) = [4]"
  using accepted_block_sequences [OF demo_block_accepted, of "demo_key 1"] demo_block_accepted
  by (simp add: demo_block_def demo_transfer_def demo_state_def bt_get_or_def)

theorem validate_and_apply_block_conserves_witness:
  "\<exists>r. validate_and_apply_block demo demo_genesis demo_state demo_block = Some r \<and>
    (\<forall>s'. r = Inr s' \<longrightarrow> state_wf s' \<and> total_supply s' = 112)"
proof -
  have total: "total_supply demo_state = 112" by (simp add: total_supply_def demo_state_def)
  have range: "block_in_range demo_state demo_genesis demo_block"
    by (simp add: block_in_range_def demo_state_def demo_genesis_def demo_block_def)
  have "slash_proofs demo_block = []" and "\<forall>tx\<in>set (transactions demo_block). \<not> is_slash tx"
    by (simp_all add: demo_block_def is_slash_def demo_transfer_def)
  then show ?thesis
    using validate_and_apply_block_conserves [OF state_wf_demo _ range, of demo] total by auto
qed

section \<open>Well-formedness\<close>

lemma apply_txs_wf: "apply_txs E current_slot s txs = Some (Inr s') \<Longrightarrow> state_wf s \<Longrightarrow> state_wf s'"
proof (induction txs arbitrary: s)
  case (Cons tx txs)
  then obtain s1 where "apply_tx E s tx current_slot = Some s1" and "apply_txs E current_slot s1 txs = Some (Inr s')"
    by (auto simp: bind_Some_iff split: if_splits)
  then show ?case using Cons.IH apply_tx_wf Cons.prems(2) by blast
qed simp

lemma block_accepted_state:
  assumes "block_accepted E parent s b s'"
  shows "state_wf s \<Longrightarrow> state_wf s'" and "state_root b = compute_state_root E s'"
  using assms apply_txs_wf apply_slashes_supply by (blast elim: block_acceptedD)+

section \<open>Fork choice\<close>

text \<open>
  \<open>should_replace_head\<close> compares two blocks by height, then slot, then hash; \<open>chain_rank\<close> is that
  triple. Among blocks with distinct hashes the comparison is a strict total order.
\<close>

definition chain_rank :: "bytes32 \<Rightarrow> ('vk, 'sig) Block \<Rightarrow> nat \<times> nat \<times> nat" where
  "chain_rank h b = (unat (height b), unat (slot b), unat h)"

lemma should_replace_head_rank:
  "should_replace_head h b head head_hash \<longleftrightarrow> chain_rank head_hash head < chain_rank h b"
  by (auto simp: should_replace_head_def chain_rank_def less_prod_def' word_less_nat_alt word_unat_eq_iff)

end
