(* ===== verification/Mempool.thy ===== *)
theory Mempool
  imports CoreChain
begin

text \<open>
  The pool of unconfirmed transactions (\<open>rp-node/src/mempool.rs\<close>): a \<open>BTreeSet\<close> ordered by
  \<open>transaction_cmp\<close> (higher fee first, hash on equal fees) with a maximal size. The pool is well-formed
  when it is in that order and not over its size; every operation keeps it so, and a full pool keeps
  the transactions with the highest fees among those offered to it.
\<close>

record ('vk, 'sig) Mempool =
  txs :: "('vk, 'sig) Transaction list"
  max_size :: nat

definition Mempool_new :: "nat \<Rightarrow> ('vk, 'sig) Mempool" where
  "Mempool_new n = \<lparr> txs = [], max_size = n \<rparr>"

definition Mempool_add_transaction ::
  "('vk, 'sig, 'z) crypto_scheme \<Rightarrow> ('vk, 'sig) Mempool \<Rightarrow> ('vk, 'sig) Transaction
    \<Rightarrow> ('vk, 'sig) Mempool \<times> (string, bool) result" where
  "Mempool_add_transaction E m tx =
     (if bset_contains (transaction_cmp E) tx (txs m) then (m, Inr False)
      else if length (txs m) < max_size m
      then (m\<lparr>txs := bset_insert (transaction_cmp E) tx (txs m)\<rparr>, Inr True)
      else if txs m \<noteq> [] then
        (let lowest = last (txs m) in
         if fee tx > fee lowest
         then (m\<lparr>txs := bset_insert (transaction_cmp E) tx (bset_remove (transaction_cmp E) lowest (txs m))\<rparr>,
               Inr True)
         else (m, Inl ''Transaction fee too low to enter mempool''))
      else (m, Inl ''Failed to evict lowest fee transaction''))"

definition get_pending_transactions :: "('vk, 'sig) Mempool \<Rightarrow> nat \<Rightarrow> ('vk, 'sig) Transaction list" where
  "get_pending_transactions m count = take count (txs m)"

definition remove_transaction ::
  "('vk, 'sig, 'z) crypto_scheme \<Rightarrow> ('vk, 'sig) Mempool \<Rightarrow> bytes32 \<Rightarrow> ('vk, 'sig) Mempool" where
  "remove_transaction E m h = m\<lparr>txs := filter (\<lambda>tx. tx_hash E tx \<noteq> h) (txs m)\<rparr>"

definition Mempool_clear :: "('vk, 'sig) Mempool \<Rightarrow> ('vk, 'sig) Mempool" where
  "Mempool_clear m = m\<lparr>txs := []\<rparr>"

definition Mempool_len :: "('vk, 'sig) Mempool \<Rightarrow> nat" where
  "Mempool_len m = length (txs m)"

section \<open>Invariant\<close>

definition mempool_wf :: "('vk, 'sig, 'z) crypto_scheme \<Rightarrow> ('vk, 'sig) Mempool \<Rightarrow> bool" where
  "mempool_wf E m \<longleftrightarrow> bset_wf (transaction_cmp E) (txs m) \<and> length (txs m) \<le> max_size m"

lemma mempool_wf_new [simp]: "mempool_wf E (Mempool_new n)"
  by (simp add: mempool_wf_def Mempool_new_def bset_wf_def)

lemma mempool_wf_remove: "mempool_wf E m \<Longrightarrow> mempool_wf E (remove_transaction E m h)"
  by (auto simp: mempool_wf_def remove_transaction_def txo.wf_filter intro: order_trans [OF length_filter_le])

lemma mempool_wf_clear: "mempool_wf E (Mempool_clear m)"
  by (simp add: mempool_wf_def Mempool_clear_def bset_wf_def)

lemma lowest_fee:
  assumes "mempool_wf E m" and "tx \<in> set (txs m)"
  shows "fee (last (txs m)) \<le> fee tx"
proof (cases "tx = last (txs m)")
  case False
  then have "transaction_cmp E tx (last (txs m)) = Less"
    using assms txo.last_greatest unfolding mempool_wf_def by blast
  then show ?thesis by (auto simp: transaction_cmp_Less)
qed simp

text \<open>The four outcomes of an offer, as facts about the set of pooled transactions.\<close>

lemma Mempool_add_cases:
  assumes "mempool_wf E m"
  obtains (present) y where "Mempool_add_transaction E m tx = (m, Inr False)" and "y \<in> set (txs m)"
      and "transaction_cmp E tx y = Equal"
  | (room) m' where "Mempool_add_transaction E m tx = (m', Inr True)" and "mempool_wf E m'"
      and "max_size m' = max_size m" and "set (txs m') = insert tx (set (txs m))"
      and "length (txs m') = Suc (length (txs m))"
  | (evict) m' lowest where "Mempool_add_transaction E m tx = (m', Inr True)" and "mempool_wf E m'"
      and "max_size m' = max_size m" and "lowest \<in> set (txs m)" and "fee lowest < fee tx"
      and "\<forall>y\<in>set (txs m). fee lowest \<le> fee y"
      and "set (txs m') = insert tx (set (txs m) - {lowest})"
      and "length (txs m') = max_size m" and "length (txs m) = max_size m"
  | (refused) e where "Mempool_add_transaction E m tx = (m, Inl e)" and "length (txs m) = max_size m"
      and "\<forall>y\<in>set (txs m). fee tx \<le> fee y"
proof -
  let ?cmp = "transaction_cmp E" and ?lowest = "last (txs m)"
  have wf: "bset_wf ?cmp (txs m)" and size: "length (txs m) \<le> max_size m"
    using assms by (auto simp: mempool_wf_def)
  show thesis
  proof (cases "bset_contains ?cmp tx (txs m)")
    case True
    then obtain y where "y \<in> set (txs m)" "?cmp tx y = Equal" by (auto simp: txo.contains_iff [OF wf])
    with True present show thesis by (simp add: Mempool_add_transaction_def)
  next
    case absent: False
    consider "length (txs m) < max_size m" | "txs m \<noteq> []" "fee ?lowest < fee tx" "length (txs m) = max_size m"
      | "length (txs m) = max_size m" "txs m = [] \<or> fee tx \<le> fee ?lowest"
      using size by force
    then show thesis
    proof cases
      case 1
      show thesis
        by (rule room [of "m\<lparr>txs := bset_insert ?cmp tx (txs m)\<rparr>"])
          (use 1 absent wf in \<open>simp_all add: Mempool_add_transaction_def mempool_wf_def txo.wf_insert
            txo.set_insert_absent txo.length_insert_absent\<close>)
    next
      case 2
      let ?rest = "bset_remove ?cmp ?lowest (txs m)"
      have low: "?lowest \<in> set (txs m)" using 2 by simp
      have pos: "Suc (max_size m - Suc 0) = max_size m" using 2(1,3) by (cases "txs m") auto
      have "\<not> bset_contains ?cmp tx ?rest"
        using absent by (auto simp: txo.contains_iff [OF wf] txo.contains_iff [OF txo.wf_remove [OF wf]]
            txo.remove_member [OF wf low])
      then show thesis
        by (intro evict [of "m\<lparr>txs := bset_insert ?cmp tx ?rest\<rparr>" ?lowest])
          (use 2 pos absent wf low lowest_fee [OF assms] in \<open>simp_all add: Mempool_add_transaction_def Let_def
            mempool_wf_def txo.wf_insert txo.wf_remove txo.set_insert_absent txo.length_insert_absent
            txo.remove_member txo.length_remove_member\<close>)
    next
      case 3
      have "\<exists>e. Mempool_add_transaction E m tx = (m, Inl e)"
        using 3 absent by (auto simp: Mempool_add_transaction_def Let_def)
      moreover have "fee tx \<le> fee y" if "y \<in> set (txs m)" for y
        using 3(2) lowest_fee [OF assms that] that by auto
      ultimately show thesis using 3(1) refused by blast
    qed
  qed
qed

lemma mempool_wf_add: "mempool_wf E m \<Longrightarrow> mempool_wf E (fst (Mempool_add_transaction E m tx))"
  by (rule Mempool_add_cases [of E m tx]) simp_all

lemma max_size_add [simp]: "max_size (fst (Mempool_add_transaction E m tx)) = max_size m"
  by (simp add: Mempool_add_transaction_def Let_def)

section \<open>A full pool keeps the highest fees\<close>

definition add_all ::
  "('vk, 'sig, 'z) crypto_scheme \<Rightarrow> ('vk, 'sig) Mempool \<Rightarrow> ('vk, 'sig) Transaction list \<Rightarrow> ('vk, 'sig) Mempool" where
  "add_all E m offered = fold (\<lambda>tx m. fst (Mempool_add_transaction E m tx)) offered m"

definition keeps_best ::
  "('vk, 'sig, 'z) crypto_scheme \<Rightarrow> ('vk, 'sig) Transaction set \<Rightarrow> ('vk, 'sig) Mempool \<Rightarrow> bool" where
  "keeps_best E offered m \<longleftrightarrow> mempool_wf E m \<and> set (txs m) \<subseteq> offered \<and>
     (\<forall>tx\<in>offered. (\<exists>y\<in>set (txs m). transaction_cmp E tx y = Equal) \<or>
        length (txs m) = max_size m \<and> (\<forall>y\<in>set (txs m). fee tx \<le> fee y))"

lemma keeps_best_add:
  assumes "keeps_best E offered m"
  shows "keeps_best E (insert tx offered) (fst (Mempool_add_transaction E m tx))"
proof -
  have wf: "mempool_wf E m" and sub: "set (txs m) \<subseteq> offered"
    and best: "\<forall>t\<in>offered. (\<exists>y\<in>set (txs m). transaction_cmp E t y = Equal) \<or>
      length (txs m) = max_size m \<and> (\<forall>y\<in>set (txs m). fee t \<le> fee y)"
    using assms by (auto simp: keeps_best_def)
  from wf show ?thesis
  proof (cases rule: Mempool_add_cases [of E m tx])
    case (evict m' lowest)
    have "(\<exists>y\<in>set (txs m'). transaction_cmp E t y = Equal) \<or> (\<forall>y\<in>set (txs m'). fee t \<le> fee y)"
      if "t \<in> offered" for t
    proof (cases "\<exists>y\<in>set (txs m) - {lowest}. transaction_cmp E t y = Equal")
      case True
      then show ?thesis using evict(7) by auto
    next
      case False
      then have "transaction_cmp E t lowest = Equal \<or> (\<forall>y\<in>set (txs m). fee t \<le> fee y)"
        using best that by auto
      then have "fee t \<le> fee lowest" using evict(4) by (auto simp: transaction_cmp_Equal)
      then have "\<forall>y\<in>set (txs m'). fee t \<le> fee y"
        using evict(5,6,7) by (auto intro: order_trans less_imp_le)
      then show ?thesis ..
    qed
    with evict sub show ?thesis by (auto simp: keeps_best_def transaction_cmp_Equal)
  next
    case (room m')
    then have "length (txs m) \<noteq> max_size m" by (simp add: mempool_wf_def)
    with room sub best show ?thesis by (auto simp: keeps_best_def transaction_cmp_Equal)
  qed (use wf sub best in \<open>auto simp: keeps_best_def\<close>)
qed

lemma keeps_best_add_all: "keeps_best E offered m \<Longrightarrow> keeps_best E (offered \<union> set ts) (add_all E m ts)"
proof (induction ts arbitrary: offered m)
  case (Cons t ts)
  have "add_all E m (t # ts) = add_all E (fst (Mempool_add_transaction E m t)) ts" by (simp add: add_all_def)
  then show ?case using Cons.IH [OF keeps_best_add [OF Cons.prems, of t]] by simp
qed (simp add: add_all_def)

lemma max_size_add_all [simp]: "max_size (add_all E m ts) = max_size m"
  by (induction ts arbitrary: m) (simp_all add: add_all_def)

text \<open>
  C18: whatever transactions are offered to a fresh pool of size \<open>n\<close>, in whatever order,
  the pool stays sorted by the transaction order and holds at most \<open>n\<close> transactions, all of them
  offered ones; an offered transaction that is not in it (not even as a transaction with the same fee and
  hash) was left out because the pool is full of transactions that all pay at least its fee.
\<close>

theorem mempool_keeps_highest_fees:
  "let m = add_all E (Mempool_new n) offered in
   mempool_wf E m \<and> Mempool_len m \<le> n \<and> set (txs m) \<subseteq> set offered \<and>
   (\<forall>tx. tx \<in> set offered \<and> \<not> bset_contains (transaction_cmp E) tx (txs m) \<longrightarrow>
      Mempool_len m = n \<and> (\<forall>y. y \<in> set (txs m) \<longrightarrow> fee tx \<le> fee y))"
proof -
  have "keeps_best E {} (Mempool_new n)" by (simp add: keeps_best_def) (simp add: Mempool_new_def)
  then have best: "keeps_best E (set offered) (add_all E (Mempool_new n) offered)"
    using keeps_best_add_all by fastforce
  moreover have "max_size (add_all E (Mempool_new n) offered) = n" by (simp add: Mempool_new_def)
  ultimately show ?thesis
    by (auto simp: keeps_best_def Let_def Mempool_len_def mempool_wf_def txo.contains_iff)
qed

definition demo_cheap :: "(u8, demo_sig) Transaction" where
  "demo_cheap = sign_tx (Transaction 2 (Transfer 1 3) 0 2 None)"

theorem mempool_keeps_highest_fees_witness:
  "let m = add_all demo (Mempool_new 1) [demo_cheap, demo_transfer] in
   \<not> bset_contains (transaction_cmp demo) demo_cheap (txs m) \<and> Mempool_len m = 1 \<and>
   (\<forall>y. y \<in> set (txs m) \<longrightarrow> 2 \<le> fee y)"
proof -
  let ?m = "add_all demo (Mempool_new 1) [demo_cheap, demo_transfer]"
  have fees: "fee demo_cheap = 2" "fee demo_transfer = 9" by (simp_all add: demo_cheap_def demo_transfer_def)
  then have "txs ?m = [demo_transfer]"
    by (simp add: add_all_def Mempool_new_def Mempool_add_transaction_def transaction_cmp_def cmp_of_def Let_def)
  then have "\<not> bset_contains (transaction_cmp demo) demo_cheap (txs ?m)"
    using fees by (simp add: transaction_cmp_def cmp_of_def)
  then show ?thesis
    using mempool_keeps_highest_fees [of demo 1 "[demo_cheap, demo_transfer]"] fees by (auto simp: Let_def)
qed

section \<open>Reading and removing\<close>

lemma pending_sorted: "mempool_wf E m \<Longrightarrow> sorted_wrt (\<lambda>a b. fee b \<le> fee a) (get_pending_transactions m count)"
  unfolding mempool_wf_def bset_wf_def get_pending_transactions_def
  by (rule sorted_wrt_take, rule sorted_wrt_mono_rel [where P = "\<lambda>x y. transaction_cmp E x y = Less"])
    (auto simp: transaction_cmp_Less simp del: not_less)

lemma removed_transaction_gone:
  "set (txs (remove_transaction E m h)) = {tx \<in> set (txs m). tx_hash E tx \<noteq> h}"
  by (auto simp: remove_transaction_def)

end
