(* ===== verification/Blockchain.thy ===== *)
theory Blockchain
  imports Mempool
begin

text \<open>
  The block tree of a node (\<open>rp-node/src/blockchain.rs\<close> and the errors of
  \<open>rp-node/src/errors.rs\<close>): blocks by hash, the head chosen by \<open>should_replace_head\<close>, the state at the
  head and the pool of transactions.

  The two \<open>while let\<close> loops that walk from the head towards the root are
  \<open>partial_function (option)\<close>s: a walk that never ends is \<open>None\<close>, like a panic, and the
  theorems show that on a well-formed tree both loops return.
\<close>

section \<open>State and operations\<close>

datatype NodeError =
    BlockError BlockError | ParentBlockNotFoundError | ParentSnapshotNotFoundError
  | BlockStorageError | StateStorageError

record ImportedBlock =
  next_state :: State
  became_head :: bool

type_synonym ('vk, 'sig) block_tree = "(bytes32, ('vk, 'sig) BlockNode) btree_map"

record ('vk, 'sig) Blockchain =
  chain :: "('vk, 'sig) block_tree"
  head_hash :: bytes32
  state :: State
  mempool :: "('vk, 'sig) Mempool"

definition Blockchain_new :: "('vk, 'sig, 'z) crypto_scheme \<Rightarrow> (NodeError, ('vk, 'sig) Blockchain) result exec" where
  "Blockchain_new E = do {
     genesis_key \<leftarrow> genesis_verifying_key E;
     let genesis_block = Block 0 0 0 genesis_key [] None [] 0;
     let genesis_hash = block_hash E genesis_block;
     Some (Inr \<lparr> chain = bt_insert genesis_hash \<lparr> block = genesis_block, children = [] \<rparr> [],
                 head_hash = genesis_hash, state = State_new, mempool = Mempool_new 10000 \<rparr>) }"

definition get_latest_block :: "('vk, 'sig) Blockchain \<Rightarrow> ('vk, 'sig) Block exec" where
  "get_latest_block bc = map_option block (bt_get (chain bc) (head_hash bc))"

definition restore_head ::
  "('vk, 'sig, 'z) crypto_scheme \<Rightarrow> ('vk, 'sig) Blockchain \<Rightarrow> ('vk, 'sig) Block \<Rightarrow> State \<Rightarrow> ('vk, 'sig) Blockchain" where
  "restore_head E bc b s =
     (let h = block_hash E b in
      bc\<lparr> chain := bt_insert h \<lparr> block = b, children = [] \<rparr> [],
          head_hash := h, state := s, mempool := Mempool_new 10000 \<rparr>)"

partial_function (option) earliest_loop ::
  "('vk, 'sig) block_tree \<Rightarrow> bytes32 \<Rightarrow> u64 \<Rightarrow> u64 exec" where
  "earliest_loop c current_hash earliest_height =
     (case bt_get c current_hash of
        None \<Rightarrow> Some earliest_height
      | Some node \<Rightarrow>
          if height (block node) = 0 \<or> \<not> bt_contains_key c (previous_hash (block node))
          then Some (height (block node))
          else earliest_loop c (previous_hash (block node)) (height (block node)))"

definition earliest_contiguous_height :: "('vk, 'sig) Blockchain \<Rightarrow> u64 exec" where
  "earliest_contiguous_height bc = do {
     latest \<leftarrow> get_latest_block bc;
     earliest_loop (chain bc) (head_hash bc) (height latest) }"

definition add_transaction ::
  "('vk, 'sig, 'z) crypto_scheme \<Rightarrow> ('vk, 'sig) Blockchain \<Rightarrow> ('vk, 'sig) Transaction
    \<Rightarrow> ('vk, 'sig) Blockchain \<times> (string, bool) result" where
  "add_transaction E bc tx =
     (if is_valid_tx E (state bc) tx
      then (let (m, r) = Mempool_add_transaction E (mempool bc) tx in (bc\<lparr>mempool := m\<rparr>, r))
      else (bc, Inl ''Invalid transaction''))"

definition attach_block ::
  "('vk, 'sig, 'z) crypto_scheme \<Rightarrow> ('vk, 'sig) block_tree \<Rightarrow> ('vk, 'sig) Block \<Rightarrow> ('vk, 'sig) block_tree" where
  "attach_block E c b =
     (let h = block_hash E b;
          c1 = (case bt_get c (previous_hash b) of
                  Some parent_node \<Rightarrow>
                    if h \<in> set (children parent_node) then c
                    else bt_insert (previous_hash b) (parent_node\<lparr>children := children parent_node @ [h]\<rparr>) c
                | None \<Rightarrow> c)
      in if bt_contains_key c1 h then c1 else bt_insert h \<lparr> block = b, children = [] \<rparr> c1)"

definition add_block ::
  "('vk, 'sig, 'z) crypto_scheme \<Rightarrow> ('vk, 'sig) Blockchain \<Rightarrow> ('vk, 'sig) Block \<Rightarrow> State
    \<Rightarrow> (('vk, 'sig) Blockchain \<times> (NodeError, ImportedBlock) result) exec" where
  "add_block E bc b parent_state =
     (case bt_get (chain bc) (previous_hash b) of
        None \<Rightarrow> Some (bc, Inl ParentBlockNotFoundError)
      | Some parent_node \<Rightarrow> do {
          applied \<leftarrow> validate_and_apply_block E (block parent_node) parent_state b;
          case applied of
            Inl e \<Rightarrow> Some (bc, Inl (BlockError e))
          | Inr next \<Rightarrow> do {
              let h = block_hash E b;
              let c = attach_block E (chain bc) b;
              head \<leftarrow> get_latest_block (bc\<lparr>chain := c\<rparr>);
              let replace_head = should_replace_head h b head (head_hash bc);
              let bc' = (if replace_head
                         then bc\<lparr> chain := c, head_hash := h, state := next,
                                  mempool := fold (\<lambda>tx m. remove_transaction E m (tx_hash E tx))
                                    (transactions b) (mempool bc) \<rparr>
                         else bc\<lparr>chain := c\<rparr>);
              Some (bc', Inr \<lparr> next_state = next, became_head = replace_head \<rparr>) } })"

definition get_mempool :: "('vk, 'sig) Blockchain \<Rightarrow> ('vk, 'sig) Transaction list" where
  "get_mempool bc = get_pending_transactions (mempool bc) (Mempool_len (mempool bc))"

partial_function (option) blocks_loop ::
  "('vk, 'sig) block_tree \<Rightarrow> u64 \<Rightarrow> u64 \<Rightarrow> u64 \<Rightarrow> bytes32 \<Rightarrow> ('vk, 'sig) Block list \<Rightarrow> ('vk, 'sig) Block list exec" where
  "blocks_loop c from_height to_height earliest current_hash blocks =
     (case bt_get c current_hash of
        None \<Rightarrow> Some blocks
      | Some node \<Rightarrow>
          let blocks' = (if from_height \<le> height (block node) \<and> height (block node) \<le> to_height
                         then blocks @ [block node] else blocks)
          in if height (block node) = earliest \<or> height (block node) = 0 then Some blocks'
             else blocks_loop c from_height to_height earliest (previous_hash (block node)) blocks')"

definition get_blocks :: "('vk, 'sig) Blockchain \<Rightarrow> u64 \<Rightarrow> u64 \<Rightarrow> ('vk, 'sig) Block list exec" where
  "get_blocks bc from_height to_height =
     (if from_height > to_height then Some []
      else do {
        earliest \<leftarrow> earliest_contiguous_height bc;
        latest \<leftarrow> get_latest_block bc;
        if from_height < earliest \<or> from_height > height latest then Some []
        else do {
          blocks \<leftarrow> blocks_loop (chain bc) from_height to_height earliest (head_hash bc) [];
          Some (rev blocks) } })"

section \<open>The tree invariant\<close>

text \<open>
  Every block is stored under its hash, is one higher and strictly later than its parent when the
  parent is present, and the \<open>children\<close> of a node are exactly the hashes of the blocks that name it as
  their parent, each once.
\<close>

definition tree_link :: "('vk, 'sig) block_tree \<Rightarrow> ('vk, 'sig) Block \<Rightarrow> bool" where
  "tree_link c b \<longleftrightarrow> (\<forall>p. bt_get c (previous_hash b) = Some p \<longrightarrow>
     height b = height (block p) + 1 \<and> slot (block p) < slot b)"

definition tree_ok :: "('vk, 'sig, 'z) crypto_scheme \<Rightarrow> ('vk, 'sig) block_tree \<Rightarrow> bool" where
  "tree_ok E c \<longleftrightarrow> bt_wf c \<and>
     (\<forall>h n. bt_get c h = Some n \<longrightarrow> h = block_hash E (block n) \<and> tree_link c (block n) \<and>
        distinct (children n) \<and>
        set (children n) = {h'. \<exists>n'. bt_get c h' = Some n' \<and> previous_hash (block n') = h})"

definition head_best :: "('vk, 'sig) Blockchain \<Rightarrow> bool" where
  "head_best bc \<longleftrightarrow> (\<exists>head. bt_get (chain bc) (head_hash bc) = Some head \<and>
     (\<forall>h n. bt_get (chain bc) h = Some n \<longrightarrow>
        chain_rank h (block n) \<le> chain_rank (head_hash bc) (block head)))"

definition head_state_ok :: "('vk, 'sig, 'z) crypto_scheme \<Rightarrow> ('vk, 'sig) Blockchain \<Rightarrow> bool" where
  "head_state_ok E bc \<longleftrightarrow> state_wf (state bc) \<and>
     (\<forall>head. bt_get (chain bc) (head_hash bc) = Some head \<longrightarrow>
        state_root (block head) = compute_state_root E (state bc))"

definition blockchain_ok :: "('vk, 'sig, 'z) crypto_scheme \<Rightarrow> ('vk, 'sig) Blockchain \<Rightarrow> bool" where
  "blockchain_ok E bc \<longleftrightarrow> tree_ok E (chain bc) \<and> head_best bc \<and> head_state_ok E bc \<and> mempool_wf E (mempool bc)"

text \<open>
  What the tree needs of the hash function, for a block \<open>b\<close> that arrives: a stored block with the
  hash of \<open>b\<close> has the bytes of \<open>b\<close>, and no stored block already names an absent \<open>b\<close> as its parent
  (which for a block below the tree would be a cycle of hashes). A hash function without collisions
  on the blocks that occur satisfies both.
\<close>

definition hash_fresh ::
  "('vk, 'sig, 'z) crypto_scheme \<Rightarrow> ('vk, 'sig) block_tree \<Rightarrow> ('vk, 'sig) Block \<Rightarrow> bool" where
  "hash_fresh E c b \<longleftrightarrow>
     (case bt_get c (block_hash E b) of
        Some n \<Rightarrow> block_to_bytes E (block n) = block_to_bytes E b
      | None \<Rightarrow> (\<forall>h n. bt_get c h = Some n \<longrightarrow> previous_hash (block n) \<noteq> block_hash E b) \<and>
                previous_hash b \<noteq> block_hash E b)"

lemma block_bytes_root: "block_to_bytes E b = block_to_bytes E b' \<Longrightarrow> state_root b = state_root b'"
proof -
  have split: "\<exists>u. block_to_bytes E a = u @ to_be 32 (state_root a)" for a
    by (cases a) (simp only: block_to_bytes.simps Block.sel append.assoc [symmetric], blast)
  assume eq: "block_to_bytes E b = block_to_bytes E b'"
  obtain u u' where "block_to_bytes E b = u @ to_be 32 (state_root b)"
    and "block_to_bytes E b' = u' @ to_be 32 (state_root b')"
    using split by metis
  with eq have "to_be 32 (state_root b) = to_be 32 (state_root b')" by simp
  then show ?thesis using to_be_append_inj [of 32 "state_root b" "[]" "state_root b'" "[]"] by simp
qed

lemma tree_okD:
  assumes "tree_ok E c" and "bt_get c h = Some n"
  shows "h = block_hash E (block n)" and "tree_link c (block n)" and "distinct (children n)"
    and "set (children n) = {h'. \<exists>n'. bt_get c h' = Some n' \<and> previous_hash (block n') = h}"
  using assms unfolding tree_ok_def by blast+

lemma tree_ok_wf: "tree_ok E c \<Longrightarrow> bt_wf c"
  by (simp add: tree_ok_def)

lemma tree_ok_single:
  "previous_hash b \<noteq> block_hash E b \<Longrightarrow> tree_ok E (bt_insert (block_hash E b) \<lparr> block = b, children = [] \<rparr> [])"
  by (auto simp: tree_ok_def tree_link_def bt_wf_def)

text \<open>A block that is already stored leaves the tree as it is.\<close>

lemma attach_present:
  assumes "tree_ok E c" and "hash_fresh E c b" and "bt_get c (block_hash E b) = Some n"
  shows "attach_block E c b = c"
proof -
  have "previous_hash (block n) = previous_hash b"
    using assms(2,3) by (auto simp: hash_fresh_def dest: block_bytes_header)
  then have "block_hash E b \<in> set (children p)" if "bt_get c (previous_hash b) = Some p" for p
    by (simp only: tree_okD(4) [OF assms(1) that] mem_Collect_eq) (use assms(3) in blast)
  then show ?thesis
    using assms(3) by (simp add: attach_block_def Let_def bt_contains_key_def split: option.split)
qed

lemma get_attach_new:
  assumes ok: "tree_ok E c" and fresh: "hash_fresh E c b" and new: "bt_get c (block_hash E b) = None"
    and parent: "bt_get c (previous_hash b) = Some p"
  shows "bt_get (attach_block E c b) k =
    (if k = block_hash E b then Some \<lparr> block = b, children = [] \<rparr>
     else if k = previous_hash b then Some (p\<lparr>children := children p @ [block_hash E b]\<rparr>)
     else bt_get c k)"
    and "bt_wf (attach_block E c b)"
proof -
  let ?h = "block_hash E b" and ?p = "p\<lparr>children := children p @ [block_hash E b]\<rparr>"
  have "?h \<notin> set (children p)" by (simp add: tree_okD(4) [OF ok parent] new)
  moreover have "?h \<noteq> previous_hash b" using new parent by auto
  ultimately have eq: "attach_block E c b =
      bt_insert ?h \<lparr> block = b, children = [] \<rparr> (bt_insert (previous_hash b) ?p c)"
    using parent new tree_ok_wf [OF ok] by (simp add: attach_block_def Let_def bt_contains_key_def bt_simps)
  show "bt_get (attach_block E c b) k =
      (if k = ?h then Some \<lparr> block = b, children = [] \<rparr> else if k = previous_hash b then Some ?p else bt_get c k)"
    and "bt_wf (attach_block E c b)"
    using tree_ok_wf [OF ok] by (simp_all add: eq bt_simps)
qed

lemma tree_ok_attach:
  assumes ok: "tree_ok E c" and fresh: "hash_fresh E c b" and parent: "bt_get c (previous_hash b) = Some p"
    and link: "height b = height (block p) + 1" "slot (block p) < slot b"
  shows "tree_ok E (attach_block E c b)"
proof (cases "bt_get c (block_hash E b)")
  case (Some n)
  then show ?thesis using attach_present [OF ok fresh Some] ok by simp
next
  case None
  let ?h = "block_hash E b" and ?c = "attach_block E c b"
  note get = get_attach_new(1) [OF ok fresh None parent]
  have orphan: "previous_hash b \<noteq> ?h" "\<And>k n. bt_get c k = Some n \<Longrightarrow> previous_hash (block n) \<noteq> ?h"
    using fresh None by (auto simp: hash_fresh_def)
  have kids: "{h'. \<exists>n'. bt_get ?c h' = Some n' \<and> previous_hash (block n') = k} =
      {h'. \<exists>n'. bt_get c h' = Some n' \<and> previous_hash (block n') = k} \<union> (if k = previous_hash b then {?h} else {})" for k
    using None parent by (auto simp: get)
  have old: "k = block_hash E (block n)" "tree_link ?c (block n)" "distinct (children n)" "?h \<notin> set (children n)"
    "set (children n) = {h'. \<exists>n'. bt_get c h' = Some n' \<and> previous_hash (block n') = k}"
    if "bt_get c k = Some n" for k n
    using tree_okD [OF ok that] orphan(2) [OF that] None by (auto simp: tree_link_def get parent)
  have "k = block_hash E (block n) \<and> tree_link ?c (block n) \<and> distinct (children n) \<and>
      set (children n) = {h'. \<exists>n'. bt_get ?c h' = Some n' \<and> previous_hash (block n') = k}"
    if "bt_get ?c k = Some n" for k n
  proof (cases "k = ?h")
    case True
    then have n: "n = \<lparr> block = b, children = [] \<rparr>" using that by (simp add: get)
    have "tree_link ?c b" using orphan(1) link by (auto simp: tree_link_def get)
    moreover have "{h'. \<exists>n'. bt_get c h' = Some n' \<and> previous_hash (block n') = k} = {}"
      using orphan(2) True by blast
    ultimately show ?thesis using orphan(1) True by (auto simp: n kids)
  next
    case False
    show ?thesis
    proof (cases "k = previous_hash b")
      case True
      then have n: "n = p\<lparr>children := children p @ [?h]\<rparr>" using that orphan(1) by (simp add: get)
      then show ?thesis
        using old [OF parent] by (simp only: n kids True) (simp add: insert_commute)
    next
      case other: False
      then have n: "bt_get c k = Some n" using that False by (simp add: get)
      show ?thesis using old [OF n] other by (simp only: kids) simp
    qed
  qed
  then show ?thesis using get_attach_new(2) [OF ok fresh None parent] by (simp add: tree_ok_def)
qed

section \<open>Operations keep the invariant\<close>

text \<open>Attaching a block changes no stored block: it adds at most the block itself.\<close>

lemma attach_blocks:
  assumes ok: "tree_ok E c" and fresh: "hash_fresh E c b" and parent: "bt_get c (previous_hash b) = Some p"
  shows "map_option block (bt_get (attach_block E c b) k) =
    (if k = block_hash E b \<and> bt_get c k = None then Some b else map_option block (bt_get c k))"
proof (cases "bt_get c (block_hash E b)")
  case None
  then show ?thesis using parent by (simp add: get_attach_new [OF ok fresh None parent])
next
  case (Some n)
  then show ?thesis using attach_present [OF ok fresh Some] by auto
qed

lemma head_bestD:
  assumes "head_best bc"
  obtains head where "get_latest_block bc = Some head" and "map_option block (bt_get (chain bc) (head_hash bc)) = Some head"
    and "\<And>h b. map_option block (bt_get (chain bc) h) = Some b \<Longrightarrow> chain_rank h b \<le> chain_rank (head_hash bc) head"
  using assms by (auto simp: head_best_def get_latest_block_def)

lemma head_bestI:
  assumes "map_option block (bt_get (chain bc) (head_hash bc)) = Some head"
    and "\<And>h b. map_option block (bt_get (chain bc) h) = Some b \<Longrightarrow> chain_rank h b \<le> chain_rank (head_hash bc) head"
  shows "head_best bc"
  using assms by (fastforce simp: head_best_def)

lemma mempool_wf_fold_remove:
  "mempool_wf E m \<Longrightarrow> mempool_wf E (fold (\<lambda>tx m. remove_transaction E m (tx_hash E tx)) ts m)"
  by (induction ts arbitrary: m) (simp_all add: mempool_wf_remove)

text \<open>What \<open>add_block\<close> does to a well-formed tree when it accepts the block.\<close>

lemma add_block_accepted:
  assumes ok: "blockchain_ok E bc" and fresh: "hash_fresh E (chain bc) b"
    and parent: "bt_get (chain bc) (previous_hash b) = Some p" and acc: "block_accepted E (block p) s b s'"
  obtains head where "get_latest_block bc = Some head"
    and "add_block E bc b s = Some (
      if should_replace_head (block_hash E b) b head (head_hash bc)
      then bc\<lparr> chain := attach_block E (chain bc) b, head_hash := block_hash E b, state := s',
              mempool := fold (\<lambda>tx m. remove_transaction E m (tx_hash E tx)) (transactions b) (mempool bc) \<rparr>
      else bc\<lparr>chain := attach_block E (chain bc) b\<rparr>,
      Inr \<lparr> next_state = s', became_head = should_replace_head (block_hash E b) b head (head_hash bc) \<rparr>)"
proof -
  have tree: "tree_ok E (chain bc)" and best: "head_best bc" using ok by (simp_all add: blockchain_ok_def)
  from best obtain head where head: "get_latest_block bc = Some head"
    "map_option block (bt_get (chain bc) (head_hash bc)) = Some head" by (rule head_bestD)
  then have "get_latest_block (bc\<lparr>chain := attach_block E (chain bc) b\<rparr>) = Some head"
    by (auto simp: get_latest_block_def attach_blocks [OF tree fresh parent] simp del: map_option_eq_Some)
  with that [OF head(1)] acc parent show thesis
    by (simp add: add_block_def block_accepted_def Let_def)
qed

lemma add_block_error:
  "add_block E bc b s = Some (bc', Inl e) \<Longrightarrow> bc' = bc"
  by (auto simp: add_block_def Let_def elim!: bind_eq_SomeE split: option.split_asm sum.split_asm)

lemma add_block_success:
  assumes "add_block E bc b s = Some (bc', Inr r)"
  obtains p where "bt_get (chain bc) (previous_hash b) = Some p" and "block_accepted E (block p) s b (next_state r)"
  using assms
  by (auto simp: add_block_def block_accepted_def Let_def elim!: bind_eq_SomeE split: option.split_asm sum.split_asm)

lemma attach_ok:
  assumes "blockchain_ok E bc" and "hash_fresh E (chain bc) b"
    and "bt_get (chain bc) (previous_hash b) = Some p" and "block_accepted E (block p) s b s'"
  shows "tree_ok E (attach_block E (chain bc) b)"
  using assms tree_ok_attach by (fastforce simp: blockchain_ok_def elim: block_acceptedD)

lemma replace_head_ok:
  assumes ok: "blockchain_ok E bc" and fresh: "hash_fresh E (chain bc) b" and wf: "state_wf s"
    and parent: "bt_get (chain bc) (previous_hash b) = Some p" and acc: "block_accepted E (block p) s b s'"
    and latest: "get_latest_block bc = Some head"
    and better: "should_replace_head (block_hash E b) b head (head_hash bc)" and pool: "mempool_wf E m"
  shows "blockchain_ok E (bc\<lparr> chain := attach_block E (chain bc) b, head_hash := block_hash E b, state := s', mempool := m \<rparr>)"
    (is "blockchain_ok E ?bc")
proof -
  let ?h = "block_hash E b"
  have tree: "tree_ok E (chain bc)" and best: "head_best bc" using ok by (simp_all add: blockchain_ok_def)
  have top: "chain_rank h (block n) < chain_rank ?h b" if "bt_get (chain bc) h = Some n" for h n
    by (rule le_less_trans [of _ "chain_rank (head_hash bc) head"])
      (use best latest that better in \<open>auto simp: head_best_def get_latest_block_def should_replace_head_rank\<close>)
  have new: "bt_get (chain bc) ?h = None"
  proof (rule ccontr)
    assume "bt_get (chain bc) ?h \<noteq> None"
    then obtain n where n: "bt_get (chain bc) ?h = Some n" by blast
    then have "chain_rank ?h (block n) = chain_rank ?h b"
      using fresh by (auto simp: hash_fresh_def chain_rank_def dest: block_bytes_header)
    with top [OF n] show False by simp
  qed
  have blocks: "map_option block (bt_get (chain ?bc) k) =
      (if k = ?h then Some b else map_option block (bt_get (chain bc) k))" for k
    using new by (simp add: attach_blocks [OF tree fresh parent])
  have "head_best ?bc"
  proof (rule head_bestI [where head = b])
    show "map_option block (bt_get (chain ?bc) (head_hash ?bc)) = Some b" using blocks by simp
    show "chain_rank h a \<le> chain_rank (head_hash ?bc) b" if "map_option block (bt_get (chain ?bc) h) = Some a" for h a
      using that [unfolded blocks] top [of h] by (auto simp: less_imp_le split: if_splits)
  qed
  moreover have "head_state_ok E ?bc"
    using blocks [of ?h] block_accepted_state [OF acc] wf by (auto simp: head_state_ok_def)
  ultimately show ?thesis
    using attach_ok [OF ok fresh parent acc] pool by (simp add: blockchain_ok_def)
qed

lemma keep_head_ok:
  assumes ok: "blockchain_ok E bc" and fresh: "hash_fresh E (chain bc) b"
    and parent: "bt_get (chain bc) (previous_hash b) = Some p" and acc: "block_accepted E (block p) s b s'"
    and latest: "get_latest_block bc = Some head"
    and worse: "\<not> should_replace_head (block_hash E b) b head (head_hash bc)"
  shows "blockchain_ok E (bc\<lparr>chain := attach_block E (chain bc) b\<rparr>)" (is "blockchain_ok E ?bc")
proof -
  have tree: "tree_ok E (chain bc)" and best: "head_best bc" and st: "head_state_ok E bc"
    using ok by (simp_all add: blockchain_ok_def)
  note blocks = attach_blocks [OF tree fresh parent]
  have head: "map_option block (bt_get (chain bc) (head_hash bc)) = Some head"
    using latest by (simp add: get_latest_block_def)
  then have same_head: "map_option block (bt_get (chain ?bc) (head_hash bc)) = Some head"
    by (auto simp: blocks)
  have top: "chain_rank h (block n) \<le> chain_rank (head_hash bc) head" if "bt_get (chain bc) h = Some n" for h n
    using best head that by (auto simp: head_best_def)
  have "head_best ?bc"
  proof (rule head_bestI [where head = head])
    show "map_option block (bt_get (chain ?bc) (head_hash ?bc)) = Some head" using same_head by simp
    show "chain_rank h a \<le> chain_rank (head_hash ?bc) head" if "map_option block (bt_get (chain ?bc) h) = Some a" for h a
      using that worse top [of h] by (auto simp: blocks should_replace_head_rank not_less split: if_splits)
  qed
  moreover have "head_state_ok E ?bc" using st same_head head by (auto simp: head_state_ok_def)
  ultimately show ?thesis
    using attach_ok [OF ok fresh parent acc] ok by (simp add: blockchain_ok_def)
qed

lemma add_block_ok:
  assumes ok: "blockchain_ok E bc" and fresh: "hash_fresh E (chain bc) b" and wf: "state_wf s"
    and add: "add_block E bc b s = Some (bc', r)"
  shows "blockchain_ok E bc'"
proof (cases r)
  case (Inl e)
  then show ?thesis using add add_block_error ok by blast
next
  case (Inr imported)
  then obtain p where parent: "bt_get (chain bc) (previous_hash b) = Some p"
    and acc: "block_accepted E (block p) s b (next_state imported)"
    using add add_block_success by blast
  have pool: "mempool_wf E (mempool bc)" using ok by (simp add: blockchain_ok_def)
  show ?thesis
    by (rule add_block_accepted [OF ok fresh parent acc])
      (use add replace_head_ok [OF ok fresh wf parent acc _ _ mempool_wf_fold_remove [OF pool]]
        keep_head_ok [OF ok fresh parent acc] in \<open>auto split: if_splits\<close>)
qed

lemma restore_head_ok:
  assumes "previous_hash b \<noteq> block_hash E b" and "state_wf s" and "state_root b = compute_state_root E s"
  shows "blockchain_ok E (restore_head E bc b s)"
  using assms tree_ok_single [of b E]
  by (auto simp: blockchain_ok_def restore_head_def head_best_def head_state_ok_def Let_def)

lemma compute_state_root_new: "compute_state_root E State_new = 0"
  by (simp add: compute_state_root_def State_new_def merkle_root.simps)

lemma Blockchain_new_ok:
  assumes "genesis_verifying_key E = Some key" and "block_hash E (Block 0 0 0 key [] None [] 0) \<noteq> 0"
  shows "\<exists>bc. Blockchain_new E = Some (Inr bc) \<and> blockchain_ok E bc"
  using assms tree_ok_single [of "Block 0 0 0 key [] None [] 0" E] state_wf_new compute_state_root_new [of E]
  by (simp add: Blockchain_new_def blockchain_ok_def head_best_def head_state_ok_def Let_def)

lemma add_transaction_ok:
  "blockchain_ok E bc \<Longrightarrow> blockchain_ok E (fst (add_transaction E bc tx))"
  using mempool_wf_add [of E "mempool bc" tx]
  by (auto simp: add_transaction_def blockchain_ok_def head_best_def head_state_ok_def split: prod.split)

section \<open>Walking from a block towards the root\<close>

text \<open>\<open>walk c h bs\<close>: the blocks \<open>bs\<close> from \<open>h\<close> along the parent links down to height 0 or to a block whose parent is absent.\<close>

inductive walk :: "('vk, 'sig) block_tree \<Rightarrow> bytes32 \<Rightarrow> ('vk, 'sig) Block list \<Rightarrow> bool" for c where
  stop: "bt_get c h = Some n \<Longrightarrow> height (block n) = 0 \<or> bt_get c (previous_hash (block n)) = None \<Longrightarrow> walk c h [block n]"
| follow: "bt_get c h = Some n \<Longrightarrow> height (block n) \<noteq> 0 \<Longrightarrow> walk c (previous_hash (block n)) bs \<Longrightarrow> walk c h (block n # bs)"

inductive_cases walk_ConsE: "walk c h (b # bs)"

lemma walk_hd: "walk c h bs \<Longrightarrow> \<exists>n bs'. bt_get c h = Some n \<and> bs = block n # bs'"
  by (induction rule: walk.induct) auto

lemma walk_nonempty: "walk c h bs \<Longrightarrow> bs \<noteq> []"
  by (auto dest: walk_hd)

lemma walk_exists:
  assumes "tree_ok E c"
  shows "bt_get c h = Some n \<Longrightarrow> \<exists>bs. walk c h bs"
proof (induction "unat (slot (block n))" arbitrary: h n rule: less_induct)
  case less
  show ?case
  proof (cases "height (block n) = 0 \<or> bt_get c (previous_hash (block n)) = None")
    case True
    then show ?thesis using less.prems walk.stop by blast
  next
    case False
    then obtain p where p: "bt_get c (previous_hash (block n)) = Some p" by blast
    then have "unat (slot (block p)) < unat (slot (block n))"
      using tree_okD(2) [OF assms less.prems] by (simp add: tree_link_def word_less_nat_alt)
    from less.hyps [OF this p] obtain bs where "walk c (previous_hash (block n)) bs" ..
    then show ?thesis using walk.follow [OF less.prems] False by blast
  qed
qed

lemma walk_heights:
  assumes "tree_ok E c"
  shows "walk c h bs \<Longrightarrow> map (\<lambda>b. unat (height b)) (rev bs) = [unat (height (last bs))..<Suc (unat (height (hd bs)))]"
proof (induction rule: walk.induct)
  case (follow h n bs)
  obtain p bs' where p: "bt_get c (previous_hash (block n)) = Some p" "bs = block p # bs'"
    using walk_hd [OF follow.hyps(3)] by blast
  have "height (block n) = height (block p) + 1"
    using tree_okD(2) [OF assms follow.hyps(1)] p(1) by (simp add: tree_link_def)
  with follow.hyps(2) have "unat (height (block n)) = Suc (unat (height (block p)))"
    by (metis unatSuc add.commute)
  moreover have "unat (height (last bs)) \<le> unat (height (hd bs))"
  proof -
    have "unat (height (last bs)) \<in> set (map (\<lambda>b. unat (height b)) (rev bs))" using p(2) by simp
    then show ?thesis by (simp only: follow.IH) simp
  qed
  ultimately show ?case using follow.IH p(2) by simp
qed simp

lemma earliest_loop_walk: "walk c h bs \<Longrightarrow> earliest_loop c h e = Some (height (last bs))"
proof (induction arbitrary: e rule: walk.induct)
  case (stop h n)
  then show ?case by (subst earliest_loop.simps) (simp add: bt_contains_key_def)
next
  case (follow h n bs)
  then have "bt_get c (previous_hash (block n)) \<noteq> None" using walk_hd by fastforce
  with follow walk_nonempty show ?case
    by (subst earliest_loop.simps) (auto simp: bt_contains_key_def)
qed

lemma blocks_loop_walk:
  assumes "tree_ok E c"
  shows "walk c h bs \<Longrightarrow> blocks_loop c from_height to_height (height (last bs)) h acc =
    Some (acc @ filter (\<lambda>b. from_height \<le> height b \<and> height b \<le> to_height) bs)"
proof (induction arbitrary: acc rule: walk.induct)
  case (stop h n)
  then show ?case by (subst blocks_loop.simps) (simp add: Let_def)
next
  case (follow h n bs)
  have "distinct (map (\<lambda>b. unat (height b)) (rev (block n # bs)))"
    by (simp only: walk_heights [OF assms walk.follow [OF follow.hyps]] distinct_upt)
  then have "unat (height (block n)) \<notin> (\<lambda>b. unat (height b)) ` set bs" by simp
  moreover have ne: "bs \<noteq> []" using walk_nonempty [OF follow.hyps(3)] .
  ultimately have "height (block n) \<noteq> height (last bs)" by force
  then show ?case
    by (subst blocks_loop.simps) (simp add: Let_def ne follow.hyps follow.IH)
qed

lemma walk_linked:
  assumes "tree_ok E c"
  shows "walk c h bs \<Longrightarrow> successively (\<lambda>b a. previous_hash b = block_hash E a) bs"
proof (induction rule: walk.induct)
  case (follow h n bs)
  obtain p bs' where "bt_get c (previous_hash (block n)) = Some p" "bs = block p # bs'"
    using walk_hd [OF follow.hyps(3)] by blast
  then show ?case using tree_okD(1) [OF assms, of "previous_hash (block n)" p] follow.IH by simp
qed simp

lemma nth_of_interval:
  assumes "map f xs = [a..<b]" and "i < length xs"
  shows "f (xs ! i) = a + i"
proof -
  have "i < b - a" using assms by (metis length_map length_upt)
  then have "[a..<b] ! i = a + i" by simp
  then show ?thesis using assms by (metis nth_map)
qed

text \<open>The heights of a walk fix its blocks, so two of them at consecutive heights are linked.\<close>

lemma walk_parent:
  assumes ok: "tree_ok E c" and walk: "walk c h bs" and a: "a \<in> set bs" and b: "b \<in> set bs"
    and above: "unat (height b) = Suc (unat (height a))"
  shows "previous_hash b = block_hash E a"
proof -
  let ?H = "\<lambda>b. unat (height b)"
  have at: "?H (rev bs ! i) = ?H (last bs) + i" if "i < length bs" for i
    using nth_of_interval [OF walk_heights [OF ok walk]] that by simp
  obtain i j where i: "i < length bs" "a = rev bs ! i" and j: "j < length bs" "b = rev bs ! j"
    using a b by (metis in_set_conv_nth length_rev set_rev)
  have "j = Suc i" using above at [OF i(1)] at [OF j(1)] i(2) j(2) by simp
  moreover have "successively (\<lambda>a b. previous_hash b = block_hash E a) (rev bs)"
    using walk_linked [OF ok walk] by simp
  ultimately show ?thesis
    using i j successively_conv_nth [of _ "rev bs"] by simp
qed

lemma filter_interval:
  fixes f t :: nat
  assumes "a \<le> f"
  shows "filter (\<lambda>k. f \<le> k \<and> k \<le> t) [a..<Suc l] = [f..<Suc (min t l)]"
proof -
  have "set (filter (\<lambda>k. f \<le> k \<and> k \<le> t) [a..<Suc l]) = set [f..<Suc (min t l)]"
    using assms by auto
  moreover have "sorted (filter (\<lambda>k. f \<le> k \<and> k \<le> t) [a..<Suc l])"
    by (intro sorted_wrt_filter) (simp del: upt_Suc)
  ultimately show ?thesis
    using sorted_distinct_set_unique [of "filter (\<lambda>k. f \<le> k \<and> k \<le> t) [a..<Suc l]" "[f..<Suc (min t l)]"]
    by (simp del: upt_Suc)
qed

lemma walk_range:
  fixes to_height :: u64
  assumes ok: "tree_ok E c" and walk: "walk c h bs" and low: "height (last bs) \<le> from_height"
  defines "served \<equiv> rev (filter (\<lambda>b. from_height \<le> height b \<and> height b \<le> to_height) bs)"
  shows "map (\<lambda>b. unat (height b)) served = [unat from_height..<Suc (min (unat to_height) (unat (height (hd bs))))]"
    and "successively (\<lambda>a b. previous_hash b = block_hash E a) served"
proof -
  let ?H = "\<lambda>b. unat (height b)"
  have "map ?H served = filter (\<lambda>k. unat from_height \<le> k \<and> k \<le> unat to_height) (map ?H (rev bs))"
    by (simp add: served_def rev_filter [symmetric] filter_map comp_def word_le_nat_alt rev_map [symmetric])
  then show heights: "map ?H served = [unat from_height..<Suc (min (unat to_height) (?H (hd bs)))]"
    using low by (simp only: walk_heights [OF ok walk]) (simp only: filter_interval word_le_nat_alt)
  show "successively (\<lambda>a b. previous_hash b = block_hash E a) served"
    unfolding successively_conv_nth
  proof (intro allI impI)
    fix i
    assume i: "Suc i < length served"
    note at = nth_of_interval [OF heights]
    have "served ! j \<in> set bs" if "j < length served" for j
      using nth_mem [OF that] by (auto simp: served_def)
    then show "previous_hash (served ! Suc i) = block_hash E (served ! i)"
      using at [OF i] at [of i] i by (intro walk_parent [OF ok walk]) simp_all
  qed
qed

section \<open>Properties\<close>

text \<open>The block trees a program can build: a new one, then any sequence of the operations.\<close>

inductive reachable :: "('vk, 'sig, 'z) crypto_scheme \<Rightarrow> ('vk, 'sig) Blockchain \<Rightarrow> bool" for E where
  created: "Blockchain_new E = Some (Inr bc) \<Longrightarrow> head_hash bc \<noteq> 0 \<Longrightarrow> reachable E bc"
| restored: "reachable E bc \<Longrightarrow> previous_hash b \<noteq> block_hash E b \<Longrightarrow> state_wf s \<Longrightarrow>
    state_root b = compute_state_root E s \<Longrightarrow> reachable E (restore_head E bc b s)"
| submitted: "reachable E bc \<Longrightarrow> reachable E (fst (add_transaction E bc tx))"
| added: "reachable E bc \<Longrightarrow> hash_fresh E (chain bc) b \<Longrightarrow> state_wf s \<Longrightarrow>
    add_block E bc b s = Some (bc', r) \<Longrightarrow> reachable E bc'"

lemma reachable_ok: "reachable E bc \<Longrightarrow> blockchain_ok E bc"
proof (induction rule: reachable.induct)
  case (created bc)
  then obtain key where "genesis_verifying_key E = Some key"
    and "block_hash E (Block 0 0 0 key [] None [] 0) \<noteq> 0"
    by (auto simp: Blockchain_new_def Let_def bind_Some_iff)
  then show ?case using Blockchain_new_ok created(1) by fastforce
qed (auto intro: restore_head_ok add_transaction_ok add_block_ok)

text \<open>
  C4: the block tree stays sound. Whatever sequence of operations a node performs on its
  blockchain, blocks are stored under their hashes, a child is one higher and strictly later than its
  parent, the \<open>children\<close> index is exactly the inverse of the parent links, the head is the best block
  of the whole tree under the fork choice, the state root of the head block is the root of the
  current state, and the pool is sorted and within its size. The steps assume what a hash function
  without collisions gives (\<open>hash_fresh\<close>, the genesis hash is not the null hash).
\<close>

theorem reachable_blockchain_ok: "reachable E bc \<Longrightarrow> blockchain_ok E bc"
  by (rule reachable_ok)

section \<open>Importing blocks in different orders\<close>

text \<open>
  \<open>import_run E bc bs bc'\<close>: a node at \<open>bc\<close> calls \<open>add_block\<close> on the blocks \<open>bs\<close>, in that order and each
  with some well-formed parent state, every one is accepted, and the node is then at \<open>bc'\<close>.
\<close>

inductive import_run ::
  "('vk, 'sig, 'z) crypto_scheme \<Rightarrow> ('vk, 'sig) Blockchain \<Rightarrow> ('vk, 'sig) Block list \<Rightarrow> ('vk, 'sig) Blockchain \<Rightarrow> bool" for E where
  no_block: "import_run E bc [] bc"
| next_block: "hash_fresh E (chain bc) b \<Longrightarrow> state_wf s \<Longrightarrow> add_block E bc b s = Some (bc', Inr r) \<Longrightarrow>
    import_run E bc' bs bc'' \<Longrightarrow> import_run E bc (b # bs) bc''"

definition block_rank :: "('vk, 'sig, 'z) crypto_scheme \<Rightarrow> ('vk, 'sig) Block \<Rightarrow> nat \<times> nat \<times> nat" where
  "block_rank E b = chain_rank (block_hash E b) b"

definition has_block :: "('vk, 'sig, 'z) crypto_scheme \<Rightarrow> ('vk, 'sig) Blockchain \<Rightarrow> ('vk, 'sig) Block \<Rightarrow> bool" where
  "has_block E bc b \<longleftrightarrow>
     (\<exists>n. bt_get (chain bc) (block_hash E b) = Some n \<and> block_to_bytes E (block n) = block_to_bytes E b)"

text \<open>One import: the new head is the higher ranked of the old head and the block, and nothing is lost.\<close>

lemma add_block_head:
  assumes ok: "blockchain_ok E bc" and fresh: "hash_fresh E (chain bc) b"
    and add: "add_block E bc b s = Some (bc', Inr r)" and latest: "get_latest_block bc = Some head"
  shows "(\<exists>head'. get_latest_block bc' = Some head'
      \<and> chain_rank (head_hash bc') head' = max (chain_rank (head_hash bc) head) (block_rank E b))
    \<and> has_block E bc' b \<and> (\<forall>x. has_block E bc x \<longrightarrow> has_block E bc' x)"
proof -
  obtain p where parent: "bt_get (chain bc) (previous_hash b) = Some p"
    and acc: "block_accepted E (block p) s b (next_state r)"
    using add_block_success [OF add] .
  have tree: "tree_ok E (chain bc)" using ok by (simp add: blockchain_ok_def)
  note stored = attach_blocks [OF tree fresh parent]
  let ?c = "attach_block E (chain bc) b"
  obtain n where n: "bt_get ?c (block_hash E b) = Some n" "block_to_bytes E (block n) = block_to_bytes E b"
    using stored [of "block_hash E b"] fresh
    by (cases "bt_get (chain bc) (block_hash E b)") (auto simp: hash_fresh_def)
  have keep: "\<exists>n. bt_get ?c h = Some n \<and> block n = x" if "map_option block (bt_get (chain bc) h) = Some x" for h x
    using stored [of h] that by auto
  have rank: "chain_rank (block_hash E b) (block n) = block_rank E b"
    using n(2) by (auto simp: block_rank_def chain_rank_def dest: block_bytes_header)
  have bc': "chain bc' = ?c" "head_hash bc' = (if chain_rank (head_hash bc) head < block_rank E b then block_hash E b else head_hash bc)"
    by (rule add_block_accepted [OF ok fresh parent acc],
        use add latest in \<open>auto simp: should_replace_head_rank block_rank_def split: if_splits\<close>)+
  have "\<exists>head'. get_latest_block bc' = Some head'
      \<and> chain_rank (head_hash bc') head' = max (chain_rank (head_hash bc) head) (block_rank E b)"
  proof (cases "chain_rank (head_hash bc) head < block_rank E b")
    case True
    then show ?thesis using bc' n rank by (simp add: get_latest_block_def max_def less_imp_le)
  next
    case False
    then show ?thesis using bc' keep [of "head_hash bc" head] latest by (auto simp: get_latest_block_def max_def)
  qed
  moreover have "has_block E bc' b" using bc' n by (simp add: has_block_def)
  moreover have "has_block E bc' x" if "has_block E bc x" for x
    using that keep [of "block_hash E x"] bc' by (fastforce simp: has_block_def)
  ultimately show ?thesis by blast
qed

text \<open>A whole import: the head is the highest ranked of the old head and all the blocks.\<close>

lemma import_run_head:
  assumes "import_run E bc bs bc'" and "blockchain_ok E bc" and "get_latest_block bc = Some head"
  shows "blockchain_ok E bc' \<and> (\<exists>head'. get_latest_block bc' = Some head'
      \<and> chain_rank (head_hash bc') head' = Max (insert (chain_rank (head_hash bc) head) (block_rank E ` set bs)))
    \<and> (\<forall>x. x \<in> set bs \<or> has_block E bc x \<longrightarrow> has_block E bc' x)"
  using assms
proof (induction arbitrary: head rule: import_run.induct)
  case (no_block bc)
  then show ?case by simp
next
  case (next_block bc b s bc' r bs bc'')
  note first = add_block_head [OF next_block.prems(1) next_block.hyps(1) next_block.hyps(3) next_block.prems(2)]
  then obtain head' where head': "get_latest_block bc' = Some head'"
    "chain_rank (head_hash bc') head' = max (chain_rank (head_hash bc) head) (block_rank E b)" by blast
  have ok: "blockchain_ok E bc'" by (rule add_block_ok [OF next_block.prems(1) next_block.hyps(1,2,3)])
  have "Max (insert (max (chain_rank (head_hash bc) head) (block_rank E b)) (block_rank E ` set bs))
      = Max (insert (chain_rank (head_hash bc) head) (block_rank E ` set (b # bs)))"
    by (cases "set bs = {}") (simp_all add: max.assoc)
  then show ?case using next_block.IH [OF ok head'(1)] first head'(2) by auto
qed

lemma chain_rank_hash: "chain_rank h b = chain_rank h' b' \<Longrightarrow> h = h'"
  by (simp add: chain_rank_def word_unat_eq_iff)

text \<open>Hence two import sequences of the same blocks end at the same head.\<close>

lemma import_run_agree:
  assumes ok: "blockchain_ok E bc" and a: "import_run E bc bs a" and b: "import_run E bc cs b" and same: "set bs = set cs"
  shows "\<exists>head ha hb. get_latest_block bc = Some head \<and> get_latest_block a = Some ha \<and> get_latest_block b = Some hb
    \<and> chain_rank (head_hash a) ha = Max (insert (chain_rank (head_hash bc) head) (block_rank E ` set bs))
    \<and> head_hash a = head_hash b \<and> block_to_bytes E ha = block_to_bytes E hb
    \<and> compute_state_root E (state a) = compute_state_root E (state b)"
proof -
  obtain head where head: "get_latest_block bc = Some head" "bt_get (chain bc) (head_hash bc) \<noteq> None"
    using ok by (auto simp: blockchain_ok_def head_best_def get_latest_block_def)
  from import_run_head [OF a ok head(1)] import_run_head [OF b ok head(1)] same
  obtain ha hb where ha: "get_latest_block a = Some ha" and hb: "get_latest_block b = Some hb"
    and rank: "chain_rank (head_hash a) ha = Max (insert (chain_rank (head_hash bc) head) (block_rank E ` set bs))"
    and eq: "chain_rank (head_hash a) ha = chain_rank (head_hash b) hb"
    and oks: "blockchain_ok E a" "blockchain_ok E b"
    and kept: "\<And>x. x \<in> set bs \<or> has_block E bc x \<Longrightarrow> has_block E a x \<and> has_block E b x"
    by auto
  have hash: "head_hash a = head_hash b" using eq by (rule chain_rank_hash)
  have "tree_ok E (chain bc)" using ok by (simp add: blockchain_ok_def)
  then have root: "head_hash bc = block_hash E head" "has_block E bc head"
    using head(1) by (auto simp: tree_ok_def get_latest_block_def has_block_def)
  have "chain_rank (head_hash a) ha \<in> insert (chain_rank (head_hash bc) head) (block_rank E ` set bs)"
    unfolding rank by (rule Max_in) auto
  then obtain x where x: "x \<in> set bs \<or> x = head" "chain_rank (head_hash a) ha = chain_rank (block_hash E x) x"
    using root by (auto simp: block_rank_def)
  then have "head_hash a = block_hash E x" by (blast dest: chain_rank_hash)
  then have "block_to_bytes E ha = block_to_bytes E x" "block_to_bytes E hb = block_to_bytes E x"
    using kept [of x] x root ha hb hash by (auto simp: has_block_def get_latest_block_def)
  then have bytes: "block_to_bytes E ha = block_to_bytes E hb" by simp
  then have "compute_state_root E (state a) = compute_state_root E (state b)"
    using oks ha hb by (auto simp: blockchain_ok_def head_state_ok_def get_latest_block_def dest: block_bytes_root)
  then show ?thesis using head ha hb rank hash bytes by blast
qed

text \<open>
  C5: the head does not depend on the order of arrival. Two nodes with the same block tree that
  import the same blocks by \<open>add_block\<close>, in any two orders in which both accept them, end with the
  same head hash, the same head block (its signed bytes) and states with the same root; and the head
  is the highest ranked, by height, then slot, then hash, of the old head and the imported blocks.
  As above, the hash has no collision among the blocks that occur (\<open>hash_fresh\<close> at each import).
\<close>

theorem same_blocks_same_head:
  assumes "reachable E bc" and "import_run E bc bs a" and "import_run E bc cs b" and "set bs = set cs"
  shows "\<exists>head ha hb. get_latest_block bc = Some head \<and> get_latest_block a = Some ha \<and> get_latest_block b = Some hb
    \<and> chain_rank (head_hash a) ha = Max (insert (chain_rank (head_hash bc) head) (block_rank E ` set bs))
    \<and> head_hash a = head_hash b \<and> block_to_bytes E ha = block_to_bytes E hb
    \<and> compute_state_root E (state a) = compute_state_root E (state b)"
  by (rule import_run_agree [OF reachable_ok [OF assms(1)] assms(2-4)])

section \<open>Serving blocks\<close>

lemma get_blocks_range:
  assumes ok: "blockchain_ok E bc"
  shows "\<exists>earliest latest blocks. earliest_contiguous_height bc = Some earliest
    \<and> get_latest_block bc = Some latest \<and> earliest \<le> height latest
    \<and> get_blocks bc from_height to_height = Some blocks
    \<and> map (\<lambda>b. unat (height b)) blocks
      = (if earliest \<le> from_height then [unat from_height..<Suc (min (unat to_height) (unat (height latest)))] else [])
    \<and> successively (\<lambda>a b. previous_hash b = block_hash E a) blocks"
proof -
  have tree: "tree_ok E (chain bc)" and best: "head_best bc" using ok by (simp_all add: blockchain_ok_def)
  obtain n where n: "bt_get (chain bc) (head_hash bc) = Some n" using best by (auto simp: head_best_def)
  obtain bs where walk: "walk (chain bc) (head_hash bc) bs" using walk_exists [OF tree n] ..
  then obtain bs' where bs: "bs = block n # bs'" using walk_hd n by fastforce
  let ?served = "rev (filter (\<lambda>b. from_height \<le> height b \<and> height b \<le> to_height) bs)"
  have latest: "get_latest_block bc = Some (block n)" by (simp add: get_latest_block_def n)
  have earliest: "earliest_contiguous_height bc = Some (height (last bs))"
    by (simp add: earliest_contiguous_height_def latest earliest_loop_walk [OF walk])
  have "unat (height (last bs)) \<in> set (map (\<lambda>b. unat (height b)) (rev bs))" using bs by simp
  then have le: "height (last bs) \<le> height (block n)"
    by (simp only: walk_heights [OF tree walk]) (simp add: bs word_le_nat_alt)
  have blocks: "get_blocks bc from_height to_height =
      Some (if from_height \<le> to_height \<and> height (last bs) \<le> from_height \<and> from_height \<le> height (block n) then ?served else [])"
    by (auto simp: get_blocks_def earliest latest blocks_loop_walk [OF tree walk] not_less)
  show ?thesis
  proof (cases "from_height \<le> to_height \<and> height (last bs) \<le> from_height \<and> from_height \<le> height (block n)")
    case True
    then show ?thesis
      using walk_range [OF tree walk, of from_height to_height] earliest latest le blocks by (simp add: bs)
  next
    case False
    then have "map (\<lambda>b. unat (height b)) [] =
        (if height (last bs) \<le> from_height then [unat from_height..<Suc (min (unat to_height) (unat (height (block n))))] else [])"
      by (auto simp: word_le_nat_alt min_def)
    moreover have "get_blocks bc from_height to_height = Some []" using False blocks by auto
    ultimately show ?thesis using earliest latest le by simp
  qed
qed

text \<open>
  C6: serving blocks. On a sound block tree \<open>earliest_contiguous_height\<close> and \<open>get_blocks\<close> return
  (their loops end and nothing panics). For a range that starts at or above the earliest contiguous
  height, \<open>get_blocks\<close> gives one block per height from \<open>from_height\<close> up to \<open>to_height\<close> or the
  height of the head, whichever is lower, in ascending order, each naming its predecessor by hash;
  otherwise it gives none.
\<close>

theorem get_blocks_contiguous:
  assumes ok: "blockchain_ok E bc"
  shows "\<exists>earliest latest blocks. earliest_contiguous_height bc = Some earliest
    \<and> get_latest_block bc = Some latest \<and> earliest \<le> height latest
    \<and> get_blocks bc from_height to_height = Some blocks
    \<and> map (\<lambda>b. unat (height b)) blocks
      = (if earliest \<le> from_height then [unat from_height..<Suc (min (unat to_height) (unat (height latest)))] else [])
    \<and> successively (\<lambda>a b. previous_hash b = block_hash E a) blocks"
  by (rule get_blocks_range [OF ok])

section \<open>A concrete block tree\<close>

definition demo_tree :: "(u8, demo_sig) Blockchain" where
  "demo_tree = \<lparr> chain = [(1, \<lparr> block = demo_genesis, children = [] \<rparr>)], head_hash = 1, state = State_new,
     mempool = Mempool_new 10000 \<rparr>"

lemma demo_genesis_hash: "block_hash demo demo_genesis = 1"
  by (simp add: demo_genesis_def block_hash_demo)

lemma demo_tree_new: "Blockchain_new demo = Some (Inr demo_tree)"
  using demo_genesis_hash
  by (simp add: Blockchain_new_def genesis_verifying_key_def demo_tree_def demo_genesis_def numeral_eq_Suc)

lemma demo_block_hash_ne: "block_hash demo demo_block \<noteq> 1" "block_hash demo demo_block \<noteq> 0"
  using block_hash_demo_low [of demo_block] by (auto simp: demo_block_def)

lemma demo_tree_ok: "blockchain_ok demo demo_tree"
  using Blockchain_new_ok [of demo 1] demo_tree_new demo_genesis_hash
  by (simp add: genesis_verifying_key_def demo_genesis_def numeral_eq_Suc)

lemma demo_tree_reachable: "reachable demo demo_tree"
  by (rule reachable.created [OF demo_tree_new]) (simp add: demo_tree_def)

lemma demo_block_fresh: "hash_fresh demo (chain demo_tree) demo_block"
  using demo_block_hash_ne demo_genesis_hash
  by (auto simp: hash_fresh_def demo_tree_def demo_block_def demo_genesis_def)

lemma demo_block_added:
  "\<exists>bc r. add_block demo demo_tree demo_block demo_state = Some (bc, r) \<and> head_hash bc = block_hash demo demo_block"
proof -
  have parent: "bt_get (chain demo_tree) (previous_hash demo_block) = Some \<lparr> block = demo_genesis, children = [] \<rparr>"
    by (simp add: demo_tree_def demo_block_def demo_genesis_hash)
  have acc: "block_accepted demo (block \<lparr> block = demo_genesis, children = [] \<rparr>) demo_state demo_block demo_after"
    by (simp add: block_accepted_def demo_block_accepted)
  show ?thesis
    by (rule add_block_accepted [OF demo_tree_ok demo_block_fresh parent acc])
      (auto simp: get_latest_block_def demo_tree_def should_replace_head_def demo_block_def demo_genesis_def)
qed

theorem reachable_blockchain_ok_witness:
  "\<exists>bc. head_hash bc = block_hash demo demo_block \<and> blockchain_ok demo bc"
proof -
  obtain bc r where bc: "add_block demo demo_tree demo_block demo_state = Some (bc, r)"
    "head_hash bc = block_hash demo demo_block"
    using demo_block_added by blast
  have "reachable demo bc"
    by (rule reachable.added [OF demo_tree_reachable demo_block_fresh state_wf_demo bc(1)])
  then show ?thesis using reachable_blockchain_ok bc(2) by blast
qed

text \<open>Two siblings on top of the genesis block, the second in a later slot, imported in both orders.\<close>

definition demo_sibling :: "u64 \<Rightarrow> (u8, demo_sig) Block" where
  "demo_sibling sl = sign_block (Block 1 sl 1 1 [] None [] 0)"

definition demo_children :: "bytes32 list \<Rightarrow> (u8, demo_sig) BlockNode" where
  "demo_children hs = \<lparr> block = demo_genesis, children = hs \<rparr>"

definition demo_leaf :: "u64 \<Rightarrow> (u8, demo_sig) BlockNode" where
  "demo_leaf sl = \<lparr> block = demo_sibling sl, children = [] \<rparr>"

lemma demo_sibling_sel:
  "height (demo_sibling sl) = 1" "slot (demo_sibling sl) = sl" "previous_hash (demo_sibling sl) = 1"
  "transactions (demo_sibling sl) = []" "state_root (demo_sibling sl) = 0"
  by (simp_all add: demo_sibling_def)

lemma demo_sibling_hash: "block_hash demo (demo_sibling 8) = 2 ^ 64 + 9" "block_hash demo (demo_sibling 9) = 2 ^ 64 + 10"
  by (simp_all add: demo_sibling_def block_hash_demo)

lemma demo_sibling_accepted:
  "0 < sl \<Longrightarrow> validate_and_apply_block demo demo_genesis State_new (demo_sibling sl) = Some (Inr State_new)"
  by (simp add: validate_and_apply_block_def demo_sibling_def demo_genesis_def get_expected_validator_def
      arith_defs State_new_def compute_state_root_def merkle_root.simps)

lemma demo_genesis_sel: "height demo_genesis = 0" "slot demo_genesis = 0" "previous_hash demo_genesis = 0"
  by (simp_all add: demo_genesis_def)

lemmas demo_import_simps = add_block_def attach_block_def get_latest_block_def should_replace_head_def
  demo_sibling_hash demo_sibling_sel demo_sibling_accepted demo_leaf_def demo_children_def demo_genesis_sel Let_def bt_contains_key_def

definition demo_both :: "bytes32 list \<Rightarrow> (u8, demo_sig) Blockchain" where
  "demo_both hs = \<lparr> chain = [(1, demo_children hs), (2 ^ 64 + 9, demo_leaf 8), (2 ^ 64 + 10, demo_leaf 9)],
     head_hash = 2 ^ 64 + 10, state = State_new, mempool = Mempool_new 10000 \<rparr>"

definition demo_one :: "u64 \<Rightarrow> bytes32 \<Rightarrow> (u8, demo_sig) Blockchain" where
  "demo_one sl h = \<lparr> chain = [(1, demo_children [h]), (h, demo_leaf sl)],
     head_hash = h, state = State_new, mempool = Mempool_new 10000 \<rparr>"

lemma demo_import_8_9:
  "import_run demo demo_tree [demo_sibling 8, demo_sibling 9] (demo_both [2 ^ 64 + 9, 2 ^ 64 + 10])"
proof -
  have "add_block demo demo_tree (demo_sibling 8) State_new
      = Some (demo_one 8 (2 ^ 64 + 9), Inr \<lparr> next_state = State_new, became_head = True \<rparr>)"
    by (simp add: demo_import_simps demo_tree_def demo_one_def)
  moreover have "add_block demo (demo_one 8 (2 ^ 64 + 9)) (demo_sibling 9) State_new
      = Some (demo_both [2 ^ 64 + 9, 2 ^ 64 + 10], Inr \<lparr> next_state = State_new, became_head = True \<rparr>)"
    by (simp add: demo_import_simps demo_one_def demo_both_def)
  moreover have "hash_fresh demo (chain demo_tree) (demo_sibling 8)"
      "hash_fresh demo (chain (demo_one 8 (2 ^ 64 + 9))) (demo_sibling 9)"
    by (auto simp: hash_fresh_def demo_tree_def demo_one_def demo_import_simps split: if_splits)
  ultimately show ?thesis using import_run.intros state_wf_new by metis
qed

lemma demo_import_9_8:
  "import_run demo demo_tree [demo_sibling 9, demo_sibling 8] (demo_both [2 ^ 64 + 10, 2 ^ 64 + 9])"
proof -
  have "add_block demo demo_tree (demo_sibling 9) State_new
      = Some (demo_one 9 (2 ^ 64 + 10), Inr \<lparr> next_state = State_new, became_head = True \<rparr>)"
    by (simp add: demo_import_simps demo_tree_def demo_one_def)
  moreover have "add_block demo (demo_one 9 (2 ^ 64 + 10)) (demo_sibling 8) State_new
      = Some (demo_both [2 ^ 64 + 10, 2 ^ 64 + 9], Inr \<lparr> next_state = State_new, became_head = False \<rparr>)"
    by (simp add: demo_import_simps demo_one_def demo_both_def)
  moreover have "hash_fresh demo (chain demo_tree) (demo_sibling 9)"
      "hash_fresh demo (chain (demo_one 9 (2 ^ 64 + 10))) (demo_sibling 8)"
    by (auto simp: hash_fresh_def demo_tree_def demo_one_def demo_import_simps split: if_splits)
  ultimately show ?thesis using import_run.intros state_wf_new by metis
qed

theorem same_blocks_same_head_witness:
  "\<exists>a b. import_run demo demo_tree [demo_sibling 8, demo_sibling 9] a \<and>
     import_run demo demo_tree [demo_sibling 9, demo_sibling 8] b \<and>
     head_hash a = head_hash b \<and> compute_state_root demo (state a) = compute_state_root demo (state b)"
proof -
  have "set [demo_sibling 8, demo_sibling 9] = set [demo_sibling 9, demo_sibling 8]" by auto
  then show ?thesis
    using same_blocks_same_head [OF demo_tree_reachable demo_import_8_9 demo_import_9_8] demo_import_8_9 demo_import_9_8
    by blast
qed

text \<open>A node restored at height 1: it serves height 1, and nothing for a range that starts below it.\<close>

definition demo_restored :: "(u8, demo_sig) Blockchain" where
  "demo_restored = restore_head demo demo_tree (demo_sibling 8) State_new"

lemma demo_restored_ok: "blockchain_ok demo demo_restored"
  unfolding demo_restored_def
  by (rule restore_head_ok)
    (simp_all add: demo_sibling_hash demo_sibling_sel state_wf_new compute_state_root_new)

lemma demo_restored_heights:
  "get_latest_block demo_restored = Some (demo_sibling 8)" "earliest_contiguous_height demo_restored = Some 1"
  by (simp_all add: earliest_contiguous_height_def earliest_loop.simps get_latest_block_def demo_restored_def
      restore_head_def demo_sibling_hash demo_sibling_sel bt_contains_key_def)

theorem get_blocks_contiguous_witness:
  "(\<exists>blocks. get_blocks demo_tree 0 7 = Some blocks \<and> map (\<lambda>b. unat (height b)) blocks = [0]) \<and>
   (\<exists>blocks. get_blocks demo_restored 1 7 = Some blocks \<and> map (\<lambda>b. unat (height b)) blocks = [1]) \<and>
   get_blocks demo_restored 0 7 = Some []"
proof -
  have "get_latest_block demo_tree = Some demo_genesis" by (simp add: get_latest_block_def demo_tree_def)
  then have "\<exists>blocks. get_blocks demo_tree 0 7 = Some blocks \<and> map (\<lambda>b. unat (height b)) blocks = [0]"
    using get_blocks_contiguous [OF demo_tree_ok, of 0 7] by (auto simp: demo_genesis_def)
  moreover have "\<exists>blocks. get_blocks demo_restored 1 7 = Some blocks \<and> map (\<lambda>b. unat (height b)) blocks = [1]"
    using get_blocks_contiguous [OF demo_restored_ok, of 1 7] by (auto simp: demo_restored_heights demo_sibling_sel)
  moreover have "get_blocks demo_restored 0 7 = Some []"
    using get_blocks_contiguous [OF demo_restored_ok, of 0 7] by (auto simp: demo_restored_heights)
  ultimately show ?thesis by blast
qed

end
