(* ===== verification/Contract.thy ===== *)
theory Contract
  imports Blockchain
begin

text \<open>
  What the node exchanges with its runtime and its peers: the inputs and actions of
  \<open>rp-node/src/contract.rs\<close>, its errors (\<open>rp-node/src/errors.rs\<close>) and the messages of
  \<open>rp-node/src/network/message.rs\<close>.

  Messages travel in the format of the \<open>postcard\<close> crate, which is not part of the repository: its
  encoder and decoder for each message type are fields of the record \<open>net\<close>, which extends the
  cryptographic parameters. The law the node relies on is \<open>postcard_ok\<close>: encoding succeeds
  and decoding gives the message back.
\<close>

section \<open>Messages\<close>

datatype SyncRequest = SyncRequest (sync_from: u64) (sync_to: u64)

datatype ('vk, 'sig) SyncResponse =
  SyncResponse (blocks: "('vk, 'sig) Block list") (has_more: bool) (next_height: "u64 option")

datatype ('vk, 'sig) AnnounceKind =
    NewTransaction "('vk, 'sig) Transaction"
  | NewBlock "('vk, 'sig) Block"

datatype ('vk, 'sig) AnnounceRequest = AnnounceRequest (kind: "('vk, 'sig) AnnounceKind")

datatype AnnounceResponse = AnnounceResponse (accepted: bool)

datatype ('vk, 'sig) NetworkMessage =
    AnnounceRequestMsg "('vk, 'sig) AnnounceRequest"
  | SyncRequestMsg SyncRequest
  | SyncResponseMsg "('vk, 'sig) SyncResponse"
  | AnnounceResponseMsg AnnounceResponse

definition announce_transaction :: "('vk, 'sig) Transaction \<Rightarrow> ('vk, 'sig) AnnounceRequest" where
  "announce_transaction tx = AnnounceRequest (NewTransaction tx)"

definition announce_block :: "('vk, 'sig) Block \<Rightarrow> ('vk, 'sig) AnnounceRequest" where
  "announce_block b = AnnounceRequest (NewBlock b)"

record ('vk, 'sig) net = "('vk, 'sig) crypto" +
  encode_message :: "('vk, 'sig) NetworkMessage \<Rightarrow> byte_vec option"
  decode_message :: "byte_vec \<Rightarrow> ('vk, 'sig) NetworkMessage option"
  encode_sync_request :: "SyncRequest \<Rightarrow> byte_vec option"
  decode_sync_request :: "byte_vec \<Rightarrow> SyncRequest option"
  encode_sync_response :: "('vk, 'sig) SyncResponse \<Rightarrow> byte_vec option"
  decode_sync_response :: "byte_vec \<Rightarrow> ('vk, 'sig) SyncResponse option"
  encode_announce_request :: "('vk, 'sig) AnnounceRequest \<Rightarrow> byte_vec option"
  decode_announce_request :: "byte_vec \<Rightarrow> ('vk, 'sig) AnnounceRequest option"
  encode_announce_response :: "AnnounceResponse \<Rightarrow> byte_vec option"
  decode_announce_response :: "byte_vec \<Rightarrow> AnnounceResponse option"

definition postcard_ok :: "('m \<Rightarrow> byte_vec option) \<Rightarrow> (byte_vec \<Rightarrow> 'm option) \<Rightarrow> 'm \<Rightarrow> bool" where
  "postcard_ok encode decode msg \<longleftrightarrow> (\<exists>bytes. encode msg = Some bytes \<and> decode bytes = Some msg)"

text \<open>\<open>to_bytes\<close> expects the encoder to succeed (it panics otherwise); \<open>from_bytes\<close> names the message it could not read.\<close>

definition decode_or :: "string \<Rightarrow> 'm option \<Rightarrow> (string, 'm) result" where
  "decode_or e r = (case r of Some msg \<Rightarrow> Inr msg | None \<Rightarrow> Inl e)"

definition message_to_bytes :: "('vk, 'sig, 'z) net_scheme \<Rightarrow> ('vk, 'sig) NetworkMessage \<Rightarrow> byte_vec exec" where
  "message_to_bytes E msg = encode_message E msg"

definition message_from_bytes :: "('vk, 'sig, 'z) net_scheme \<Rightarrow> byte_vec \<Rightarrow> (string, ('vk, 'sig) NetworkMessage) result" where
  "message_from_bytes E bytes = decode_or ''invalid network message'' (decode_message E bytes)"

definition sync_request_to_bytes :: "('vk, 'sig, 'z) net_scheme \<Rightarrow> SyncRequest \<Rightarrow> byte_vec exec" where
  "sync_request_to_bytes E msg = encode_sync_request E msg"

definition sync_request_from_bytes :: "('vk, 'sig, 'z) net_scheme \<Rightarrow> byte_vec \<Rightarrow> (string, SyncRequest) result" where
  "sync_request_from_bytes E bytes = decode_or ''invalid sync request'' (decode_sync_request E bytes)"

definition sync_response_to_bytes :: "('vk, 'sig, 'z) net_scheme \<Rightarrow> ('vk, 'sig) SyncResponse \<Rightarrow> byte_vec exec" where
  "sync_response_to_bytes E msg = encode_sync_response E msg"

definition sync_response_from_bytes ::
  "('vk, 'sig, 'z) net_scheme \<Rightarrow> byte_vec \<Rightarrow> (string, ('vk, 'sig) SyncResponse) result" where
  "sync_response_from_bytes E bytes = decode_or ''invalid sync response'' (decode_sync_response E bytes)"

definition announce_request_to_bytes :: "('vk, 'sig, 'z) net_scheme \<Rightarrow> ('vk, 'sig) AnnounceRequest \<Rightarrow> byte_vec exec" where
  "announce_request_to_bytes E msg = encode_announce_request E msg"

definition announce_request_from_bytes ::
  "('vk, 'sig, 'z) net_scheme \<Rightarrow> byte_vec \<Rightarrow> (string, ('vk, 'sig) AnnounceRequest) result" where
  "announce_request_from_bytes E bytes = decode_or ''invalid announce request'' (decode_announce_request E bytes)"

definition announce_response_to_bytes :: "('vk, 'sig, 'z) net_scheme \<Rightarrow> AnnounceResponse \<Rightarrow> byte_vec exec" where
  "announce_response_to_bytes E msg = encode_announce_response E msg"

definition announce_response_from_bytes :: "('vk, 'sig, 'z) net_scheme \<Rightarrow> byte_vec \<Rightarrow> (string, AnnounceResponse) result" where
  "announce_response_from_bytes E bytes = decode_or ''invalid announce response'' (decode_announce_response E bytes)"

section \<open>Inputs and actions\<close>

type_synonym PeerId = bytes32
type_synonym Frame = byte_vec
type_synonym BlockHash = bytes32

datatype ContractError = Storage | Transport | Wake | Identity | Other

datatype PersistCompletedType = SnapshotType | BlockType

datatype ('vk, 'sig) NodeInput =
    Tick u64
  | PeerConnected PeerId
  | PeerDisconnected PeerId
  | FrameReceived PeerId Frame
  | LocalTransactionSubmitted "('vk, 'sig) Transaction"
  | StorageLoaded BlockHash "byte_vec option"
  | PersistCompleted PersistCompletedType
  | ImportRequested PeerId u64 u64

datatype ('vk, 'sig) NodeAction =
    SendFrame PeerId Frame
  | BroadcastFrame Frame
  | PersistBlock "('vk, 'sig) Block"
  | PersistSnapshot BlockHash byte_vec
  | RequestBlocks PeerId u64 u64
  | ScheduleWake u64
  | CancelWake
  | DisconnectPeer PeerId
  | ReportEvent string
  | FrameReceivedAction PeerId
  | PersistCompletedAction PersistCompletedType
  | LoadSnapshot BlockHash

record WakeAt =
  wake_deadline_ms :: u64

end
