(* ===== verification/DemoNet.thy ===== *)
theory DemoNet
  imports Contract
begin

text \<open>
  A concrete instance of the network parameters for the witnesses of the node: the cryptography of
  \<open>demo\<close> and a codec that knows a few frames. \<open>demo_child\<close> is a signed block on top of the genesis block.
\<close>

definition demo_child :: "(u8, demo_sig) Block" where
  "demo_child = sign_block (Block 1 8 1 5 [] None [] 0)"

definition demo_decode :: "byte_vec \<Rightarrow> (u8, demo_sig) NetworkMessage option" where
  "demo_decode frame =
     (if frame = [1] then Some (AnnounceRequestMsg (announce_block demo_child))
      else if frame = [2] then Some (SyncRequestMsg (SyncRequest 0 9))
      else if frame = [3] then Some (AnnounceRequestMsg (announce_transaction demo_transfer))
      else if frame = [5] then Some (SyncResponseMsg (SyncResponse [] True (Some 40)))
      else None)"

definition demo_encode :: "(u8, demo_sig) NetworkMessage \<Rightarrow> byte_vec option" where
  "demo_encode msg =
     (case msg of
        AnnounceRequestMsg (AnnounceRequest (NewBlock b)) \<Rightarrow> Some [1]
      | SyncRequestMsg _ \<Rightarrow> Some [2]
      | AnnounceRequestMsg (AnnounceRequest (NewTransaction tx)) \<Rightarrow> Some [3]
      | _ \<Rightarrow> Some [4])"

definition demo_net :: "(u8, demo_sig) net" where
  "demo_net = \<lparr> overflow_checks = True, sha256 = demo_digest, sec1_compressed = demo_key,
     from_sec1_bytes = demo_key_of, ecdsa_verify = (\<lambda>k m sg. sg = (k, m)),
     secret_verifying_key = (\<lambda>bs. Some (hd bs)),
     encode_message = demo_encode, decode_message = demo_decode,
     encode_sync_request = (\<lambda>_. Some [5]), decode_sync_request = (\<lambda>_. Some (SyncRequest 0 9)),
     encode_sync_response = (\<lambda>_. Some [6]), decode_sync_response = (\<lambda>_. Some (SyncResponse [] False None)),
     encode_announce_request = (\<lambda>_. Some [7]), decode_announce_request = (\<lambda>_. Some (announce_block demo_child)),
     encode_announce_response = (\<lambda>_. Some [8]), decode_announce_response = (\<lambda>_. Some (AnnounceResponse True)) \<rparr>"

lemma demo_net_sel [simp]:
  "overflow_checks demo_net = True" "sha256 demo_net = demo_digest" "sec1_compressed demo_net = demo_key"
  "from_sec1_bytes demo_net = demo_key_of" "ecdsa_verify demo_net k m sg \<longleftrightarrow> sg = (k, m)"
  "secret_verifying_key demo_net bs = Some (hd bs)"
  "encode_message demo_net = demo_encode" "decode_message demo_net = demo_decode"
  by (simp_all add: demo_net_def)

section \<open>Hashes depend on the cryptographic parameters alone\<close>

lemma to_bytes_cong:
  assumes "sec1_compressed E = sec1_compressed E'"
  shows "data_to_bytes E d = data_to_bytes E' d" and "tx_to_bytes E tx = tx_to_bytes E' tx"
    and "proof_to_bytes E p = proof_to_bytes E' p" and "block_to_bytes E b = block_to_bytes E' b"
  using assms
  by (induction d and tx and p and b)
    (simp_all add: verifying_key_bytes_def verifying_key_to_bytes_def vec_to_bytes_def cong: map_cong)

lemma block_hash_demo_net [simp]: "block_hash demo_net b = block_hash demo b"
  using to_bytes_cong(4) [of demo_net demo b] by (simp add: block_hash_def hash_def)

lemma tx_hash_demo_net [simp]: "tx_hash demo_net tx = tx_hash demo tx"
  using to_bytes_cong(2) [of demo_net demo tx] by (simp add: tx_hash_def hash_def)

lemma block_is_valid_demo_net [simp]: "block_is_valid demo_net b = block_is_valid demo b"
  by (simp add: block_is_valid_def split: option.split)

lemma tx_is_valid_demo_net [simp]: "tx_is_valid demo_net tx = tx_is_valid demo tx"
  by (simp add: tx_is_valid_def split: option.split)

lemma demo_child_hash: "block_hash demo demo_child = 1 + (2 ^ 64 + 8)"
  unfolding demo_child_def sign_block_sel by (simp add: block_hash_demo)

lemma demo_tree_new_net: "Blockchain_new demo_net = Some (Inr demo_tree)"
  using demo_genesis_hash
  by (simp add: Blockchain_new_def genesis_verifying_key_def demo_tree_def demo_genesis_def numeral_eq_Suc)

lemma demo_child_accepted:
  "validate_and_apply_block demo_net demo_genesis State_new demo_child = Some (Inr State_new)"
  by (simp add: validate_and_apply_block_def demo_child_def demo_genesis_def get_expected_validator_def
      State_new_def arith_defs compute_state_root_def merkle_root.simps)

text \<open>The same parameters in a build without overflow checks.\<close>

definition demo_release :: "(u8, demo_sig) net" where
  "demo_release = demo_net\<lparr>overflow_checks := False\<rparr>"

lemma demo_release_sel [simp]:
  "overflow_checks demo_release = False" "sha256 demo_release = demo_digest" "sec1_compressed demo_release = demo_key"
  "encode_message demo_release = demo_encode" "decode_message demo_release = demo_decode"
  by (simp_all add: demo_release_def demo_net_def)

lemma block_hash_demo_release [simp]: "block_hash demo_release b = block_hash demo b"
  using to_bytes_cong(4) [of demo_release demo b] by (simp add: block_hash_def hash_def)

lemma demo_tree_new_release: "Blockchain_new demo_release = Some (Inr demo_tree)"
proof -
  have "genesis_verifying_key demo_release = Some 1"
    by (simp add: genesis_verifying_key_def demo_release_def numeral_eq_Suc)
  then show ?thesis using demo_genesis_hash by (simp add: Blockchain_new_def demo_tree_def demo_genesis_def)
qed

lemma demo_encode_some: "\<exists>bytes. demo_encode msg = Some bytes"
  by (simp add: demo_encode_def split: NetworkMessage.split AnnounceRequest.split AnnounceKind.split)

definition demo_blocks :: "(u8, demo_sig) Block set" where
  "demo_blocks = {demo_genesis, demo_child}"

lemma demo_blocks_hashes:
  "\<forall>b\<in>demo_blocks. block_hash demo b \<noteq> 0"
  by (simp_all add: demo_blocks_def demo_genesis_hash demo_child_hash)

end
