(* ===== verification/NodeEngine.thy ===== *)
theory NodeEngine
  imports DemoNet
begin

text \<open>
  The node's state machine (\<open>rp-node/src/node_engine.rs\<close>): \<open>step\<close> takes one input and
  returns the actions that the runtime has to perform. Each handler of the \<open>match\<close> in \<open>step\<close> is
  a definition of its own. A block that does not extend the head is parked under its parent's hash
  until the parent's snapshot is loaded.

  \<open>import_parked_blocks\<close> calls itself for the children of a block that became the head, between
  two iterations of its loop: \<open>import_loop\<close> is the loop with that call unfolded, a
  \<open>partial_function (option)\<close>.
\<close>

section \<open>State\<close>

definition REQUEST_TIMEOUT_MS :: u64 where
  "REQUEST_TIMEOUT_MS = 30000"

record ('vk, 'sig) ParkedBlock =
  parked_peer :: PeerId
  parked_block :: "('vk, 'sig) Block"

record PeerState =
  connected :: bool
  last_seen_ms :: u64

record PendingRequest =
  peer :: PeerId
  from_height :: u64
  to_height :: u64
  deadline_ms :: u64

record ('vk, 'sig) NodeEngine =
  blockchain :: "('vk, 'sig) Blockchain"
  peers :: "(PeerId, PeerState) btree_map"
  pending_requests :: "PendingRequest list"
  pending_blocks :: "(BlockHash, ('vk, 'sig) ParkedBlock list) btree_map"
  current_time_ms :: u64
  scheduled_wake_at_ms :: "u64 option"

type_synonym ('vk, 'sig) engine_step = "(('vk, 'sig) NodeEngine \<times> ('vk, 'sig) NodeAction list) exec"

definition NodeEngine_new :: "('vk, 'sig) Blockchain \<Rightarrow> ('vk, 'sig) NodeEngine" where
  "NodeEngine_new bc = \<lparr> blockchain = bc, peers = [], pending_requests = [], pending_blocks = [],
     current_time_ms = 0, scheduled_wake_at_ms = None \<rparr>"

section \<open>Helpers of the handlers\<close>

definition restore_latest_snapshot ::
  "('vk, 'sig, 'z) net_scheme \<Rightarrow> ('vk, 'sig) NodeEngine \<Rightarrow> ('vk, 'sig) Block option \<Rightarrow> byte_vec option
    \<Rightarrow> ('vk, 'sig) engine_step" where
  "restore_latest_snapshot E e b state_bytes =
     (case (b, state_bytes) of
        (Some b, Some bytes) \<Rightarrow> do {
          restored \<leftarrow> State_from_bytes bytes;
          case restored of
            Inl _ \<Rightarrow> Some (e, [ReportEvent ''invalid startup snapshot bytes''])
          | Inr s \<Rightarrow>
              if state_root b \<noteq> compute_state_root E s
              then Some (e, [ReportEvent ''startup snapshot state root mismatch''])
              else Some (e\<lparr>blockchain := restore_head E (blockchain e) b s\<rparr>,
                         [ReportEvent ''startup snapshot restored'']) }
      | _ \<Rightarrow> Some (e, [ReportEvent ''no snapshot restored'']))"

definition prune_expired_requests :: "('vk, 'sig) NodeEngine \<Rightarrow> u64 \<Rightarrow> ('vk, 'sig) NodeEngine" where
  "prune_expired_requests e now_ms =
     e\<lparr>pending_requests := filter (\<lambda>r. deadline_ms r > now_ms) (pending_requests e)\<rparr>"

definition next_wake :: "PendingRequest list \<Rightarrow> u64 option" where
  "next_wake rs = (case rs of [] \<Rightarrow> None | _ \<Rightarrow> Some (Min (set (map deadline_ms rs))))"

definition sync_wake_action ::
  "('vk, 'sig) NodeEngine \<Rightarrow> ('vk, 'sig) NodeEngine \<times> ('vk, 'sig) NodeAction option" where
  "sync_wake_action e =
     (let next_wake_at_ms = next_wake (pending_requests e) in
      if next_wake_at_ms = scheduled_wake_at_ms e then (e, None)
      else (e\<lparr>scheduled_wake_at_ms := next_wake_at_ms\<rparr>,
            Some (case next_wake_at_ms of Some at_ms \<Rightarrow> ScheduleWake at_ms | None \<Rightarrow> CancelWake)))"

definition relay_transaction ::
  "('vk, 'sig, 'z) net_scheme \<Rightarrow> ('vk, 'sig) NodeEngine \<Rightarrow> PeerId \<Rightarrow> ('vk, 'sig) Transaction
    \<Rightarrow> ('vk, 'sig) NodeAction list exec" where
  "relay_transaction E e source_peer tx = do {
     frame \<leftarrow> message_to_bytes E (AnnounceRequestMsg (announce_transaction tx));
     Some (map (\<lambda>(p, _). SendFrame p frame)
       (filter (\<lambda>(p, ps). p \<noteq> source_peer \<and> connected ps) (peers e))) }"

definition queue_block_request ::
  "('vk, 'sig) NodeEngine \<Rightarrow> PeerId \<Rightarrow> u64 \<Rightarrow> u64 \<Rightarrow> ('vk, 'sig) NodeEngine \<times> ('vk, 'sig) NodeAction" where
  "queue_block_request e p from to =
     (e\<lparr>pending_requests := pending_requests e @
          [\<lparr> peer = p, from_height = from, to_height = to,
             deadline_ms = saturating_add (current_time_ms e) REQUEST_TIMEOUT_MS \<rparr>]\<rparr>,
      RequestBlocks p from to)"

definition request_parent_block ::
  "('vk, 'sig) NodeEngine \<Rightarrow> PeerId \<Rightarrow> u64 \<Rightarrow> ('vk, 'sig) NodeEngine \<times> ('vk, 'sig) NodeAction list" where
  "request_parent_block e p parent_height =
     (let (e', a) = queue_block_request e p parent_height parent_height
      in (e', [ReportEvent ''parent snapshot missing'', a]))"

partial_function (option) import_loop ::
  "('vk, 'sig, 'z) net_scheme \<Rightarrow> ('vk, 'sig) NodeEngine \<Rightarrow> ('vk, 'sig) ParkedBlock list \<Rightarrow> State
    \<Rightarrow> ('vk, 'sig) engine_step" where
  "import_loop E e parked_blocks parent_state =
     (case parked_blocks of
        [] \<Rightarrow> Some (e, [])
      | pb # rest \<Rightarrow>
          Option.bind (add_block E (blockchain e) (parked_block pb) parent_state) (\<lambda>(bc, r).
          let e1 = e\<lparr>blockchain := bc\<rparr> in
          case r of
            Inl _ \<Rightarrow>
              Option.bind (import_loop E e1 rest parent_state) (\<lambda>(e', acts).
              Some (e', ReportEvent ''failed importing parked block'' # acts))
          | Inr imported \<Rightarrow>
              let h = block_hash E (parked_block pb) in
              Option.bind
                (if became_head imported then
                   (case bt_get (pending_blocks e1) h of
                      None \<Rightarrow> Some (e1, [])
                    | Some parked' \<Rightarrow>
                        import_loop E (e1\<lparr>pending_blocks := bt_remove h (pending_blocks e1)\<rparr>)
                          parked' (next_state imported))
                 else Some (e1, []))
                (\<lambda>(e2, acts1).
              Option.bind (import_loop E e2 rest parent_state) (\<lambda>(e', acts2).
              Some (e', [PersistBlock (parked_block pb),
                         PersistSnapshot h (State_to_bytes (next_state imported))] @ acts1 @ acts2)))))"

definition import_parked_blocks ::
  "('vk, 'sig, 'z) net_scheme \<Rightarrow> ('vk, 'sig) NodeEngine \<Rightarrow> BlockHash \<Rightarrow> State \<Rightarrow> ('vk, 'sig) engine_step" where
  "import_parked_blocks E e parent_hash parent_state =
     (case bt_get (pending_blocks e) parent_hash of
        None \<Rightarrow> Some (e, [])
      | Some parked_blocks \<Rightarrow>
          import_loop E (e\<lparr>pending_blocks := bt_remove parent_hash (pending_blocks e)\<rparr>) parked_blocks parent_state)"

definition continue_request ::
  "('vk, 'sig) NodeEngine \<Rightarrow> PendingRequest \<Rightarrow> u64 \<Rightarrow> ('vk, 'sig) NodeEngine \<times> ('vk, 'sig) NodeAction option" where
  "continue_request e request next =
     (if next = 0 then (e, None)
      else
        let next_to_height =
              (if next \<le> to_height request then to_height request
               else saturating_add next (saturating_sub (to_height request) (from_height request)));
            (e', a) = queue_block_request e (peer request) next next_to_height
        in (e', Some a))"

definition ingest_block ::
  "('vk, 'sig, 'z) net_scheme \<Rightarrow> ('vk, 'sig) NodeEngine \<Rightarrow> PeerId \<Rightarrow> ('vk, 'sig) Block \<Rightarrow> ('vk, 'sig) engine_step" where
  "ingest_block E e p b =
     (if head_hash (blockchain e) = previous_hash b then do {
        (bc, r) \<leftarrow> add_block E (blockchain e) b (state (blockchain e));
        let e1 = e\<lparr>blockchain := bc\<rparr>;
        case r of
          Inl _ \<Rightarrow> Some (e1, [ReportEvent ''failed importing block''])
        | Inr imported \<Rightarrow> do {
            let h = block_hash E b;
            let acts = [PersistBlock b, PersistSnapshot h (State_to_bytes (next_state imported)),
                        ReportEvent ''Block added''];
            if became_head imported then do {
              (e', more) \<leftarrow> import_parked_blocks E e1 h (next_state imported);
              Some (e', acts @ more) }
            else Some (e1, acts) } }
      else
        Some (e\<lparr>pending_blocks :=
                 bt_insert (previous_hash b)
                   (bt_get_or [] (pending_blocks e) (previous_hash b) @ [\<lparr> parked_peer = p, parked_block = b \<rparr>])
                   (pending_blocks e)\<rparr>,
              [LoadSnapshot (previous_hash b)]))"

section \<open>The handlers of \<open>step\<close>\<close>

definition on_tick :: "('vk, 'sig) NodeEngine \<Rightarrow> u64 \<Rightarrow> ('vk, 'sig) engine_step" where
  "on_tick e now_ms = Some (prune_expired_requests (e\<lparr>current_time_ms := now_ms\<rparr>) now_ms, [])"

definition on_peer_connected :: "('vk, 'sig) NodeEngine \<Rightarrow> PeerId \<Rightarrow> ('vk, 'sig) engine_step" where
  "on_peer_connected e p = do {
     let e1 = e\<lparr>peers := bt_insert p \<lparr> connected = True, last_seen_ms = 0 \<rparr> (peers e)\<rparr>;
     latest \<leftarrow> get_latest_block (blockchain e1);
     let (e2, a) = queue_block_request e1 p (saturating_add (height latest) 1) (saturating_add (height latest) 100);
     Some (e2, [ReportEvent ''peer connected'', a]) }"

definition on_peer_disconnected :: "('vk, 'sig) NodeEngine \<Rightarrow> PeerId \<Rightarrow> ('vk, 'sig) engine_step" where
  "on_peer_disconnected e p =
     Some (e\<lparr> peers := bt_remove p (peers e),
              pending_requests := filter (\<lambda>r. peer r \<noteq> p) (pending_requests e) \<rparr>,
           [ReportEvent ''peer disconnected''])"

definition on_announced_transaction ::
  "('vk, 'sig, 'z) net_scheme \<Rightarrow> ('vk, 'sig) NodeEngine \<Rightarrow> PeerId \<Rightarrow> ('vk, 'sig) Transaction \<Rightarrow> ('vk, 'sig) engine_step" where
  "on_announced_transaction E e p tx =
     (let (bc, r) = add_transaction E (blockchain e) tx; e1 = e\<lparr>blockchain := bc\<rparr> in
      case r of
        Inr True \<Rightarrow> do { acts \<leftarrow> relay_transaction E e1 p tx; Some (e1, acts) }
      | Inr False \<Rightarrow> Some (e1, [])
      | Inl msg \<Rightarrow> Some (e1, [ReportEvent msg]))"

definition sync_response :: "('vk, 'sig) Blockchain \<Rightarrow> u64 \<Rightarrow> u64 \<Rightarrow> ('vk, 'sig) SyncResponse exec" where
  "sync_response bc from to = do {
     served \<leftarrow> get_blocks bc from to;
     earliest \<leftarrow> earliest_contiguous_height bc;
     latest \<leftarrow> get_latest_block bc;
     let highest = (if served = [] then None else Some (height (last served)));
     let more = (case highest of Some h \<Rightarrow> h < height latest | None \<Rightarrow> False);
     let nxt = (case highest of
                  Some h \<Rightarrow> if more then Some (saturating_add h 1) else None
                | None \<Rightarrow> if from < earliest \<and> earliest \<le> height latest then Some earliest else None);
     Some (SyncResponse served more nxt) }"

definition on_sync_request ::
  "('vk, 'sig, 'z) net_scheme \<Rightarrow> ('vk, 'sig) NodeEngine \<Rightarrow> PeerId \<Rightarrow> SyncRequest \<Rightarrow> ('vk, 'sig) engine_step" where
  "on_sync_request E e p request = do {
     response \<leftarrow> sync_response (blockchain e) (sync_from request) (sync_to request);
     frame \<leftarrow> message_to_bytes E (SyncResponseMsg response);
     Some (e, [SendFrame p frame]) }"

fun ingest_all ::
  "('vk, 'sig, 'z) net_scheme \<Rightarrow> ('vk, 'sig) NodeEngine \<Rightarrow> PeerId \<Rightarrow> ('vk, 'sig) Block list \<Rightarrow> ('vk, 'sig) engine_step" where
  "ingest_all E e p [] = Some (e, [])"
| "ingest_all E e p (b # bs) = do {
     (e1, acts1) \<leftarrow> ingest_block E e p b;
     (e2, acts2) \<leftarrow> ingest_all E e1 p bs;
     Some (e2, acts1 @ acts2) }"

fun continue_all ::
  "('vk, 'sig) NodeEngine \<Rightarrow> PendingRequest list \<Rightarrow> u64 \<Rightarrow> ('vk, 'sig) NodeEngine \<times> ('vk, 'sig) NodeAction list" where
  "continue_all e [] nxt = (e, [])"
| "continue_all e (r # rs) nxt =
     (let (e1, a) = continue_request e r nxt;
          (e2, acts) = continue_all e1 rs nxt
      in (e2, (case a of Some a \<Rightarrow> [a] | None \<Rightarrow> []) @ acts))"

definition on_sync_response ::
  "('vk, 'sig, 'z) net_scheme \<Rightarrow> ('vk, 'sig) NodeEngine \<Rightarrow> PeerId \<Rightarrow> ('vk, 'sig) SyncResponse \<Rightarrow> ('vk, 'sig) engine_step" where
  "on_sync_response E e p response = do {
     let completed = filter (\<lambda>r. peer r = p) (pending_requests e);
     let e1 = e\<lparr>pending_requests := filter (\<lambda>r. peer r \<noteq> p) (pending_requests e)\<rparr>;
     (e2, acts1) \<leftarrow> ingest_all E e1 p (blocks response);
     let (e3, acts2) = (case next_height response of
                          Some nxt \<Rightarrow> continue_all e2 completed nxt
                        | None \<Rightarrow> (e2, []));
     let acts = acts1 @ acts2;
     Some (e3, if acts = [] then [FrameReceivedAction p] else acts) }"

definition on_frame ::
  "('vk, 'sig, 'z) net_scheme \<Rightarrow> ('vk, 'sig) NodeEngine \<Rightarrow> PeerId \<Rightarrow> Frame \<Rightarrow> ('vk, 'sig) engine_step" where
  "on_frame E e p frame =
     (case message_from_bytes E frame of
        Inl _ \<Rightarrow> Some (e, [ReportEvent ''invalid frame''])
      | Inr (AnnounceRequestMsg request) \<Rightarrow>
          (case kind request of
             NewBlock b \<Rightarrow> ingest_block E e p b
           | NewTransaction tx \<Rightarrow> on_announced_transaction E e p tx)
      | Inr (SyncRequestMsg request) \<Rightarrow> on_sync_request E e p request
      | Inr (SyncResponseMsg response) \<Rightarrow> on_sync_response E e p response
      | Inr (AnnounceResponseMsg _) \<Rightarrow> Some (e, [FrameReceivedAction p]))"

definition on_local_transaction ::
  "('vk, 'sig, 'z) net_scheme \<Rightarrow> ('vk, 'sig) NodeEngine \<Rightarrow> ('vk, 'sig) Transaction \<Rightarrow> ('vk, 'sig) engine_step" where
  "on_local_transaction E e tx =
     (let (bc, r) = add_transaction E (blockchain e) tx; e1 = e\<lparr>blockchain := bc\<rparr> in
      case r of
        Inr True \<Rightarrow> do {
          frame \<leftarrow> message_to_bytes E (AnnounceRequestMsg (announce_transaction tx));
          Some (e1, [BroadcastFrame frame]) }
      | Inr False \<Rightarrow> Some (e1, [])
      | Inl _ \<Rightarrow> Some (e1, [ReportEvent ''invalid transaction'']))"

definition on_storage_loaded ::
  "('vk, 'sig, 'z) net_scheme \<Rightarrow> ('vk, 'sig) NodeEngine \<Rightarrow> BlockHash \<Rightarrow> byte_vec option \<Rightarrow> ('vk, 'sig) engine_step" where
  "on_storage_loaded E e h state_bytes =
     (case bt_get (pending_blocks e) h of
        Some (pb # _) \<Rightarrow>
          (case state_bytes of
             Some bytes \<Rightarrow> do {
               r \<leftarrow> State_from_bytes bytes;
               case r of
                 Inr s \<Rightarrow> import_parked_blocks E e h s
               | Inl _ \<Rightarrow> Some (e, [ReportEvent ''invalid snapshot bytes'']) }
           | None \<Rightarrow> Some (request_parent_block e (parked_peer pb) (saturating_sub (height (parked_block pb)) 1)))
      | _ \<Rightarrow> Some (e, [ReportEvent ''unexpected snapshot result'']))"

definition handle_input ::
  "('vk, 'sig, 'z) net_scheme \<Rightarrow> ('vk, 'sig) NodeEngine \<Rightarrow> ('vk, 'sig) NodeInput \<Rightarrow> ('vk, 'sig) engine_step" where
  "handle_input E e i =
     (case i of
        Tick now_ms \<Rightarrow> on_tick e now_ms
      | PeerConnected p \<Rightarrow> on_peer_connected e p
      | PeerDisconnected p \<Rightarrow> on_peer_disconnected e p
      | FrameReceived p frame \<Rightarrow> on_frame E e p frame
      | LocalTransactionSubmitted tx \<Rightarrow> on_local_transaction E e tx
      | StorageLoaded h state_bytes \<Rightarrow> on_storage_loaded E e h state_bytes
      | PersistCompleted t \<Rightarrow> Some (e, [PersistCompletedAction t])
      | ImportRequested p from to \<Rightarrow>
          (let (e', a) = queue_block_request e p from to in Some (e', [a])))"

definition engine_step ::
  "('vk, 'sig, 'z) net_scheme \<Rightarrow> ('vk, 'sig) NodeEngine \<Rightarrow> ('vk, 'sig) NodeInput \<Rightarrow> ('vk, 'sig) engine_step" where
  "engine_step E e i = do {
     (e1, acts) \<leftarrow> handle_input E e i;
     let (e2, wake) = sync_wake_action e1;
     Some (e2, acts @ (case wake of Some a \<Rightarrow> [a] | None \<Rightarrow> [])) }"

end
