(* ===== verification/EngineInvariant.thy ===== *)
theory EngineInvariant
  imports NodeEngine
begin

text \<open>
  The invariant of the node engine: whatever inputs arrive, in whatever order, the block tree stays
  sound, a parked block sits under its parent's hash, and no block that extends the head is left
  parked.

  The only assumption is on the hash function, for the set \<open>B\<close> of the blocks that reach the node:
  blocks of \<open>B\<close> with the same hash have the same bytes (\<open>collision_free\<close>), and a block of
  \<open>B\<close> that the root of the tree names as its parent is earlier than the root.
\<close>

section \<open>Trees with a root\<close>

definition collision_free :: "('vk, 'sig, 'z) crypto_scheme \<Rightarrow> ('vk, 'sig) Block set \<Rightarrow> bool" where
  "collision_free E B \<longleftrightarrow>
     (\<forall>a\<in>B. \<forall>b\<in>B. block_hash E a = block_hash E b \<longrightarrow> block_to_bytes E a = block_to_bytes E b)"

definition tree_rooted ::
  "('vk, 'sig, 'z) crypto_scheme \<Rightarrow> ('vk, 'sig) block_tree \<Rightarrow> ('vk, 'sig) Block \<Rightarrow> bool" where
  "tree_rooted E c r \<longleftrightarrow>
     (\<forall>h b. map_option block (bt_get c h) = Some b \<longrightarrow>
        slot r \<le> slot b \<and> (b = r \<or> bt_get c (previous_hash b) \<noteq> None))"

definition below_root ::
  "('vk, 'sig, 'z) crypto_scheme \<Rightarrow> ('vk, 'sig) Block set \<Rightarrow> ('vk, 'sig) Block \<Rightarrow> bool" where
  "below_root E B r \<longleftrightarrow> (\<forall>a\<in>B. block_hash E a = previous_hash r \<longrightarrow> slot a < slot r)"

abbreviation stored :: "('vk, 'sig) block_tree \<Rightarrow> ('vk, 'sig) Block set" where
  "stored c \<equiv> {b. \<exists>h. map_option block (bt_get c h) = Some b}"

definition chain_sound ::
  "('vk, 'sig, 'z) crypto_scheme \<Rightarrow> ('vk, 'sig) Block set \<Rightarrow> ('vk, 'sig) Blockchain \<Rightarrow> bool" where
  "chain_sound E B bc \<longleftrightarrow> blockchain_ok E bc \<and> stored (chain bc) \<subseteq> B \<and>
     (\<exists>r. tree_rooted E (chain bc) r \<and> below_root E B r)"

lemma chain_soundD:
  assumes "chain_sound E B bc"
  obtains r where "blockchain_ok E bc" and "tree_ok E (chain bc)" and "stored (chain bc) \<subseteq> B"
    and "tree_rooted E (chain bc) r" and "below_root E B r"
  using assms by (auto simp: chain_sound_def blockchain_ok_def)

text \<open>A block that validation accepts is fresh: nothing stored can name it as a parent yet.\<close>

lemma accepted_fresh:
  assumes ok: "tree_ok E c" and root: "tree_rooted E c r" "below_root E B r" and free: "collision_free E B"
    and sub: "stored c \<subseteq> B" and b: "b \<in> B" and parent: "bt_get c (previous_hash b) = Some p"
    and later: "slot (block p) < slot b"
  shows "hash_fresh E c b"
proof (cases "bt_get c (block_hash E b)")
  case (Some n)
  then have "block n \<in> B" using sub by auto
  moreover have "block_hash E (block n) = block_hash E b" by (rule tree_okD(1) [OF ok Some, symmetric])
  ultimately have "block_to_bytes E (block n) = block_to_bytes E b"
    using free b unfolding collision_free_def by blast
  then show ?thesis using Some by (simp add: hash_fresh_def)
next
  case None
  have "slot r \<le> slot (block p)" using root(1) parent by (auto simp: tree_rooted_def)
  then have "slot r < slot b" using later by simp
  then have "block_hash E b \<noteq> previous_hash r" using root(2) b by (auto simp: below_root_def)
  then have "previous_hash (block n) \<noteq> block_hash E b" if "bt_get c h = Some n" for h n
    using root(1) that None by (force simp: tree_rooted_def)
  moreover have "previous_hash b \<noteq> block_hash E b" using parent None by auto
  ultimately show ?thesis using None by (simp add: hash_fresh_def)
qed

lemma rooted_attach:
  assumes ok: "tree_ok E c" and fresh: "hash_fresh E c b" and parent: "bt_get c (previous_hash b) = Some p"
    and later: "slot (block p) < slot b" and root: "tree_rooted E c r"
  shows "tree_rooted E (attach_block E c b) r"
proof -
  have present: "bt_get (attach_block E c b) k \<noteq> None" if "bt_get c k \<noteq> None" for k
  proof -
    have "map_option block (bt_get (attach_block E c b) k) \<noteq> None"
      using that by (simp only: attach_blocks [OF ok fresh parent]) auto
    then show ?thesis by simp
  qed
  have "slot r \<le> slot (block p)" using root parent by (auto simp: tree_rooted_def)
  then have b: "slot r \<le> slot b" using later by simp
  show ?thesis
    unfolding tree_rooted_def attach_blocks [OF ok fresh parent]
  proof (intro allI impI)
    fix h a
    assume a: "(if h = block_hash E b \<and> bt_get c h = None then Some b else map_option block (bt_get c h)) = Some a"
    show "slot r \<le> slot a \<and> (a = r \<or> bt_get (attach_block E c b) (previous_hash a) \<noteq> None)"
    proof (cases "h = block_hash E b \<and> bt_get c h = None")
      case True
      then have "a = b" using a by (auto split: if_splits)
      then show ?thesis using b present [of "previous_hash b"] parent by simp
    next
      case False
      then have "map_option block (bt_get c h) = Some a" using a by (simp only: if_False)
      then show ?thesis using root present [of "previous_hash a"] unfolding tree_rooted_def by blast
    qed
  qed
qed

lemma stored_attach:
  assumes ok: "tree_ok E c" and fresh: "hash_fresh E c b" and parent: "bt_get c (previous_hash b) = Some p"
    and sub: "stored c \<subseteq> B" and b: "b \<in> B"
  shows "stored (attach_block E c b) \<subseteq> B"
proof
  fix a
  assume "a \<in> stored (attach_block E c b)"
  then obtain h where "map_option block (bt_get (attach_block E c b) h) = Some a" by blast
  then have "a = b \<or> map_option block (bt_get c h) = Some a"
    unfolding attach_blocks [OF ok fresh parent] by (simp only: split: if_split_asm) blast+
  then show "a \<in> B" using sub b by blast
qed

text \<open>What one call of \<open>add_block\<close> does to a sound chain.\<close>

lemma add_block_chain:
  assumes sound: "chain_sound E B bc" and free: "collision_free E B" and b: "b \<in> B" and wf: "state_wf s"
    and add: "add_block E bc b s = Some (bc', r)"
  shows "chain_sound E B bc'"
    and "case r of Inl _ \<Rightarrow> bc' = bc
       | Inr i \<Rightarrow> state_wf (next_state i) \<and> head_hash bc' = (if became_head i then block_hash E b else head_hash bc)"
proof -
  have "chain_sound E B bc' \<and> (case r of Inl _ \<Rightarrow> bc' = bc
       | Inr i \<Rightarrow> state_wf (next_state i) \<and> head_hash bc' = (if became_head i then block_hash E b else head_hash bc))"
  proof (cases r)
    case (Inl e)
    then have "bc' = bc" using add add_block_error by blast
    then show ?thesis using sound Inl by simp
  next
    case (Inr i)
    then obtain p where parent: "bt_get (chain bc) (previous_hash b) = Some p"
      and acc: "block_accepted E (block p) s b (next_state i)"
      using add add_block_success by blast
    obtain root where ok: "blockchain_ok E bc" "tree_ok E (chain bc)" and sub: "stored (chain bc) \<subseteq> B"
      and root: "tree_rooted E (chain bc) root" "below_root E B root"
      using sound by (rule chain_soundD)
    have later: "slot (block p) < slot b" using acc by (auto elim: block_acceptedD)
    note fresh = accepted_fresh [OF ok(2) root free sub b parent later]
    have "chain bc' = attach_block E (chain bc) b \<and>
        head_hash bc' = (if became_head i then block_hash E b else head_hash bc)"
      by (rule add_block_accepted [OF ok(1) fresh parent acc]) (cases i, use add Inr in \<open>auto split: if_splits\<close>)
    then have chain': "chain bc' = attach_block E (chain bc) b"
      and head': "head_hash bc' = (if became_head i then block_hash E b else head_hash bc)" by blast+
    have "stored (chain bc') \<subseteq> B"
      unfolding chain' by (rule stored_attach [OF ok(2) fresh parent sub b])
    moreover have "tree_rooted E (chain bc') root"
      unfolding chain' by (rule rooted_attach [OF ok(2) fresh parent later root(1)])
    moreover have "blockchain_ok E bc'" by (rule add_block_ok [OF ok(1) fresh wf add])
    ultimately have "chain_sound E B bc'" using root(2) unfolding chain_sound_def by blast
    then show ?thesis using Inr head' block_accepted_state(1) [OF acc wf] by simp
  qed
  then show "chain_sound E B bc'"
    and "case r of Inl _ \<Rightarrow> bc' = bc
       | Inr i \<Rightarrow> state_wf (next_state i) \<and> head_hash bc' = (if became_head i then block_hash E b else head_hash bc)"
    by simp_all
qed

section \<open>The engine's invariant\<close>

definition parking_ok ::
  "('vk, 'sig) Block set \<Rightarrow> (BlockHash, ('vk, 'sig) ParkedBlock list) btree_map \<Rightarrow> bool" where
  "parking_ok B m \<longleftrightarrow> bt_wf m \<and> (\<forall>h ps. bt_get m h = Some ps \<longrightarrow>
     ps \<noteq> [] \<and> (\<forall>pb\<in>set ps. parked_block pb \<in> B \<and> previous_hash (parked_block pb) = h))"

definition settled :: "('vk, 'sig) NodeEngine \<Rightarrow> bool" where
  "settled e \<longleftrightarrow> bt_get (pending_blocks e) (head_hash (blockchain e)) = None"

definition engine_core ::
  "('vk, 'sig, 'z) net_scheme \<Rightarrow> ('vk, 'sig) Block set \<Rightarrow> ('vk, 'sig) NodeEngine \<Rightarrow> bool" where
  "engine_core E B e \<longleftrightarrow> chain_sound E B (blockchain e) \<and> parking_ok B (pending_blocks e) \<and> bt_wf (peers e)"

definition engine_ok ::
  "('vk, 'sig, 'z) net_scheme \<Rightarrow> ('vk, 'sig) Block set \<Rightarrow> ('vk, 'sig) NodeEngine \<Rightarrow> bool" where
  "engine_ok E B e \<longleftrightarrow> engine_core E B e \<and> settled e"

lemma parking_ok_remove: "parking_ok B m \<Longrightarrow> parking_ok B (bt_remove h m)"
  by (auto simp: parking_ok_def bt_simps)

lemma parking_ok_park:
  assumes "parking_ok B m" and "b \<in> B"
  shows "parking_ok B (bt_insert (previous_hash b)
    (bt_get_or [] m (previous_hash b) @ [\<lparr> parked_peer = p, parked_block = b \<rparr>]) m)"
proof (cases "bt_get m (previous_hash b)")
  case (Some ps)
  then have "\<forall>pb\<in>set ps. parked_block pb \<in> B \<and> previous_hash (parked_block pb) = previous_hash b"
    using assms(1) unfolding parking_ok_def by blast
  then show ?thesis using assms Some by (auto simp: parking_ok_def bt_simps)
qed (use assms in \<open>auto simp: parking_ok_def bt_simps\<close>)

text \<open>The children of a new head leave the parking lot before anything else happens.\<close>

lemma settled_remove: "parking_ok B (pending_blocks e) \<Longrightarrow>
  settled (e\<lparr>pending_blocks := bt_remove (head_hash (blockchain e)) (pending_blocks e)\<rparr>)"
  by (simp add: settled_def parking_ok_def bt_simps)

lemma settled_remove_other: "parking_ok B (pending_blocks e) \<Longrightarrow> settled e \<Longrightarrow>
  settled (e\<lparr>pending_blocks := bt_remove h (pending_blocks e)\<rparr>)"
  by (simp add: settled_def parking_ok_def bt_simps)

definition only_chain_changed :: "('vk, 'sig) NodeEngine \<Rightarrow> ('vk, 'sig) NodeEngine \<Rightarrow> bool" where
  "only_chain_changed e e' \<longleftrightarrow> peers e' = peers e \<and> pending_requests e' = pending_requests e \<and>
     current_time_ms e' = current_time_ms e \<and> scheduled_wake_at_ms e' = scheduled_wake_at_ms e"

lemma engine_ok_import:
  assumes ok: "engine_ok E B e" and free: "collision_free E B" and b: "b \<in> B" and wf: "state_wf s"
    and add: "add_block E (blockchain e) b s = Some (bc, r)"
  shows "case r of Inl _ \<Rightarrow> engine_ok E B (e\<lparr>blockchain := bc\<rparr>)
    | Inr i \<Rightarrow> state_wf (next_state i) \<and>
        (if became_head i
         then engine_ok E B (e\<lparr>blockchain := bc, pending_blocks := bt_remove (block_hash E b) (pending_blocks e)\<rparr>)
         else engine_ok E B (e\<lparr>blockchain := bc\<rparr>))"
proof -
  have core: "chain_sound E B (blockchain e)" "parking_ok B (pending_blocks e)" "bt_wf (peers e)" and "settled e"
    using ok by (simp_all add: engine_ok_def engine_core_def)
  then have unparked: "bt_get (pending_blocks e) (head_hash (blockchain e)) = None" by (simp add: settled_def)
  note facts = add_block_chain [OF core(1) free b wf add]
  show ?thesis
  proof (cases r)
    case (Inr i)
    have "bt_get (bt_remove (block_hash E b) (pending_blocks e)) (block_hash E b) = None"
      using core(2) by (simp add: parking_ok_def bt_simps)
    then show ?thesis
      using facts Inr core unparked parking_ok_remove [OF core(2)]
      by (simp add: engine_ok_def engine_core_def settled_def)
  qed (use facts ok in \<open>simp add: engine_ok_def engine_core_def settled_def\<close>)
qed

lemma bt_remove_absent: "bt_get m k = None \<Longrightarrow> bt_remove k m = m"
  by (induction m) (auto split: if_splits)

text \<open>The call that imports the children of a new head, for any loop that keeps the invariant.\<close>

lemma import_children_ok:
  assumes ok: "engine_ok E B e" and free: "collision_free E B" and b: "b \<in> B" and wf: "state_wf s"
    and add: "add_block E (blockchain e) b s = Some (bc, Inr i)"
    and loop: "\<And>e parked s r. loop e parked s = Some r \<Longrightarrow> engine_ok E B e \<Longrightarrow>
      (\<forall>pb\<in>set parked. parked_block pb \<in> B) \<Longrightarrow> state_wf s \<Longrightarrow>
      engine_ok E B (fst r) \<and> only_chain_changed e (fst r)"
    and call: "(if became_head i then
        (case bt_get (pending_blocks e) (block_hash E b) of
           None \<Rightarrow> Some (e\<lparr>blockchain := bc\<rparr>, [])
         | Some parked' \<Rightarrow>
             loop (e\<lparr>blockchain := bc, pending_blocks := bt_remove (block_hash E b) (pending_blocks e)\<rparr>)
               parked' (next_state i))
      else Some (e\<lparr>blockchain := bc\<rparr>, [])) = Some (e2, acts)"
  shows "engine_ok E B e2 \<and> only_chain_changed e e2"
proof -
  note imported = engine_ok_import [OF ok free b wf add]
  have parked: "\<forall>pb\<in>set ps. parked_block pb \<in> B" if "bt_get (pending_blocks e) h = Some ps" for h ps
    using ok that unfolding engine_ok_def engine_core_def parking_ok_def by blast
  consider "\<not> became_head i" | "became_head i" "bt_get (pending_blocks e) (block_hash E b) = None"
    | ps where "became_head i" "bt_get (pending_blocks e) (block_hash E b) = Some ps"
    by (cases "bt_get (pending_blocks e) (block_hash E b)") auto
  then show ?thesis
  proof cases
    case 1
    then show ?thesis using call imported by (auto simp: only_chain_changed_def)
  next
    case 2
    then have "engine_ok E B (e\<lparr>blockchain := bc, pending_blocks := pending_blocks e\<rparr>)"
      using imported by (simp add: bt_remove_absent)
    then show ?thesis using call 2 by (auto simp: only_chain_changed_def)
  next
    case (3 ps)
    then show ?thesis
      using loop [of _ ps "next_state i"] call imported parked [OF 3(2)] by (fastforce simp: only_chain_changed_def)
  qed
qed

lemma import_loop_ok:
  assumes "import_loop E e parked s = Some y" and "collision_free E B" and "engine_ok E B e"
    and "\<forall>pb\<in>set parked. parked_block pb \<in> B" and "state_wf s"
  shows "engine_ok E B (fst y) \<and> only_chain_changed e (fst y)"
  using assms
proof (induction E e parked s y rule: import_loop.raw_induct [rotated, consumes 1, case_names step])
  case (step loop E e parked s y)
  note IH = step.IH and body = step.hyps and free = step.prems(1) and ok = step.prems(2)
  show ?case
  proof (cases parked)
    case Nil
    then show ?thesis using body ok by (auto simp: only_chain_changed_def)
  next
    case (Cons pb rest)
    let ?b = "parked_block pb"
    have b: "?b \<in> B" and rest: "\<forall>pb\<in>set rest. parked_block pb \<in> B" using Cons step.prems(3) by simp_all
    obtain bc r where add: "add_block E (blockchain e) ?b s = Some (bc, r)"
      using body Cons by (auto elim!: bind_eq_SomeE)
    note imported = engine_ok_import [OF ok free b step.prems(4) add]
    show ?thesis
    proof (cases r)
      case (Inl err)
      then obtain e' acts where "loop E (e\<lparr>blockchain := bc\<rparr>) rest s = Some (e', acts)" and "fst y = e'"
        using body Cons add by (auto elim!: bind_eq_SomeE)
      then show ?thesis
        using IH [OF _ free _ rest step.prems(4)] imported Inl by (fastforce simp: only_chain_changed_def)
    next
      case (Inr i)
      then obtain e2 acts1 e' acts2 where call: "(if became_head i then
          (case bt_get (pending_blocks e) (block_hash E ?b) of
             None \<Rightarrow> Some (e\<lparr>blockchain := bc\<rparr>, [])
           | Some parked' \<Rightarrow>
               loop E (e\<lparr>blockchain := bc, pending_blocks := bt_remove (block_hash E ?b) (pending_blocks e)\<rparr>)
                 parked' (next_state i))
          else Some (e\<lparr>blockchain := bc\<rparr>, [])) = Some (e2, acts1)"
        and last: "loop E e2 rest s = Some (e', acts2)" and y: "fst y = e'"
        using body Cons add by (auto simp: Let_def cong: if_cong option.case_cong elim!: bind_eq_SomeE)
      have "engine_ok E B e2 \<and> only_chain_changed e e2"
        by (rule import_children_ok [where loop = "loop E", OF ok free b step.prems(4) add [unfolded Inr] _ call])
          (use IH free in blast)
      then show ?thesis
        using IH [OF last free _ rest step.prems(4)] y by (auto simp: only_chain_changed_def)
    qed
  qed
qed

section \<open>Handlers\<close>

text \<open>Changes to requests, peers and timers do not touch the invariant.\<close>

lemma engine_ok_frame:
  assumes "engine_ok E B e" and "blockchain e' = blockchain e" and "pending_blocks e' = pending_blocks e"
    and "bt_wf (peers e) \<Longrightarrow> bt_wf (peers e')"
  shows "engine_ok E B e'"
  using assms by (simp add: engine_ok_def engine_core_def settled_def)

lemma queue_block_request_sel [simp]:
  "blockchain (fst (queue_block_request e p from to)) = blockchain e"
  "pending_blocks (fst (queue_block_request e p from to)) = pending_blocks e"
  "peers (fst (queue_block_request e p from to)) = peers e"
  by (simp_all add: queue_block_request_def)

lemma add_transaction_sound: "chain_sound E B bc \<Longrightarrow> chain_sound E B (fst (add_transaction E bc tx))"
  and add_transaction_head: "head_hash (fst (add_transaction E bc tx)) = head_hash bc"
proof -
  have "chain (fst (add_transaction E bc tx)) = chain bc"
    by (simp add: add_transaction_def split: prod.split)
  then show "chain_sound E B bc \<Longrightarrow> chain_sound E B (fst (add_transaction E bc tx))"
    using add_transaction_ok by (auto simp: chain_sound_def)
  show "head_hash (fst (add_transaction E bc tx)) = head_hash bc"
    by (simp add: add_transaction_def split: prod.split)
qed

lemma engine_ok_transaction:
  "engine_ok E B e \<Longrightarrow> engine_ok E B (e\<lparr>blockchain := fst (add_transaction E (blockchain e) tx)\<rparr>)"
  by (simp add: engine_ok_def engine_core_def settled_def add_transaction_sound add_transaction_head)

lemma import_parked_blocks_ok:
  assumes "import_parked_blocks E e h s = Some (e', acts)" and "collision_free E B" and "engine_core E B e"
    and "settled e \<or> h = head_hash (blockchain e)" and "state_wf s"
  shows "engine_ok E B e' \<and> only_chain_changed e e'"
proof (cases "bt_get (pending_blocks e) h")
  case None
  then show ?thesis
    using assms by (auto simp: import_parked_blocks_def engine_ok_def only_chain_changed_def settled_def)
next
  case (Some ps)
  let ?e = "e\<lparr>pending_blocks := bt_remove h (pending_blocks e)\<rparr>"
  have park: "parking_ok B (pending_blocks e)" using assms(3) by (simp add: engine_core_def)
  then have parked: "\<forall>pb\<in>set ps. parked_block pb \<in> B" using Some unfolding parking_ok_def by blast
  have "settled ?e" using settled_remove [OF park] settled_remove_other [OF park] assms(4) by blast
  then have "engine_ok E B ?e"
    using assms(3) parking_ok_remove [OF park] by (simp add: engine_ok_def engine_core_def)
  moreover have "import_loop E ?e ps s = Some (e', acts)" using assms(1) Some by (simp add: import_parked_blocks_def)
  ultimately show ?thesis
    using import_loop_ok [of E ?e ps s "(e', acts)" B] assms(2,5) parked by (simp add: only_chain_changed_def)
qed

lemma ingest_block_ok:
  assumes step: "ingest_block E e p b = Some (e', acts)" and free: "collision_free E B" and ok: "engine_ok E B e"
    and b: "b \<in> B"
  shows "engine_ok E B e' \<and> only_chain_changed e e'"
proof (cases "head_hash (blockchain e) = previous_hash b")
  case False
  have "bt_wf (pending_blocks e)" using ok by (simp add: engine_ok_def engine_core_def parking_ok_def)
  then show ?thesis
    using False step ok b parking_ok_park [of B "pending_blocks e" b p]
    by (auto simp: ingest_block_def engine_ok_def engine_core_def settled_def only_chain_changed_def bt_get_insert)
next
  case True
  have core: "chain_sound E B (blockchain e)" "parking_ok B (pending_blocks e)" "bt_wf (peers e)" "settled e"
    using ok by (simp_all add: engine_ok_def engine_core_def)
  then have wf: "state_wf (state (blockchain e))" by (auto simp: chain_sound_def blockchain_ok_def head_state_ok_def)
  obtain bc r where add: "add_block E (blockchain e) b (state (blockchain e)) = Some (bc, r)"
    using step True by (auto simp: ingest_block_def elim!: bind_eq_SomeE)
  note facts = add_block_chain [OF core(1) free b wf add] and imported = engine_ok_import [OF ok free b wf add]
  show ?thesis
  proof (cases "\<exists>i. r = Inr i \<and> became_head i")
    case False
    then have "e' = e\<lparr>blockchain := bc\<rparr>"
      using step True add by (cases r) (auto simp: ingest_block_def Let_def)
    then show ?thesis using False imported by (cases r) (auto simp: only_chain_changed_def)
  next
    case head: True
    then obtain i where i: "r = Inr i" "became_head i" by blast
    then obtain more where more: "import_parked_blocks E (e\<lparr>blockchain := bc\<rparr>) (block_hash E b) (next_state i) = Some (e', more)"
      using step True add by (auto simp: ingest_block_def Let_def elim!: bind_eq_SomeE)
    have "engine_core E B (e\<lparr>blockchain := bc\<rparr>)" using facts(1) core by (simp add: engine_core_def)
    then show ?thesis
      using import_parked_blocks_ok [OF more free] facts(2) i by (simp add: only_chain_changed_def)
  qed
qed

lemma ingest_all_ok:
  "ingest_all E e p bs = Some (e', acts) \<Longrightarrow> collision_free E B \<Longrightarrow> engine_ok E B e \<Longrightarrow> set bs \<subseteq> B \<Longrightarrow>
   engine_ok E B e' \<and> only_chain_changed e e'"
proof (induction bs arbitrary: e acts)
  case (Cons b bs)
  then obtain e1 acts1 acts2 where "ingest_block E e p b = Some (e1, acts1)" "ingest_all E e1 p bs = Some (e', acts2)"
    by (auto elim!: bind_eq_SomeE)
  then show ?case
    using Cons.IH ingest_block_ok [of E e p b e1 acts1 B] Cons.prems by (auto simp: only_chain_changed_def)
qed (simp add: only_chain_changed_def)

lemma continue_request_sel [simp]:
  "blockchain (fst (continue_request e r nxt)) = blockchain e"
  "pending_blocks (fst (continue_request e r nxt)) = pending_blocks e"
  "peers (fst (continue_request e r nxt)) = peers e"
  by (simp_all add: continue_request_def Let_def case_prod_unfold)

lemma continue_all_sel [simp]:
  "blockchain (fst (continue_all e rs nxt)) = blockchain e"
  "pending_blocks (fst (continue_all e rs nxt)) = pending_blocks e"
  "peers (fst (continue_all e rs nxt)) = peers e"
  by (induction rs arbitrary: e) (simp_all add: Let_def case_prod_unfold)

definition message_blocks :: "('vk, 'sig) NetworkMessage \<Rightarrow> ('vk, 'sig) Block set" where
  "message_blocks msg =
     (case msg of
        AnnounceRequestMsg (AnnounceRequest (NewBlock b)) \<Rightarrow> {b}
      | SyncResponseMsg response \<Rightarrow> set (blocks response)
      | _ \<Rightarrow> {})"

definition input_blocks :: "('vk, 'sig, 'z) net_scheme \<Rightarrow> ('vk, 'sig) NodeInput \<Rightarrow> ('vk, 'sig) Block set" where
  "input_blocks E i =
     (case i of
        FrameReceived p frame \<Rightarrow> (case message_from_bytes E frame of Inr msg \<Rightarrow> message_blocks msg | Inl _ \<Rightarrow> {})
      | _ \<Rightarrow> {})"

lemma on_sync_response_ok:
  assumes step: "on_sync_response E e p response = Some (e', acts)" and free: "collision_free E B"
    and ok: "engine_ok E B e" and sub: "set (blocks response) \<subseteq> B"
  shows "engine_ok E B e'"
proof -
  let ?e1 = "e\<lparr>pending_requests := filter (\<lambda>r. peer r \<noteq> p) (pending_requests e)\<rparr>"
    and ?done = "filter (\<lambda>r. peer r = p) (pending_requests e)"
  obtain e2 acts1 where e2: "ingest_all E ?e1 p (blocks response) = Some (e2, acts1)"
    and e': "e' = (case next_height response of Some nxt \<Rightarrow> fst (continue_all e2 ?done nxt) | None \<Rightarrow> e2)"
    using step by (auto simp: on_sync_response_def Let_def elim!: bind_eq_SomeE split: prod.splits option.splits)
  have "engine_ok E B ?e1" by (rule engine_ok_frame [OF ok]) simp_all
  then have "engine_ok E B e2" using ingest_all_ok [OF e2 free _ sub] by simp
  then show ?thesis
    by (cases "next_height response") (auto simp: e' intro: engine_ok_frame)
qed

lemma on_transaction_ok:
  assumes "engine_ok E B e"
  shows "on_announced_transaction E e p tx = Some (e', acts) \<Longrightarrow> engine_ok E B e'"
    and "on_local_transaction E e tx = Some (e', acts) \<Longrightarrow> engine_ok E B e'"
  using engine_ok_transaction [OF assms, of tx]
  by (auto simp: on_announced_transaction_def on_local_transaction_def Let_def case_prod_unfold
      elim!: bind_eq_SomeE split: sum.split_asm bool.split_asm)

lemma on_frame_ok:
  assumes "on_frame E e p frame = Some (e', acts)" and "collision_free E B" and "engine_ok E B e"
    and "input_blocks E (FrameReceived p frame) \<subseteq> B"
  shows "engine_ok E B e'"
proof (cases "message_from_bytes E frame")
  case (Inl err)
  then show ?thesis using assms by (simp add: on_frame_def)
next
  case (Inr msg)
  then have sub: "message_blocks msg \<subseteq> B" using assms(4) by (simp add: input_blocks_def)
  show ?thesis
  proof (cases msg)
    case (AnnounceRequestMsg request)
    show ?thesis
    proof (cases request)
      case (AnnounceRequest k)
      then show ?thesis
        using assms(1-3) sub Inr AnnounceRequestMsg on_transaction_ok(1)
        by (cases k) (auto simp: on_frame_def message_blocks_def dest: ingest_block_ok)
    qed
  next
    case (SyncRequestMsg request)
    then show ?thesis using assms Inr by (auto simp: on_frame_def on_sync_request_def elim!: bind_eq_SomeE)
  next
    case (SyncResponseMsg response)
    then show ?thesis
      using assms(1-3) sub Inr on_sync_response_ok by (simp add: on_frame_def message_blocks_def)
  next
    case (AnnounceResponseMsg response)
    then show ?thesis using assms Inr by (simp add: on_frame_def)
  qed
qed

lemma on_storage_loaded_ok:
  assumes "on_storage_loaded E e h bytes = Some (e', acts)" and "collision_free E B" and "engine_ok E B e"
  shows "engine_ok E B e'"
proof (cases "\<exists>ps s x. bt_get (pending_blocks e) h = Some ps \<and> ps \<noteq> [] \<and> bytes = Some x \<and> State_from_bytes x = Some (Inr s)")
  case True
  then obtain s x where "bytes = Some x" and s: "State_from_bytes x = Some (Inr s)"
    and "import_parked_blocks E e h s = Some (e', acts)"
    using assms(1) by (auto simp: on_storage_loaded_def neq_Nil_conv)
  then show ?thesis
    using import_parked_blocks_ok [of E e h s e' acts B] assms(2,3) State_from_bytes_wf [OF s]
    by (simp add: engine_ok_def)
next
  case False
  then have "blockchain e' = blockchain e \<and> pending_blocks e' = pending_blocks e \<and> peers e' = peers e"
    using assms(1)
    by (auto simp: on_storage_loaded_def request_parent_block_def queue_block_request_def
        elim!: bind_eq_SomeE split: option.split_asm list.split_asm sum.split_asm)
  then show ?thesis using engine_ok_frame [OF assms(3)] by simp
qed

lemma handle_input_ok:
  assumes step: "handle_input E e i = Some (e', acts)" and free: "collision_free E B" and ok: "engine_ok E B e"
    and sub: "input_blocks E i \<subseteq> B"
  shows "engine_ok E B e'"
proof (cases i)
  case (PeerConnected p)
  then have "blockchain e' = blockchain e \<and> pending_blocks e' = pending_blocks e \<and>
      peers e' = bt_insert p \<lparr> connected = True, last_seen_ms = 0 \<rparr> (peers e)"
    using step by (auto simp: handle_input_def on_peer_connected_def Let_def queue_block_request_def elim!: bind_eq_SomeE)
  then show ?thesis using engine_ok_frame [OF ok] by (simp add: bt_wf_insert)
next
  case (PeerDisconnected p)
  then show ?thesis
    using step by (auto simp: handle_input_def on_peer_disconnected_def bt_wf_remove intro: engine_ok_frame [OF ok])
next
  case (FrameReceived p frame)
  then show ?thesis using step free ok sub on_frame_ok by (simp add: handle_input_def)
next
  case (StorageLoaded h bytes)
  then show ?thesis using step free ok on_storage_loaded_ok by (simp add: handle_input_def)
next
  case (LocalTransactionSubmitted tx)
  then show ?thesis using step ok on_transaction_ok(2) by (simp add: handle_input_def)
qed (use step ok in \<open>auto simp: handle_input_def on_tick_def prune_expired_requests_def queue_block_request_def
  intro: engine_ok_frame [OF ok]\<close>)

section \<open>Every reachable engine is sound\<close>

lemma sync_wake_action_sel:
  "blockchain (fst (sync_wake_action e)) = blockchain e"
  "pending_blocks (fst (sync_wake_action e)) = pending_blocks e"
  "peers (fst (sync_wake_action e)) = peers e"
  "pending_requests (fst (sync_wake_action e)) = pending_requests e"
  "current_time_ms (fst (sync_wake_action e)) = current_time_ms e"
  by (simp_all add: sync_wake_action_def Let_def)

lemma engine_stepD:
  assumes "engine_step E e i = Some (e', acts)"
  obtains e1 acts1 where "handle_input E e i = Some (e1, acts1)" and "e' = fst (sync_wake_action e1)"
    and "acts = acts1 @ (case snd (sync_wake_action e1) of Some a \<Rightarrow> [a] | None \<Rightarrow> [])"
  using assms by (auto simp: engine_step_def case_prod_unfold Let_def elim!: bind_eq_SomeE)

lemma engine_step_ok:
  assumes "engine_step E e i = Some (e', acts)" and "collision_free E B" and "engine_ok E B e"
    and "input_blocks E i \<subseteq> B"
  shows "engine_ok E B e'"
proof -
  obtain e1 acts1 where "handle_input E e i = Some (e1, acts1)" and e': "e' = fst (sync_wake_action e1)"
    using assms(1) by (rule engine_stepD)
  then have "engine_ok E B e1" using handle_input_ok assms(2-4) by blast
  then show ?thesis by (rule engine_ok_frame) (simp_all add: e' sync_wake_action_sel)
qed

lemma new_engine_ok:
  assumes "Blockchain_new E = Some (Inr bc)" and "\<forall>b\<in>B. block_hash E b \<noteq> 0" and "stored (chain bc) \<subseteq> B"
  shows "engine_ok E B (NodeEngine_new bc)"
proof -
  obtain key where key: "genesis_verifying_key E = Some key"
    using assms(1) by (auto simp: Blockchain_new_def elim!: bind_eq_SomeE)
  let ?g = "Block 0 0 0 key [] None [] 0"
  have chain: "chain bc = [(block_hash E ?g, \<lparr> block = ?g, children = [] \<rparr>)]"
    using assms(1) key by (auto simp: Blockchain_new_def Let_def)
  then have "?g \<in> B" using assms(3) by auto
  then have "blockchain_ok E bc" using Blockchain_new_ok [OF key] assms(1,2) by force
  moreover have "tree_rooted E (chain bc) ?g" by (auto simp: tree_rooted_def chain)
  moreover have "below_root E B ?g" using assms(2) by (simp add: below_root_def)
  ultimately show ?thesis
    using assms(3)
    by (auto simp: engine_ok_def engine_core_def settled_def parking_ok_def NodeEngine_new_def chain_sound_def)
qed

lemma restored_engine_ok:
  assumes restore: "restore_latest_snapshot E (NodeEngine_new bc) b bytes = Some (e, acts)"
    and new: "engine_ok E B (NodeEngine_new bc)" and root: "\<forall>r. b = Some r \<longrightarrow> r \<in> B \<and> below_root E B r"
  shows "engine_ok E B e"
proof (cases "e = NodeEngine_new bc")
  case False
  then obtain r x s where b: "b = Some r" "bytes = Some x" and s: "State_from_bytes x = Some (Inr s)"
    and st: "state_root r = compute_state_root E s"
    and e: "e = (NodeEngine_new bc)\<lparr>blockchain := restore_head E bc r s\<rparr>"
    using restore
    by (auto simp: restore_latest_snapshot_def NodeEngine_new_def elim!: bind_eq_SomeE
        split: option.split_asm sum.split_asm if_split_asm)
  have r: "r \<in> B" "below_root E B r" using root b(1) by simp_all
  then have "previous_hash r \<noteq> block_hash E r" by (force simp: below_root_def)
  then have "blockchain_ok E (restore_head E bc r s)" using restore_head_ok State_from_bytes_wf [OF s] st by blast
  moreover have "tree_rooted E (chain (restore_head E bc r s)) r"
    by (auto simp: tree_rooted_def restore_head_def Let_def)
  moreover have "stored (chain (restore_head E bc r s)) \<subseteq> B" using r(1) by (auto simp: restore_head_def Let_def)
  ultimately show ?thesis
    using r(2)
    by (auto simp: e engine_ok_def engine_core_def settled_def parking_ok_def NodeEngine_new_def chain_sound_def)
qed (use new in simp)

text \<open>
  The engines a runtime can reach: a new one, possibly with the latest snapshot restored, then any sequence
  of steps. \<open>B\<close> holds the blocks that occur: the root of the tree and those in the frames received.
\<close>

inductive node_reachable ::
  "('vk, 'sig, 'z) net_scheme \<Rightarrow> ('vk, 'sig) Block set \<Rightarrow> ('vk, 'sig) NodeEngine \<Rightarrow> bool" for E B where
  started: "Blockchain_new E = Some (Inr bc) \<Longrightarrow> stored (chain bc) \<subseteq> B \<Longrightarrow> node_reachable E B (NodeEngine_new bc)"
| restarted: "Blockchain_new E = Some (Inr bc) \<Longrightarrow> stored (chain bc) \<subseteq> B \<Longrightarrow>
    restore_latest_snapshot E (NodeEngine_new bc) b bytes = Some (e, acts) \<Longrightarrow>
    (\<forall>r. b = Some r \<longrightarrow> r \<in> B \<and> below_root E B r) \<Longrightarrow> node_reachable E B e"
| stepped: "node_reachable E B e \<Longrightarrow> engine_step E e i = Some (e', acts) \<Longrightarrow> input_blocks E i \<subseteq> B \<Longrightarrow>
    node_reachable E B e'"

text \<open>
  C7: whatever a node receives, its state stays sound. For every sequence of inputs (frames
  of any content, from any peers, in any order) the engine that results has a block tree that satisfies
  \<open>blockchain_ok\<close> (hash keys, parent links, exact children index, best head, head state root), every
  parked block sits under its parent's hash, and no parked block extends the current head. The
  hypothesis is that the hash function has no collision on the blocks that occur and maps none of
  them to the null hash.
\<close>

theorem node_reachable_ok:
  assumes "node_reachable E B e" and "collision_free E B" and "\<forall>b\<in>B. block_hash E b \<noteq> 0"
  shows "engine_ok E B e"
  using assms
proof (induction rule: node_reachable.induct)
  case (restarted bc b bytes e acts)
  then show ?case using restored_engine_ok new_engine_ok by blast
next
  case (stepped e i e' acts)
  then show ?case using engine_step_ok by blast
qed (use new_engine_ok in blast)

section \<open>A concrete run\<close>

definition demo_tree2 :: "(u8, demo_sig) Blockchain" where
  "demo_tree2 = \<lparr> chain = [(1, \<lparr> block = demo_genesis, children = [1 + (2 ^ 64 + 8)] \<rparr>),
       (1 + (2 ^ 64 + 8), \<lparr> block = demo_child, children = [] \<rparr>)],
     head_hash = 1 + (2 ^ 64 + 8), state = State_new, mempool = Mempool_new 10000 \<rparr>"

lemma demo_add_child:
  "add_block demo_net demo_tree demo_child State_new =
     Some (demo_tree2, Inr \<lparr> next_state = State_new, became_head = True \<rparr>)"
proof -
  have sel: "previous_hash demo_child = 1" "height demo_child = 1" "transactions demo_child = []"
    by (simp_all add: demo_child_def)
  have "height demo_genesis = 0" by (simp add: demo_genesis_def)
  then show ?thesis
    using demo_child_accepted
    by (simp add: add_block_def demo_tree_def demo_tree2_def sel attach_block_def bt_contains_key_def
        get_latest_block_def should_replace_head_def demo_child_hash Let_def)
qed

lemma demo_step:
  "engine_step demo_net (NodeEngine_new demo_tree) (FrameReceived 7 [1]) =
     Some (NodeEngine_new demo_tree2, [PersistBlock demo_child,
       PersistSnapshot (1 + (2 ^ 64 + 8)) (State_to_bytes State_new), ReportEvent ''Block added''])"
proof -
  have "previous_hash demo_child = 1" by (simp add: demo_child_def)
  moreover have "head_hash demo_tree = 1" "state demo_tree = State_new" by (simp_all add: demo_tree_def)
  ultimately show ?thesis
    using demo_add_child
    by (simp add: engine_step_def handle_input_def on_frame_def message_from_bytes_def decode_or_def demo_decode_def
        announce_block_def ingest_block_def NodeEngine_new_def import_parked_blocks_def demo_child_hash
        sync_wake_action_def next_wake_def)
qed

theorem node_reachable_ok_witness:
  "\<exists>e. head_hash (blockchain e) = block_hash demo_net demo_child \<and> engine_ok demo_net demo_blocks e"
proof -
  have "stored (chain demo_tree) \<subseteq> demo_blocks" by (auto simp: demo_tree_def demo_blocks_def)
  then have start: "node_reachable demo_net demo_blocks (NodeEngine_new demo_tree)"
    by (rule node_reachable.started [OF demo_tree_new_net])
  have sub: "input_blocks demo_net (FrameReceived 7 [1]) \<subseteq> demo_blocks"
    by (simp add: input_blocks_def message_from_bytes_def decode_or_def demo_decode_def announce_block_def
        message_blocks_def demo_blocks_def)
  have free: "collision_free demo_net demo_blocks"
    by (simp add: collision_free_def demo_blocks_def demo_genesis_hash demo_child_hash)
  have "engine_ok demo_net demo_blocks (NodeEngine_new demo_tree2)"
    by (rule node_reachable_ok [OF node_reachable.stepped [OF start demo_step sub] free])
      (use demo_blocks_hashes in simp)
  then show ?thesis
    by (intro exI [of _ "NodeEngine_new demo_tree2"]) (simp add: NodeEngine_new_def demo_tree2_def demo_child_hash)
qed

end
