(* ===== verification/EngineProperties.thy ===== *)
theory EngineProperties
  imports EngineInvariant
begin

text \<open>
  What the node engine promises its runtime and its peers: the wake timer is always armed for the earliest
  deadline, every input is handled (but one: a corrupt snapshot), block ranges are served page by page without gaps, transactions
  are relayed exactly once, and what is written to storage can be restored.
\<close>

section \<open>The wake timer\<close>

definition wake_free :: "('vk, 'sig) NodeAction \<Rightarrow> bool" where
  "wake_free a \<longleftrightarrow> (\<forall>t. a \<noteq> ScheduleWake t) \<and> a \<noteq> CancelWake"

lemma wake_free_simps [simp]:
  "wake_free (SendFrame p f)" "wake_free (BroadcastFrame f)" "wake_free (PersistBlock b)"
  "wake_free (PersistSnapshot h bs)" "wake_free (RequestBlocks p from to)" "wake_free (DisconnectPeer p)"
  "wake_free (ReportEvent m)" "wake_free (FrameReceivedAction p)" "wake_free (PersistCompletedAction t)"
  "wake_free (LoadSnapshot h)"
  by (simp_all add: wake_free_def)

text \<open>The timer of the runtime after it performed a list of actions.\<close>

fun timer_after :: "u64 option \<Rightarrow> ('vk, 'sig) NodeAction list \<Rightarrow> u64 option" where
  "timer_after t [] = t"
| "timer_after t (ScheduleWake at_ms # acts) = timer_after (Some at_ms) acts"
| "timer_after t (CancelWake # acts) = timer_after None acts"
| "timer_after t (_ # acts) = timer_after t acts"

lemma timer_after_wake_free: "list_all wake_free acts \<Longrightarrow> timer_after t (acts @ bs) = timer_after t bs"
proof (induction acts)
  case (Cons a acts)
  then show ?case by (cases a) (simp_all add: wake_free_def)
qed simp

definition quiet :: "('vk, 'sig) NodeEngine \<Rightarrow> (('vk, 'sig) NodeEngine \<times> ('vk, 'sig) NodeAction list) \<Rightarrow> bool" where
  "quiet e r \<longleftrightarrow> scheduled_wake_at_ms (fst r) = scheduled_wake_at_ms e \<and>
     current_time_ms (fst r) = current_time_ms e \<and> list_all wake_free (snd r)"

lemma import_loop_quiet:
  assumes "import_loop E e parked s = Some y"
  shows "quiet e y \<and> pending_requests (fst y) = pending_requests e"
  using assms
proof (induction E e parked s y rule: import_loop.raw_induct [rotated, consumes 1, case_names step])
  case (step loop E e parked s y)
  note IH = step.IH
  show ?case
    using step.hyps
    by (auto simp: quiet_def Let_def elim!: bind_eq_SomeE
        split: list.split_asm prod.split_asm sum.split_asm if_split_asm option.split_asm dest!: IH)
qed

lemma import_parked_blocks_quiet:
  "import_parked_blocks E e h s = Some y \<Longrightarrow> quiet e y \<and> pending_requests (fst y) = pending_requests e"
  by (auto simp: import_parked_blocks_def quiet_def split: option.split_asm dest!: import_loop_quiet)

lemma ingest_block_quiet:
  "ingest_block E e p b = Some y \<Longrightarrow> quiet e y \<and> pending_requests (fst y) = pending_requests e"
  by (auto simp: ingest_block_def quiet_def Let_def elim!: bind_eq_SomeE
      split: if_split_asm sum.split_asm prod.split_asm dest!: import_parked_blocks_quiet)

lemma ingest_all_quiet:
  "ingest_all E e p bs = Some y \<Longrightarrow> quiet e y \<and> pending_requests (fst y) = pending_requests e"
proof (induction bs arbitrary: e y)
  case (Cons b bs)
  then obtain e1 acts1 e2 acts2 where "ingest_block E e p b = Some (e1, acts1)" "ingest_all E e1 p bs = Some (e2, acts2)"
    and "y = (e2, acts1 @ acts2)"
    by (auto elim!: bind_eq_SomeE)
  then show ?case using Cons.IH [of e1 "(e2, acts2)"] ingest_block_quiet [of E e p b "(e1, acts1)"] by (simp add: quiet_def)
qed (auto simp: quiet_def)

text \<open>The request that continues \<open>r\<close> from height \<open>nxt\<close>.\<close>

definition continued :: "u64 \<Rightarrow> u64 \<Rightarrow> PendingRequest \<Rightarrow> PendingRequest" where
  "continued now nxt r = \<lparr> peer = peer r, from_height = nxt,
     to_height = (if nxt \<le> to_height r then to_height r
                  else saturating_add nxt (saturating_sub (to_height r) (from_height r))),
     deadline_ms = saturating_add now REQUEST_TIMEOUT_MS \<rparr>"

lemma continue_request_eq:
  "continue_request e r nxt =
     (if nxt = 0 then (e, None)
      else (e\<lparr>pending_requests := pending_requests e @ [continued (current_time_ms e) nxt r]\<rparr>,
            Some (RequestBlocks (peer r) nxt (to_height (continued (current_time_ms e) nxt r)))))"
  by (simp add: continue_request_def queue_block_request_def continued_def Let_def)

lemma continue_all_eq:
  "continue_all e rs nxt =
     (if nxt = 0 then (e, [])
      else (e\<lparr>pending_requests := pending_requests e @ map (continued (current_time_ms e) nxt) rs\<rparr>,
            map (\<lambda>r. RequestBlocks (peer r) nxt (to_height (continued (current_time_ms e) nxt r))) rs))"
  by (induction rs arbitrary: e) (simp_all add: continue_request_eq)

lemma on_sync_responseD:
  assumes "on_sync_response E e p response = Some (e', acts)"
  obtains e2 acts1 where
    "ingest_all E (e\<lparr>pending_requests := filter (\<lambda>r. peer r \<noteq> p) (pending_requests e)\<rparr>) p (blocks response) = Some (e2, acts1)"
    and "let (e3, acts2) = (case next_height response of
           Some nxt \<Rightarrow> continue_all e2 (filter (\<lambda>r. peer r = p) (pending_requests e)) nxt | None \<Rightarrow> (e2, []))
         in e' = e3 \<and> acts = (if acts1 @ acts2 = [] then [FrameReceivedAction p] else acts1 @ acts2)"
  using assms
  by (auto simp: on_sync_response_def Let_def case_prod_unfold cong: if_cong option.case_cong elim!: bind_eq_SomeE)

lemma handle_input_wake:
  assumes "handle_input E e i = Some (e', acts)"
  shows "scheduled_wake_at_ms e' = scheduled_wake_at_ms e \<and> list_all wake_free acts"
proof (cases i)
  case (FrameReceived p frame)
  have frame: "on_frame E e p frame = Some (e', acts)" using assms FrameReceived by (simp add: handle_input_def)
  show ?thesis
  proof (cases "\<exists>response. message_from_bytes E frame = Inr (SyncResponseMsg response)")
    case True
    then obtain response where "on_sync_response E e p response = Some (e', acts)"
      using frame by (auto simp: on_frame_def)
    then show ?thesis
      by (rule on_sync_responseD)
        (auto simp: continue_all_eq quiet_def list_all_iff split: option.splits if_splits dest!: ingest_all_quiet)
  next
    case False
    then show ?thesis
      using frame
      by (auto simp: on_frame_def on_announced_transaction_def on_sync_request_def relay_transaction_def quiet_def
          Let_def case_prod_unfold list_all_iff elim!: bind_eq_SomeE dest!: ingest_block_quiet
          split: sum.split_asm NetworkMessage.split_asm AnnounceKind.split_asm bool.split_asm)
  qed
next
  case (StorageLoaded h bytes)
  then show ?thesis
    using assms
    by (auto simp: handle_input_def on_storage_loaded_def request_parent_block_def queue_block_request_def quiet_def
        elim!: bind_eq_SomeE dest!: import_parked_blocks_quiet
        split: option.split_asm list.split_asm sum.split_asm)
qed (use assms in \<open>auto simp: handle_input_def on_tick_def prune_expired_requests_def on_peer_connected_def
  on_peer_disconnected_def on_local_transaction_def queue_block_request_def Let_def case_prod_unfold
  elim!: bind_eq_SomeE split: sum.split_asm bool.split_asm\<close>)

lemma next_wake_simps: "next_wake rs = (if rs = [] then None else Some (Min (deadline_ms ` set rs)))"
  by (simp add: next_wake_def split: list.split)

lemma step_timer:
  assumes "engine_step E e i = Some (e', acts)"
  shows "timer_after (scheduled_wake_at_ms e) acts = scheduled_wake_at_ms e'
    \<and> scheduled_wake_at_ms e' = (if pending_requests e' = [] then None
         else Some (Min (deadline_ms ` set (pending_requests e'))))"
proof -
  obtain e1 acts1 where step: "handle_input E e i = Some (e1, acts1)" and e': "e' = fst (sync_wake_action e1)"
    and acts: "acts = acts1 @ (case snd (sync_wake_action e1) of Some a \<Rightarrow> [a] | None \<Rightarrow> [])"
    using assms by (rule engine_stepD)
  note quiet = handle_input_wake [OF step]
  have "scheduled_wake_at_ms e' = next_wake (pending_requests e')"
    by (simp add: e' sync_wake_action_def Let_def)
  moreover have "timer_after (scheduled_wake_at_ms e) acts = scheduled_wake_at_ms e'"
    using quiet by (auto simp: acts timer_after_wake_free e' sync_wake_action_def Let_def split: option.split)
  ultimately show ?thesis by (simp add: next_wake_simps)
qed

text \<open>
  C9: the wake timer. After every step the runtime that performs the returned actions in
  order has its timer armed exactly for the earliest deadline of the pending requests, and disarmed when
  there is none; so no pending request can expire without the timer having fired.
\<close>

theorem step_arms_earliest_deadline:
  assumes "engine_step E e i = Some (e', acts)"
  shows "timer_after (scheduled_wake_at_ms e) acts = scheduled_wake_at_ms e'
    \<and> scheduled_wake_at_ms e' = (if pending_requests e' = [] then None
         else Some (Min (deadline_ms ` set (pending_requests e'))))"
  using step_timer [OF assms] .

theorem step_arms_earliest_deadline_witness:
  "\<exists>e acts. engine_step demo_net (NodeEngine_new demo_tree) (PeerConnected 7) = Some (e, acts) \<and>
     timer_after None acts = Some 30000"
proof -
  obtain e acts where step: "engine_step demo_net (NodeEngine_new demo_tree) (PeerConnected 7) = Some (e, acts)"
    and reqs: "deadline_ms ` set (pending_requests e) = {30000}"
    by (simp add: engine_step_def handle_input_def on_peer_connected_def NodeEngine_new_def get_latest_block_def
        demo_tree_def queue_block_request_def sync_wake_action_def next_wake_def Let_def REQUEST_TIMEOUT_MS_def
        saturating_add_def)
  show ?thesis
    using step_arms_earliest_deadline [OF step] reqs step by (auto simp: NodeEngine_new_def)
qed

section \<open>Every input is handled\<close>

text \<open>Without overflow checks (a release build) nothing in block validation can panic.\<close>

lemma add_u64_unchecked: "add_u64 False a b = Some (a + b)" and sub_u64_unchecked: "sub_u64 False a b = Some (a - b)"
  by (simp_all add: arith_defs)

lemma sum_u64_unchecked: "\<exists>t. sum_u64 False acc xs = Some t"
  by (induction xs arbitrary: acc) (simp_all add: add_u64_unchecked)

lemma pick_validator_unchecked: "\<exists>v. pick_validator False ticket acc xs = Some v"
  by (induction xs arbitrary: acc) (auto simp: add_u64_unchecked)

lemma validate_unchecked:
  assumes "\<not> overflow_checks E"
  shows "\<exists>r. validate_and_apply_block E parent s b = Some r"
proof -
  have "\<exists>s'. apply_tx E s tx sl = Some s'" for s tx sl
    using assms by (cases "data tx") (auto simp: apply_tx_def entry_add_def entry_sub_def add_u64_unchecked
        sub_u64_unchecked Let_def)
  then have txs: "\<exists>r. apply_txs E sl s ts = Some r" for sl s ts
    by (induction ts arbitrary: s) (auto, metis bind.bind_lunit)
  have expected: "\<exists>v. get_expected_validator E s h = Some v" for h
    using assms sum_u64_unchecked [of 0 "map fst (valid_stakes E s)"] pick_validator_unchecked
    by (auto simp: get_expected_validator_def)
  obtain v r where "get_expected_validator E s (height parent + 1) = Some v" "apply_txs E (slot b) s (transactions b) = Some r"
    using expected txs by meson
  then show ?thesis
    using assms by (simp add: validate_and_apply_block_def add_u64_unchecked split: sum.split)
qed

lemma add_block_unchecked:
  assumes release: "\<not> overflow_checks E" and sound: "chain_sound E B bc" and free: "collision_free E B" and b: "b \<in> B"
  shows "\<exists>bc' r. add_block E bc b s = Some (bc', r)"
proof (cases "bt_get (chain bc) (previous_hash b)")
  case None
  then show ?thesis by (simp add: add_block_def)
next
  case (Some p)
  obtain r where r: "validate_and_apply_block E (block p) s b = Some r" using validate_unchecked [OF release] by blast
  show ?thesis
  proof (cases r)
    case (Inl e)
    then show ?thesis using r Some by (simp add: add_block_def)
  next
    case (Inr s')
    then have acc: "block_accepted E (block p) s b s'" using r by (simp add: block_accepted_def)
    obtain root where "blockchain_ok E bc" "tree_ok E (chain bc)" "stored (chain bc) \<subseteq> B"
      "tree_rooted E (chain bc) root" "below_root E B root"
      using sound by (rule chain_soundD)
    moreover have "slot (block p) < slot b" using acc by (auto elim: block_acceptedD)
    ultimately show ?thesis
      using accepted_fresh [of E "chain bc" root B b p] free b Some add_block_accepted [OF _ _ Some acc] by blast
  qed
qed

definition parked_count :: "('h, 'p list) btree_map \<Rightarrow> nat" where
  "parked_count m = (\<Sum>e\<leftarrow>m. length (snd e))"

lemma parked_count_remove: "bt_get m h = Some ps \<Longrightarrow> parked_count (bt_remove h m) + length ps = parked_count m"
  by (induction m) (auto simp: parked_count_def)

text \<open>The recursive call of the import loop, for the children of a block that was just added.\<close>

definition children_call ::
  "('vk, 'sig, 'z) net_scheme \<Rightarrow> ('vk, 'sig) NodeEngine \<Rightarrow> ('vk, 'sig) Blockchain \<Rightarrow> ('vk, 'sig) Block \<Rightarrow> ImportedBlock
    \<Rightarrow> ('vk, 'sig) engine_step" where
  "children_call E e bc b i =
     (let e1 = e\<lparr>blockchain := bc\<rparr>; h = block_hash E b in
      if became_head i then
        (case bt_get (pending_blocks e1) h of
           None \<Rightarrow> Some (e1, [])
         | Some ps \<Rightarrow> import_loop E (e1\<lparr>pending_blocks := bt_remove h (pending_blocks e1)\<rparr>) ps (next_state i))
      else Some (e1, []))"

definition children_imported ::
  "('vk, 'sig, 'z) net_scheme \<Rightarrow> ('vk, 'sig) Block set \<Rightarrow> ('vk, 'sig) NodeEngine \<Rightarrow> ('vk, 'sig) Blockchain
    \<Rightarrow> ('vk, 'sig) Block \<Rightarrow> ImportedBlock \<Rightarrow> bool" where
  "children_imported E B e bc b i \<longleftrightarrow> (\<exists>e2 acts. children_call E e bc b i = Some (e2, acts) \<and> engine_ok E B e2 \<and>
     parked_count (pending_blocks e2) \<le> parked_count (pending_blocks e))"

lemma import_children_returns:
  assumes ok: "engine_ok E B e" and free: "collision_free E B" and b: "b \<in> B" and wf: "state_wf s"
    and add: "add_block E (blockchain e) b s = Some (bc, Inr i)"
    and loop: "\<And>ps. became_head i \<Longrightarrow> bt_get (pending_blocks e) (block_hash E b) = Some ps \<Longrightarrow>
      \<forall>pb\<in>set ps. parked_block pb \<in> B \<Longrightarrow>
      \<exists>e' acts. import_loop E (e\<lparr>blockchain := bc, pending_blocks := bt_remove (block_hash E b) (pending_blocks e)\<rparr>) ps (next_state i)
        = Some (e', acts) \<and> parked_count (pending_blocks e') \<le> parked_count (bt_remove (block_hash E b) (pending_blocks e))"
  shows "children_imported E B e bc b i"
proof (cases "became_head i \<and> bt_get (pending_blocks e) (block_hash E b) \<noteq> None")
  case False
  then have "children_call E e bc b i = Some (e\<lparr>blockchain := bc\<rparr>, [])" by (auto simp: children_call_def Let_def)
  moreover have "engine_ok E B (e\<lparr>blockchain := bc\<rparr>)"
    using False engine_ok_import [OF ok free b wf add] by (cases "became_head i") (auto simp: bt_remove_absent)
  ultimately show ?thesis by (simp add: children_imported_def)
next
  case True
  let ?e = "e\<lparr>blockchain := bc, pending_blocks := bt_remove (block_hash E b) (pending_blocks e)\<rparr>"
  obtain ps where ps: "became_head i" "bt_get (pending_blocks e) (block_hash E b) = Some ps" using True by blast
  have parked: "\<forall>pb\<in>set ps. parked_block pb \<in> B"
    using ok ps(2) unfolding engine_ok_def engine_core_def parking_ok_def by blast
  obtain e2 acts where e2: "import_loop E ?e ps (next_state i) = Some (e2, acts)"
    "parked_count (pending_blocks e2) \<le> parked_count (bt_remove (block_hash E b) (pending_blocks e))"
    using loop [OF ps parked] by blast
  have "engine_ok E B e2"
    using import_loop_ok [OF e2(1) free _ parked] engine_ok_import [OF ok free b wf add] ps(1) by simp
  then show ?thesis
    using e2 ps parked_count_remove [OF ps(2)] by (simp add: children_imported_def children_call_def)
qed

text \<open>Each round of the import loop takes a block out of the parking lot, so it ends.\<close>

lemma import_loop_returns:
  assumes release: "\<not> overflow_checks E" and free: "collision_free E B"
  shows "engine_ok E B e \<Longrightarrow> \<forall>pb\<in>set parked. parked_block pb \<in> B \<Longrightarrow> state_wf s \<Longrightarrow>
    \<exists>e' acts. import_loop E e parked s = Some (e', acts) \<and> parked_count (pending_blocks e') \<le> parked_count (pending_blocks e)"
proof (induction "length parked + parked_count (pending_blocks e)" arbitrary: e parked s rule: less_induct)
  case less
  show ?case
  proof (cases parked)
    case Nil
    then show ?thesis by (subst import_loop.simps) simp
  next
    case (Cons pb rest)
    let ?b = "parked_block pb"
    have sound: "chain_sound E B (blockchain e)" using less.prems(1) by (simp add: engine_ok_def engine_core_def)
    have b: "?b \<in> B" and rest: "\<forall>pb\<in>set rest. parked_block pb \<in> B" using less.prems(2) Cons by simp_all
    obtain bc r where add: "add_block E (blockchain e) ?b s = Some (bc, r)"
      using add_block_unchecked [OF release sound free b] by blast
    note imported = engine_ok_import [OF less.prems(1) free b less.prems(3) add]
    have tail: "\<exists>e' acts. import_loop E e2 rest s = Some (e', acts) \<and>
        parked_count (pending_blocks e') \<le> parked_count (pending_blocks e)"
      if "engine_ok E B e2" and "parked_count (pending_blocks e2) \<le> parked_count (pending_blocks e)" for e2
      using less.hyps [of rest e2 s] that rest less.prems(3) Cons by fastforce
    show ?thesis
    proof (cases r)
      case (Inl err)
      then have "engine_ok E B (e\<lparr>blockchain := bc\<rparr>)" using imported by simp
      then show ?thesis using tail [of "e\<lparr>blockchain := bc\<rparr>"] by (subst import_loop.simps) (auto simp: Cons add Inl)
    next
      case (Inr i)
      let ?h = "block_hash E ?b"
      have "\<exists>e' acts. import_loop E (e\<lparr>blockchain := bc, pending_blocks := bt_remove ?h (pending_blocks e)\<rparr>) ps (next_state i)
            = Some (e', acts) \<and> parked_count (pending_blocks e') \<le> parked_count (bt_remove ?h (pending_blocks e))"
        if "became_head i" and "bt_get (pending_blocks e) ?h = Some ps" and "\<forall>pb\<in>set ps. parked_block pb \<in> B" for ps
        using less.hyps [OF _ _ that(3), of "e\<lparr>blockchain := bc, pending_blocks := bt_remove ?h (pending_blocks e)\<rparr>" "next_state i"]
          imported that(1) parked_count_remove [OF that(2)] Inr Cons by fastforce
      then have "children_imported E B e bc ?b i"
        by (rule import_children_returns [OF less.prems(1) free b less.prems(3) add [unfolded Inr]])
      then obtain e2 acts1 where call: "children_call E e bc ?b i = Some (e2, acts1)" and e2: "engine_ok E B e2"
        "parked_count (pending_blocks e2) \<le> parked_count (pending_blocks e)" by (auto simp: children_imported_def)
      then obtain e' acts2 where "import_loop E e2 rest s = Some (e', acts2)"
        "parked_count (pending_blocks e') \<le> parked_count (pending_blocks e)" using tail by blast
      with call show ?thesis by (subst import_loop.simps) (simp add: Cons add Inr Let_def children_call_def)
    qed
  qed
qed

lemma ingest_block_returns:
  assumes release: "\<not> overflow_checks E" and free: "collision_free E B" and ok: "engine_ok E B e" and b: "b \<in> B"
  shows "\<exists>e' acts. ingest_block E e p b = Some (e', acts)"
proof (cases "head_hash (blockchain e) = previous_hash b")
  case True
  have core: "chain_sound E B (blockchain e)" "parking_ok B (pending_blocks e)"
    using ok by (simp_all add: engine_ok_def engine_core_def)
  then have wf: "state_wf (state (blockchain e))" by (auto simp: chain_sound_def blockchain_ok_def head_state_ok_def)
  obtain bc r where add: "add_block E (blockchain e) b (state (blockchain e)) = Some (bc, r)"
    using add_block_unchecked [OF release core(1) free b] by blast
  note imported = engine_ok_import [OF ok free b wf add]
  have "\<exists>e' acts. import_parked_blocks E (e\<lparr>blockchain := bc\<rparr>) (block_hash E b) (next_state i) = Some (e', acts)"
    if i: "r = Inr i" "became_head i" for i
  proof (cases "bt_get (pending_blocks e) (block_hash E b)")
    case (Some ps)
    then have "\<forall>pb\<in>set ps. parked_block pb \<in> B" using core(2) unfolding parking_ok_def by blast
    then show ?thesis
      using import_loop_returns [OF release free] imported i Some by (fastforce simp: import_parked_blocks_def)
  qed (simp add: import_parked_blocks_def)
  then show ?thesis
    using True add by (cases r) (fastforce simp: ingest_block_def Let_def)+
qed (simp add: ingest_block_def)

lemma ingest_all_returns:
  assumes "\<not> overflow_checks E" and "collision_free E B"
  shows "engine_ok E B e \<Longrightarrow> set bs \<subseteq> B \<Longrightarrow> \<exists>e' acts. ingest_all E e p bs = Some (e', acts)"
proof (induction bs arbitrary: e)
  case (Cons b bs)
  then obtain e1 acts where step: "ingest_block E e p b = Some (e1, acts)"
    using ingest_block_returns [OF assms] by fastforce
  then have "engine_ok E B e1" using ingest_block_ok [OF step assms(2)] Cons.prems by simp
  then show ?case using Cons.IH [of e1] Cons.prems(2) step by auto
qed simp

lemma sync_response_returns:
  assumes "blockchain_ok E bc"
  shows "\<exists>r. sync_response bc from to = Some r"
  using get_blocks_range [OF assms, of "from" to] by (auto simp: sync_response_def Let_def)

lemma on_frame_returns:
  assumes release: "\<not> overflow_checks E" and free: "collision_free E B" and ok: "engine_ok E B e"
    and sub: "input_blocks E (FrameReceived p frame) \<subseteq> B" and codec: "\<forall>msg. encode_message E msg \<noteq> None"
  shows "\<exists>e' acts. on_frame E e p frame = Some (e', acts)"
proof (cases "message_from_bytes E frame")
  case (Inr msg)
  then have blocks: "message_blocks msg \<subseteq> B" using sub by (simp add: input_blocks_def)
  have chain: "blockchain_ok E (blockchain e)" using ok by (simp add: engine_ok_def engine_core_def chain_sound_def)
  show ?thesis
  proof (cases msg)
    case (AnnounceRequestMsg request)
    obtain k where k: "request = AnnounceRequest k" by (cases request)
    show ?thesis
    proof (cases k)
      case (NewBlock b)
      then have "b \<in> B" using blocks AnnounceRequestMsg k by (simp add: message_blocks_def)
      then show ?thesis
        using ingest_block_returns [OF release free ok] Inr AnnounceRequestMsg k NewBlock by (simp add: on_frame_def)
    next
      case (NewTransaction tx)
      obtain f where "encode_message E (AnnounceRequestMsg (announce_transaction tx)) = Some f" using codec by blast
      then show ?thesis
        using Inr AnnounceRequestMsg k NewTransaction
        by (auto simp: on_frame_def on_announced_transaction_def relay_transaction_def message_to_bytes_def Let_def
            case_prod_unfold split: sum.split bool.split)
    qed
  next
    case (SyncRequestMsg request)
    obtain r f where "sync_response (blockchain e) (sync_from request) (sync_to request) = Some r"
      and "encode_message E (SyncResponseMsg r) = Some f"
      using codec sync_response_returns [OF chain] by blast
    then show ?thesis
      using Inr SyncRequestMsg by (simp add: on_frame_def on_sync_request_def message_to_bytes_def)
  next
    case (SyncResponseMsg response)
    let ?e1 = "e\<lparr>pending_requests := filter (\<lambda>r. peer r \<noteq> p) (pending_requests e)\<rparr>"
    have "engine_ok E B ?e1" by (rule engine_ok_frame [OF ok]) simp_all
    moreover have "set (blocks response) \<subseteq> B" using blocks SyncResponseMsg by (simp add: message_blocks_def)
    ultimately obtain e' acts where "ingest_all E ?e1 p (blocks response) = Some (e', acts)"
      using ingest_all_returns [OF release free] by blast
    then show ?thesis
      using Inr SyncResponseMsg by (simp add: on_frame_def on_sync_response_def case_prod_unfold Let_def)
  next
    case (AnnounceResponseMsg response)
    then show ?thesis using Inr by (simp add: on_frame_def)
  qed
qed (simp add: on_frame_def)

lemma on_storage_loaded_returns:
  assumes release: "\<not> overflow_checks E" and free: "collision_free E B" and ok: "engine_ok E B e"
    and bytes: "\<forall>x pb ps. bytes = Some x \<longrightarrow> bt_get (pending_blocks e) h = Some (pb # ps) \<longrightarrow> State_from_bytes x \<noteq> None"
  shows "\<exists>e' acts. on_storage_loaded E e h bytes = Some (e', acts)"
proof -
  have park: "parking_ok B (pending_blocks e)" "settled e" using ok by (simp_all add: engine_ok_def engine_core_def)
  have "\<exists>e' acts. import_parked_blocks E e h s = Some (e', acts)"
    if s: "State_from_bytes x = Some (Inr s)" for s x
  proof (cases "bt_get (pending_blocks e) h")
    case (Some ps)
    have "engine_ok E B (e\<lparr>pending_blocks := bt_remove h (pending_blocks e)\<rparr>)"
      using ok settled_remove_other [OF park] parking_ok_remove [OF park(1)]
      by (simp add: engine_ok_def engine_core_def)
    moreover have "\<forall>pb\<in>set ps. parked_block pb \<in> B" using park(1) Some unfolding parking_ok_def by blast
    ultimately show ?thesis
      using import_loop_returns [OF release free _ _ State_from_bytes_wf [OF s]] Some
      by (fastforce simp: import_parked_blocks_def)
  qed (simp add: import_parked_blocks_def)
  then show ?thesis
    using bytes by (force simp: on_storage_loaded_def request_parent_block_def queue_block_request_def
        split: option.split list.split sum.split)
qed

lemma engine_step_total:
  assumes "\<not> overflow_checks E" and "collision_free E B" and "engine_ok E B e" and "input_blocks E i \<subseteq> B"
    and "\<forall>msg. encode_message E msg \<noteq> None"
    and "\<forall>h bytes pb ps. i = StorageLoaded h (Some bytes) \<longrightarrow> bt_get (pending_blocks e) h = Some (pb # ps) \<longrightarrow>
      State_from_bytes bytes \<noteq> None"
  shows "\<exists>e' acts. engine_step E e i = Some (e', acts)"
proof -
  have chain: "blockchain_ok E (blockchain e)" using assms(3) by (simp add: engine_ok_def engine_core_def chain_sound_def)
  then obtain head where head: "get_latest_block (blockchain e) = Some head"
    by (auto simp: blockchain_ok_def elim: head_bestD)
  have "\<exists>e' acts. handle_input E e i = Some (e', acts)"
  proof (cases i)
    case (FrameReceived p frame)
    then show ?thesis using on_frame_returns assms(1-5) by (simp add: handle_input_def)
  next
    case (StorageLoaded h bytes)
    then show ?thesis
      using on_storage_loaded_returns [OF assms(1-3)] assms(6) by (simp add: handle_input_def)
  next
    case (LocalTransactionSubmitted tx)
    obtain f where "encode_message E (AnnounceRequestMsg (announce_transaction tx)) = Some f" using assms(5) by blast
    then show ?thesis
      using LocalTransactionSubmitted by (auto simp: handle_input_def on_local_transaction_def message_to_bytes_def Let_def
          case_prod_unfold split: sum.split bool.split)
  qed (simp_all add: handle_input_def on_tick_def on_peer_connected_def on_peer_disconnected_def head
      queue_block_request_def)
  then show ?thesis by (auto simp: engine_step_def case_prod_unfold Let_def)
qed

text \<open>
  C8: the one input that stops the node. Take a build without overflow checks and an encoder that
  encodes every message (\<open>to_bytes\<close> of a message unwraps its result). On a sound engine \<open>step\<close> returns
  for every input, so no frame from the network makes it panic or loop, with exactly one exception: the
  storage hands back, for a hash that blocks are parked under, snapshot bytes on which
  \<open>State::from_bytes\<close> itself panics (a corrupt request count, for which no memory can be reserved).
  An abort for lack of memory on a smaller request is outside the model.
\<close>

theorem engine_step_returns:
  assumes "\<not> overflow_checks E" and "collision_free E B" and "engine_ok E B e" and "input_blocks E i \<subseteq> B"
    and "\<forall>msg. encode_message E msg \<noteq> None"
  shows "engine_step E e i = None \<longleftrightarrow>
    (\<exists>h bytes pb ps. i = StorageLoaded h (Some bytes) \<and> bt_get (pending_blocks e) h = Some (pb # ps)
      \<and> State_from_bytes bytes = None)"
proof
  assume "engine_step E e i = None"
  then show "\<exists>h bytes pb ps. i = StorageLoaded h (Some bytes) \<and> bt_get (pending_blocks e) h = Some (pb # ps)
      \<and> State_from_bytes bytes = None"
    using engine_step_total [OF assms] by fastforce
next
  assume "\<exists>h bytes pb ps. i = StorageLoaded h (Some bytes) \<and> bt_get (pending_blocks e) h = Some (pb # ps)
      \<and> State_from_bytes bytes = None"
  then show "engine_step E e i = None"
    by (auto simp: engine_step_def handle_input_def on_storage_loaded_def)
qed

text \<open>The demo engine after a block arrived whose parent, hash 5, it does not have.\<close>

definition demo_orphan :: "(u8, demo_sig) Block" where
  "demo_orphan = Block 1 8 5 1 [] None [] 0"

definition demo_parking :: "(u8, demo_sig) NodeEngine" where
  "demo_parking = (NodeEngine_new demo_tree)\<lparr>pending_blocks := [(5, [\<lparr> parked_peer = 7, parked_block = demo_orphan \<rparr>])]\<rparr>"

definition demo_parked_blocks :: "(u8, demo_sig) Block set" where
  "demo_parked_blocks = {demo_genesis, demo_orphan}"

lemma demo_orphan_hash: "block_hash demo demo_orphan = 1 + (2 ^ 64 + 8)"
  by (simp add: demo_orphan_def block_hash_demo)

lemma demo_parking_ok:
  "collision_free demo_release demo_parked_blocks" "engine_ok demo_release demo_parked_blocks demo_parking"
proof -
  show free: "collision_free demo_release demo_parked_blocks"
    by (simp add: collision_free_def demo_parked_blocks_def demo_genesis_hash demo_orphan_hash)
  have "stored (chain demo_tree) \<subseteq> demo_parked_blocks" by (auto simp: demo_tree_def demo_parked_blocks_def)
  then have start: "engine_ok demo_release demo_parked_blocks (NodeEngine_new demo_tree)"
    using new_engine_ok [OF demo_tree_new_release] demo_genesis_hash demo_orphan_hash by (simp add: demo_parked_blocks_def)
  have "ingest_block demo_release (NodeEngine_new demo_tree) 7 demo_orphan = Some (demo_parking, [LoadSnapshot 5])"
    by (simp add: ingest_block_def NodeEngine_new_def demo_tree_def demo_orphan_def demo_parking_def bt_get_or_def)
  then show "engine_ok demo_release demo_parked_blocks demo_parking"
    using ingest_block_ok free start by (fastforce simp: demo_parked_blocks_def)
qed

theorem engine_step_returns_witness:
  "engine_step demo_release demo_parking (StorageLoaded 5 (Some [])) \<noteq> None \<and>
   engine_step demo_release demo_parking (StorageLoaded 5
     (Some (replicate 24 0 @ to_be 8 (1 :: u64) @ to_be 33 (0 :: bytes33) @ to_be 8 (- 1 :: u64)))) = None"
proof -
  have enc: "\<forall>msg. encode_message demo_release msg \<noteq> None" by (simp add: demo_encode_some)
  have sub: "input_blocks demo_release (StorageLoaded h bytes) \<subseteq> demo_parked_blocks" for h bytes
    by (simp add: input_blocks_def)
  have parked: "bt_get (pending_blocks demo_parking) 5 = Some [\<lparr> parked_peer = 7, parked_block = demo_orphan \<rparr>]"
    by (simp add: demo_parking_def)
  have "State_from_bytes [] \<noteq> None"
    by (simp add: State_from_bytes_def read_u64_map_def read_u64_def)
  then show ?thesis
    using engine_step_returns [OF _ demo_parking_ok sub enc] parked state_from_bytes_capacity_panic by auto
qed

section \<open>Serving block ranges\<close>

lemma sync_response_facts:
  assumes ok: "blockchain_ok E bc"
  obtains earliest latest served where "earliest_contiguous_height bc = Some earliest" and "get_latest_block bc = Some latest"
    and "earliest \<le> height latest" and "get_blocks bc from to = Some served"
    and "map (\<lambda>b. unat (height b)) served
      = (if earliest \<le> from then [unat from..<Suc (min (unat to) (unat (height latest)))] else [])"
  using get_blocks_range [OF ok, of "from" to] by blast

lemma served_nonempty:
  assumes ok: "blockchain_ok E bc" and earliest: "earliest_contiguous_height bc = Some earliest"
    and latest: "get_latest_block bc = Some latest" and range: "earliest \<le> from" "from \<le> height latest" "from \<le> to"
  shows "\<exists>r. sync_response bc from to = Some r \<and> blocks r \<noteq> []"
proof -
  obtain served where served: "get_blocks bc from to = Some served"
    and heights: "map (\<lambda>b. unat (height b)) served = [unat from..<Suc (min (unat to) (unat (height latest)))]"
    using get_blocks_range [OF ok, of "from" to] earliest latest range(1) by auto
  have "served \<noteq> []"
  proof
    assume "served = []"
    then show False using heights range(2,3) by (simp add: word_le_nat_alt)
  qed
  then show ?thesis using served earliest latest by (simp add: sync_response_def Let_def)
qed

lemma served_top:
  assumes heights: "map (\<lambda>b. unat (height b)) served
      = (if earliest \<le> from then [unat from..<Suc (min (unat to) (unat (height latest)))] else [])"
    and some: "served \<noteq> []"
  shows "earliest \<le> from" and "unat (height (last served)) = min (unat to) (unat (height latest))"
    and "unat from \<le> unat (height (last served))"
proof -
  show in_range: "earliest \<le> from" using heights some by (auto split: if_splits)
  have low: "unat from \<le> min (unat to) (unat (height latest))"
    using heights some in_range by (cases "unat from \<le> min (unat to) (unat (height latest))") auto
  have "unat (height (last served)) = last (map (\<lambda>b. unat (height b)) served)" using some by (simp add: last_map)
  then show top: "unat (height (last served)) = min (unat to) (unat (height latest))" using heights in_range low by simp
  show "unat from \<le> unat (height (last served))" using low top by simp
qed

text \<open>
  C10: paging. The reply to a sync request for a sound chain lists the blocks of the
  range in order; when it names a next height, that height is beyond the requested start and within the chain, and
  a request from there is answered with at least one block. So a peer that follows \<open>next_height\<close> reaches
  the head; a reply without it has served the range up to the head, or the range is empty or lies
  beyond the head.
\<close>

theorem sync_response_progress:
  assumes ok: "blockchain_ok E bc"
  shows "\<exists>r latest. sync_response bc from to = Some r \<and> get_latest_block bc = Some latest \<and>
    (case next_height r of
       Some n \<Rightarrow> from < n \<and> n \<le> height latest \<and>
         (\<forall>to'. n \<le> to' \<longrightarrow> (\<exists>r'. sync_response bc n to' = Some r' \<and> blocks r' \<noteq> []))
     | None \<Rightarrow> (blocks r \<noteq> [] \<and> height (last (blocks r)) = height latest) \<or> to < from \<or> height latest < from)"
proof -
  obtain earliest latest served where earliest: "earliest_contiguous_height bc = Some earliest"
    and latest: "get_latest_block bc = Some latest" and le: "earliest \<le> height latest"
    and served: "get_blocks bc from to = Some served"
    and heights: "map (\<lambda>b. unat (height b)) served
      = (if earliest \<le> from then [unat from..<Suc (min (unat to) (unat (height latest)))] else [])"
    using ok by (rule sync_response_facts)
  note page = served_nonempty [OF ok earliest latest]
  show ?thesis
  proof (cases "served = []")
    case True
    then have resp: "sync_response bc from to = Some (SyncResponse [] False
        (if from < earliest \<and> earliest \<le> height latest then Some earliest else None))"
      using served earliest latest by (simp add: sync_response_def Let_def)
    have "to < from \<or> height latest < from" if "\<not> from < earliest"
      using heights True that by (auto simp: word_less_nat_alt word_le_nat_alt not_less split: if_splits)
    then show ?thesis using resp latest le page by auto
  next
    case False
    note top = served_top [OF heights False]
    let ?top = "height (last served)"
    have resp: "sync_response bc from to = Some (SyncResponse served (?top < height latest)
        (if ?top < height latest then Some (saturating_add ?top 1) else None))"
      using False served earliest latest by (simp add: sync_response_def Let_def)
    show ?thesis
    proof (cases "?top < height latest")
      case True
      let ?n = "saturating_add ?top 1"
      have "unat ?n = unat ?top + 1"
        using True unat_lt_length [of "height latest"] by (simp add: unat_saturating_add word_less_nat_alt)
      then have "from < ?n" "?n \<le> height latest" "earliest \<le> ?n"
        using top True by (simp_all add: word_less_nat_alt word_le_nat_alt)
      then show ?thesis using resp latest True page by simp
    next
      case more: False
      then have "unat ?top = unat (height latest)" using top(2) by (simp add: word_less_nat_alt)
      then have "?top = height latest" by (rule unsigned_word_eqI)
      then show ?thesis using resp latest False by simp
    qed
  qed
qed

theorem sync_response_progress_witness:
  "\<exists>r. sync_response demo_tree 0 9 = Some r \<and> next_height r = None \<and> blocks r \<noteq> [] \<and> height (last (blocks r)) = 0"
proof -
  have "get_latest_block demo_tree = Some demo_genesis" "height demo_genesis = 0"
    by (simp_all add: get_latest_block_def demo_tree_def demo_genesis_def)
  then obtain r where r: "sync_response demo_tree 0 9 = Some r"
    and "case next_height r of Some n \<Rightarrow> 0 < n \<and> n \<le> (0 :: u64) | None \<Rightarrow> blocks r \<noteq> [] \<and> height (last (blocks r)) = 0"
    using sync_response_progress [OF demo_tree_ok, of 0 9] by (auto split: option.splits)
  then show ?thesis by (auto split: option.splits)
qed

section \<open>Requests, relaying and storage\<close>

text \<open>
  Following a response. A sync response from peer \<open>p\<close> completes all pending requests to
  \<open>p\<close> and leaves those to other peers alone; when it names a non-zero next height, each completed request is
  continued by a new one from that height, with a fresh deadline of \<open>REQUEST_TIMEOUT_MS\<close>.
\<close>

theorem sync_response_requests:
  assumes "message_from_bytes E frame = Inr (SyncResponseMsg response)"
    and "engine_step E e (FrameReceived p frame) = Some (e', acts)"
  shows "pending_requests e' = filter (\<lambda>r. peer r \<noteq> p) (pending_requests e) @
    (case next_height response of
       Some n \<Rightarrow> if n = 0 then [] else map (continued (current_time_ms e) n) (filter (\<lambda>r. peer r = p) (pending_requests e))
     | None \<Rightarrow> [])"
proof -
  obtain e1 acts1 where "handle_input E e (FrameReceived p frame) = Some (e1, acts1)"
    and e': "e' = fst (sync_wake_action e1)"
    using assms(2) by (rule engine_stepD)
  then have "on_sync_response E e p response = Some (e1, acts1)"
    using assms(1) by (simp add: handle_input_def on_frame_def)
  then have "pending_requests e1 = filter (\<lambda>r. peer r \<noteq> p) (pending_requests e) @
      (case next_height response of
         Some n \<Rightarrow> if n = 0 then [] else map (continued (current_time_ms e) n) (filter (\<lambda>r. peer r = p) (pending_requests e))
       | None \<Rightarrow> [])"
    by (rule on_sync_responseD)
      (auto simp: continue_all_eq quiet_def split: option.splits if_splits dest!: ingest_all_quiet)
  then show ?thesis by (simp add: e' sync_wake_action_sel)
qed

fun is_send :: "('vk, 'sig) NodeAction \<Rightarrow> bool" where
  "is_send (SendFrame p f) = True"
| "is_send _ = False"

text \<open>
  C13: gossip. When a peer announces a transaction that enters the pool, the announcement
  is sent on to every connected peer but the one it came from, once each; when the transaction is
  not new or not valid, it is sent to nobody.
\<close>

theorem announced_transaction_relayed_once:
  assumes ok: "engine_ok E B e"
    and msg: "message_from_bytes E frame = Inr (AnnounceRequestMsg (AnnounceRequest (NewTransaction tx)))"
    and step: "engine_step E e (FrameReceived p frame) = Some (e', acts)"
  shows "\<exists>targets f. distinct targets \<and> filter is_send acts = map (\<lambda>q. SendFrame q f) targets \<and>
    (if snd (add_transaction E (blockchain e) tx) = Inr True
     then set targets = {q. q \<noteq> p \<and> (\<exists>st. bt_get (peers e) q = Some st \<and> connected st)} \<and>
       encode_message E (AnnounceRequestMsg (announce_transaction tx)) = Some f
     else targets = [])"
proof -
  obtain e1 acts1 where "handle_input E e (FrameReceived p frame) = Some (e1, acts1)"
    and acts: "acts = acts1 @ (case snd (sync_wake_action e1) of Some a \<Rightarrow> [a] | None \<Rightarrow> [])"
    using step by (rule engine_stepD)
  then have tx: "on_announced_transaction E e p tx = Some (e1, acts1)"
    using msg by (simp add: handle_input_def on_frame_def)
  have sends: "filter is_send acts = filter is_send acts1"
    by (simp add: acts sync_wake_action_def Let_def split: option.split)
  show ?thesis
  proof (cases "snd (add_transaction E (blockchain e) tx) = Inr True")
    case True
    let ?targets = "map fst (filter (\<lambda>(q, st). q \<noteq> p \<and> connected st) (peers e))"
    have wf: "bt_wf (peers e)" using ok by (simp add: engine_ok_def engine_core_def)
    obtain f where f: "encode_message E (AnnounceRequestMsg (announce_transaction tx)) = Some f"
      and "acts1 = map (\<lambda>q. SendFrame q f) ?targets"
      using tx True
      by (auto simp: on_announced_transaction_def relay_transaction_def message_to_bytes_def Let_def case_prod_unfold
          elim!: bind_eq_SomeE)
    moreover have "filter is_send (map (\<lambda>q. SendFrame q f) qs) = map (\<lambda>q. SendFrame q f) qs" for qs :: "PeerId list"
      by (induction qs) simp_all
    ultimately have all: "filter is_send acts = map (\<lambda>q. SendFrame q f) ?targets" by (simp only: sends)
    have once: "distinct ?targets" using btm.distinct_keys [OF wf] by (simp add: distinct_map_filter)
    have "set ?targets = {q. q \<noteq> p \<and> (\<exists>st. (q, st) \<in> set (peers e) \<and> connected st)}" by force
    then have "set ?targets = {q. q \<noteq> p \<and> (\<exists>st. bt_get (peers e) q = Some st \<and> connected st)}"
      by (simp only: btm.entry_iff_get [OF wf])
    with all once show ?thesis
      unfolding if_P [OF True] using f by (intro exI [of _ ?targets] exI [of _ f] conjI)
  next
    case False
    then have "filter is_send acts1 = []"
      using tx by (auto simp: on_announced_transaction_def Let_def case_prod_unfold
          split: sum.split_asm bool.split_asm)
    then show ?thesis using False sends by auto
  qed
qed

section \<open>What reaches the storage\<close>

lemma attach_stored:
  assumes "bt_wf c"
  shows "bt_wf (attach_block E c b) \<and> stored (attach_block E c b) \<subseteq> insert b (stored c)"
proof -
  have "bt_wf (attach_block E c b)" using assms by (simp add: attach_block_def Let_def bt_wf_insert split: option.split)
  moreover have "a = b \<or> a \<in> stored c" if "map_option block (bt_get (attach_block E c b) h) = Some a" for a h
    using that assms
    by (fastforce simp: attach_block_def Let_def bt_simps split: option.split_asm if_split_asm)
  ultimately show ?thesis by blast
qed

lemma add_block_stored:
  assumes "add_block E bc b s = Some (bc', r)" and "bt_wf (chain bc)"
  shows "bt_wf (chain bc') \<and> stored (chain bc') \<subseteq> stored (chain bc) \<union> (case r of Inr _ \<Rightarrow> {b} | Inl _ \<Rightarrow> {})"
proof (cases r)
  case (Inl e)
  then have "bc' = bc" using assms(1) add_block_error by blast
  then show ?thesis using assms(2) by simp
next
  case (Inr i)
  then have "chain bc' = attach_block E (chain bc) b"
    using assms(1) by (auto simp: add_block_def Let_def elim!: bind_eq_SomeE split: option.split_asm sum.split_asm)
  then show ?thesis using attach_stored [OF assms(2), of E b] Inr by auto
qed

abbreviation persisted :: "('vk, 'sig) NodeAction list \<Rightarrow> ('vk, 'sig) Block set" where
  "persisted acts \<equiv> {b. PersistBlock b \<in> set acts}"

definition persists ::
  "('vk, 'sig) NodeEngine \<Rightarrow> (('vk, 'sig) NodeEngine \<times> ('vk, 'sig) NodeAction list) \<Rightarrow> bool" where
  "persists e r \<longleftrightarrow> (bt_wf (chain (blockchain e)) \<longrightarrow> bt_wf (chain (blockchain (fst r))) \<and>
     stored (chain (blockchain (fst r))) \<subseteq> stored (chain (blockchain e)) \<union> persisted (snd r))"

lemma persists_trans:
  assumes "persists e (e1, acts1)" and "persists e1 (e2, acts2)" and "set acts1 \<union> set acts2 \<subseteq> set acts"
  shows "persists e (e2, acts)"
proof -
  have chain_of_sets: "A2 \<subseteq> A1 \<union> P2 \<Longrightarrow> A1 \<subseteq> A0 \<union> P1 \<Longrightarrow> P1 \<union> P2 \<subseteq> P \<Longrightarrow> A2 \<subseteq> A0 \<union> P"
    for A0 A1 A2 P1 P2 P :: "('a, 'b) Block set" by blast
  have "persisted acts1 \<union> persisted acts2 \<subseteq> persisted acts" using assms(3) by auto
  then show ?thesis
    using assms(1,2) chain_of_sets unfolding persists_def fst_conv snd_conv by meson
qed

lemma persists_add:
  assumes "add_block E (blockchain e) b s = Some (bc, r)"
  shows "persists e (e\<lparr>blockchain := bc\<rparr>, case r of Inr _ \<Rightarrow> [PersistBlock b] | Inl _ \<Rightarrow> [])"
  using add_block_stored [OF assms] by (cases r) (auto simp: persists_def)

lemma persists_frame: "chain (blockchain e') = chain (blockchain e) \<Longrightarrow> persists e (e', acts)"
  by (auto simp: persists_def)

lemma persists_pending: "persists (e\<lparr>pending_blocks := m\<rparr>) r = persists e r"
  by (simp add: persists_def)

lemma import_loop_persists: "import_loop E e parked s = Some y \<Longrightarrow> persists e y"
proof (induction E e parked s y rule: import_loop.raw_induct [rotated, consumes 1, case_names step])
  case (step loop E e parked s y)
  note IH = step.IH
  show ?case
  proof (cases parked)
    case Nil
    then show ?thesis using step.hyps by (auto intro: persists_frame)
  next
    case (Cons pb rest)
    obtain bc r where add: "add_block E (blockchain e) (parked_block pb) s = Some (bc, r)"
      using step.hyps Cons by (auto elim!: bind_eq_SomeE)
    note first = persists_add [OF add]
    show ?thesis
    proof (cases r)
      case (Inl err)
      then obtain e' acts where "loop E (e\<lparr>blockchain := bc\<rparr>) rest s = Some (e', acts)"
        and "y = (e', ReportEvent ''failed importing parked block'' # acts)"
        using step.hyps Cons add by (auto elim!: bind_eq_SomeE)
      moreover from this(1) have "persists (e\<lparr>blockchain := bc\<rparr>) (e', acts)" by (rule IH)
      ultimately show ?thesis using first Inl by (auto intro: persists_trans)
    next
      case (Inr i)
      let ?e1 = "e\<lparr>blockchain := bc\<rparr>"
      obtain e2 acts1 e' acts2 where call: "(if became_head i then
          (case bt_get (pending_blocks ?e1) (block_hash E (parked_block pb)) of
             None \<Rightarrow> Some (?e1, [])
           | Some parked' \<Rightarrow> loop E (?e1\<lparr>pending_blocks :=
               bt_remove (block_hash E (parked_block pb)) (pending_blocks ?e1)\<rparr>) parked' (next_state i))
          else Some (?e1, [])) = Some (e2, acts1)" and last: "loop E e2 rest s = Some (e', acts2)"
        and y: "y = (e', [PersistBlock (parked_block pb), PersistSnapshot (block_hash E (parked_block pb))
          (State_to_bytes (next_state i))] @ acts1 @ acts2)"
        using step.hyps Cons add Inr by (auto simp: Let_def elim!: bind_eq_SomeE)
      have child: "persists ?e1 (e2, acts1)"
        using call by (auto split: if_splits option.splits dest!: IH intro: persists_frame simp: persists_pending)
      have "persists e2 (e', acts2)" using IH [OF last] by simp
      with child have "persists ?e1 (e', acts1 @ acts2)" by (rule persists_trans) simp
      with first show ?thesis unfolding y by (rule persists_trans) (auto simp: Inr)
    qed
  qed
qed

lemma import_parked_blocks_persists: "import_parked_blocks E e h s = Some y \<Longrightarrow> persists e y"
  by (auto simp: import_parked_blocks_def persists_pending intro: persists_frame split: option.split_asm
      dest!: import_loop_persists)

lemma ingest_block_persists:
  assumes "ingest_block E e p b = Some y"
  shows "persists e y"
proof (cases "head_hash (blockchain e) = previous_hash b")
  case False
  then show ?thesis using assms by (auto simp: ingest_block_def intro: persists_frame)
next
  case True
  obtain bc r where add: "add_block E (blockchain e) b (state (blockchain e)) = Some (bc, r)"
    using assms True by (auto simp: ingest_block_def elim!: bind_eq_SomeE)
  note first = persists_add [OF add]
  show ?thesis
  proof (cases r)
    case (Inl err)
    then have "y = (e\<lparr>blockchain := bc\<rparr>, [ReportEvent ''failed importing block''])"
      using assms True add by (simp add: ingest_block_def)
    moreover have "bc = blockchain e" using add Inl add_block_error by blast
    ultimately show ?thesis by (auto intro: persists_frame)
  next
    case (Inr i)
    let ?acts = "[PersistBlock b, PersistSnapshot (block_hash E b) (State_to_bytes (next_state i)), ReportEvent ''Block added'']"
    obtain e' more where y: "y = (e', ?acts @ more)" and rest: "persists (e\<lparr>blockchain := bc\<rparr>) (e', more)"
    proof (cases "became_head i")
      case True
      then obtain e' more where "import_parked_blocks E (e\<lparr>blockchain := bc\<rparr>) (block_hash E b) (next_state i) = Some (e', more)"
        and "y = (e', ?acts @ more)"
        using assms \<open>head_hash (blockchain e) = previous_hash b\<close> add Inr
        by (auto simp: ingest_block_def Let_def elim!: bind_eq_SomeE)
      then show thesis using import_parked_blocks_persists that by blast
    next
      case False
      then have "y = (e\<lparr>blockchain := bc\<rparr>, ?acts @ [])" using assms True add Inr by (simp add: ingest_block_def Let_def)
      then show thesis using that persists_frame by blast
    qed
    from first rest show ?thesis unfolding y by (rule persists_trans) (auto simp: Inr)
  qed
qed

lemma ingest_all_persists: "ingest_all E e p bs = Some y \<Longrightarrow> persists e y"
proof (induction bs arbitrary: e y)
  case (Cons b bs)
  then obtain e1 acts1 e2 acts2 where "ingest_block E e p b = Some (e1, acts1)" "ingest_all E e1 p bs = Some (e2, acts2)"
    and y: "y = (e2, acts1 @ acts2)"
    by (auto elim!: bind_eq_SomeE)
  then show ?case
    unfolding y by (intro persists_trans [of e e1 acts1 e2 acts2]) (auto intro: ingest_block_persists Cons.IH)
qed (auto intro: persists_frame)

lemma on_sync_response_persists:
  assumes "on_sync_response E e p response = Some (e', acts)"
  shows "persists e (e', acts)"
proof -
  let ?e1 = "e\<lparr>pending_requests := filter (\<lambda>r. peer r \<noteq> p) (pending_requests e)\<rparr>"
  obtain e2 acts1 where e2: "ingest_all E ?e1 p (blocks response) = Some (e2, acts1)"
    and end': "let (e3, acts2) = (case next_height response of
        Some nxt \<Rightarrow> continue_all e2 (filter (\<lambda>r. peer r = p) (pending_requests e)) nxt | None \<Rightarrow> (e2, []))
      in e' = e3 \<and> acts = (if acts1 @ acts2 = [] then [FrameReceivedAction p] else acts1 @ acts2)"
    using assms by (rule on_sync_responseD)
  have "chain (blockchain e') = chain (blockchain e2)" and sub: "set acts1 \<subseteq> set acts"
    using end' by (auto simp: continue_all_eq split: option.splits if_splits)
  then have "persists e2 (e', [])" by (intro persists_frame) simp
  moreover have "persists e (e2, acts1)"
    using ingest_all_persists [OF e2] by (simp add: persists_def)
  ultimately show ?thesis using sub by (intro persists_trans [of e e2 acts1 e' "[]"]) simp_all
qed

lemma add_transaction_chain: "chain (fst (add_transaction E bc tx)) = chain bc"
  by (simp add: add_transaction_def split: prod.split)

lemma handle_input_persists:
  assumes "handle_input E e i = Some (e', acts)"
  shows "persists e (e', acts)"
proof (cases i)
  case (FrameReceived p frame)
  have frame: "on_frame E e p frame = Some (e', acts)" using assms FrameReceived by (simp add: handle_input_def)
  show ?thesis
  proof (cases "\<exists>response. message_from_bytes E frame = Inr (SyncResponseMsg response)")
    case True
    then show ?thesis using frame on_sync_response_persists by (auto simp: on_frame_def)
  next
    case False
    then show ?thesis
      using frame
      by (auto simp: on_frame_def on_announced_transaction_def on_sync_request_def Let_def case_prod_unfold
          add_transaction_chain intro: persists_frame ingest_block_persists elim!: bind_eq_SomeE
          split: sum.split_asm NetworkMessage.split_asm AnnounceKind.split_asm bool.split_asm)
  qed
next
  case (StorageLoaded h bytes)
  then show ?thesis
    using assms
    by (auto simp: handle_input_def on_storage_loaded_def request_parent_block_def queue_block_request_def
        intro: persists_frame import_parked_blocks_persists elim!: bind_eq_SomeE
        split: option.split_asm list.split_asm sum.split_asm)
qed (use assms in \<open>auto simp: handle_input_def on_tick_def prune_expired_requests_def on_peer_connected_def
  on_peer_disconnected_def on_local_transaction_def queue_block_request_def Let_def case_prod_unfold add_transaction_chain
  intro!: persists_frame elim!: bind_eq_SomeE split: sum.split_asm bool.split_asm\<close>)

lemma engine_step_persists:
  assumes "engine_step E e i = Some (e', acts)"
  shows "persists e (e', acts)"
proof -
  obtain e1 acts1 where h: "handle_input E e i = Some (e1, acts1)" and e': "e' = fst (sync_wake_action e1)"
    and acts: "acts = acts1 @ (case snd (sync_wake_action e1) of Some a \<Rightarrow> [a] | None \<Rightarrow> [])"
    using assms by (rule engine_stepD)
  have "persists e1 (e', [])" by (rule persists_frame) (simp add: e' sync_wake_action_sel)
  with handle_input_persists [OF h] show ?thesis by (rule persists_trans) (auto simp: acts)
qed

text \<open>
  C11: no block is kept in memory only. Every block that a step adds to the block tree is
  handed to the storage by a \<open>PersistBlock\<close> action of the same step.
\<close>

theorem step_persists_new_blocks:
  assumes ok: "engine_ok E B e" and step: "engine_step E e i = Some (e', acts)"
  shows "stored (chain (blockchain e')) \<subseteq> stored (chain (blockchain e)) \<union> {b. PersistBlock b \<in> set acts}"
proof -
  have "bt_wf (chain (blockchain e))"
    using ok by (auto simp: engine_ok_def engine_core_def chain_sound_def blockchain_ok_def tree_ok_def)
  with engine_step_persists [OF step] show ?thesis unfolding persists_def by (simp only: fst_conv snd_conv)
qed

text \<open>
  C12: what is persisted can be restored. When \<open>add_block\<close> accepts a block, the block together with
  the snapshot bytes that are persisted for it passes the checks of \<open>restore_latest_snapshot\<close>: a
  node that restarts with them has this block as its head and the block's successor state as its state.
\<close>

theorem persisted_snapshot_restores:
  assumes "add_block E bc b s = Some (bc', Inr i)" and "state_wf s" and "state_sized (next_state i)"
  shows "\<exists>e'. restore_latest_snapshot E e (Some b) (Some (State_to_bytes (next_state i)))
      = Some (e', [ReportEvent ''startup snapshot restored'']) \<and>
    head_hash (blockchain e') = block_hash E b \<and> get_latest_block (blockchain e') = Some b \<and>
    state (blockchain e') = next_state i"
proof -
  obtain p where "bt_get (chain bc) (previous_hash b) = Some p" and "block_accepted E (block p) s b (next_state i)"
    using assms(1) by (rule add_block_success)
  then have wf: "state_wf (next_state i)" and root: "state_root b = compute_state_root E (next_state i)"
    using block_accepted_state assms(2) by blast+
  have "State_from_bytes (State_to_bytes (next_state i)) = Some (Inr (next_state i))"
    using state_bytes_decode [OF wf assms(3), of "[]"] by simp
  then show ?thesis
    using root by (simp add: restore_latest_snapshot_def restore_head_def get_latest_block_def Let_def)
qed

section \<open>Witnesses\<close>

lemma demo_engine_ok: "engine_ok demo_net demo_blocks (NodeEngine_new demo_tree)"
proof -
  have "stored (chain demo_tree) \<subseteq> demo_blocks" by (auto simp: demo_tree_def demo_blocks_def)
  then show ?thesis using new_engine_ok [OF demo_tree_new_net] demo_blocks_hashes by simp
qed

definition demo_waiting :: "(u8, demo_sig) NodeEngine" where
  "demo_waiting = (NodeEngine_new demo_tree)\<lparr>pending_requests :=
     [\<lparr> peer = 7, from_height = 1, to_height = 100, deadline_ms = 30000 \<rparr>], scheduled_wake_at_ms := Some 30000\<rparr>"

lemma demo_page: "message_from_bytes demo_net [5] = Inr (SyncResponseMsg (SyncResponse [] True (Some 40)))"
  by (simp add: message_from_bytes_def decode_or_def demo_decode_def)

theorem sync_response_requests_witness:
  "\<exists>e acts. engine_step demo_net demo_waiting (FrameReceived 7 [5]) = Some (e, acts) \<and>
     pending_requests e = [\<lparr> peer = 7, from_height = 40, to_height = 100, deadline_ms = 30000 \<rparr>]"
proof -
  obtain e acts where step: "engine_step demo_net demo_waiting (FrameReceived 7 [5]) = Some (e, acts)"
    by (simp add: engine_step_def handle_input_def on_frame_def demo_page on_sync_response_def case_prod_unfold Let_def)
  then show ?thesis
    using sync_response_requests [OF demo_page step]
    by (simp add: demo_waiting_def NodeEngine_new_def continued_def REQUEST_TIMEOUT_MS_def saturating_add_def)
qed

text \<open>A node restored from a snapshot of \<open>demo_state\<close>, with two connected peers.\<close>

definition demo_root :: "(u8, demo_sig) Block" where
  "demo_root = Block 3 20 0 1 [] None [] (compute_state_root demo_net demo_state)"

definition demo_node :: "(u8, demo_sig) NodeEngine" where
  "demo_node = (NodeEngine_new (restore_head demo_net demo_tree demo_root demo_state))\<lparr>peers :=
     [(7, \<lparr> connected = True, last_seen_ms = 0 \<rparr>), (8, \<lparr> connected = True, last_seen_ms = 0 \<rparr>)]\<rparr>"

lemma demo_node_ok: "engine_ok demo_net {demo_root} demo_node"
proof -
  have nonzero: "block_hash demo demo_root \<noteq> 0"
    using block_hash_demo_low [of demo_root] by (auto simp: demo_root_def)
  then have "blockchain_ok demo_net (restore_head demo_net demo_tree demo_root demo_state)"
    by (intro restore_head_ok) (simp_all add: demo_root_def state_wf_demo)
  moreover have "below_root demo_net {demo_root} demo_root"
    using nonzero by (simp add: below_root_def) (simp add: demo_root_def)
  moreover have "tree_rooted demo_net (chain (restore_head demo_net demo_tree demo_root demo_state)) demo_root"
    by (auto simp: tree_rooted_def restore_head_def Let_def)
  moreover have "stored (chain (restore_head demo_net demo_tree demo_root demo_state)) \<subseteq> {demo_root}"
    by (auto simp: restore_head_def Let_def)
  ultimately have "chain_sound demo_net {demo_root} (restore_head demo_net demo_tree demo_root demo_state)"
    unfolding chain_sound_def by blast
  then show ?thesis
    by (simp add: engine_ok_def engine_core_def settled_def parking_ok_def demo_node_def NodeEngine_new_def bt_wf_def)
qed

theorem announced_transaction_relayed_once_witness:
  "\<exists>e acts f. engine_step demo_net demo_node (FrameReceived 7 [3]) = Some (e, acts) \<and>
     filter is_send acts = [SendFrame 8 f]"
proof -
  have msg: "message_from_bytes demo_net [3] = Inr (AnnounceRequestMsg (AnnounceRequest (NewTransaction demo_transfer)))"
    by (simp add: message_from_bytes_def decode_or_def demo_decode_def announce_transaction_def)
  have new: "snd (add_transaction demo_net (blockchain demo_node) demo_transfer) = Inr True"
    by (simp add: add_transaction_def demo_node_def NodeEngine_new_def restore_head_def Mempool_new_def
        Mempool_add_transaction_def Let_def is_valid_tx_def demo_transfer_def demo_state_def get_balance_def
        get_nonce_def bt_get_or_def verifying_key_to_bytes_def)
  obtain f where "encode_message demo_net (AnnounceRequestMsg (announce_transaction demo_transfer)) = Some f"
    using demo_encode_some by auto
  then obtain e acts where step: "engine_step demo_net demo_node (FrameReceived 7 [3]) = Some (e, acts)"
    using new by (simp add: engine_step_def handle_input_def on_frame_def msg on_announced_transaction_def
        relay_transaction_def message_to_bytes_def case_prod_unfold Let_def)
  have targets: "{q. q \<noteq> 7 \<and> (\<exists>st. bt_get (peers demo_node) q = Some st \<and> connected st)} = {8}"
    by (auto simp: demo_node_def split: if_splits)
  obtain ts f where ts: "distinct ts" "set ts = {8}" and sends: "filter is_send acts = map (\<lambda>q. SendFrame q f) ts"
    using announced_transaction_relayed_once [OF demo_node_ok msg step] new targets by auto
  have "ts = [8]" using ts by (cases ts; cases "tl ts") auto
  then show ?thesis using step sends by auto
qed

theorem step_persists_new_blocks_witness:
  "stored (chain demo_tree2) \<subseteq> stored (chain demo_tree) \<union> {b. PersistBlock b = PersistBlock demo_child}"
  using step_persists_new_blocks [OF demo_engine_ok demo_step] by (simp add: NodeEngine_new_def)

theorem persisted_snapshot_restores_witness:
  "\<exists>e'. restore_latest_snapshot demo_net (NodeEngine_new demo_tree) (Some demo_child) (Some (State_to_bytes State_new))
      = Some (e', [ReportEvent ''startup snapshot restored'']) \<and> get_latest_block (blockchain e') = Some demo_child"
  using persisted_snapshot_restores [OF demo_add_child state_wf_new, of "NodeEngine_new demo_tree"]
  by (auto simp: state_sized_def State_new_def)

end
