(* ===== verification/Effects.thy ===== *)
theory Effects
  imports Blockchain Contract
begin

text \<open>
  What the two runtimes (\<open>erp-runtime\<close>, \<open>rp-runtime\<close>) share: errors as values, computations on
  a state that may return an error, byte streams and channels.

  An asynchronous function of the source is an \<open>effect\<close>: from the state it works on to its result
  (an error or a value) and the state it leaves. \<open>and_then\<close> is \<open>.await?\<close>: the first error ends the
  computation and the state stays as it was when the error arose. A byte stream has the bytes the
  remote side will have sent until it closes or fails (\<open>rx\<close>) and the bytes written so far
  (\<open>tx\<close>); waiting for bytes is not visible. A channel has the messages sent so far; waiting for
  room in a bounded channel is not visible either, and a send fails when the receiver is gone.
\<close>

named_theorems effect_defs \<open>definitions of the effect combinators and of the primitive effects\<close>

section \<open>Errors of the runtimes\<close>

datatype ErrorKind = InvalidData | InvalidInput | UnexpectedEof | TimedOut | WouldBlock | WriteZero | OtherKind

datatype IoError = IoError (io_kind: ErrorKind) (io_message: string)

type_synonym EspError = "32 word"

datatype ChannelKind = EventChannel | NetworkChannel | StorageChannel | WakeChannel

datatype SendError = Disconnected

datatype RuntimeError =
    NodeFailure NodeError
  | ContractFailure ContractError
  | Crypto string
  | Config string
  | Esp EspError
  | StorageInit EspError
  | ChannelSend ChannelKind SendError
  | NetworkError IoError

definition event_send :: "SendError \<Rightarrow> RuntimeError" where
  "event_send source = ChannelSend EventChannel source"

definition network_send :: "SendError \<Rightarrow> RuntimeError" where
  "network_send source = ChannelSend NetworkChannel source"

definition storage_send :: "SendError \<Rightarrow> RuntimeError" where
  "storage_send source = ChannelSend StorageChannel source"

definition wake_send :: "SendError \<Rightarrow> RuntimeError" where
  "wake_send source = ChannelSend WakeChannel source"

datatype HostChannelErrorKind = RuntimeEventKind | NetworkCommandKind | StorageCommandKind | WakeCommandKind

datatype HostError =
    HostNodeFailure NodeError
  | HostContractFailure ContractError
  | HostCrypto string
  | HostConfig string
  | HostChannelSend ChannelKind HostChannelErrorKind
  | HostNetworkError IoError

definition host_event_send :: "SendError \<Rightarrow> HostError" where
  "host_event_send source = HostChannelSend EventChannel RuntimeEventKind"

definition host_network_send :: "SendError \<Rightarrow> HostError" where
  "host_network_send source = HostChannelSend NetworkChannel NetworkCommandKind"

definition host_storage_send :: "SendError \<Rightarrow> HostError" where
  "host_storage_send source = HostChannelSend StorageChannel StorageCommandKind"

definition host_wake_send :: "SendError \<Rightarrow> HostError" where
  "host_wake_send source = HostChannelSend WakeChannel WakeCommandKind"

definition host_io_other :: "string \<Rightarrow> HostError" where
  "host_io_other message = HostNetworkError (IoError OtherKind message)"

section \<open>Results and effects\<close>

type_synonym ('s, 'e, 'a) effect = "'s \<Rightarrow> ('e, 'a) result \<times> 's"

definition map_err :: "('e \<Rightarrow> 'f) \<Rightarrow> ('e, 'a) result \<Rightarrow> ('f, 'a) result" where
  "map_err f r = (case r of Inl e \<Rightarrow> Inl (f e) | Inr a \<Rightarrow> Inr a)"

definition bind_result :: "('e, 'a) result \<Rightarrow> ('a \<Rightarrow> ('e, 'b) result) \<Rightarrow> ('e, 'b) result" where
  "bind_result r k = (case r of Inl e \<Rightarrow> Inl e | Inr a \<Rightarrow> k a)"

definition ok_or :: "'e \<Rightarrow> 'a option \<Rightarrow> ('e, 'a) result" where
  "ok_or e x = (case x of Some a \<Rightarrow> Inr a | None \<Rightarrow> Inl e)"

lemma map_err_simps [simp]: "map_err f (Inl e) = Inl (f e)" "map_err f (Inr a) = Inr a"
  by (simp_all add: map_err_def)

lemma bind_result_simps [simp]: "bind_result (Inl e) k = Inl e" "bind_result (Inr a) k = k a"
  by (simp_all add: bind_result_def)

lemma ok_or_simps [simp]: "ok_or e (Some a) = Inr a" "ok_or e None = Inl e"
  by (simp_all add: ok_or_def)

lemma map_err_Inr [simp]: "map_err f r = Inr a \<longleftrightarrow> r = Inr a"
  by (simp add: map_err_def split: sum.split)

lemma map_err_Inl: "map_err f r = Inl x \<longleftrightarrow> (\<exists>e. r = Inl e \<and> x = f e)"
  by (auto simp: map_err_def split: sum.split)

lemma ok_or_Inr [simp]: "ok_or e x = Inr a \<longleftrightarrow> x = Some a"
  by (simp add: ok_or_def split: option.split)

lemma bind_result_Inr: "bind_result r k = Inr b \<longleftrightarrow> (\<exists>a. r = Inr a \<and> k a = Inr b)"
  by (cases r) simp_all

definition done_with :: "'a \<Rightarrow> ('s, 'e, 'a) effect" where
  "done_with a s = (Inr a, s)"

definition fail_with :: "'e \<Rightarrow> ('s, 'e, 'a) effect" where
  "fail_with e s = (Inl e, s)"

definition of_result :: "('e, 'a) result \<Rightarrow> ('s, 'e, 'a) effect" where
  "of_result r s = (r, s)"

definition and_then :: "('s, 'e, 'a) effect \<Rightarrow> ('a \<Rightarrow> ('s, 'e, 'b) effect) \<Rightarrow> ('s, 'e, 'b) effect" where
  "and_then m k s = (case m s of (Inl e, s') \<Rightarrow> (Inl e, s') | (Inr a, s') \<Rightarrow> k a s')"

definition map_err_effect :: "('e \<Rightarrow> 'f) \<Rightarrow> ('s, 'e, 'a) effect \<Rightarrow> ('s, 'f, 'a) effect" where
  "map_err_effect f m s = (let (r, s') = m s in (map_err f r, s'))"

lemma effect_simps [simp]:
  "done_with a s = (Inr a, s)" "fail_with e s = (Inl e, s)" "of_result r s = (r, s)"
  by (simp_all add: done_with_def fail_with_def of_result_def)

lemma and_then_ok: "m s = (Inr a, s') \<Longrightarrow> and_then m k s = k a s'"
  by (simp add: and_then_def)

lemma and_then_err: "m s = (Inl e, s') \<Longrightarrow> and_then m k s = (Inl e, s')"
  by (simp add: and_then_def)

lemma and_then_simps [simp]:
  "and_then (done_with a) k s = k a s" "and_then (fail_with e) k s = (Inl e, s)"
  by (simp_all add: and_then_def)

lemma and_then_of_result [simp]: "and_then (of_result (Inr a)) k s = k a s"
  "and_then (of_result (Inl e)) k s = (Inl e, s)"
  by (simp_all add: and_then_def)

lemma and_then_Inr:
  "and_then m k s = (Inr b, t) \<longleftrightarrow> (\<exists>a s'. m s = (Inr a, s') \<and> k a s' = (Inr b, t))"
  by (auto simp: and_then_def split: prod.split sum.split)

lemma map_err_effect_ok: "m s = (Inr a, s') \<Longrightarrow> map_err_effect f m s = (Inr a, s')"
  by (simp add: map_err_effect_def)

lemma map_err_effect_err: "m s = (Inl e, s') \<Longrightarrow> map_err_effect f m s = (Inl (f e), s')"
  by (simp add: map_err_effect_def)

lemma map_err_effect_Inr [simp]: "map_err_effect f m s = (Inr a, t) \<longleftrightarrow> m s = (Inr a, t)"
  by (auto simp: map_err_effect_def split: prod.split)

lemma snd_map_err_effect [simp]: "snd (map_err_effect f m s) = snd (m s)"
  by (simp add: map_err_effect_def split: prod.split)

text \<open>An invariant of the state that every part keeps is kept by the whole.\<close>

lemma and_then_invariant:
  assumes "P (snd (m s))" and "\<And>a s'. m s = (Inr a, s') \<Longrightarrow> P s' \<Longrightarrow> P (snd (k a s'))"
  shows "P (snd (and_then m k s))"
  using assms by (auto simp: and_then_def split: prod.split sum.split)

text \<open>Effects that may also panic or not return.\<close>

type_synonym ('s, 'e, 'a) xeffect = "'s \<Rightarrow> (('e, 'a) result \<times> 's) exec"

definition returns :: "('s, 'e, 'a) effect \<Rightarrow> ('s, 'e, 'a) xeffect" where
  "returns m s = Some (m s)"

definition x_then :: "('s, 'e, 'a) xeffect \<Rightarrow> ('a \<Rightarrow> ('s, 'e, 'b) xeffect) \<Rightarrow> ('s, 'e, 'b) xeffect" where
  "x_then m k s = (case m s of
     None \<Rightarrow> None | Some (Inl e, s') \<Rightarrow> Some (Inl e, s') | Some (Inr a, s') \<Rightarrow> k a s')"

definition of_exec :: "('e, 'a) result exec \<Rightarrow> ('s, 'e, 'a) xeffect" where
  "of_exec x s = map_option (\<lambda>r. (r, s)) x"

lemma returns_simp [simp]: "returns m s = Some (m s)"
  by (simp add: returns_def)

lemma x_then_ok: "m s = Some (Inr a, s') \<Longrightarrow> x_then m k s = k a s'"
  by (simp add: x_then_def)

lemma x_then_err: "m s = Some (Inl e, s') \<Longrightarrow> x_then m k s = Some (Inl e, s')"
  by (simp add: x_then_def)

lemma x_then_Inr:
  "x_then m k s = Some (Inr b, t) \<longleftrightarrow> (\<exists>a s'. m s = Some (Inr a, s') \<and> k a s' = Some (Inr b, t))"
  by (auto simp: x_then_def split: option.split prod.split sum.split)

lemma of_exec_Some [simp]: "of_exec (Some r) s = Some (r, s)"
  by (simp add: of_exec_def)

section \<open>Byte streams\<close>

record io_stream =
  rx :: byte_vec
  rx_fault :: "IoError option"
  tx :: byte_vec
  tx_fault :: "IoError option"

definition read_exact :: "nat \<Rightarrow> (io_stream, IoError, byte_vec) effect" where
  [effect_defs]: "read_exact n s =
     (if n \<le> length (rx s) then (Inr (take n (rx s)), s\<lparr>rx := drop n (rx s)\<rparr>)
      else (Inl (case rx_fault s of None \<Rightarrow> IoError UnexpectedEof [] | Some e \<Rightarrow> e), s\<lparr>rx := []\<rparr>))"

definition write_all :: "byte_vec \<Rightarrow> (io_stream, IoError, unit) effect" where
  [effect_defs]: "write_all bytes s =
     (case tx_fault s of None \<Rightarrow> (Inr (), s\<lparr>tx := tx s @ bytes\<rparr>) | Some e \<Rightarrow> (Inl e, s))"

definition flush :: "(io_stream, IoError, unit) effect" where
  [effect_defs]: "flush s = (case tx_fault s of None \<Rightarrow> (Inr (), s) | Some e \<Rightarrow> (Inl e, s))"

lemma read_exact_Inr:
  "read_exact n s = (Inr bs, t) \<longleftrightarrow> n \<le> length (rx s) \<and> bs = take n (rx s) \<and> t = s\<lparr>rx := drop n (rx s)\<rparr>"
  by (auto simp: read_exact_def)

lemma length_read_exact: "(Inr bs, t) = read_exact n s \<Longrightarrow> length bs = n"
  by (drule sym) (simp add: read_exact_Inr)

lemma rx_update_same: "rx s = bs \<Longrightarrow> s\<lparr>rx := bs\<rparr> = s"
  by (cases s) simp

lemma read_exact_append: "n = length bs \<Longrightarrow> rx s = bs @ rest \<Longrightarrow> read_exact n s = (Inr bs, s\<lparr>rx := rest\<rparr>)"
  by (simp add: read_exact_def)

lemma write_all_open: "tx_fault s = None \<Longrightarrow> write_all bs s = (Inr (), s\<lparr>tx := tx s @ bs\<rparr>)"
  by (simp add: write_all_def)

lemma flush_open: "tx_fault s = None \<Longrightarrow> flush s = (Inr (), s)"
  by (simp add: flush_def)

section \<open>Channels\<close>

record 'a channel =
  sent :: "'a list"
  receiver_dropped :: bool

definition send :: "'a \<Rightarrow> ('a channel, SendError, unit) effect" where
  [effect_defs]: "send x ch =
     (if receiver_dropped ch then (Inl Disconnected, ch) else (Inr (), ch\<lparr>sent := sent ch @ [x]\<rparr>))"

definition open_channel :: "'a channel" where
  "open_channel = \<lparr> sent = [], receiver_dropped = False \<rparr>"

text \<open>A send on a channel that is a field of the state: \<open>get\<close> reads the field, \<open>put\<close> updates it.\<close>

definition send_on ::
  "('s \<Rightarrow> 'a channel) \<Rightarrow> ('a channel \<Rightarrow> 's \<Rightarrow> 's) \<Rightarrow> (SendError \<Rightarrow> 'e) \<Rightarrow> 'a \<Rightarrow> ('s, 'e, unit) effect" where
  [effect_defs]: "send_on get put err x s = (let (r, ch) = send x (get s) in (map_err err r, put ch s))"

lemma send_on_open:
  "\<not> receiver_dropped (get s) \<Longrightarrow>
   send_on get put err x s = (Inr (), put ((get s)\<lparr>sent := sent (get s) @ [x]\<rparr>) s)"
  by (simp add: send_on_def send_def)

lemma send_on_dropped:
  "receiver_dropped (get s) \<Longrightarrow> send_on get put err x s = (Inl (err Disconnected), put (get s) s)"
  by (simp add: send_on_def send_def)

end
