(* ===== verification/Framing.thy ===== *)
theory Framing
  imports Effects
begin

text \<open>
  The framing of messages on a stream: a length prefix (an unsigned varint) and the payload
  (\<open>rp-codec/src/length_prefixed.rs\<close>, \<open>rp-codec/src/postcard.rs\<close>) and the wrappers of the two
  runtimes (\<open>erp-runtime/src/network/codec\<close>, \<open>rp-runtime/src/network/codec\<close>).

  The crate \<open>unsigned_varint\<close> is the parameter \<open>V\<close>; \<open>varint_ok\<close> is what its documentation says:
  the encoding of a \<open>u32\<close> has at most five bytes, every byte but the last has the high bit, and
  decoding reads an encoding back and leaves the bytes after it. \<open>leb128\<close> is an instance. The
  encoders of postcard are parameters as in \<open>Contract\<close>.
\<close>

unbundle bit_operations_syntax

section \<open>The varint parameter\<close>

record varint =
  varint_encode :: "u32 \<Rightarrow> byte_vec"
  varint_decode :: "byte_vec \<Rightarrow> (string, u32 \<times> byte_vec) result"

definition continues :: "u8 \<Rightarrow> bool" where
  "continues b \<longleftrightarrow> b AND 0x80 \<noteq> 0"

definition varint_ok :: "varint \<Rightarrow> bool" where
  "varint_ok V \<longleftrightarrow>
     (\<forall>n rest. varint_decode V (varint_encode V n @ rest) = Inr (n, rest)) \<and>
     (\<forall>n. \<exists>init b. varint_encode V n = init @ [b] \<and> length init \<le> 4 \<and> (\<forall>c\<in>set init. continues c) \<and> \<not> continues b)"

lemma varint_decode_encode: "varint_ok V \<Longrightarrow> varint_decode V (varint_encode V n @ rest) = Inr (n, rest)"
  by (simp add: varint_ok_def)

lemma varint_decode_encode_Nil: "varint_ok V \<Longrightarrow> varint_decode V (varint_encode V n) = Inr (n, [])"
  using varint_decode_encode [of V n "[]"] by simp

lemma varint_encode_shape:
  assumes "varint_ok V"
  obtains init b where "varint_encode V n = init @ [b]" and "length init \<le> 4"
    and "\<forall>c\<in>set init. continues c" and "\<not> continues b"
  using assms unfolding varint_ok_def by meson

section \<open>Length-prefixed frames\<close>

definition encode_length_prefixed :: "varint \<Rightarrow> byte_vec \<Rightarrow> u32 \<Rightarrow> (IoError, byte_vec) result" where
  "encode_length_prefixed V payload max_len =
     (if length payload > unat max_len
      then Inl (IoError InvalidData ''payload exceeds configured frame length limit'')
      else Inr (varint_encode V (word_of_nat (length payload)) @ payload))"

definition decode_length_prefix :: "varint \<Rightarrow> byte_vec \<Rightarrow> u32 \<Rightarrow> (IoError, nat \<times> byte_vec) result" where
  "decode_length_prefix V input max_len =
     (case varint_decode V input of
        Inl e \<Rightarrow> Inl (IoError InvalidData (''invalid length prefix: '' @ e))
      | Inr (payload_len, remaining) \<Rightarrow>
          (if payload_len > max_len
           then Inl (IoError InvalidData ''length prefix exceeds configured frame length limit'')
           else
             (let header_len = length input - length remaining;
                  total_len = header_len + unat payload_len
              in if length input < total_len
                 then Inl (IoError UnexpectedEof ''frame body shorter than advertised length'')
                 else Inr (header_len, drop header_len (take total_len input)))))"

definition decode_length_prefixed_payload_len :: "varint \<Rightarrow> byte_vec \<Rightarrow> u32 \<Rightarrow> (IoError, nat) result" where
  "decode_length_prefixed_payload_len V prefix max_len =
     (case varint_decode V prefix of
        Inl e \<Rightarrow> Inl (IoError InvalidData (''invalid frame length prefix: '' @ e))
      | Inr (payload_len, _) \<Rightarrow>
          (if payload_len > max_len
           then Inl (IoError InvalidData ''frame length exceeds configured maximum'')
           else Inr (unat payload_len)))"

definition read_frame_body :: "varint \<Rightarrow> byte_vec \<Rightarrow> u32 \<Rightarrow> (io_stream, IoError, byte_vec) effect" where
  "read_frame_body V prefix max_len =
     and_then (of_result (decode_length_prefixed_payload_len V prefix max_len))
       (\<lambda>payload_len. and_then (read_exact payload_len) (\<lambda>body. done_with (prefix @ body)))"

function read_frame_loop :: "varint \<Rightarrow> u32 \<Rightarrow> byte_vec \<Rightarrow> (io_stream, IoError, byte_vec) effect" where
  "read_frame_loop V max_len prefix s =
     (if length prefix \<ge> 5
      then (Inl (IoError InvalidData ''frame length prefix exceeds u32 varint width''), s)
      else
        (case read_exact 1 s of
           (Inl e, s') \<Rightarrow> (Inl e, s')
         | (Inr byte, s') \<Rightarrow>
             (let prefix' = prefix @ byte
              in if \<not> continues (last prefix') then read_frame_body V prefix' max_len s'
                 else read_frame_loop V max_len prefix' s')))"
  by pat_completeness auto
termination
  by (relation "measure (\<lambda>(V, max_len, prefix, s). 5 - length prefix)") (auto dest!: length_read_exact)

definition read_length_prefixed_frame :: "varint \<Rightarrow> u32 \<Rightarrow> (io_stream, IoError, byte_vec) effect" where
  "read_length_prefixed_frame V max_len = read_frame_loop V max_len []"

declare read_frame_loop.simps [simp del]

section \<open>Postcard frames\<close>

definition encode_postcard :: "('m \<Rightarrow> byte_vec option) \<Rightarrow> 'm \<Rightarrow> (IoError, byte_vec) result" where
  "encode_postcard enc v = ok_or (IoError InvalidData ''failed to encode postcard payload'') (enc v)"

definition decode_postcard :: "(byte_vec \<Rightarrow> 'm option) \<Rightarrow> byte_vec \<Rightarrow> (IoError, 'm) result" where
  "decode_postcard dec bytes = ok_or (IoError InvalidData ''failed to decode postcard payload'') (dec bytes)"

definition read_postcard_frame :: "varint \<Rightarrow> (byte_vec \<Rightarrow> 'm option) \<Rightarrow> u32 \<Rightarrow> (io_stream, IoError, 'm) effect" where
  "read_postcard_frame V dec max_len =
     and_then (read_length_prefixed_frame V max_len)
       (\<lambda>frame. and_then (of_result (decode_length_prefix V frame max_len))
         (\<lambda>(_, payload). of_result (decode_postcard dec payload)))"

definition host_write_postcard_frame :: "varint \<Rightarrow> ('m \<Rightarrow> byte_vec option) \<Rightarrow> 'm \<Rightarrow> u32 \<Rightarrow> (io_stream, IoError, unit) effect" where
  "host_write_postcard_frame V enc v max_len =
     and_then (of_result (encode_postcard enc v))
       (\<lambda>payload. and_then (of_result (encode_length_prefixed V payload max_len))
         (\<lambda>frame. and_then (write_all frame) (\<lambda>_. flush)))"

text \<open>The wrappers of the embedded runtime change the type of the errors.\<close>

definition PostcardCodec_encode :: "('m \<Rightarrow> byte_vec option) \<Rightarrow> 'm \<Rightarrow> (RuntimeError, byte_vec) result" where
  "PostcardCodec_encode enc v = map_err (\<lambda>_. Crypto ''failed to serialize postcard payload'') (encode_postcard enc v)"

definition PostcardCodec_decode :: "(byte_vec \<Rightarrow> 'm option) \<Rightarrow> byte_vec \<Rightarrow> (RuntimeError, 'm) result" where
  "PostcardCodec_decode dec bytes = map_err (\<lambda>_. Crypto ''failed to deserialize postcard payload'') (decode_postcard dec bytes)"

definition erp_encode_length_prefixed :: "varint \<Rightarrow> byte_vec \<Rightarrow> u32 \<Rightarrow> (RuntimeError, byte_vec) result" where
  "erp_encode_length_prefixed V payload max_len = map_err NetworkError (encode_length_prefixed V payload max_len)"

definition erp_decode_length_prefix :: "varint \<Rightarrow> byte_vec \<Rightarrow> u32 \<Rightarrow> (RuntimeError, nat \<times> byte_vec) result" where
  "erp_decode_length_prefix V input max_len = map_err NetworkError (decode_length_prefix V input max_len)"

definition write_postcard_frame :: "varint \<Rightarrow> ('m \<Rightarrow> byte_vec option) \<Rightarrow> 'm \<Rightarrow> u32 \<Rightarrow> (io_stream, RuntimeError, unit) effect" where
  "write_postcard_frame V enc v max_len =
     and_then (of_result (PostcardCodec_encode enc v))
       (\<lambda>payload. and_then (of_result (erp_encode_length_prefixed V payload max_len))
         (\<lambda>frame. and_then (map_err_effect NetworkError (write_all frame))
           (\<lambda>_. map_err_effect NetworkError flush)))"

definition erp_read_postcard_frame :: "varint \<Rightarrow> (byte_vec \<Rightarrow> 'm option) \<Rightarrow> u32 \<Rightarrow> (io_stream, RuntimeError, 'm) effect" where
  "erp_read_postcard_frame V dec max_len = map_err_effect NetworkError (read_postcard_frame V dec max_len)"

definition erp_read_length_prefixed_frame :: "varint \<Rightarrow> u32 \<Rightarrow> (io_stream, RuntimeError, byte_vec) effect" where
  "erp_read_length_prefixed_frame V max_len = map_err_effect NetworkError (read_length_prefixed_frame V max_len)"

text \<open>A framed value: \<open>protocol/sync.rs\<close> and \<open>protocol/announce.rs\<close> have this pair for each message.\<close>

definition encode_framed :: "varint \<Rightarrow> ('m \<Rightarrow> byte_vec option) \<Rightarrow> 'm \<Rightarrow> u32 \<Rightarrow> (RuntimeError, byte_vec) result" where
  "encode_framed V enc v max_len =
     bind_result (PostcardCodec_encode enc v) (\<lambda>payload. erp_encode_length_prefixed V payload max_len)"

definition decode_framed :: "varint \<Rightarrow> (byte_vec \<Rightarrow> 'm option) \<Rightarrow> byte_vec \<Rightarrow> u32 \<Rightarrow> (RuntimeError, 'm) result" where
  "decode_framed V dec frame max_len =
     bind_result (erp_decode_length_prefix V frame max_len) (\<lambda>(_, payload). PostcardCodec_decode dec payload)"

definition erp_encode_sync_request :: "varint \<Rightarrow> ('vk, 'sig, 'z) net_scheme \<Rightarrow> SyncRequest \<Rightarrow> u32 \<Rightarrow> (RuntimeError, byte_vec) result" where
  "erp_encode_sync_request V E = encode_framed V (encode_sync_request E)"

definition erp_decode_sync_request :: "varint \<Rightarrow> ('vk, 'sig, 'z) net_scheme \<Rightarrow> byte_vec \<Rightarrow> u32 \<Rightarrow> (RuntimeError, SyncRequest) result" where
  "erp_decode_sync_request V E = decode_framed V (decode_sync_request E)"

definition erp_encode_sync_response :: "varint \<Rightarrow> ('vk, 'sig, 'z) net_scheme \<Rightarrow> ('vk, 'sig) SyncResponse \<Rightarrow> u32 \<Rightarrow> (RuntimeError, byte_vec) result" where
  "erp_encode_sync_response V E = encode_framed V (encode_sync_response E)"

definition erp_decode_sync_response :: "varint \<Rightarrow> ('vk, 'sig, 'z) net_scheme \<Rightarrow> byte_vec \<Rightarrow> u32 \<Rightarrow> (RuntimeError, ('vk, 'sig) SyncResponse) result" where
  "erp_decode_sync_response V E = decode_framed V (decode_sync_response E)"

definition erp_encode_announce_request :: "varint \<Rightarrow> ('vk, 'sig, 'z) net_scheme \<Rightarrow> ('vk, 'sig) AnnounceRequest \<Rightarrow> u32 \<Rightarrow> (RuntimeError, byte_vec) result" where
  "erp_encode_announce_request V E = encode_framed V (encode_announce_request E)"

definition erp_decode_announce_request :: "varint \<Rightarrow> ('vk, 'sig, 'z) net_scheme \<Rightarrow> byte_vec \<Rightarrow> u32 \<Rightarrow> (RuntimeError, ('vk, 'sig) AnnounceRequest) result" where
  "erp_decode_announce_request V E = decode_framed V (decode_announce_request E)"

definition erp_encode_announce_response :: "varint \<Rightarrow> ('vk, 'sig, 'z) net_scheme \<Rightarrow> AnnounceResponse \<Rightarrow> u32 \<Rightarrow> (RuntimeError, byte_vec) result" where
  "erp_encode_announce_response V E = encode_framed V (encode_announce_response E)"

definition erp_decode_announce_response :: "varint \<Rightarrow> ('vk, 'sig, 'z) net_scheme \<Rightarrow> byte_vec \<Rightarrow> u32 \<Rightarrow> (RuntimeError, AnnounceResponse) result" where
  "erp_decode_announce_response V E = decode_framed V (decode_announce_response E)"

section \<open>An instance of the varint parameter\<close>

fun leb128 :: "nat \<Rightarrow> byte_vec" where
  "leb128 n = (if n < 128 then [word_of_nat n] else word_of_nat (128 + n mod 128) # leb128 (n div 128))"

fun leb128_read :: "byte_vec \<Rightarrow> (nat \<times> byte_vec) option" where
  "leb128_read [] = None"
| "leb128_read (b # bs) =
     (if unat b < 128 then Some (unat b, bs)
      else map_option (\<lambda>(n, rest). (unat b - 128 + 128 * n, rest)) (leb128_read bs))"

declare leb128.simps [simp del]

definition demo_varint :: varint where
  "demo_varint = \<lparr> varint_encode = (\<lambda>n. leb128 (unat n)),
     varint_decode = (\<lambda>bs. case leb128_read bs of
        None \<Rightarrow> Inl ''not enough input bytes'' | Some (n, rest) \<Rightarrow> Inr (word_of_nat n, rest)) \<rparr>"

lemma demo_varint_decode: "varint_decode demo_varint bs = (case leb128_read bs of
    None \<Rightarrow> Inl ''not enough input bytes'' | Some (n, rest) \<Rightarrow> Inr (word_of_nat n, rest))"
  by (simp add: demo_varint_def)

lemma continues_iff: "continues b \<longleftrightarrow> 128 \<le> unat b"
proof -
  have "b AND 0x80 = 0 \<longleftrightarrow> \<not> bit b 7"
    using and_exp_eq_0_iff_not_bit [of b 7] by simp
  also have "bit b 7 \<longleftrightarrow> 128 \<le> unat b"
  proof -
    have "unat b < 256" using unat_lt_length [of b] by simp
    then have "unat b div 128 = (if unat b < 128 then 0 else 1)"
      by (auto simp: div_nat_eqI)
    then have "odd (unat b div 128) \<longleftrightarrow> 128 \<le> unat b"
      by auto
    moreover have "bit b 7 \<longleftrightarrow> odd (unat b div 128)"
      using bit_iff_odd [of "unat b" 7] by (simp add: bit_unsigned_iff)
    ultimately show ?thesis by simp
  qed
  finally show ?thesis by (auto simp: continues_def)
qed

lemma unat_leb_byte: "unat (128 + word_of_nat (n mod 128) :: u8) = 128 + n mod 128"
  using unat_u8_of_nat [of "128 + n mod 128"] by simp

lemma unat_leb_last: "n < 128 \<Longrightarrow> unat (word_of_nat n :: u8) = n"
  by (simp add: unat_u8_of_nat)

lemma leb128_read_append: "leb128_read (leb128 n @ rest) = Some (n, rest)"
proof (induction n rule: leb128.induct)
  case (1 n)
  then show ?case
    by (subst leb128.simps) (auto simp: unat_leb_byte unat_leb_last)
qed

lemma leb128_shape:
  "n < 128 ^ Suc k \<Longrightarrow>
   \<exists>init b. leb128 n = init @ [b] \<and> length init \<le> k \<and> (\<forall>c\<in>set init. continues c) \<and> \<not> continues b"
proof (induction k arbitrary: n)
  case 0
  then show ?case
    by (subst leb128.simps) (simp add: continues_iff unat_leb_last)
next
  case (Suc k)
  show ?case
  proof (cases "n < 128")
    case True
    then show ?thesis by (subst leb128.simps) (simp add: continues_iff unat_leb_last)
  next
    case False
    have "n div 128 < 128 ^ Suc k"
      using Suc.prems by (simp add: less_mult_imp_div_less mult.commute)
    then obtain init b where "leb128 (n div 128) = init @ [b]" "length init \<le> k"
      "\<forall>c\<in>set init. continues c" "\<not> continues b"
      using Suc.IH by blast
    with False show ?thesis
      by (subst leb128.simps)
        (intro exI [of _ "word_of_nat (128 + n mod 128) # init"] exI [of _ b],
          simp add: continues_iff unat_leb_byte)
  qed
qed

lemma demo_varint_ok: "varint_ok demo_varint"
proof -
  have "\<exists>init b. leb128 (unat n) = init @ [b] \<and> length init \<le> 4 \<and> (\<forall>c\<in>set init. continues c) \<and> \<not> continues b"
    for n :: u32
    using unat_lt_length [of n] by (intro leb128_shape) simp
  then show ?thesis
    by (simp add: varint_ok_def demo_varint_def leb128_read_append)
qed

section \<open>Bounds and round trips\<close>

lemma encode_length_prefixed_ok:
  "length payload \<le> unat max_len \<Longrightarrow>
   encode_length_prefixed V payload max_len = Inr (varint_encode V (word_of_nat (length payload)) @ payload)"
  by (simp add: encode_length_prefixed_def)

lemma unat_payload_len: "length payload \<le> unat (max_len :: u32) \<Longrightarrow> unat (word_of_nat (length payload) :: u32) = length payload"
  using unat_lt_length [of max_len] by (simp add: unat_of_nat)

lemma payload_len_le: "length payload \<le> unat (max_len :: u32) \<Longrightarrow> word_of_nat (length payload) \<le> max_len"
  by (simp add: word_le_nat_alt unat_payload_len)

lemma decode_length_prefix_encoded:
  assumes "varint_ok V" and "length payload \<le> unat max_len"
  shows "decode_length_prefix V (varint_encode V (word_of_nat (length payload)) @ payload @ rest) max_len
    = Inr (length (varint_encode V (word_of_nat (length payload))), payload)"
  using assms
  by (simp add: decode_length_prefix_def varint_decode_encode unat_payload_len payload_len_le leD)

lemma read_frame_loop_prefix:
  assumes "\<forall>c\<in>set init. continues c" and "\<not> continues b" and "length prefix + length init < 5"
  shows "read_frame_loop V max_len prefix (s\<lparr>rx := init @ b # rest\<rparr>)
    = read_frame_body V (prefix @ init @ [b]) max_len (s\<lparr>rx := rest\<rparr>)"
  using assms
proof (induction init arbitrary: prefix)
  case Nil
  then show ?case by (subst read_frame_loop.simps) (simp add: read_exact_def)
next
  case (Cons c init)
  then show ?case by (subst read_frame_loop.simps) (simp add: read_exact_def)
qed

lemma read_frame_encoded:
  assumes "varint_ok V" and "length payload \<le> unat max_len"
    and "rx s = varint_encode V (word_of_nat (length payload)) @ payload @ rest"
  shows "read_length_prefixed_frame V max_len s
    = (Inr (varint_encode V (word_of_nat (length payload)) @ payload), s\<lparr>rx := rest\<rparr>)"
proof -
  let ?n = "word_of_nat (length payload) :: u32"
  obtain init b where shape: "varint_encode V ?n = init @ [b]" "length init \<le> 4"
    "\<forall>c\<in>set init. continues c" "\<not> continues b"
    using varint_encode_shape [OF assms(1)] .
  have "read_length_prefixed_frame V max_len s
    = read_frame_loop V max_len [] (s\<lparr>rx := init @ b # payload @ rest\<rparr>)"
    using assms(3) shape(1) by (simp add: read_length_prefixed_frame_def rx_update_same)
  also have "\<dots> = read_frame_body V (init @ [b]) max_len (s\<lparr>rx := payload @ rest\<rparr>)"
    using shape read_frame_loop_prefix [of init b "[]"] by simp
  also have "\<dots> = (Inr (varint_encode V ?n @ payload), s\<lparr>rx := rest\<rparr>)"
    using varint_decode_encode_Nil [OF assms(1), of ?n] assms(2) shape(1)
    by (simp add: read_frame_body_def decode_length_prefixed_payload_len_def payload_len_le leD
        unat_payload_len and_then_def read_exact_def)
  finally show ?thesis .
qed

lemma read_postcard_encoded:
  assumes "varint_ok V" and "enc v = Some payload" and "dec payload = Some v"
    and "length payload \<le> unat max_len" and "rx s = varint_encode V (word_of_nat (length payload)) @ payload @ rest"
  shows "read_postcard_frame V dec max_len s = (Inr v, s\<lparr>rx := rest\<rparr>)"
  using assms decode_length_prefix_encoded [OF assms(1,4), of "[]"]
  by (simp add: read_postcard_frame_def and_then_def read_frame_encoded decode_postcard_def)

lemma write_postcard_frame_ok:
  assumes "enc v = Some payload" and "length payload \<le> unat max_len" and "tx_fault s = None"
  shows "write_postcard_frame V enc v max_len s
    = (Inr (), s\<lparr>tx := tx s @ varint_encode V (word_of_nat (length payload)) @ payload\<rparr>)"
  using assms
  by (simp add: write_postcard_frame_def PostcardCodec_encode_def encode_postcard_def
      erp_encode_length_prefixed_def encode_length_prefixed_ok and_then_def map_err_effect_def
      write_all_open flush_open)

lemma decode_framed_encode_framed:
  assumes "varint_ok V" and "enc v = Some payload" and "dec payload = Some v"
    and "encode_framed V enc v max_len = Inr frame"
  shows "decode_framed V dec frame max_len = Inr v"
proof -
  have len: "length payload \<le> unat max_len"
    and frame: "frame = varint_encode V (word_of_nat (length payload)) @ payload"
    using assms(2,4)
    by (auto simp: encode_framed_def PostcardCodec_encode_def encode_postcard_def
        erp_encode_length_prefixed_def encode_length_prefixed_def split: if_splits)
  show ?thesis
    using decode_length_prefix_encoded [OF assms(1) len, of "[]"] assms(3)
    by (simp add: frame decode_framed_def erp_decode_length_prefix_def PostcardCodec_decode_def
        decode_postcard_def)
qed

text \<open>Whatever the remote side sends, a frame that is read has at most the configured number of payload bytes.\<close>

lemma read_frame_body_bound:
  assumes "read_frame_body V prefix max_len s = (Inr frame, t)"
  shows "length frame \<le> length prefix + unat max_len \<and> prefix @ rx s = frame @ rx t"
  using assms
  by (auto simp: read_frame_body_def and_then_Inr decode_length_prefixed_payload_len_def read_exact_Inr
      of_result_def word_less_nat_alt not_less split: sum.splits prod.splits if_splits)

lemma read_frame_loop_bound:
  assumes "read_frame_loop V max_len prefix s = (Inr frame, t)" and "length prefix \<le> 5"
  shows "length frame \<le> 5 + unat max_len \<and> prefix @ rx s = frame @ rx t"
  using assms
proof (induction V max_len prefix s rule: read_frame_loop.induct)
  case (1 V max_len prefix s)
  from "1.prems" have lt: "length prefix < 5"
    by (subst (asm) read_frame_loop.simps) (auto split: if_splits)
  with "1.prems"(1) obtain byte s' where read: "read_exact 1 s = (Inr byte, s')"
    by (subst (asm) read_frame_loop.simps) (auto split: prod.splits sum.splits)
  then have one: "length byte = 1" "rx s = byte @ rx s'"
    by (auto simp: read_exact_Inr)
  show ?case
  proof (cases "continues (last (prefix @ byte))")
    case True
    then have "read_frame_loop V max_len (prefix @ byte) s' = (Inr frame, t)"
      using "1.prems"(1) lt read by (subst (asm) read_frame_loop.simps) simp
    then show ?thesis using "1.IH" [of "Inr byte" s' byte "prefix @ byte"] True lt read one by simp
  next
    case False
    then have "read_frame_body V (prefix @ byte) max_len s' = (Inr frame, t)"
      using "1.prems"(1) lt read by (subst (asm) read_frame_loop.simps) simp
    from read_frame_body_bound [OF this] show ?thesis using lt one by simp
  qed
qed

text \<open>
  C23: Frame round trip. A value that the encoder takes and whose bytes fit the limit is written as
  one frame, and the other side, reading the same bytes from its stream, gets exactly that value
  back and finds the rest of the stream untouched.
\<close>

theorem postcard_frame_roundtrip:
  assumes "varint_ok V" and "enc v = Some payload" and "dec payload = Some v"
    and "length payload \<le> unat max_len" and "tx_fault s = None" and "tx s = []"
  shows "\<exists>s'. write_postcard_frame V enc v max_len s = (Inr (), s') \<and>
    (\<forall>(r :: io_stream) rest. rx r = tx s' @ rest \<longrightarrow> erp_read_postcard_frame V dec max_len r = (Inr v, r\<lparr>rx := rest\<rparr>))"
proof (intro exI conjI allI impI)
  show "write_postcard_frame V enc v max_len s
    = (Inr (), s\<lparr>tx := tx s @ varint_encode V (word_of_nat (length payload)) @ payload\<rparr>)"
    using assms by (intro write_postcard_frame_ok)
  fix r :: io_stream and rest
  assume "rx r = tx (s\<lparr>tx := tx s @ varint_encode V (word_of_nat (length payload)) @ payload\<rparr>) @ rest"
  then show "erp_read_postcard_frame V dec max_len r = (Inr v, r\<lparr>rx := rest\<rparr>)"
    using assms read_postcard_encoded [of V enc v payload dec max_len r rest]
    by (simp add: erp_read_postcard_frame_def)
qed

theorem postcard_frame_roundtrip_witness:
  "\<exists>s'. write_postcard_frame demo_varint Some [7, 8] 16 \<lparr>rx = [], rx_fault = None, tx = [], tx_fault = None\<rparr> = (Inr (), s') \<and>
    (\<forall>(r :: io_stream) rest. rx r = tx s' @ rest \<longrightarrow> erp_read_postcard_frame demo_varint Some 16 r = (Inr [7, 8], r\<lparr>rx := rest\<rparr>))"
  by (rule postcard_frame_roundtrip [OF demo_varint_ok, of Some "[7, 8]" "[7, 8]"]) simp_all

text \<open>
  Bounded reads. Whatever bytes arrive, and whatever the varint decoder makes of them, a frame
  that is read has at most five prefix bytes and \<open>max_len\<close> payload bytes, and it is the prefix of
  the stream that was consumed.
\<close>

theorem read_frame_bounded:
  assumes "read_length_prefixed_frame V max_len s = (Inr frame, t)"
  shows "length frame \<le> 5 + unat max_len \<and> rx s = frame @ rx t"
  using assms read_frame_loop_bound [of V max_len "[]" s frame t]
  by (simp add: read_length_prefixed_frame_def)

theorem read_frame_bounded_witness:
  "length [2, 7, 8 :: u8] \<le> 5 + unat (16 :: u32) \<and> [2, 7, 8, 9] = [2, 7, 8 :: u8] @ [9]"
proof -
  let ?s = "\<lparr>rx = [2, 7, 8, 9], rx_fault = None, tx = [], tx_fault = None\<rparr>"
  have "read_length_prefixed_frame demo_varint 16 ?s = (Inr [2, 7, 8], ?s\<lparr>rx := [9]\<rparr>)"
    by (simp add: read_length_prefixed_frame_def read_frame_loop.simps [of demo_varint 16 "[]"] read_exact_def
        continues_def read_frame_body_def and_then_def decode_length_prefixed_payload_len_def demo_varint_decode)
  from read_frame_bounded [OF this] show ?thesis by simp
qed

end
