(* ===== verification/NodeManager.thy ===== *)
theory NodeManager
  imports EngineProperties Effects
begin

text \<open>
  The task that runs the node engine in both runtimes (\<open>erp-runtime/src/runtime/manager.rs\<close>,
  \<open>rp-runtime/src/runtime/manager.rs\<close>): it asks the storage for the latest snapshot, feeds every
  event of its queue to the engine and sends each action of the engine to the network, the storage or
  the wake task. The queue of events is the list of events that arrive until all senders are gone.
  The definitions with the prefix \<open>host_\<close> are those of \<open>rp-runtime\<close>.
\<close>

section \<open>Events, commands and state\<close>

datatype ('vk, 'sig) RuntimeEvent =
    TickEvent u64
  | PeerConnectedEvent PeerId
  | PeerDisconnectedEvent PeerId
  | FrameReceivedEvent PeerId byte_vec
  | StorageLoadedEvent BlockHash "byte_vec option"
  | LatestSnapshotLoadedEvent "('vk, 'sig) Block option" "byte_vec option"

datatype NetworkCommand =
    SendFrameCommand PeerId byte_vec
  | BroadcastFrameCommand byte_vec
  | DisconnectPeerCommand PeerId
  | RequestBlocksCommand PeerId u64 u64

datatype ('vk, 'sig) StorageCommand =
    LoadLatestSnapshotCommand
  | PersistBlockCommand "('vk, 'sig) Block"
  | PersistSnapshotCommand BlockHash byte_vec
  | LoadSnapshotCommand BlockHash

datatype WakeCommand = ScheduleCommand u64 | CancelCommand

record ('vk, 'sig) NodeManager =
  node_engine :: "('vk, 'sig) NodeEngine"
  network_tx :: "NetworkCommand channel"
  storage_tx :: "('vk, 'sig) StorageCommand channel"
  wake_tx :: "WakeCommand channel"

definition NodeManager_new ::
  "('vk, 'sig) NodeEngine \<Rightarrow> NetworkCommand channel \<Rightarrow> ('vk, 'sig) StorageCommand channel \<Rightarrow> WakeCommand channel
    \<Rightarrow> ('vk, 'sig) NodeManager" where
  "NodeManager_new engine network storage wake =
     \<lparr> node_engine = engine, network_tx = network, storage_tx = storage, wake_tx = wake \<rparr>"

section \<open>The manager of the embedded runtime\<close>

definition send_network :: "NetworkCommand \<Rightarrow> (('vk, 'sig) NodeManager, RuntimeError, unit) effect" where
  "send_network = send_on network_tx (\<lambda>ch. network_tx_update (\<lambda>_. ch)) network_send"

definition send_storage :: "('vk, 'sig) StorageCommand \<Rightarrow> (('vk, 'sig) NodeManager, RuntimeError, unit) effect" where
  "send_storage = send_on storage_tx (\<lambda>ch. storage_tx_update (\<lambda>_. ch)) storage_send"

definition send_wake :: "WakeCommand \<Rightarrow> (('vk, 'sig) NodeManager, RuntimeError, unit) effect" where
  "send_wake = send_on wake_tx (\<lambda>ch. wake_tx_update (\<lambda>_. ch)) wake_send"

fun handle_action :: "('vk, 'sig) NodeAction \<Rightarrow> (('vk, 'sig) NodeManager, RuntimeError, unit) effect" where
  "handle_action (BroadcastFrame frame) = send_network (BroadcastFrameCommand frame)"
| "handle_action (DisconnectPeer p) = send_network (DisconnectPeerCommand p)"
| "handle_action (FrameReceivedAction p) = done_with ()"
| "handle_action (LoadSnapshot h) = send_storage (LoadSnapshotCommand h)"
| "handle_action (PersistBlock b) = send_storage (PersistBlockCommand b)"
| "handle_action (PersistCompletedAction persist_type) = done_with ()"
| "handle_action (PersistSnapshot h state_bytes) = send_storage (PersistSnapshotCommand h state_bytes)"
| "handle_action (ReportEvent message) = done_with ()"
| "handle_action (RequestBlocks p lo hi) = send_network (RequestBlocksCommand p lo hi)"
| "handle_action (ScheduleWake at_ms) = send_wake (ScheduleCommand at_ms)"
| "handle_action CancelWake = send_wake CancelCommand"
| "handle_action (SendFrame p frame) = send_network (SendFrameCommand p frame)"

fun handle_actions :: "('vk, 'sig) NodeAction list \<Rightarrow> (('vk, 'sig) NodeManager, RuntimeError, unit) effect" where
  "handle_actions [] = done_with ()"
| "handle_actions (action # actions) = and_then (handle_action action) (\<lambda>_. handle_actions actions)"

fun event_actions ::
  "('vk, 'sig, 'z) net_scheme \<Rightarrow> ('vk, 'sig) RuntimeEvent \<Rightarrow> ('vk, 'sig) NodeEngine \<Rightarrow> ('vk, 'sig) engine_step" where
  "event_actions E (LatestSnapshotLoadedEvent b state_bytes) e = restore_latest_snapshot E e b state_bytes"
| "event_actions E (TickEvent now_ms) e = engine_step E e (Tick now_ms)"
| "event_actions E (PeerConnectedEvent p) e = engine_step E e (PeerConnected p)"
| "event_actions E (PeerDisconnectedEvent p) e = engine_step E e (PeerDisconnected p)"
| "event_actions E (FrameReceivedEvent p frame) e = engine_step E e (FrameReceived p frame)"
| "event_actions E (StorageLoadedEvent h state_bytes) e = engine_step E e (StorageLoaded h state_bytes)"

fun event_loop ::
  "('vk, 'sig, 'z) net_scheme \<Rightarrow> ('vk, 'sig) RuntimeEvent list \<Rightarrow> ('vk, 'sig) NodeManager
    \<Rightarrow> ((RuntimeError, unit) result \<times> ('vk, 'sig) NodeManager) exec" where
  "event_loop E [] nm = Some (Inr (), nm)"
| "event_loop E (event # events) nm = do {
     (engine, actions) \<leftarrow> event_actions E event (node_engine nm);
     case handle_actions actions (nm\<lparr>node_engine := engine\<rparr>) of
       (Inl e, nm') \<Rightarrow> Some (Inl e, nm')
     | (Inr _, nm') \<Rightarrow> event_loop E events nm' }"

definition node_run ::
  "('vk, 'sig, 'z) net_scheme \<Rightarrow> ('vk, 'sig) RuntimeEvent list \<Rightarrow> ('vk, 'sig) NodeManager
    \<Rightarrow> ((RuntimeError, unit) result \<times> ('vk, 'sig) NodeManager) exec" where
  "node_run E events nm =
     (case send_storage LoadLatestSnapshotCommand nm of
        (Inl e, nm') \<Rightarrow> Some (Inl e, nm')
      | (Inr _, nm') \<Rightarrow> event_loop E events nm')"

section \<open>The manager of the host runtime\<close>

fun host_handle_action :: "('vk, 'sig) NodeAction \<Rightarrow> (('vk, 'sig) NodeManager, HostError, unit) effect" where
  "host_handle_action (BroadcastFrame frame) =
     send_on network_tx (\<lambda>ch. network_tx_update (\<lambda>_. ch)) host_network_send (BroadcastFrameCommand frame)"
| "host_handle_action (DisconnectPeer p) =
     send_on network_tx (\<lambda>ch. network_tx_update (\<lambda>_. ch)) host_network_send (DisconnectPeerCommand p)"
| "host_handle_action (FrameReceivedAction p) = done_with ()"
| "host_handle_action (LoadSnapshot h) =
     send_on storage_tx (\<lambda>ch. storage_tx_update (\<lambda>_. ch)) host_storage_send (LoadSnapshotCommand h)"
| "host_handle_action (PersistBlock b) =
     send_on storage_tx (\<lambda>ch. storage_tx_update (\<lambda>_. ch)) host_storage_send (PersistBlockCommand b)"
| "host_handle_action (PersistCompletedAction persist_type) = done_with ()"
| "host_handle_action (PersistSnapshot h state_bytes) =
     send_on storage_tx (\<lambda>ch. storage_tx_update (\<lambda>_. ch)) host_storage_send (PersistSnapshotCommand h state_bytes)"
| "host_handle_action (ReportEvent message) = done_with ()"
| "host_handle_action (RequestBlocks p lo hi) =
     send_on network_tx (\<lambda>ch. network_tx_update (\<lambda>_. ch)) host_network_send (RequestBlocksCommand p lo hi)"
| "host_handle_action (ScheduleWake at_ms) =
     send_on wake_tx (\<lambda>ch. wake_tx_update (\<lambda>_. ch)) host_wake_send (ScheduleCommand at_ms)"
| "host_handle_action CancelWake =
     send_on wake_tx (\<lambda>ch. wake_tx_update (\<lambda>_. ch)) host_wake_send CancelCommand"
| "host_handle_action (SendFrame p frame) =
     send_on network_tx (\<lambda>ch. network_tx_update (\<lambda>_. ch)) host_network_send (SendFrameCommand p frame)"

fun host_handle_actions :: "('vk, 'sig) NodeAction list \<Rightarrow> (('vk, 'sig) NodeManager, HostError, unit) effect" where
  "host_handle_actions [] nm = (Inr (), nm)"
| "host_handle_actions (action # actions) nm =
     (case host_handle_action action nm of
        (Inl e, nm') \<Rightarrow> (Inl e, nm')
      | (Inr _, nm') \<Rightarrow> host_handle_actions actions nm')"

fun host_event_loop ::
  "('vk, 'sig, 'z) net_scheme \<Rightarrow> ('vk, 'sig) RuntimeEvent list \<Rightarrow> ('vk, 'sig) NodeManager
    \<Rightarrow> ((HostError, unit) result \<times> ('vk, 'sig) NodeManager) exec" where
  "host_event_loop E [] nm = Some (Inr (), nm)"
| "host_event_loop E (event # events) nm = do {
     (engine, actions) \<leftarrow>
       (case event of
          LatestSnapshotLoadedEvent b state_bytes \<Rightarrow> restore_latest_snapshot E (node_engine nm) b state_bytes
        | TickEvent now_ms \<Rightarrow> engine_step E (node_engine nm) (Tick now_ms)
        | PeerConnectedEvent p \<Rightarrow> engine_step E (node_engine nm) (PeerConnected p)
        | PeerDisconnectedEvent p \<Rightarrow> engine_step E (node_engine nm) (PeerDisconnected p)
        | FrameReceivedEvent p frame \<Rightarrow> engine_step E (node_engine nm) (FrameReceived p frame)
        | StorageLoadedEvent h state_bytes \<Rightarrow> engine_step E (node_engine nm) (StorageLoaded h state_bytes));
     case host_handle_actions actions (nm\<lparr>node_engine := engine\<rparr>) of
       (Inl e, nm') \<Rightarrow> Some (Inl e, nm')
     | (Inr _, nm') \<Rightarrow> host_event_loop E events nm' }"

definition host_node_run ::
  "('vk, 'sig, 'z) net_scheme \<Rightarrow> ('vk, 'sig) RuntimeEvent list \<Rightarrow> ('vk, 'sig) NodeManager
    \<Rightarrow> ((HostError, unit) result \<times> ('vk, 'sig) NodeManager) exec" where
  "host_node_run E events nm =
     (case send_on storage_tx (\<lambda>ch. storage_tx_update (\<lambda>_. ch)) host_storage_send LoadLatestSnapshotCommand nm of
        (Inl e, nm') \<Rightarrow> Some (Inl e, nm')
      | (Inr _, nm') \<Rightarrow> host_event_loop E events nm')"

section \<open>Both runtimes run the node alike\<close>

fun host_error :: "RuntimeError \<Rightarrow> HostError" where
  "host_error (NodeFailure e) = HostNodeFailure e"
| "host_error (ContractFailure e) = HostContractFailure e"
| "host_error (Crypto m) = HostCrypto m"
| "host_error (Config m) = HostConfig m"
| "host_error (ChannelSend EventChannel _) = HostChannelSend EventChannel RuntimeEventKind"
| "host_error (ChannelSend NetworkChannel _) = HostChannelSend NetworkChannel NetworkCommandKind"
| "host_error (ChannelSend StorageChannel _) = HostChannelSend StorageChannel StorageCommandKind"
| "host_error (ChannelSend WakeChannel _) = HostChannelSend WakeChannel WakeCommandKind"
| "host_error (NetworkError e) = HostNetworkError e"
| "host_error (Esp code) = HostConfig []"
| "host_error (StorageInit code) = HostConfig []"

abbreviation host_result :: "(RuntimeError, 'a) result \<times> 's \<Rightarrow> (HostError, 'a) result \<times> 's" where
  "host_result r \<equiv> (map_err host_error (fst r), snd r)"

lemmas send_defs = send_network_def send_storage_def send_wake_def
  network_send_def storage_send_def wake_send_def
  host_network_send_def host_storage_send_def host_wake_send_def

lemma send_on_host:
  "(\<And>source. err' source = host_error (err source)) \<Longrightarrow>
   send_on get put err' x s = host_result (send_on get put err x s)"
  by (simp add: send_on_def send_def)

lemma host_handle_action_eq: "host_handle_action a nm = host_result (handle_action a nm)"
  by (cases a) (simp_all add: send_defs send_on_def send_def)

lemma host_handle_actions_eq: "host_handle_actions acts nm = host_result (handle_actions acts nm)"
  by (induction acts arbitrary: nm)
    (auto simp: host_handle_action_eq and_then_def map_err_Inl split: prod.split sum.split)

lemma host_event_loop_eq: "host_event_loop E events nm = map_option host_result (event_loop E events nm)"
proof (induction events arbitrary: nm)
  case (Cons event events)
  have "(case event of
      LatestSnapshotLoadedEvent b state_bytes \<Rightarrow> restore_latest_snapshot E (node_engine nm) b state_bytes
    | TickEvent now_ms \<Rightarrow> engine_step E (node_engine nm) (Tick now_ms)
    | PeerConnectedEvent p \<Rightarrow> engine_step E (node_engine nm) (PeerConnected p)
    | PeerDisconnectedEvent p \<Rightarrow> engine_step E (node_engine nm) (PeerDisconnected p)
    | FrameReceivedEvent p frame \<Rightarrow> engine_step E (node_engine nm) (FrameReceived p frame)
    | StorageLoadedEvent h state_bytes \<Rightarrow> engine_step E (node_engine nm) (StorageLoaded h state_bytes))
    = event_actions E event (node_engine nm)"
    by (cases event) simp_all
  then show ?case
    by (cases "event_actions E event (node_engine nm)")
      (auto simp: host_handle_actions_eq Cons.IH map_err_Inl split: prod.split sum.split)
qed simp

text \<open>
  C21: The embedded and the host runtime run the node alike. For every sequence of events the two
  node managers send the same commands on the same channels in the same order, leave the same
  engine, and stop on the same event with corresponding errors.
\<close>

theorem runtimes_run_alike:
  "host_node_run E events nm = map_option host_result (node_run E events nm)"
  by (simp add: host_node_run_def node_run_def host_event_loop_eq send_defs send_on_def send_def)

section \<open>What the manager sends\<close>

fun network_commands :: "('vk, 'sig) NodeAction list \<Rightarrow> NetworkCommand list" where
  "network_commands [] = []"
| "network_commands (BroadcastFrame f # as) = BroadcastFrameCommand f # network_commands as"
| "network_commands (DisconnectPeer p # as) = DisconnectPeerCommand p # network_commands as"
| "network_commands (RequestBlocks p x y # as) = RequestBlocksCommand p x y # network_commands as"
| "network_commands (SendFrame p f # as) = SendFrameCommand p f # network_commands as"
| "network_commands (_ # as) = network_commands as"

fun storage_commands :: "('vk, 'sig) NodeAction list \<Rightarrow> ('vk, 'sig) StorageCommand list" where
  "storage_commands [] = []"
| "storage_commands (LoadSnapshot h # as) = LoadSnapshotCommand h # storage_commands as"
| "storage_commands (PersistBlock b # as) = PersistBlockCommand b # storage_commands as"
| "storage_commands (PersistSnapshot h x # as) = PersistSnapshotCommand h x # storage_commands as"
| "storage_commands (_ # as) = storage_commands as"

fun wake_commands :: "('vk, 'sig) NodeAction list \<Rightarrow> WakeCommand list" where
  "wake_commands [] = []"
| "wake_commands (ScheduleWake t # as) = ScheduleCommand t # wake_commands as"
| "wake_commands (CancelWake # as) = CancelCommand # wake_commands as"
| "wake_commands (_ # as) = wake_commands as"

definition channels_open :: "('vk, 'sig) NodeManager \<Rightarrow> bool" where
  "channels_open nm \<longleftrightarrow> \<not> receiver_dropped (network_tx nm) \<and> \<not> receiver_dropped (storage_tx nm) \<and>
     \<not> receiver_dropped (wake_tx nm)"

definition after_actions :: "('vk, 'sig) NodeAction list \<Rightarrow> ('vk, 'sig) NodeManager \<Rightarrow> ('vk, 'sig) NodeManager" where
  "after_actions acts nm =
     nm\<lparr>network_tx := (network_tx nm)\<lparr>sent := sent (network_tx nm) @ network_commands acts\<rparr>,
        storage_tx := (storage_tx nm)\<lparr>sent := sent (storage_tx nm) @ storage_commands acts\<rparr>,
        wake_tx := (wake_tx nm)\<lparr>sent := sent (wake_tx nm) @ wake_commands acts\<rparr>\<rparr>"

lemma channels_open_engine [simp]: "channels_open (nm\<lparr>node_engine := e\<rparr>) = channels_open nm"
  by (simp add: channels_open_def)

lemma after_actions_sel [simp]:
  "node_engine (after_actions acts nm) = node_engine nm"
  "sent (network_tx (after_actions acts nm)) = sent (network_tx nm) @ network_commands acts"
  "sent (storage_tx (after_actions acts nm)) = sent (storage_tx nm) @ storage_commands acts"
  "sent (wake_tx (after_actions acts nm)) = sent (wake_tx nm) @ wake_commands acts"
  "channels_open (after_actions acts nm) = channels_open nm"
  by (simp_all add: after_actions_def channels_open_def)

lemma handle_action_open: "channels_open nm \<Longrightarrow> handle_action a nm = (Inr (), after_actions [a] nm)"
  by (cases a) (simp_all add: channels_open_def after_actions_def send_defs send_on_def send_def)

lemma after_actions_Cons: "after_actions acts (after_actions [a] nm) = after_actions (a # acts) nm"
  by (cases a) (simp_all add: after_actions_def)

lemma handle_actions_open: "channels_open nm \<Longrightarrow> handle_actions acts nm = (Inr (), after_actions acts nm)"
proof (induction acts arbitrary: nm)
  case Nil
  then show ?case by (simp add: after_actions_def)
next
  case (Cons a acts)
  then show ?case by (simp add: and_then_def handle_action_open after_actions_Cons)
qed

lemma event_loop_Cons:
  "channels_open nm \<Longrightarrow> event_actions E event (node_engine nm) = Some (e, acts) \<Longrightarrow>
   event_loop E (event # events) nm = event_loop E events (after_actions acts (nm\<lparr>node_engine := e\<rparr>))"
  by (simp add: handle_actions_open channels_open_def)

lemma event_loop_open:
  assumes "event_loop E (event # events) nm = Some r" and "channels_open nm"
  obtains e acts where "event_actions E event (node_engine nm) = Some (e, acts)"
    and "event_loop E events (after_actions acts (nm\<lparr>node_engine := e\<rparr>)) = Some r"
proof -
  from assms(1) obtain x where act: "event_actions E event (node_engine nm) = Some x"
    by (auto elim!: bind_eq_SomeE)
  obtain e acts where x: "x = (e, acts)" by (cases x)
  show thesis
    using that [of e acts] event_loop_Cons [of nm E event e acts events] assms act x by metis
qed

lemma storage_commands_persist: "PersistBlock b \<in> set acts \<longleftrightarrow> PersistBlockCommand b \<in> set (storage_commands acts)"
  by (induction acts rule: storage_commands.induct) auto

lemma set_storage_after: "set (sent (storage_tx (after_actions acts nm)))
    = set (sent (storage_tx nm)) \<union> set (storage_commands acts)"
  by simp

definition restored_blocks :: "('vk, 'sig) RuntimeEvent list \<Rightarrow> ('vk, 'sig) Block set" where
  "restored_blocks events = {b. \<exists>x. LatestSnapshotLoadedEvent (Some b) x \<in> set events}"

lemma restore_stored:
  assumes "restore_latest_snapshot E e b bytes = Some (e', acts)" and "bt_wf (chain (blockchain e))"
  shows "bt_wf (chain (blockchain e'))"
    and "stored (chain (blockchain e')) \<subseteq> stored (chain (blockchain e)) \<union> {r. b = Some r}"
proof -
  consider "e' = e" | r s where "b = Some r" "blockchain e' = restore_head E (blockchain e) r s"
    using assms(1)
    by (auto simp: restore_latest_snapshot_def elim!: bind_eq_SomeE
        split: option.split_asm sum.split_asm if_split_asm)
  then have "bt_wf (chain (blockchain e')) \<and>
    stored (chain (blockchain e')) \<subseteq> stored (chain (blockchain e)) \<union> {r. b = Some r}"
  proof cases
    case 1
    then show ?thesis using assms(2) by blast
  next
    case 2
    then show ?thesis by (auto simp: restore_head_def Let_def bt_simps bt_wf_def)
  qed
  then show "bt_wf (chain (blockchain e'))"
    and "stored (chain (blockchain e')) \<subseteq> stored (chain (blockchain e)) \<union> {r. b = Some r}" by simp_all
qed

fun event_input :: "('vk, 'sig) RuntimeEvent \<Rightarrow> ('vk, 'sig) NodeInput option" where
  "event_input (TickEvent now_ms) = Some (Tick now_ms)"
| "event_input (PeerConnectedEvent p) = Some (PeerConnected p)"
| "event_input (PeerDisconnectedEvent p) = Some (PeerDisconnected p)"
| "event_input (FrameReceivedEvent p frame) = Some (FrameReceived p frame)"
| "event_input (StorageLoadedEvent h state_bytes) = Some (StorageLoaded h state_bytes)"
| "event_input (LatestSnapshotLoadedEvent b state_bytes) = None"

lemma event_actions_cases:
  assumes "event_actions E event e = r"
  obtains i where "event_input event = Some i" and "engine_step E e i = r"
    | b bytes where "event = LatestSnapshotLoadedEvent b bytes" and "restore_latest_snapshot E e b bytes = r"
  using assms by (cases event) auto

lemma event_stored:
  assumes "event_actions E event e = Some (e', acts)" and "bt_wf (chain (blockchain e))"
  shows "bt_wf (chain (blockchain e')) \<and>
    stored (chain (blockchain e')) \<subseteq> stored (chain (blockchain e)) \<union> {b. PersistBlock b \<in> set acts} \<union> restored_blocks [event]"
  using assms(1)
proof (cases rule: event_actions_cases)
  case (1 i)
  then have "persists e (e', acts)" by (intro engine_step_persists)
  then have "bt_wf (chain (blockchain e')) \<and>
    stored (chain (blockchain e')) \<subseteq> stored (chain (blockchain e)) \<union> {b. PersistBlock b \<in> set acts}"
    using assms(2) unfolding persists_def fst_conv snd_conv by (rule mp)
  then show ?thesis by blast
next
  case (2 b bytes)
  have "{r. b = Some r} \<subseteq> restored_blocks [event]" using 2(1) by (auto simp: restored_blocks_def)
  then show ?thesis using restore_stored [OF 2(2) assms(2)] by blast
qed

lemma restored_blocks_Cons: "restored_blocks (event # events) = restored_blocks [event] \<union> restored_blocks events"
  by (auto simp: restored_blocks_def)

abbreviation persist_requested :: "('vk, 'sig) NodeManager \<Rightarrow> ('vk, 'sig) Block set" where
  "persist_requested nm \<equiv> {b. PersistBlockCommand b \<in> set (sent (storage_tx nm))}"

abbreviation tree_blocks :: "('vk, 'sig) NodeManager \<Rightarrow> ('vk, 'sig) Block set" where
  "tree_blocks nm \<equiv> stored (chain (blockchain (node_engine nm)))"

lemma event_loop_persists:
  assumes "event_loop E events nm = Some (r, nm')" and "channels_open nm" and "bt_wf (chain (blockchain (node_engine nm)))"
  shows "r = Inr () \<and> persist_requested nm \<subseteq> persist_requested nm' \<and>
    tree_blocks nm' \<subseteq> tree_blocks nm \<union> persist_requested nm' \<union> restored_blocks events"
  using assms
proof (induction events arbitrary: nm)
  case Nil
  then show ?case by auto
next
  case (Cons event events)
  obtain e acts where act: "event_actions E event (node_engine nm) = Some (e, acts)"
    and rest: "event_loop E events (after_actions acts (nm\<lparr>node_engine := e\<rparr>)) = Some (r, nm')"
    using Cons.prems(1,2) by (rule event_loop_open)
  let ?nm = "after_actions acts (nm\<lparr>node_engine := e\<rparr>)"
  note step = event_stored [OF act Cons.prems(3)]
  have "channels_open ?nm" using Cons.prems(2) by simp
  moreover have "bt_wf (chain (blockchain (node_engine ?nm)))" using step by simp
  ultimately have IH: "r = Inr ()" "persist_requested ?nm \<subseteq> persist_requested nm'"
    "tree_blocks ?nm \<subseteq> tree_blocks nm \<union> persist_requested ?nm \<union> restored_blocks [event]"
    "tree_blocks nm' \<subseteq> tree_blocks ?nm \<union> persist_requested nm' \<union> restored_blocks events"
    using Cons.IH [OF rest] step by (auto simp: storage_commands_persist)
  have "persist_requested nm \<subseteq> persist_requested ?nm" by auto
  moreover have "tree_blocks nm' \<subseteq> tree_blocks nm \<union> persist_requested nm' \<union> restored_blocks (event # events)"
    unfolding restored_blocks_Cons [of event events] using IH(2-4) by blast
  ultimately show ?case using IH(1,2) by blast
qed

text \<open>
  No block stays in memory only. As long as the receivers of its channels are there, the node
  manager ends only when the event queue is closed, without an error; and whatever the events were,
  every block that is then in the engine's tree was there at the start, was restored from the
  storage, or was handed to the storage task.
\<close>

theorem manager_persists_blocks:
  assumes "node_run E events nm = Some (r, nm')" and "channels_open nm" and "bt_wf (chain (blockchain (node_engine nm)))"
  shows "r = Inr () \<and>
    stored (chain (blockchain (node_engine nm'))) \<subseteq> stored (chain (blockchain (node_engine nm)))
      \<union> {b. PersistBlockCommand b \<in> set (sent (storage_tx nm'))} \<union> restored_blocks events"
proof -
  let ?nm = "nm\<lparr>storage_tx := (storage_tx nm)\<lparr>sent := sent (storage_tx nm) @ [LoadLatestSnapshotCommand]\<rparr>\<rparr>"
  have "event_loop E events ?nm = Some (r, nm')"
    using assms(1,2) by (simp add: node_run_def send_storage_def send_on_def send_def channels_open_def)
  from event_loop_persists [OF this] assms(2,3) show ?thesis by (simp add: channels_open_def)
qed

definition demo_manager :: "(u8, demo_sig) NodeManager" where
  "demo_manager = NodeManager_new (NodeEngine_new demo_tree) open_channel open_channel open_channel"

lemma demo_manager_run: "\<exists>nm'. node_run demo_net [FrameReceivedEvent 7 [1]] demo_manager = Some (Inr (), nm') \<and>
    sent (storage_tx nm') = [LoadLatestSnapshotCommand, PersistBlockCommand demo_child,
      PersistSnapshotCommand (1 + (2 ^ 64 + 8)) (State_to_bytes State_new)]"
  using demo_step
  by (auto simp: demo_manager_def NodeManager_new_def node_run_def send_storage_def send_on_def send_def
      open_channel_def handle_actions_open channels_open_def)

theorem manager_persists_blocks_witness:
  "\<exists>nm'. node_run demo_net [FrameReceivedEvent 7 [1]] demo_manager = Some (Inr (), nm') \<and>
    stored (chain (blockchain (node_engine nm'))) \<subseteq> stored (chain demo_tree) \<union> {demo_child}"
proof -
  obtain nm' where run: "node_run demo_net [FrameReceivedEvent 7 [1]] demo_manager = Some (Inr (), nm')"
    and sent: "sent (storage_tx nm') = [LoadLatestSnapshotCommand, PersistBlockCommand demo_child,
      PersistSnapshotCommand (1 + (2 ^ 64 + 8)) (State_to_bytes State_new)]"
    using demo_manager_run by blast
  have "channels_open demo_manager" "node_engine demo_manager = NodeEngine_new demo_tree"
    by (simp_all add: demo_manager_def NodeManager_new_def open_channel_def channels_open_def)
  moreover have "bt_wf (chain demo_tree)" by (simp add: demo_tree_def bt_wf_def)
  ultimately show ?thesis
    using manager_persists_blocks [OF run] run
    by (auto simp: sent restored_blocks_def NodeEngine_new_def)
qed

end
