(* ===== verification/WakeTimer.thy ===== *)
theory WakeTimer
  imports NodeManager
begin

text \<open>
  The task that owns the timer: \<open>erp-runtime/src/wake/manager.rs\<close> and \<open>run_wake_loop\<close> of
  \<open>rp-runtime/src/main.rs\<close>. An iteration of the loop waits for the next command and, when a
  deadline is set, for the timer: a \<open>wake_input\<close> is what it gets. The list of inputs ends when the
  command channel is closed.

  \<open>wake_system\<close> composes the timer with the node engine: both tasks, the two queues between them and
  every other source of events, interleaved in any order.
\<close>

section \<open>The wake task\<close>

definition STARTUP_HEARTBEAT_DELAY_MS :: u64 where
  "STARTUP_HEARTBEAT_DELAY_MS = 1000"

definition startup_heartbeat_deadline_ms :: "u64 \<Rightarrow> u64" where
  "startup_heartbeat_deadline_ms now_ms = saturating_add now_ms STARTUP_HEARTBEAT_DELAY_MS"

record ('vk, 'sig) WakeManager =
  wake_at :: "u64 option"
  wake_event_tx :: "('vk, 'sig) RuntimeEvent channel"

definition WakeManager_new :: "u64 \<Rightarrow> ('vk, 'sig) RuntimeEvent channel \<Rightarrow> ('vk, 'sig) WakeManager" where
  "WakeManager_new now_ms event_tx =
     \<lparr> wake_at = Some (startup_heartbeat_deadline_ms now_ms), wake_event_tx = event_tx \<rparr>"

definition schedule_wake :: "WakeAt \<Rightarrow> (('vk, 'sig) WakeManager, ContractError, unit) effect" where
  "schedule_wake at wm = (Inr (), wm\<lparr>wake_at := Some (wake_deadline_ms at)\<rparr>)"

definition cancel_wake :: "(('vk, 'sig) WakeManager, ContractError, unit) effect" where
  "cancel_wake wm = (Inr (), wm\<lparr>wake_at := None\<rparr>)"

fun handle_wake_command :: "WakeCommand \<Rightarrow> (('vk, 'sig) WakeManager, ContractError, unit) effect" where
  "handle_wake_command (ScheduleCommand at_ms) = schedule_wake \<lparr> wake_deadline_ms = at_ms \<rparr>"
| "handle_wake_command CancelCommand = cancel_wake"

definition emit_tick :: "u64 \<Rightarrow> (('vk, 'sig) WakeManager, RuntimeError, unit) effect" where
  "emit_tick now_ms = send_on wake_event_tx (\<lambda>ch. wake_event_tx_update (\<lambda>_. ch)) event_send (TickEvent now_ms)"

definition wake_delay_ms :: "u64 \<Rightarrow> u64 \<Rightarrow> u64" where
  "wake_delay_ms deadline now_ms = saturating_sub deadline now_ms"

datatype wake_input = NextCommand WakeCommand | TimerElapsed u64

fun wake_run :: "wake_input list \<Rightarrow> (('vk, 'sig) WakeManager, RuntimeError, unit) effect" where
  "wake_run [] wm = (Inr (), wm)"
| "wake_run (NextCommand command # inputs) wm =
     and_then (map_err_effect ContractFailure (handle_wake_command command)) (\<lambda>_. wake_run inputs) wm"
| "wake_run (TimerElapsed now_ms # inputs) wm =
     (case wake_at wm of
        Some _ \<Rightarrow> and_then (emit_tick now_ms) (\<lambda>_. wake_run inputs) (wm\<lparr>wake_at := None\<rparr>)
      | None \<Rightarrow> wake_run inputs wm)"

text \<open>The loop of the host keeps the deadline in a local variable.\<close>

fun host_wake_loop ::
  "wake_input list \<Rightarrow> u64 option \<Rightarrow> ('vk, 'sig) RuntimeEvent channel
    \<Rightarrow> (HostError, unit) result \<times> ('vk, 'sig) RuntimeEvent channel" where
  "host_wake_loop [] next_tick_at_ms ch = (Inr (), ch)"
| "host_wake_loop (input # inputs) next_tick_at_ms ch =
     (case next_tick_at_ms of
        Some deadline \<Rightarrow>
          (case input of
             NextCommand (ScheduleCommand at_ms) \<Rightarrow> host_wake_loop inputs (Some at_ms) ch
           | NextCommand CancelCommand \<Rightarrow> host_wake_loop inputs None ch
           | TimerElapsed now_ms \<Rightarrow>
               (case send (TickEvent now_ms) ch of
                  (Inl e, ch') \<Rightarrow> (Inl (host_event_send e), ch')
                | (Inr _, ch') \<Rightarrow> host_wake_loop inputs None ch'))
      | None \<Rightarrow>
          (case input of
             NextCommand (ScheduleCommand at_ms) \<Rightarrow> host_wake_loop inputs (Some at_ms) ch
           | NextCommand CancelCommand \<Rightarrow> host_wake_loop inputs None ch
           | TimerElapsed now_ms \<Rightarrow> host_wake_loop inputs None ch))"

definition host_run_wake_loop ::
  "u64 \<Rightarrow> wake_input list \<Rightarrow> ('vk, 'sig) RuntimeEvent channel
    \<Rightarrow> (HostError, unit) result \<times> ('vk, 'sig) RuntimeEvent channel" where
  "host_run_wake_loop now_ms inputs ch =
     host_wake_loop inputs (Some (saturating_add now_ms STARTUP_HEARTBEAT_DELAY_MS)) ch"

lemmas wake_defs = schedule_wake_def cancel_wake_def emit_tick_def map_err_effect_def and_then_def
  send_on_def send_def event_send_def host_event_send_def

fun wake_of :: "WakeCommand \<Rightarrow> u64 option" where
  "wake_of (ScheduleCommand at_ms) = Some at_ms"
| "wake_of CancelCommand = None"

lemma handle_wake_command_eq: "handle_wake_command c wm = (Inr (), wm\<lparr>wake_at := wake_of c\<rparr>)"
  by (cases c) (simp_all add: schedule_wake_def cancel_wake_def)

lemma wake_run_command: "wake_run (NextCommand c # inputs) wm = wake_run inputs (wm\<lparr>wake_at := wake_of c\<rparr>)"
  by (simp add: handle_wake_command_eq and_then_def map_err_effect_def)

lemma host_wake_loop_command: "host_wake_loop (NextCommand c # inputs) t ch = host_wake_loop inputs (wake_of c) ch"
  by (cases c) (simp_all split: option.split)

lemma host_wake_loop_eq:
  "host_wake_loop inputs (wake_at wm) (wake_event_tx wm) =
    (let (r, wm') = wake_run inputs wm in (map_err host_error r, wake_event_tx wm'))"
proof (induction inputs arbitrary: wm)
  case (Cons input inputs)
  show ?case
  proof (cases input)
    case (NextCommand c)
    have "host_wake_loop (input # inputs) (wake_at wm) (wake_event_tx wm)
        = host_wake_loop inputs (wake_at (wm\<lparr>wake_at := wake_of c\<rparr>)) (wake_event_tx (wm\<lparr>wake_at := wake_of c\<rparr>))"
      unfolding NextCommand host_wake_loop_command by simp
    then show ?thesis unfolding Cons.IH NextCommand wake_run_command .
  next
    case (TimerElapsed now_ms)
    let ?ticked = "wm\<lparr>wake_at := None,
      wake_event_tx := (wake_event_tx wm)\<lparr>sent := sent (wake_event_tx wm) @ [TickEvent now_ms]\<rparr>\<rparr>"
    show ?thesis
      using Cons.IH [of wm] Cons.IH [of ?ticked] TimerElapsed
      by (cases "wake_at wm") (simp_all add: wake_defs)
  qed
qed simp

text \<open>
  The two wake tasks are the same. Started at the same time on the same inputs, the loop of the
  host and the wake manager of the embedded runtime emit the same ticks and end alike.
\<close>

theorem wake_tasks_alike:
  "host_run_wake_loop now_ms inputs ch =
    (let (r, wm) = wake_run inputs (WakeManager_new now_ms ch) in (map_err host_error r, wake_event_tx wm))"
  using host_wake_loop_eq [of inputs "WakeManager_new now_ms ch"]
  by (simp add: host_run_wake_loop_def WakeManager_new_def startup_heartbeat_deadline_ms_def)

section \<open>The timer and the engine together\<close>

record ('vk, 'sig) wake_system =
  sys_engine :: "('vk, 'sig) NodeEngine"
  sys_commands :: "WakeCommand list"
  sys_timer :: "('vk, 'sig) WakeManager"

abbreviation sys_events :: "('vk, 'sig) wake_system \<Rightarrow> ('vk, 'sig) RuntimeEvent list" where
  "sys_events s \<equiv> sent (wake_event_tx (sys_timer s))"

definition set_events :: "('vk, 'sig) RuntimeEvent list \<Rightarrow> ('vk, 'sig) wake_system \<Rightarrow> ('vk, 'sig) wake_system" where
  "set_events events s = s\<lparr>sys_timer := (sys_timer s)\<lparr>wake_event_tx := (wake_event_tx (sys_timer s))\<lparr>sent := events\<rparr>\<rparr>\<rparr>"

text \<open>
  The steps: another task sends an event that is not a tick; the node manager handles the event at
  the head of the queue; the wake task takes a command; its timer, armed at the time \<open>armed_ms\<close>,
  elapses at \<open>now_ms\<close>, no earlier than the delay it was armed with.
\<close>

inductive sys_step :: "('vk, 'sig, 'z) net_scheme \<Rightarrow> ('vk, 'sig) wake_system \<Rightarrow> ('vk, 'sig) wake_system \<Rightarrow> bool" for E where
  arrives: "\<forall>now_ms. event \<noteq> TickEvent now_ms \<Longrightarrow> sys_step E s (set_events (sys_events s @ [event]) s)"
| handled: "sys_events s = event # events \<Longrightarrow> event_actions E event (sys_engine s) = Some (e, acts) \<Longrightarrow>
    sys_step E s ((set_events events s)\<lparr>sys_engine := e, sys_commands := sys_commands s @ wake_commands acts\<rparr>)"
| commanded: "sys_commands s = c # cs \<Longrightarrow> handle_wake_command c (sys_timer s) = (Inr (), wm) \<Longrightarrow>
    sys_step E s (s\<lparr>sys_commands := cs, sys_timer := wm\<rparr>)"
| elapsed: "wake_at (sys_timer s) = Some deadline \<Longrightarrow>
    unat armed_ms + unat (wake_delay_ms deadline armed_ms) \<le> unat now_ms \<Longrightarrow>
    emit_tick now_ms ((sys_timer s)\<lparr>wake_at := None\<rparr>) = (Inr (), wm) \<Longrightarrow>
    sys_step E s (s\<lparr>sys_timer := wm\<rparr>)"

inductive sys_reachable :: "('vk, 'sig, 'z) net_scheme \<Rightarrow> ('vk, 'sig) wake_system \<Rightarrow> bool" for E where
  sys_init: "sys_reachable E \<lparr> sys_engine = NodeEngine_new bc, sys_commands = [],
    sys_timer = WakeManager_new start_ms open_channel \<rparr>"
| sys_next: "sys_reachable E s \<Longrightarrow> sys_step E s s' \<Longrightarrow> sys_reachable E s'"

abbreviation timer_will_be :: "('vk, 'sig) wake_system \<Rightarrow> u64 option" where
  "timer_will_be s \<equiv> foldl (\<lambda>_ c. wake_of c) (wake_at (sys_timer s)) (sys_commands s)"

definition wake_ok :: "('vk, 'sig) wake_system \<Rightarrow> bool" where
  "wake_ok s \<longleftrightarrow>
     scheduled_wake_at_ms (sys_engine s) = next_wake (pending_requests (sys_engine s)) \<and>
     (\<forall>d. scheduled_wake_at_ms (sys_engine s) = Some d \<longrightarrow>
        timer_will_be s = Some d \<or> (\<exists>now_ms. TickEvent now_ms \<in> set (sys_events s) \<and> d \<le> now_ms))"

lemma foldl_wake_commands: "foldl (\<lambda>_ c. wake_of c) t (wake_commands acts) = timer_after t acts"
  by (induction t acts rule: timer_after.induct) simp_all

lemma foldl_wake_nonempty: "cs \<noteq> [] \<Longrightarrow> foldl (\<lambda>_ c. wake_of c) t cs = foldl (\<lambda>_ c. wake_of c) u cs"
  by (cases cs) simp_all

lemma event_timer:
  assumes "event_actions E event e = Some (e', acts)"
    and "scheduled_wake_at_ms e = next_wake (pending_requests e)"
  shows "scheduled_wake_at_ms e' = next_wake (pending_requests e')"
    and "timer_after (scheduled_wake_at_ms e) acts = scheduled_wake_at_ms e'"
proof -
  have "scheduled_wake_at_ms e' = next_wake (pending_requests e')
    \<and> timer_after (scheduled_wake_at_ms e) acts = scheduled_wake_at_ms e'"
    using assms(1)
  proof (cases rule: event_actions_cases)
    case (1 i)
    then show ?thesis using step_timer [OF 1(2)] by (simp add: next_wake_simps)
  next
    case (2 b bytes)
    then show ?thesis
      using assms(2)
      by (auto simp: restore_latest_snapshot_def elim!: bind_eq_SomeE
          split: option.split_asm sum.split_asm if_split_asm)
  qed
  then show "scheduled_wake_at_ms e' = next_wake (pending_requests e')"
    and "timer_after (scheduled_wake_at_ms e) acts = scheduled_wake_at_ms e'" by simp_all
qed

lemma tick_prunes:
  assumes "event_actions E (TickEvent now_ms) e = Some (e', acts)" and "scheduled_wake_at_ms e' = Some d"
  shows "now_ms < d"
proof -
  have step: "engine_step E e (Tick now_ms) = Some (e', acts)" using assms(1) by simp
  have "d \<in> deadline_ms ` set (pending_requests e')"
    using step_timer [OF step] assms(2) by (auto split: if_splits)
  moreover have "pending_requests e' = filter (\<lambda>r. deadline_ms r > now_ms) (pending_requests e)"
    using step
    by (auto simp: engine_step_def handle_input_def on_tick_def prune_expired_requests_def
        sync_wake_action_def Let_def split: if_splits)
  ultimately show ?thesis by auto
qed

lemma timer_not_early: "unat armed_ms + unat (wake_delay_ms d armed_ms) \<le> unat now_ms \<Longrightarrow> d \<le> now_ms"
  by (simp add: wake_delay_ms_def unat_saturating_sub word_le_nat_alt)

lemma wake_ok_handled:
  assumes "wake_ok s" and ev: "sys_events s = event # events"
    and act: "event_actions E event (sys_engine s) = Some (e, acts)"
  shows "wake_ok ((set_events events s)\<lparr>sys_engine := e, sys_commands := sys_commands s @ wake_commands acts\<rparr>)"
proof -
  have sched: "scheduled_wake_at_ms (sys_engine s) = next_wake (pending_requests (sys_engine s))"
    using assms(1) by (simp add: wake_ok_def)
  note timer = event_timer [OF act sched]
  have "foldl (\<lambda>_ c. wake_of c) (timer_will_be s) (wake_commands acts) = Some d
      \<or> (\<exists>now_ms. TickEvent now_ms \<in> set events \<and> d \<le> now_ms)" if d: "scheduled_wake_at_ms e = Some d" for d
  proof (cases "wake_commands acts = []")
    case False
    then have "foldl (\<lambda>_ c. wake_of c) (timer_will_be s) (wake_commands acts)
        = foldl (\<lambda>_ c. wake_of c) (scheduled_wake_at_ms (sys_engine s)) (wake_commands acts)"
      by (rule foldl_wake_nonempty)
    then show ?thesis using timer(2) d by (simp add: foldl_wake_commands)
  next
    case True
    then have same: "scheduled_wake_at_ms (sys_engine s) = Some d"
      using timer(2) d foldl_wake_commands [of "scheduled_wake_at_ms (sys_engine s)" acts] by simp
    then have "timer_will_be s = Some d \<or> (\<exists>now_ms. TickEvent now_ms \<in> set (event # events) \<and> d \<le> now_ms)"
      using assms(1) ev unfolding wake_ok_def by auto
    moreover have "now_ms < d" if "event = TickEvent now_ms" for now_ms
      using tick_prunes act d that by blast
    ultimately show ?thesis using True by auto
  qed
  then show ?thesis using timer(1) by (simp add: wake_ok_def set_events_def)
qed

lemma sys_step_wake_ok: "sys_step E s s' \<Longrightarrow> wake_ok s \<Longrightarrow> wake_ok s'"
proof (induction rule: sys_step.induct)
  case (arrives event s)
  then show ?case by (auto simp: wake_ok_def set_events_def)
next
  case (handled s event events e acts)
  then show ?case by (intro wake_ok_handled)
next
  case (commanded s c cs wm)
  then show ?case by (auto simp: wake_ok_def handle_wake_command_eq)
next
  case (elapsed s deadline armed_ms now_ms wm)
  have wm: "wake_at wm = None" "sent (wake_event_tx wm) = sys_events s @ [TickEvent now_ms]"
    using elapsed.hyps(3) by (auto simp: emit_tick_def send_on_def send_def split: if_splits)
  have "foldl (\<lambda>_ c. wake_of c) None (sys_commands s) = Some d
      \<or> (\<exists>t. TickEvent t \<in> set (sys_events s @ [TickEvent now_ms]) \<and> d \<le> t)"
    if "scheduled_wake_at_ms (sys_engine s) = Some d" for d
  proof (cases "sys_commands s = []")
    case True
    have "timer_will_be s = Some d \<or> (\<exists>t. TickEvent t \<in> set (sys_events s) \<and> d \<le> t)"
      using elapsed.prems that unfolding wake_ok_def by blast
    moreover have "d \<le> now_ms" if "timer_will_be s = Some d"
      using that True elapsed.hyps(1,2) timer_not_early by simp
    ultimately show ?thesis by (metis in_set_conv_decomp Un_iff set_append)
  next
    case False
    then have "foldl (\<lambda>_ c. wake_of c) None (sys_commands s) = timer_will_be s" by (rule foldl_wake_nonempty)
    moreover have "timer_will_be s = Some d \<or> (\<exists>t. TickEvent t \<in> set (sys_events s) \<and> d \<le> t)"
      using elapsed.prems that unfolding wake_ok_def by blast
    ultimately show ?thesis by auto
  qed
  then show ?case using elapsed.prems by (simp add: wake_ok_def wm)
qed

lemma sys_reachable_wake_ok: "sys_reachable E s \<Longrightarrow> wake_ok s"
proof (induction rule: sys_reachable.induct)
  case (sys_init bc start_ms)
  then show ?case by (simp add: wake_ok_def NodeEngine_new_def next_wake_def)
next
  case (sys_next s s')
  then show ?case by (simp add: sys_step_wake_ok)
qed

text \<open>
  C20: No wake-up is lost. Let the node manager, the wake task and all other senders of events run
  interleaved in any order. Whenever requests are pending, then either the wake task, once it has
  taken the commands queued for it, has its timer set to the earliest deadline, or a tick that is
  late enough to expire that request already waits in the event queue. So no request can stay
  pending for ever because a timer fired too early, was cancelled or was overwritten.
\<close>

theorem no_lost_wakeup:
  assumes "sys_reachable E s" and "pending_requests (sys_engine s) \<noteq> []"
  shows "let d = Min (deadline_ms ` set (pending_requests (sys_engine s)))
    in foldl (\<lambda>_ c. wake_of c) (wake_at (sys_timer s)) (sys_commands s) = Some d
      \<or> (\<exists>now_ms. TickEvent now_ms \<in> set (sent (wake_event_tx (sys_timer s))) \<and> d \<le> now_ms)"
  using sys_reachable_wake_ok [OF assms(1)] assms(2) by (auto simp: wake_ok_def next_wake_simps Let_def)

definition demo_connected :: "(u8, demo_sig) wake_system" where
  "demo_connected = \<lparr> sys_engine = NodeEngine_new demo_tree, sys_commands = [],
     sys_timer = (WakeManager_new 0 open_channel)\<lparr>wake_event_tx := \<lparr>sent = [PeerConnectedEvent 7], receiver_dropped = False\<rparr>\<rparr> \<rparr>"

theorem no_lost_wakeup_witness:
  "\<exists>s. sys_reachable demo_net s \<and> sys_commands s = [ScheduleCommand 30000] \<and>
    foldl (\<lambda>_ c. wake_of c) (wake_at (sys_timer s)) (sys_commands s)
      = Some (Min (deadline_ms ` set (pending_requests (sys_engine s))))"
proof -
  let ?init = "\<lparr> sys_engine = NodeEngine_new demo_tree, sys_commands = [],
    sys_timer = WakeManager_new 0 open_channel \<rparr> :: (u8, demo_sig) wake_system"
  have init: "sys_reachable demo_net ?init" by (rule sys_init)
  have "sys_step demo_net ?init demo_connected"
    using sys_step.arrives [of "PeerConnectedEvent 7" demo_net ?init]
    by (simp add: demo_connected_def set_events_def WakeManager_new_def open_channel_def)
  with init have conn: "sys_reachable demo_net demo_connected" by (rule sys_next)
  obtain e acts where step: "engine_step demo_net (NodeEngine_new demo_tree) (PeerConnected 7) = Some (e, acts)"
    and reqs: "pending_requests e \<noteq> []" and cmds: "wake_commands acts = [ScheduleCommand 30000]"
    by (simp add: engine_step_def handle_input_def on_peer_connected_def NodeEngine_new_def get_latest_block_def
        queue_block_request_def sync_wake_action_def next_wake_def Let_def demo_tree_def demo_genesis_def
        saturating_add_def REQUEST_TIMEOUT_MS_def)
  let ?s = "(set_events [] demo_connected)\<lparr>sys_engine := e, sys_commands := sys_commands demo_connected @ wake_commands acts\<rparr>"
  have "sys_step demo_net demo_connected ?s"
    by (rule sys_step.handled [where event = "PeerConnectedEvent 7"]) (simp_all add: demo_connected_def step)
  with conn have reach: "sys_reachable demo_net ?s" by (rule sys_next)
  have "foldl (\<lambda>_ c. wake_of c) (wake_at (sys_timer ?s)) (sys_commands ?s)
      = Some (Min (deadline_ms ` set (pending_requests (sys_engine ?s))))"
    using no_lost_wakeup [OF reach] reqs by (simp add: set_events_def Let_def)
  then show ?thesis using reach cmds by (intro exI [of _ ?s]) (simp add: demo_connected_def)
qed

end
