(* ===== verification/StorageContract.thy ===== *)
theory StorageContract
  imports NodeManager
begin

text \<open>
  The storage interface of the node (trait \<open>Storage\<close> of \<open>rp-node/src/contract.rs\<close>), the tasks that
  serve it (\<open>erp-runtime/src/storage/manager.rs\<close> and the \<open>StorageManager\<close> of
  \<open>rp-runtime/src/storage/manager.rs\<close>) and what they promise.

  The locale \<open>storage_contract\<close> has the laws a backend promises: what a load returns after a save,
  and that a save changes nothing else. Its lemmas show that a storage task over such a backend refines
  an abstract store, a map of blocks, a map of snapshots and the hash of the latest snapshot. The
  backends of the two runtimes are interpretations (theories \<open>NvsStorage\<close> and \<open>SledStorage\<close>).
\<close>

section \<open>The interface and the storage tasks\<close>

record ('st, 'vk, 'sig) storage_ops =
  save_block :: "('vk, 'sig) Block \<Rightarrow> ('st, ContractError, unit) effect"
  load_block :: "BlockHash \<Rightarrow> 'st \<Rightarrow> (ContractError, ('vk, 'sig) Block option) result"
  save_snapshot :: "BlockHash \<Rightarrow> byte_vec \<Rightarrow> ('st, ContractError, unit) effect"
  load_snapshot :: "BlockHash \<Rightarrow> 'st \<Rightarrow> (ContractError, byte_vec option) result"
  load_latest_snapshot_bundle :: "'st \<Rightarrow> (ContractError, (('vk, 'sig) Block \<times> byte_vec) option) result"

text \<open>The block encoder of postcard, a parameter of both backends.\<close>

record ('vk, 'sig) store_env = "('vk, 'sig) net" +
  encode_block :: "('vk, 'sig) Block \<Rightarrow> byte_vec option"
  decode_block :: "byte_vec \<Rightarrow> ('vk, 'sig) Block option"

record ('st, 'vk, 'sig) StorageManager =
  backend :: 'st
  storage_event_tx :: "('vk, 'sig) RuntimeEvent channel"

definition on_backend :: "('st, 'e, 'a) effect \<Rightarrow> (('st, 'vk, 'sig) StorageManager, 'e, 'a) effect" where
  "on_backend m sm = (let (r, st) = m (backend sm) in (r, sm\<lparr>backend := st\<rparr>))"

definition read_backend :: "('st \<Rightarrow> ('e, 'a) result) \<Rightarrow> (('st, 'vk, 'sig) StorageManager, 'e, 'a) effect" where
  "read_backend m sm = (m (backend sm), sm)"

definition send_event :: "('vk, 'sig) RuntimeEvent \<Rightarrow> (('st, 'vk, 'sig) StorageManager, SendError, unit) effect" where
  "send_event = send_on storage_event_tx (\<lambda>ch. storage_event_tx_update (\<lambda>_. ch)) id"

fun storage_command ::
  "('st, 'vk, 'sig) storage_ops \<Rightarrow> ('vk, 'sig) StorageCommand \<Rightarrow> (('st, 'vk, 'sig) StorageManager, RuntimeError, unit) effect" where
  "storage_command S LoadLatestSnapshotCommand =
     and_then (map_err_effect ContractFailure (read_backend (load_latest_snapshot_bundle S)))
       (\<lambda>latest_snapshot.
          let (b, state_bytes) = (case latest_snapshot of
                Some (b, state_bytes) \<Rightarrow> (Some b, Some state_bytes) | None \<Rightarrow> (None, None))
          in map_err_effect event_send (send_event (LatestSnapshotLoadedEvent b state_bytes)))"
| "storage_command S (LoadSnapshotCommand h) =
     and_then (map_err_effect ContractFailure (read_backend (load_snapshot S h)))
       (\<lambda>state_bytes. map_err_effect event_send (send_event (StorageLoadedEvent h state_bytes)))"
| "storage_command S (PersistBlockCommand b) =
     map_err_effect ContractFailure (on_backend (save_block S b))"
| "storage_command S (PersistSnapshotCommand h state_bytes) =
     map_err_effect ContractFailure (on_backend (save_snapshot S h state_bytes))"

fun storage_run ::
  "('st, 'vk, 'sig) storage_ops \<Rightarrow> ('vk, 'sig) StorageCommand list \<Rightarrow> (('st, 'vk, 'sig) StorageManager, RuntimeError, unit) effect" where
  "storage_run S [] = done_with ()"
| "storage_run S (c # cs) = and_then (storage_command S c) (\<lambda>_. storage_run S cs)"

fun host_storage_command ::
  "('st, 'vk, 'sig) storage_ops \<Rightarrow> ('vk, 'sig) StorageCommand \<Rightarrow> (('st, 'vk, 'sig) StorageManager, HostError, unit) effect" where
  "host_storage_command S LoadLatestSnapshotCommand =
     and_then (map_err_effect HostContractFailure (read_backend (load_latest_snapshot_bundle S)))
       (\<lambda>latest_snapshot.
          let (b, state_bytes) = (case latest_snapshot of
                Some (b, state_bytes) \<Rightarrow> (Some b, Some state_bytes) | None \<Rightarrow> (None, None))
          in map_err_effect host_event_send (send_event (LatestSnapshotLoadedEvent b state_bytes)))"
| "host_storage_command S (LoadSnapshotCommand h) =
     and_then (map_err_effect HostContractFailure (read_backend (load_snapshot S h)))
       (\<lambda>state_bytes. map_err_effect host_event_send (send_event (StorageLoadedEvent h state_bytes)))"
| "host_storage_command S (PersistBlockCommand b) =
     map_err_effect HostContractFailure (on_backend (save_block S b))"
| "host_storage_command S (PersistSnapshotCommand h state_bytes) =
     map_err_effect HostContractFailure (on_backend (save_snapshot S h state_bytes))"

fun host_storage_run ::
  "('st, 'vk, 'sig) storage_ops \<Rightarrow> ('vk, 'sig) StorageCommand list \<Rightarrow> (('st, 'vk, 'sig) StorageManager, HostError, unit) effect" where
  "host_storage_run S [] = done_with ()"
| "host_storage_run S (c # cs) = and_then (host_storage_command S c) (\<lambda>_. host_storage_run S cs)"

lemma map_err_compose: "map_err f (map_err g r) = map_err (\<lambda>e. f (g e)) r"
  by (simp add: map_err_def split: sum.split)

lemma host_storage_command_eq: "host_storage_command S c sm = host_result (storage_command S c sm)"
  by (cases c)
    (auto simp: and_then_def map_err_effect_def read_backend_def on_backend_def send_event_def send_on_def send_def
      event_send_def host_event_send_def map_err_compose Let_def case_prod_unfold map_err_Inl
      split: prod.split sum.split option.split)

lemma host_storage_run_eq: "host_storage_run S cs sm = host_result (storage_run S cs sm)"
  by (induction cs arbitrary: sm)
    (auto simp: host_storage_command_eq and_then_def map_err_Inl split: prod.split sum.split)

section \<open>The abstract store\<close>

record ('vk, 'sig) store =
  store_blocks :: "BlockHash \<Rightarrow> ('vk, 'sig) Block option"
  store_snapshots :: "BlockHash \<Rightarrow> byte_vec option"
  store_latest :: "BlockHash option"

definition empty_store :: "('vk, 'sig) store" where
  "empty_store = \<lparr> store_blocks = (\<lambda>_. None), store_snapshots = (\<lambda>_. None), store_latest = None \<rparr>"

fun store_command ::
  "(('vk, 'sig) Block \<Rightarrow> BlockHash) \<Rightarrow> ('vk, 'sig) StorageCommand \<Rightarrow> ('vk, 'sig) store \<Rightarrow> ('vk, 'sig) store" where
  "store_command H (PersistBlockCommand b) a = a\<lparr>store_blocks := (store_blocks a)(H b \<mapsto> b)\<rparr>"
| "store_command H (PersistSnapshotCommand h state_bytes) a =
     a\<lparr>store_snapshots := (store_snapshots a)(h \<mapsto> state_bytes), store_latest := Some h\<rparr>"
| "store_command H LoadLatestSnapshotCommand a = a"
| "store_command H (LoadSnapshotCommand h) a = a"

section \<open>The contract of a backend\<close>

text \<open>
  \<open>ops p\<close> are the operations of the backend with parameters \<open>p\<close>, \<open>valid p\<close> says that the third-party
  store below it behaves as documented, \<open>storable p b\<close> that the block encoder reads back what it wrote for
  \<open>b\<close>, and \<open>latest p st\<close> is the hash the latest-snapshot pointer holds.
\<close>

locale storage_contract =
  fixes ops :: "'p \<Rightarrow> ('st, 'vk, 'sig) storage_ops"
    and valid :: "'p \<Rightarrow> bool"
    and hash_of :: "'p \<Rightarrow> ('vk, 'sig) Block \<Rightarrow> BlockHash"
    and storable :: "'p \<Rightarrow> ('vk, 'sig) Block \<Rightarrow> bool"
    and latest :: "'p \<Rightarrow> 'st \<Rightarrow> BlockHash option"
  assumes saved_block: "valid p \<Longrightarrow> storable p b \<Longrightarrow> save_block (ops p) b st = (Inr (), st') \<Longrightarrow>
      load_block (ops p) (hash_of p b) st' = Inr (Some b)"
    and other_block: "valid p \<Longrightarrow> save_block (ops p) b st = (Inr (), st') \<Longrightarrow> h \<noteq> hash_of p b \<Longrightarrow>
      load_block (ops p) h st' = load_block (ops p) h st"
    and block_keeps_snapshots: "valid p \<Longrightarrow> save_block (ops p) b st = (Inr (), st') \<Longrightarrow>
      load_snapshot (ops p) h st' = load_snapshot (ops p) h st"
    and block_keeps_latest: "valid p \<Longrightarrow> save_block (ops p) b st = (Inr (), st') \<Longrightarrow> latest p st' = latest p st"
    and saved_snapshot: "valid p \<Longrightarrow> save_snapshot (ops p) h x st = (Inr (), st') \<Longrightarrow>
      load_snapshot (ops p) h st' = Inr (Some x)"
    and other_snapshot: "valid p \<Longrightarrow> save_snapshot (ops p) h x st = (Inr (), st') \<Longrightarrow> k \<noteq> h \<Longrightarrow>
      load_snapshot (ops p) k st' = load_snapshot (ops p) k st"
    and snapshot_keeps_blocks: "valid p \<Longrightarrow> save_snapshot (ops p) h x st = (Inr (), st') \<Longrightarrow>
      load_block (ops p) k st' = load_block (ops p) k st"
    and saved_latest: "valid p \<Longrightarrow> save_snapshot (ops p) h x st = (Inr (), st') \<Longrightarrow> latest p st' = Some h"
    and latest_bundle: "valid p \<Longrightarrow> latest p st = Some h \<Longrightarrow> load_block (ops p) h st = Inr (Some b) \<Longrightarrow>
      load_snapshot (ops p) h st = Inr (Some x) \<Longrightarrow> load_latest_snapshot_bundle (ops p) st = Inr (Some (b, x))"
begin

definition refines :: "'p \<Rightarrow> ('vk, 'sig) store \<Rightarrow> 'st \<Rightarrow> bool" where
  "refines p a st \<longleftrightarrow>
     (\<forall>h b. store_blocks a h = Some b \<longrightarrow> load_block (ops p) h st = Inr (Some b)) \<and>
     (\<forall>h x. store_snapshots a h = Some x \<longrightarrow> load_snapshot (ops p) h st = Inr (Some x)) \<and>
     (\<forall>h. store_latest a = Some h \<longrightarrow> latest p st = Some h)"

lemma refines_empty: "refines p empty_store st"
  by (simp add: refines_def empty_store_def)

lemma refines_save_block:
  assumes "valid p" and "storable p b" and "refines p a st" and "save_block (ops p) b st = (Inr (), st')"
  shows "refines p (store_command (hash_of p) (PersistBlockCommand b) a) st'"
  using assms(3) saved_block [OF assms(1,2,4)] other_block [OF assms(1,4)]
    block_keeps_snapshots [OF assms(1,4)] block_keeps_latest [OF assms(1,4)]
  by (simp add: refines_def)

lemma refines_save_snapshot:
  assumes "valid p" and "refines p a st" and "save_snapshot (ops p) h x st = (Inr (), st')"
  shows "refines p (store_command (hash_of p) (PersistSnapshotCommand h x) a) st'"
  using assms(2) saved_snapshot [OF assms(1,3)] other_snapshot [OF assms(1,3)]
    snapshot_keeps_blocks [OF assms(1,3)] saved_latest [OF assms(1,3)]
  by (simp add: refines_def)

lemma refines_command:
  assumes "valid p" and "\<forall>b. c = PersistBlockCommand b \<longrightarrow> storable p b" and "refines p a (backend sm)"
    and "storage_command (ops p) c sm = (Inr (), sm')"
  shows "refines p (store_command (hash_of p) c a) (backend sm')"
proof (cases c)
  case (PersistBlockCommand b)
  then have "save_block (ops p) b (backend sm) = (Inr (), backend sm')"
    using assms(4) by (auto simp: on_backend_def split: prod.splits)
  then show ?thesis using refines_save_block assms(1-3) PersistBlockCommand by blast
next
  case (PersistSnapshotCommand h x)
  then have "save_snapshot (ops p) h x (backend sm) = (Inr (), backend sm')"
    using assms(4) by (auto simp: on_backend_def split: prod.splits)
  then show ?thesis using refines_save_snapshot assms(1,3) PersistSnapshotCommand by blast
qed (use assms(3,4) in \<open>auto simp: and_then_Inr read_backend_def send_event_def send_on_def send_def
       Let_def split: prod.splits option.splits if_splits\<close>)

lemma refines_run:
  assumes "valid p" and "\<forall>b. PersistBlockCommand b \<in> set cs \<longrightarrow> storable p b" and "refines p a (backend sm)"
    and "storage_run (ops p) cs sm = (Inr (), sm')"
  shows "refines p (fold (store_command (hash_of p)) cs a) (backend sm')"
  using assms(2-)
proof (induction cs arbitrary: a sm)
  case (Cons c cs)
  then obtain sm1 where first: "storage_command (ops p) c sm = (Inr (), sm1)"
    and rest: "storage_run (ops p) cs sm1 = (Inr (), sm')"
    by (auto simp: and_then_Inr)
  have "refines p (store_command (hash_of p) c a) (backend sm1)"
    using refines_command [OF assms(1) _ Cons.prems(2) first] Cons.prems(1) by auto
  then show ?case using Cons.IH [OF _ _ rest] Cons.prems(1) by simp
qed simp

lemma refines_bundle:
  assumes "valid p" and "refines p a st" and "store_latest a = Some h" and "store_blocks a h = Some b"
    and "store_snapshots a h = Some x"
  shows "load_latest_snapshot_bundle (ops p) st = Inr (Some (b, x))"
  using assms latest_bundle [OF assms(1)] by (simp add: refines_def)

text \<open>What a restarted node is given: the block and the bytes of the last snapshot that was persisted.\<close>

lemma restart_bundle:
  assumes "valid p" and "\<forall>b. PersistBlockCommand b \<in> set cs \<longrightarrow> storable p b"
    and "storage_run (ops p) cs sm = (Inr (), sm')" and "a = fold (store_command (hash_of p)) cs empty_store"
    and "store_latest a = Some h" and "store_blocks a h = Some b" and "store_snapshots a h = Some x"
    and "\<not> receiver_dropped (storage_event_tx sm')"
  shows "\<exists>sm''. storage_command (ops p) LoadLatestSnapshotCommand sm' = (Inr (), sm'') \<and>
    sent (storage_event_tx sm'') = sent (storage_event_tx sm') @ [LatestSnapshotLoadedEvent (Some b) (Some x)]"
  using refines_bundle [OF assms(1) refines_run [OF assms(1,2) refines_empty assms(3)]] assms(4-8)
  by (simp add: and_then_def read_backend_def map_err_effect_def send_event_def send_on_def send_def)

end

section \<open>A concrete environment\<close>

definition demo_store_env :: "(u8, demo_sig) store_env" where
  "demo_store_env = net.extend demo_net \<lparr> encode_block = (\<lambda>_. Some [1, 2]), decode_block = (\<lambda>_. Some demo_child) \<rparr>"

lemma demo_store_env_sel [simp]:
  "encode_block demo_store_env b = Some [1, 2]" "decode_block demo_store_env bytes = Some demo_child"
  by (simp_all add: demo_store_env_def net.extend_def)

definition demo_session :: "(u8, demo_sig) StorageCommand list" where
  "demo_session = [PersistBlockCommand demo_child, PersistSnapshotCommand (block_hash demo_store_env demo_child) [9]]"

lemma demo_session_store:
  "fold (store_command (block_hash demo_store_env)) demo_session empty_store =
    \<lparr> store_blocks = [block_hash demo_store_env demo_child \<mapsto> demo_child],
      store_snapshots = [block_hash demo_store_env demo_child \<mapsto> [9]],
      store_latest = Some (block_hash demo_store_env demo_child) \<rparr>"
  by (simp add: demo_session_def empty_store_def)

end
