(* ===== verification/NvsStorage.thy ===== *)
theory NvsStorage
  imports StorageContract
begin

text \<open>
  The storage of the embedded runtime (\<open>erp-runtime/src/storage/nvs_storage.rs\<close>): blocks and
  snapshots in the key-value store of the flash, whose keys have at most 15 characters. A blob is
  kept under a key made of six bytes of its hash and a slot number, with the whole hash in front of it;
  the 256 slots are probed in order.

  The key-value store (\<open>EspKeyValueStorage\<close>) is the parameter \<open>K\<close>; \<open>kv_ok\<close> is what its documentation
  says: after a write that succeeded, the key has the length and the bytes written, and every other
  key reads as before. Reads and writes may fail at any time.
\<close>

section \<open>The key-value store\<close>

record 'st kv_store =
  kv_len :: "'st \<Rightarrow> string \<Rightarrow> (EspError, nat option) result"
  kv_get_raw :: "'st \<Rightarrow> string \<Rightarrow> nat \<Rightarrow> (EspError, byte_vec option) result"
  kv_set_raw :: "string \<Rightarrow> byte_vec \<Rightarrow> ('st, EspError, bool) effect"

definition kv_ok :: "'st kv_store \<Rightarrow> bool" where
  "kv_ok K \<longleftrightarrow>
     (\<forall>st key v written st'. kv_set_raw K key v st = (Inr written, st') \<longrightarrow>
        kv_len K st' key = Inr (Some (length v)) \<and> kv_get_raw K st' key (length v) = Inr (Some v) \<and>
        (\<forall>key'. key' \<noteq> key \<longrightarrow> kv_len K st' key' = kv_len K st key' \<and> kv_get_raw K st' key' = kv_get_raw K st key'))"

section \<open>Keys and envelopes\<close>

definition BLOCK_KEY_PREFIX :: char where "BLOCK_KEY_PREFIX = CHR ''b''"
definition SNAPSHOT_KEY_PREFIX :: char where "SNAPSHOT_KEY_PREFIX = CHR ''s''"
definition HASH_BUCKET_BYTES :: nat where "HASH_BUCKET_BYTES = 6"
definition LATEST_SNAPSHOT_KEY :: string where "LATEST_SNAPSHOT_KEY = ''latest_snap''"

definition hex_digit :: "nat \<Rightarrow> char" where
  "hex_digit n = ''0123456789abcdef'' ! n"

definition hex_byte :: "u8 \<Rightarrow> string" where
  "hex_byte b = [hex_digit (unat b div 16), hex_digit (unat b mod 16)]"

definition slot_key :: "char \<Rightarrow> BlockHash \<Rightarrow> u8 \<Rightarrow> string" where
  "slot_key prefix h i =
     prefix # concat (map hex_byte (take HASH_BUCKET_BYTES (to_be 32 h))) @ hex_byte i"

definition map_storage_error :: "EspError \<Rightarrow> ContractError" where
  "map_storage_error e = Storage"

definition read_blob :: "'st kv_store \<Rightarrow> string \<Rightarrow> 'st \<Rightarrow> (ContractError, byte_vec option) result" where
  "read_blob K key st =
     bind_result (map_err map_storage_error (kv_len K st key))
       (\<lambda>len. case len of
          None \<Rightarrow> Inr None
        | Some len \<Rightarrow> map_err map_storage_error (kv_get_raw K st key len))"

definition write_blob :: "'st kv_store \<Rightarrow> string \<Rightarrow> byte_vec \<Rightarrow> ('st, ContractError, unit) effect" where
  "write_blob K key bytes =
     and_then (map_err_effect map_storage_error (kv_set_raw K key bytes)) (\<lambda>_. done_with ())"

definition encode_envelope :: "BlockHash \<Rightarrow> byte_vec \<Rightarrow> byte_vec" where
  "encode_envelope h payload = to_be 32 h @ payload"

definition all_slots :: "u8 list" where
  "all_slots = map word_of_nat [0..<256]"

fun load_slots :: "'st kv_store \<Rightarrow> char \<Rightarrow> BlockHash \<Rightarrow> u8 list \<Rightarrow> 'st \<Rightarrow> (ContractError, byte_vec option) result" where
  "load_slots K prefix h [] st = Inr None"
| "load_slots K prefix h (i # js) st =
     (case read_blob K (slot_key prefix h i) st of
        Inl e \<Rightarrow> Inl e
      | Inr None \<Rightarrow> load_slots K prefix h js st
      | Inr (Some buffer) \<Rightarrow>
          if length buffer < 32 then Inl Storage
          else if take 32 buffer = to_be 32 h then Inr (Some (drop 32 buffer))
          else load_slots K prefix h js st)"

definition load_hashed_blob :: "'st kv_store \<Rightarrow> char \<Rightarrow> BlockHash \<Rightarrow> 'st \<Rightarrow> (ContractError, byte_vec option) result" where
  "load_hashed_blob K prefix h = load_slots K prefix h all_slots"

fun save_slots :: "'st kv_store \<Rightarrow> char \<Rightarrow> BlockHash \<Rightarrow> byte_vec \<Rightarrow> u8 list \<Rightarrow> ('st, ContractError, unit) effect" where
  "save_slots K prefix h encoded [] st = (Inl Storage, st)"
| "save_slots K prefix h encoded (i # js) st =
     (case read_blob K (slot_key prefix h i) st of
        Inl e \<Rightarrow> (Inl e, st)
      | Inr (Some buffer) \<Rightarrow>
          if length buffer < 32 then (Inl Storage, st)
          else if take 32 buffer = to_be 32 h then write_blob K (slot_key prefix h i) encoded st
          else save_slots K prefix h encoded js st
      | Inr None \<Rightarrow> write_blob K (slot_key prefix h i) encoded st)"

definition save_hashed_blob :: "'st kv_store \<Rightarrow> char \<Rightarrow> BlockHash \<Rightarrow> byte_vec \<Rightarrow> ('st, ContractError, unit) effect" where
  "save_hashed_blob K prefix h payload =
     save_slots K prefix h (encode_envelope h payload) all_slots"

definition read_hash_key :: "'st kv_store \<Rightarrow> string \<Rightarrow> 'st \<Rightarrow> (ContractError, BlockHash option) result" where
  "read_hash_key K key st =
     bind_result (read_blob K key st)
       (\<lambda>r. case r of
          None \<Rightarrow> Inr None
        | Some bytes \<Rightarrow> if length bytes \<noteq> 32 then Inl Storage else Inr (Some (from_be bytes)))"

definition write_hash_key :: "'st kv_store \<Rightarrow> string \<Rightarrow> BlockHash \<Rightarrow> ('st, ContractError, unit) effect" where
  "write_hash_key K key h = write_blob K key (to_be 32 h)"

section \<open>The operations\<close>

definition nvs_save_block ::
  "('vk, 'sig, 'z) store_env_scheme \<Rightarrow> 'st kv_store \<Rightarrow> ('vk, 'sig) Block \<Rightarrow> ('st, ContractError, unit) effect" where
  "nvs_save_block E K b =
     and_then (of_result (ok_or Storage (encode_block E b)))
       (\<lambda>block_bytes. save_hashed_blob K BLOCK_KEY_PREFIX (block_hash E b) block_bytes)"

definition nvs_load_block ::
  "('vk, 'sig, 'z) store_env_scheme \<Rightarrow> 'st kv_store \<Rightarrow> BlockHash \<Rightarrow> 'st \<Rightarrow> (ContractError, ('vk, 'sig) Block option) result" where
  "nvs_load_block E K h st =
     bind_result (load_hashed_blob K BLOCK_KEY_PREFIX h st)
       (\<lambda>r. case r of
          None \<Rightarrow> Inr None
        | Some block_bytes \<Rightarrow>
            bind_result (ok_or Storage (decode_block E block_bytes))
              (\<lambda>b. if block_hash E b \<noteq> h then Inl Storage else Inr (Some b)))"

definition nvs_save_snapshot :: "'st kv_store \<Rightarrow> BlockHash \<Rightarrow> byte_vec \<Rightarrow> ('st, ContractError, unit) effect" where
  "nvs_save_snapshot K h state_bytes =
     and_then (save_hashed_blob K SNAPSHOT_KEY_PREFIX h state_bytes)
       (\<lambda>_. write_hash_key K LATEST_SNAPSHOT_KEY h)"

definition nvs_load_snapshot :: "'st kv_store \<Rightarrow> BlockHash \<Rightarrow> 'st \<Rightarrow> (ContractError, byte_vec option) result" where
  "nvs_load_snapshot K = load_hashed_blob K SNAPSHOT_KEY_PREFIX"

definition nvs_load_latest_snapshot_bundle ::
  "('vk, 'sig, 'z) store_env_scheme \<Rightarrow> 'st kv_store \<Rightarrow> 'st \<Rightarrow> (ContractError, (('vk, 'sig) Block \<times> byte_vec) option) result" where
  "nvs_load_latest_snapshot_bundle E K st =
     (case read_hash_key K LATEST_SNAPSHOT_KEY st of
        Inr (Some h) \<Rightarrow>
          (case nvs_load_block E K h st of
             Inr (Some b) \<Rightarrow>
               (case nvs_load_snapshot K h st of
                  Inr (Some state_bytes) \<Rightarrow> Inr (Some (b, state_bytes))
                | Inr None \<Rightarrow> Inr None
                | Inl _ \<Rightarrow> Inr None)
           | Inr None \<Rightarrow> Inr None
           | Inl _ \<Rightarrow> Inr None)
      | Inr None \<Rightarrow> Inr None
      | Inl _ \<Rightarrow> Inr None)"

definition nvs_ops :: "('vk, 'sig, 'z) store_env_scheme \<times> 'st kv_store \<Rightarrow> ('st, 'vk, 'sig) storage_ops" where
  "nvs_ops = (\<lambda>(E, K). \<lparr> save_block = nvs_save_block E K, load_block = nvs_load_block E K,
     save_snapshot = nvs_save_snapshot K, load_snapshot = nvs_load_snapshot K,
     load_latest_snapshot_bundle = nvs_load_latest_snapshot_bundle E K \<rparr>)"

section \<open>Keys\<close>

lemma hex_digit_inj: "a < 16 \<Longrightarrow> b < 16 \<Longrightarrow> hex_digit a = hex_digit b \<longleftrightarrow> a = b"
proof -
  have "distinct ''0123456789abcdef''" by simp
  then show "a < 16 \<Longrightarrow> b < 16 \<Longrightarrow> hex_digit a = hex_digit b \<longleftrightarrow> a = b"
    unfolding hex_digit_def by (subst nth_eq_iff_index_eq) simp_all
qed

lemma hex_byte_inj [simp]: "hex_byte a = hex_byte b \<longleftrightarrow> a = b"
proof -
  have "unat c < 256" for c :: u8 using unat_lt_length [of c] by simp
  then have "unat c div 16 < 16" for c :: u8 by (simp add: less_mult_imp_div_less)
  then have "hex_byte a = hex_byte b \<longleftrightarrow> unat a div 16 = unat b div 16 \<and> unat a mod 16 = unat b mod 16"
    by (simp add: hex_byte_def hex_digit_inj)
  also have "\<dots> \<longleftrightarrow> unat a = unat b" by (metis div_mult_mod_eq)
  also have "\<dots> \<longleftrightarrow> a = b" by (rule unsigned_word_eqI [THEN iffI]) simp_all
  finally show ?thesis .
qed

lemma hex_byte_nonempty [simp]: "hex_byte b \<noteq> []"
  by (simp add: hex_byte_def)

lemma length_hex_byte [simp]: "length (hex_byte b) = 2"
  by (simp add: hex_byte_def)

lemma length_slot_key: "length (slot_key prefix h i) = 15"
  by (simp add: slot_key_def length_concat HASH_BUCKET_BYTES_def comp_def sum_list_triv)

lemma slot_key_eq_iff: "slot_key p h s = slot_key p' h' s' \<longleftrightarrow>
  p = p' \<and> slot_key p h s' = slot_key p' h' s' \<and> s = s'"
proof
  assume eq: "slot_key p h s = slot_key p' h' s'"
  then have "p = p'" by (simp add: slot_key_def)
  moreover have "drop 13 (slot_key p h s) = hex_byte s" for p h s
    by (simp add: slot_key_def length_concat HASH_BUCKET_BYTES_def comp_def sum_list_triv)
  from this [of p h s] this [of p' h' s'] have "s = s'" using eq by (metis hex_byte_inj)
  ultimately show "p = p' \<and> slot_key p h s' = slot_key p' h' s' \<and> s = s'" using eq by simp
qed auto

lemma concat_hex_inj: "concat (map hex_byte as) = concat (map hex_byte bs) \<longleftrightarrow> as = bs"
proof (induction as arbitrary: bs)
  case Nil
  then show ?case by (cases bs) simp_all
next
  case (Cons a as)
  then show ?case by (cases bs) (simp_all add: append_eq_prefix_length)
qed

lemma slot_key_bucket: "slot_key p h i = slot_key p' h' j \<longleftrightarrow>
  p = p' \<and> i = j \<and> take HASH_BUCKET_BYTES (to_be 32 h) = take HASH_BUCKET_BYTES (to_be 32 h')"
  by (subst slot_key_eq_iff) (auto simp: slot_key_def concat_hex_inj)

lemma slot_key_latest: "slot_key p h s \<noteq> LATEST_SNAPSHOT_KEY"
  using length_slot_key [of p h s] by (auto simp: LATEST_SNAPSHOT_KEY_def)

section \<open>Probing\<close>

lemma write_blob_read:
  assumes "kv_ok K" and "write_blob K key v st = (Inr (), st')"
  shows "read_blob K key st' = Inr (Some v)"
    and "key' \<noteq> key \<Longrightarrow> read_blob K key' st' = read_blob K key' st"
proof -
  obtain written where "kv_set_raw K key v st = (Inr written, st')"
    using assms(2) by (auto simp: write_blob_def and_then_Inr)
  then have kv: "kv_len K st' key = Inr (Some (length v))" "kv_get_raw K st' key (length v) = Inr (Some v)"
    and same: "\<And>key'. key' \<noteq> key \<Longrightarrow> kv_len K st' key' = kv_len K st key' \<and> kv_get_raw K st' key' = kv_get_raw K st key'"
    using assms(1) unfolding kv_ok_def by blast+
  show "read_blob K key st' = Inr (Some v)" using kv by (simp add: read_blob_def)
  show "read_blob K key' st' = read_blob K key' st" if "key' \<noteq> key" using same [OF that] by (simp add: read_blob_def cong: option.case_cong)
qed

text \<open>A slot that holds another blob, or nothing, is passed over by a load.\<close>

definition holds_other :: "'st kv_store \<Rightarrow> char \<Rightarrow> BlockHash \<Rightarrow> u8 \<Rightarrow> 'st \<Rightarrow> bool" where
  "holds_other K prefix h i st \<longleftrightarrow>
     (\<exists>buffer. read_blob K (slot_key prefix h i) st = Inr (Some buffer) \<and> 32 \<le> length buffer \<and> take 32 buffer \<noteq> to_be 32 h)"

definition passed_over :: "'st kv_store \<Rightarrow> char \<Rightarrow> BlockHash \<Rightarrow> u8 \<Rightarrow> 'st \<Rightarrow> bool" where
  "passed_over K prefix h i st \<longleftrightarrow> read_blob K (slot_key prefix h i) st = Inr None \<or> holds_other K prefix h i st"

lemma load_slots_passed: "passed_over K prefix h i st \<Longrightarrow> load_slots K prefix h (i # js) st = load_slots K prefix h js st"
  by (auto simp: passed_over_def holds_other_def)

lemma load_slots_same_head:
  "read_blob K (slot_key prefix h i) st' = read_blob K (slot_key prefix h i) st \<Longrightarrow>
   load_slots K prefix h js st' = load_slots K prefix h js st \<Longrightarrow>
   load_slots K prefix h (i # js) st' = load_slots K prefix h (i # js) st"
  by (auto split: sum.split option.split)

lemma load_slots_found:
  assumes "\<forall>j\<in>set pre. passed_over K prefix h j st"
    and "read_blob K (slot_key prefix h i) st = Inr (Some (encode_envelope h payload))"
  shows "load_slots K prefix h (pre @ i # post) st = Inr (Some payload)"
  using assms
proof (induction pre)
  case Nil
  then show ?case by (simp add: encode_envelope_def)
next
  case (Cons j pre)
  then show ?case by (simp add: load_slots_passed del: load_slots.simps)
qed

lemma load_slots_cong:
  assumes "\<forall>i\<in>set js. read_blob K (slot_key prefix h i) st' = read_blob K (slot_key prefix h i) st
      \<or> (passed_over K prefix h i st \<and> passed_over K prefix h i st')"
  shows "load_slots K prefix h js st' = load_slots K prefix h js st"
  using assms
proof (induction js)
  case (Cons i js)
  then show ?case
    by (cases "passed_over K prefix h i st \<and> passed_over K prefix h i st'")
      (auto simp: load_slots_passed simp del: load_slots.simps(2) intro: load_slots_same_head)
qed simp

lemma save_slots_passed:
  "holds_other K prefix h i st \<Longrightarrow> save_slots K prefix h encoded (i # js) st = save_slots K prefix h encoded js st"
  by (auto simp: holds_other_def)

lemma save_slotsD:
  assumes "save_slots K prefix h encoded js st = (Inr (), st')"
  obtains pre i post where "js = pre @ i # post" and "\<forall>j\<in>set pre. holds_other K prefix h j st"
    and "write_blob K (slot_key prefix h i) encoded st = (Inr (), st')"
    and "read_blob K (slot_key prefix h i) st = Inr None \<or>
      (\<exists>buffer. read_blob K (slot_key prefix h i) st = Inr (Some buffer) \<and> 32 \<le> length buffer \<and> take 32 buffer = to_be 32 h)"
  using assms
proof (induction js arbitrary: thesis)
  case (Cons i js)
  show ?case
  proof (cases "holds_other K prefix h i st")
    case True
    then have "save_slots K prefix h encoded js st = (Inr (), st')"
      using Cons.prems(2) by (simp add: save_slots_passed del: save_slots.simps(2))
    then obtain pre j post where "js = pre @ j # post" "\<forall>j\<in>set pre. holds_other K prefix h j st"
      "write_blob K (slot_key prefix h j) encoded st = (Inr (), st')"
      "read_blob K (slot_key prefix h j) st = Inr None \<or>
        (\<exists>buffer. read_blob K (slot_key prefix h j) st = Inr (Some buffer) \<and> 32 \<le> length buffer \<and> take 32 buffer = to_be 32 h)"
      using Cons.IH by metis
    then show ?thesis using Cons.prems(1) [of "i # pre" j post] True by simp
  next
    case False
    then show ?thesis
      using Cons.prems(2)
      by (intro Cons.prems(1) [of "[]" i js])
        (auto simp: holds_other_def split: sum.splits option.splits if_splits)
  qed
qed simp

lemma distinct_all_slots: "distinct all_slots"
proof -
  have "inj_on (word_of_nat :: nat \<Rightarrow> u8) {0..<256}"
  proof (rule inj_onI)
    fix a b :: nat
    assume range: "a \<in> {0..<256}" "b \<in> {0..<256}" and "(word_of_nat a :: u8) = word_of_nat b"
    then have "a mod 256 = b mod 256" using unat_u8_of_nat [of a] unat_u8_of_nat [of b] by metis
    then show "a = b" using range by (metis atLeastLessThan_iff mod_less)
  qed
  then show ?thesis by (simp only: all_slots_def distinct_map distinct_upt set_upt simp_thms)
qed

lemma load_saved_blob:
  assumes "kv_ok K" and "save_hashed_blob K prefix h payload st = (Inr (), st')"
  shows "load_hashed_blob K prefix h st' = Inr (Some payload)"
proof -
  obtain pre i post where slots: "all_slots = pre @ i # post" and other: "\<forall>j\<in>set pre. holds_other K prefix h j st"
    and wr: "write_blob K (slot_key prefix h i) (encode_envelope h payload) st = (Inr (), st')"
    using assms(2) unfolding save_hashed_blob_def by (rule save_slotsD)
  note read = write_blob_read [OF assms(1) wr]
  have "slot_key prefix h j \<noteq> slot_key prefix h i" if "j \<in> set pre" for j
    using that distinct_all_slots [unfolded slots] slot_key_eq_iff [of prefix h j prefix h i] by auto
  then have "\<forall>j\<in>set pre. passed_over K prefix h j st'"
    using other read(2) by (simp add: passed_over_def holds_other_def)
  then show ?thesis
    unfolding load_hashed_blob_def slots using read(1) by (rule load_slots_found)
qed

lemma load_other_blob:
  assumes "kv_ok K" and "save_hashed_blob K prefix h payload st = (Inr (), st')" and "prefix' \<noteq> prefix \<or> h' \<noteq> h"
  shows "load_hashed_blob K prefix' h' st' = load_hashed_blob K prefix' h' st"
proof -
  obtain pre i post where wr: "write_blob K (slot_key prefix h i) (encode_envelope h payload) st = (Inr (), st')"
    and old: "read_blob K (slot_key prefix h i) st = Inr None \<or>
      (\<exists>buffer. read_blob K (slot_key prefix h i) st = Inr (Some buffer) \<and> 32 \<le> length buffer \<and> take 32 buffer = to_be 32 h)"
    using assms(2) unfolding save_hashed_blob_def by (rule save_slotsD)
  note read = write_blob_read [OF assms(1) wr]
  have "read_blob K (slot_key prefix' h' j) st' = read_blob K (slot_key prefix' h' j) st
      \<or> (passed_over K prefix' h' j st \<and> passed_over K prefix' h' j st')" for j
  proof (cases "slot_key prefix' h' j = slot_key prefix h i")
    case True
    then have "h' \<noteq> h" using assms(3) slot_key_eq_iff [of prefix' h' j prefix h i] by blast
    then have "passed_over K prefix' h' j st" and "passed_over K prefix' h' j st'"
      using old read(1) unfolding passed_over_def holds_other_def True by (auto simp: encode_envelope_def)
    then show ?thesis by simp
  next
    case False
    then show ?thesis using read(2) by simp
  qed
  then show ?thesis unfolding load_hashed_blob_def by (intro load_slots_cong) blast
qed

lemma save_blob_keeps_latest:
  assumes "kv_ok K" and "save_hashed_blob K prefix h payload st = (Inr (), st')"
  shows "read_hash_key K LATEST_SNAPSHOT_KEY st' = read_hash_key K LATEST_SNAPSHOT_KEY st"
proof -
  obtain i where wr: "write_blob K (slot_key prefix h i) (encode_envelope h payload) st = (Inr (), st')"
    using assms(2) unfolding save_hashed_blob_def by (rule save_slotsD)
  have "LATEST_SNAPSHOT_KEY \<noteq> slot_key prefix h i" by (rule slot_key_latest [symmetric])
  then show ?thesis using write_blob_read(2) [OF assms(1) wr] by (simp add: read_hash_key_def)
qed

lemma write_latest_keeps_blobs:
  assumes "kv_ok K" and "write_hash_key K LATEST_SNAPSHOT_KEY h st = (Inr (), st')"
  shows "load_hashed_blob K prefix k st' = load_hashed_blob K prefix k st"
    and "read_hash_key K LATEST_SNAPSHOT_KEY st' = Inr (Some h)"
proof -
  note read = write_blob_read [OF assms(1) assms(2) [unfolded write_hash_key_def]]
  show "load_hashed_blob K prefix k st' = load_hashed_blob K prefix k st"
    unfolding load_hashed_blob_def using read(2) slot_key_latest by (intro load_slots_cong) blast
  show "read_hash_key K LATEST_SNAPSHOT_KEY st' = Inr (Some h)"
    using read(1) by (simp add: read_hash_key_def)
qed

section \<open>The contract\<close>

definition nvs_storable :: "('vk, 'sig, 'z) store_env_scheme \<times> 'st kv_store \<Rightarrow> ('vk, 'sig) Block \<Rightarrow> bool" where
  "nvs_storable p b \<longleftrightarrow> postcard_ok (encode_block (fst p)) (decode_block (fst p)) b"

definition nvs_latest :: "('vk, 'sig, 'z) store_env_scheme \<times> 'st kv_store \<Rightarrow> 'st \<Rightarrow> BlockHash option" where
  "nvs_latest p st = (case read_hash_key (snd p) LATEST_SNAPSHOT_KEY st of Inr r \<Rightarrow> r | Inl _ \<Rightarrow> None)"

lemma nvs_save_blockD:
  assumes "nvs_save_block E K b st = (Inr (), st')"
  obtains bytes where "encode_block E b = Some bytes"
    and "save_hashed_blob K BLOCK_KEY_PREFIX (block_hash E b) bytes st = (Inr (), st')"
  using assms by (cases "encode_block E b") (auto simp: nvs_save_block_def)

lemma nvs_save_snapshotD:
  assumes "nvs_save_snapshot K h x st = (Inr (), st')"
  obtains st1 where "save_hashed_blob K SNAPSHOT_KEY_PREFIX h x st = (Inr (), st1)"
    and "write_hash_key K LATEST_SNAPSHOT_KEY h st1 = (Inr (), st')"
  using assms by (auto simp: nvs_save_snapshot_def and_then_Inr)

lemmas nvs_defs = nvs_ops_def nvs_load_block_def nvs_load_snapshot_def nvs_latest_def

lemma prefixes_differ [simp]: "BLOCK_KEY_PREFIX \<noteq> SNAPSHOT_KEY_PREFIX" "SNAPSHOT_KEY_PREFIX \<noteq> BLOCK_KEY_PREFIX"
  by (simp_all add: BLOCK_KEY_PREFIX_def SNAPSHOT_KEY_PREFIX_def)

interpretation nvs: storage_contract nvs_ops "\<lambda>p. kv_ok (snd p)" "\<lambda>p. block_hash (fst p)" nvs_storable nvs_latest
proof unfold_locales
  fix p :: "('a, 'b, 'c) store_env_scheme \<times> 'd kv_store" and b :: "('a, 'b) Block" and st st' h k x
  assume ok: "kv_ok (snd p)"
  { assume "save_block (nvs_ops p) b st = (Inr (), st')"
    then have "nvs_save_block (fst p) (snd p) b st = (Inr (), st')" by (simp add: nvs_ops_def case_prod_unfold)
    then obtain bytes where bytes: "encode_block (fst p) b = Some bytes"
      and save: "save_hashed_blob (snd p) BLOCK_KEY_PREFIX (block_hash (fst p) b) bytes st = (Inr (), st')"
      by (rule nvs_save_blockD)
    show "nvs_storable p b \<Longrightarrow> load_block (nvs_ops p) (block_hash (fst p) b) st' = Inr (Some b)"
      using load_saved_blob [OF ok save] bytes by (auto simp: nvs_defs case_prod_unfold nvs_storable_def postcard_ok_def)
    show "h \<noteq> block_hash (fst p) b \<Longrightarrow> load_block (nvs_ops p) h st' = load_block (nvs_ops p) h st"
      using load_other_blob [OF ok save] by (simp add: nvs_defs case_prod_unfold)
    show "load_snapshot (nvs_ops p) h st' = load_snapshot (nvs_ops p) h st"
      using load_other_blob [OF ok save] by (simp add: nvs_defs case_prod_unfold)
    show "nvs_latest p st' = nvs_latest p st"
      using save_blob_keeps_latest [OF ok save] by (simp add: nvs_latest_def)
  }
  { assume "save_snapshot (nvs_ops p) h x st = (Inr (), st')"
    then have "nvs_save_snapshot (snd p) h x st = (Inr (), st')" by (simp add: nvs_ops_def case_prod_unfold)
    then obtain st1 where save: "save_hashed_blob (snd p) SNAPSHOT_KEY_PREFIX h x st = (Inr (), st1)"
      and wr: "write_hash_key (snd p) LATEST_SNAPSHOT_KEY h st1 = (Inr (), st')"
      by (rule nvs_save_snapshotD)
    note keeps = write_latest_keeps_blobs [OF ok wr]
    show "load_snapshot (nvs_ops p) h st' = Inr (Some x)"
      using load_saved_blob [OF ok save] keeps(1) by (simp add: nvs_defs case_prod_unfold)
    show "k \<noteq> h \<Longrightarrow> load_snapshot (nvs_ops p) k st' = load_snapshot (nvs_ops p) k st"
      using load_other_blob [OF ok save] keeps(1) by (simp add: nvs_defs case_prod_unfold)
    show "load_block (nvs_ops p) k st' = load_block (nvs_ops p) k st"
      using load_other_blob [OF ok save] keeps(1) by (simp add: nvs_defs case_prod_unfold)
    show "nvs_latest p st' = Some h" using keeps(2) by (simp add: nvs_latest_def)
  }
  show "nvs_latest p st = Some h \<Longrightarrow> load_block (nvs_ops p) h st = Inr (Some b) \<Longrightarrow>
    load_snapshot (nvs_ops p) h st = Inr (Some x) \<Longrightarrow> load_latest_snapshot_bundle (nvs_ops p) st = Inr (Some (b, x))"
    by (auto simp: nvs_ops_def case_prod_unfold nvs_latest_def nvs_load_latest_snapshot_bundle_def split: sum.splits)
qed

section \<open>A concrete store\<close>

definition demo_kv :: "(string \<Rightarrow> byte_vec option) kv_store" where
  "demo_kv = \<lparr> kv_len = (\<lambda>st key. Inr (map_option length (st key))), kv_get_raw = (\<lambda>st key n. Inr (st key)),
     kv_set_raw = (\<lambda>key v st. (Inr True, st(key \<mapsto> v))) \<rparr>"

lemma demo_kv_ok: "kv_ok demo_kv"
  by (auto simp: kv_ok_def demo_kv_def)

lemma demo_kv_read: "read_blob demo_kv key st = Inr (st key)"
  by (cases "st key") (simp_all add: read_blob_def demo_kv_def)

lemma demo_kv_write: "write_blob demo_kv key v st = (Inr (), st(key \<mapsto> v))"
  by (simp add: write_blob_def demo_kv_def and_then_def map_err_effect_def)

lemma all_slots_Cons: "all_slots = 0 # map word_of_nat [1..<256]"
  unfolding all_slots_def by (subst upt_conv_Cons) simp_all

lemma demo_save_first: "st (slot_key prefix h 0) = None \<Longrightarrow>
    save_hashed_blob demo_kv prefix h payload st = (Inr (), st(slot_key prefix h 0 \<mapsto> encode_envelope h payload))"
  unfolding save_hashed_blob_def all_slots_Cons by (simp add: demo_kv_read demo_kv_write del: upt_conv_Cons)

definition demo_flash :: "(string \<Rightarrow> byte_vec option, u8, demo_sig) StorageManager" where
  "demo_flash = \<lparr> backend = (\<lambda>_. None), storage_event_tx = open_channel \<rparr>"

lemma demo_nvs_session: "\<exists>sm. storage_run (nvs_ops (demo_store_env, demo_kv)) demo_session demo_flash = (Inr (), sm) \<and>
    storage_event_tx sm = open_channel"
proof -
  have "slot_key SNAPSHOT_KEY_PREFIX h 0 \<noteq> slot_key BLOCK_KEY_PREFIX h 0" for h
    using slot_key_eq_iff [of SNAPSHOT_KEY_PREFIX h 0 BLOCK_KEY_PREFIX h 0] by simp
  then show ?thesis
    by (simp add: demo_session_def demo_flash_def nvs_ops_def and_then_def on_backend_def map_err_effect_def
        nvs_save_block_def nvs_save_snapshot_def demo_save_first write_hash_key_def demo_kv_write)
qed

section \<open>Properties\<close>

text \<open>
  C19: The flash storage refines the abstract store. Whatever hashes collide in their first six bytes and
  wherever the probing puts the blobs, after any sequence of storage commands that the storage
  task completed, every block and snapshot that was persisted is loaded back as it was last written,
  and the latest-snapshot bundle is the block and the bytes of the last snapshot persisted.
\<close>

theorem nvs_storage_refines:
  assumes "kv_ok K" and "\<forall>b. PersistBlockCommand b \<in> set cs \<longrightarrow> postcard_ok (encode_block E) (decode_block E) b"
    and "storage_run (nvs_ops (E, K)) cs sm = (Inr (), sm')" and "a = fold (store_command (block_hash E)) cs empty_store"
  shows "(\<forall>h b. store_blocks a h = Some b \<longrightarrow> nvs_load_block E K h (backend sm') = Inr (Some b)) \<and>
    (\<forall>h x. store_snapshots a h = Some x \<longrightarrow> nvs_load_snapshot K h (backend sm') = Inr (Some x)) \<and>
    (\<forall>h b x. store_latest a = Some h \<longrightarrow> store_blocks a h = Some b \<longrightarrow> store_snapshots a h = Some x \<longrightarrow>
       nvs_load_latest_snapshot_bundle E K (backend sm') = Inr (Some (b, x)))"
proof -
  have valid: "kv_ok (snd (E, K))" using assms(1) by simp
  have r: "nvs.refines (E, K) a (backend sm')"
    using nvs.refines_run [OF valid _ nvs.refines_empty assms(3)] assms(2,4) by (simp add: nvs_storable_def)
  have loads: "\<forall>h b. store_blocks a h = Some b \<longrightarrow> nvs_load_block E K h (backend sm') = Inr (Some b)"
    "\<forall>h x. store_snapshots a h = Some x \<longrightarrow> nvs_load_snapshot K h (backend sm') = Inr (Some x)"
    using r unfolding nvs.refines_def by (simp_all add: nvs_ops_def)
  have "nvs_load_latest_snapshot_bundle E K (backend sm') = Inr (Some (b, x))"
    if "store_latest a = Some h" "store_blocks a h = Some b" "store_snapshots a h = Some x" for h b x
    using nvs.refines_bundle [OF valid r that] by (simp add: nvs_ops_def)
  with loads show ?thesis by blast
qed

theorem nvs_storage_refines_witness:
  "\<exists>sm. storage_run (nvs_ops (demo_store_env, demo_kv)) demo_session demo_flash = (Inr (), sm) \<and>
    nvs_load_latest_snapshot_bundle demo_store_env demo_kv (backend sm) = Inr (Some (demo_child, [9]))"
proof -
  obtain sm where run: "storage_run (nvs_ops (demo_store_env, demo_kv)) demo_session demo_flash = (Inr (), sm)"
    using demo_nvs_session by blast
  have "\<forall>b. PersistBlockCommand b \<in> set demo_session \<longrightarrow>
      postcard_ok (encode_block demo_store_env) (decode_block demo_store_env) b"
    by (simp add: demo_session_def postcard_ok_def)
  from nvs_storage_refines [OF demo_kv_ok this run refl] run show ?thesis
    unfolding demo_session_store by (intro exI [of _ sm]) simp
qed

text \<open>
  Keys fit the flash. Every key the storage uses has at most the 15 characters that NVS allows;
  keys of blobs have exactly 15 and differ from the pointer key, and two of them are equal only for
  the same kind of blob and the same slot.
\<close>

theorem nvs_keys_fit:
  "length (slot_key prefix h i) = 15 \<and> length LATEST_SNAPSHOT_KEY \<le> 15 \<and> slot_key prefix h i \<noteq> LATEST_SNAPSHOT_KEY \<and>
   (slot_key prefix h i = slot_key prefix' h' j \<longleftrightarrow>
      prefix = prefix' \<and> i = j \<and> take HASH_BUCKET_BYTES (to_be 32 h) = take HASH_BUCKET_BYTES (to_be 32 h'))"
  using length_slot_key [of prefix h i] slot_key_latest [of prefix h i] slot_key_bucket [of prefix h i prefix' h' j]
  by (simp add: LATEST_SNAPSHOT_KEY_def)

text \<open>
  A full bucket. When all 256 slots of a hash's bucket hold other blobs, saving fails with the
  storage error and changes nothing.
\<close>

theorem nvs_bucket_full:
  assumes "\<forall>i. holds_other K prefix h i st"
  shows "save_hashed_blob K prefix h payload st = (Inl Storage, st)"
proof -
  have "save_slots K prefix h encoded js st = (Inl Storage, st)" for encoded js
    using assms by (induction js) (simp_all add: save_slots_passed del: save_slots.simps(2))
  then show ?thesis by (simp add: save_hashed_blob_def)
qed

theorem nvs_bucket_full_witness:
  "save_hashed_blob demo_kv BLOCK_KEY_PREFIX 1 [7] (\<lambda>_. Some (to_be 32 (2 :: bytes32)))
    = (Inl Storage, \<lambda>_. Some (to_be 32 (2 :: bytes32)))"
  by (rule nvs_bucket_full) (simp add: holds_other_def demo_kv_read)

end
