(* ===== verification/SledStorage.thy ===== *)
theory SledStorage
  imports StorageContract
begin

text \<open>
  The storage of the host runtime (\<open>SledStorage\<close> of \<open>rp-runtime/src/storage/manager.rs\<close>): one tree of
  blocks, one of snapshots and one for the latest-snapshot pointer, in a sled database. The database is the
  parameter \<open>D\<close>; \<open>sled_ok\<close> is what its documentation says: after an insert that succeeded the key of
  that tree has the value and every other key of every tree reads as before, and a flush changes no
  value.
\<close>

section \<open>The database\<close>

datatype sled_tree = MetaTree | BlocksTree | SnapshotsTree

record 'st sled_db =
  sled_get :: "sled_tree \<Rightarrow> byte_vec \<Rightarrow> 'st \<Rightarrow> (string, byte_vec option) result"
  sled_insert :: "sled_tree \<Rightarrow> byte_vec \<Rightarrow> byte_vec \<Rightarrow> ('st, string, byte_vec option) effect"
  sled_flush :: "('st, string, nat) effect"

definition sled_ok :: "'st sled_db \<Rightarrow> bool" where
  "sled_ok D \<longleftrightarrow>
     (\<forall>t key v st old st'. sled_insert D t key v st = (Inr old, st') \<longrightarrow>
        sled_get D t key st' = Inr (Some v) \<and>
        (\<forall>t' key'. (t', key') \<noteq> (t, key) \<longrightarrow> sled_get D t' key' st' = sled_get D t' key' st)) \<and>
     (\<forall>st n st' t key. sled_flush D st = (Inr n, st') \<longrightarrow> sled_get D t key st' = sled_get D t key st)"

section \<open>The operations\<close>

definition SLED_LATEST_SNAPSHOT_KEY :: byte_vec where
  "SLED_LATEST_SNAPSHOT_KEY = map (\<lambda>c. of_char c) ''latest_snapshot''"

definition sled_map_storage_error :: "'e \<Rightarrow> ContractError" where
  "sled_map_storage_error e = Storage"

definition flush_db :: "'st sled_db \<Rightarrow> ('st, ContractError, unit) effect" where
  "flush_db D = and_then (map_err_effect sled_map_storage_error (sled_flush D)) (\<lambda>_. done_with ())"

definition sled_save_block ::
  "('vk, 'sig, 'z) store_env_scheme \<Rightarrow> 'st sled_db \<Rightarrow> ('vk, 'sig) Block \<Rightarrow> ('st, ContractError, unit) effect" where
  "sled_save_block E D b =
     and_then (of_result (ok_or Storage (encode_block E b)))
       (\<lambda>block_bytes. and_then (map_err_effect sled_map_storage_error
            (sled_insert D BlocksTree (to_be 32 (block_hash E b)) block_bytes))
          (\<lambda>_. flush_db D))"

definition sled_load_block ::
  "('vk, 'sig, 'z) store_env_scheme \<Rightarrow> 'st sled_db \<Rightarrow> BlockHash \<Rightarrow> 'st \<Rightarrow> (ContractError, ('vk, 'sig) Block option) result" where
  "sled_load_block E D h st =
     bind_result (map_err sled_map_storage_error (sled_get D BlocksTree (to_be 32 h) st))
       (\<lambda>r. case r of
          None \<Rightarrow> Inr None
        | Some block_bytes \<Rightarrow>
            bind_result (ok_or Storage (decode_block E block_bytes))
              (\<lambda>b. if block_hash E b \<noteq> h then Inl Storage else Inr (Some b)))"

definition sled_save_snapshot :: "'st sled_db \<Rightarrow> BlockHash \<Rightarrow> byte_vec \<Rightarrow> ('st, ContractError, unit) effect" where
  "sled_save_snapshot D h state_bytes =
     and_then (map_err_effect sled_map_storage_error (sled_insert D SnapshotsTree (to_be 32 h) state_bytes))
       (\<lambda>_. and_then (map_err_effect sled_map_storage_error
            (sled_insert D MetaTree SLED_LATEST_SNAPSHOT_KEY (to_be 32 h)))
          (\<lambda>_. flush_db D))"

definition sled_load_snapshot :: "'st sled_db \<Rightarrow> BlockHash \<Rightarrow> 'st \<Rightarrow> (ContractError, byte_vec option) result" where
  "sled_load_snapshot D h st = map_err sled_map_storage_error (sled_get D SnapshotsTree (to_be 32 h) st)"

definition sled_load_latest_snapshot_bundle ::
  "('vk, 'sig, 'z) store_env_scheme \<Rightarrow> 'st sled_db \<Rightarrow> 'st \<Rightarrow> (ContractError, (('vk, 'sig) Block \<times> byte_vec) option) result" where
  "sled_load_latest_snapshot_bundle E D st =
     bind_result (map_err sled_map_storage_error (sled_get D MetaTree SLED_LATEST_SNAPSHOT_KEY st))
       (\<lambda>r. case r of
          None \<Rightarrow> Inr None
        | Some bytes \<Rightarrow>
            if length bytes = 32
            then
              (let h = from_be bytes
               in bind_result (sled_load_block E D h st)
                    (\<lambda>lb. case lb of
                       None \<Rightarrow> Inr None
                     | Some b \<Rightarrow>
                         bind_result (sled_load_snapshot D h st)
                           (\<lambda>ls. case ls of
                              None \<Rightarrow> Inr None
                            | Some state_bytes \<Rightarrow> Inr (Some (b, state_bytes)))))
            else Inr None)"

definition sled_ops :: "('vk, 'sig, 'z) store_env_scheme \<times> 'st sled_db \<Rightarrow> ('st, 'vk, 'sig) storage_ops" where
  "sled_ops = (\<lambda>(E, D). \<lparr> save_block = sled_save_block E D, load_block = sled_load_block E D,
     save_snapshot = sled_save_snapshot D, load_snapshot = sled_load_snapshot D,
     load_latest_snapshot_bundle = sled_load_latest_snapshot_bundle E D \<rparr>)"

section \<open>The contract\<close>

lemma sled_insert_get:
  assumes "sled_ok D" and "sled_insert D t key v st = (Inr old, st')"
  shows "sled_get D t' key' st' = (if t' = t \<and> key' = key then Inr (Some v) else sled_get D t' key' st)"
proof -
  have ok: "sled_get D t key st' = Inr (Some v)"
    "\<forall>t' key'. (t', key') \<noteq> (t, key) \<longrightarrow> sled_get D t' key' st' = sled_get D t' key' st"
    using assms unfolding sled_ok_def by blast+
  then show ?thesis by simp
qed

lemma flush_db_get:
  assumes "sled_ok D" and "flush_db D st = (Inr (), st')"
  shows "sled_get D t key st' = sled_get D t key st"
  using assms unfolding sled_ok_def flush_db_def by (auto simp: and_then_Inr)

lemma sled_save_blockD:
  assumes "sled_ok D" and "sled_save_block E D b st = (Inr (), st')"
  obtains bytes where "encode_block E b = Some bytes"
    and "\<And>t key. sled_get D t key st' =
      (if t = BlocksTree \<and> key = to_be 32 (block_hash E b) then Inr (Some bytes) else sled_get D t key st)"
proof -
  obtain bytes old st1 where bytes: "encode_block E b = Some bytes"
    and ins: "sled_insert D BlocksTree (to_be 32 (block_hash E b)) bytes st = (Inr old, st1)"
    and fl: "flush_db D st1 = (Inr (), st')"
    using assms(2) by (auto simp: sled_save_block_def and_then_Inr)
  show thesis by (rule that [OF bytes]) (simp add: flush_db_get [OF assms(1) fl] sled_insert_get [OF assms(1) ins])
qed

lemma sled_save_snapshotD:
  assumes "sled_ok D" and "sled_save_snapshot D h x st = (Inr (), st')"
  shows "sled_get D t key st' =
    (if t = MetaTree \<and> key = SLED_LATEST_SNAPSHOT_KEY then Inr (Some (to_be 32 h))
     else if t = SnapshotsTree \<and> key = to_be 32 h then Inr (Some x) else sled_get D t key st)"
proof -
  obtain old st1 old2 st2 where ins: "sled_insert D SnapshotsTree (to_be 32 h) x st = (Inr old, st1)"
    and ins2: "sled_insert D MetaTree SLED_LATEST_SNAPSHOT_KEY (to_be 32 h) st1 = (Inr old2, st2)"
    and fl: "flush_db D st2 = (Inr (), st')"
    using assms(2) by (auto simp: sled_save_snapshot_def and_then_Inr)
  show ?thesis
    by (simp add: flush_db_get [OF assms(1) fl] sled_insert_get [OF assms(1) ins2] sled_insert_get [OF assms(1) ins])
qed

definition sled_storable :: "('vk, 'sig, 'z) store_env_scheme \<times> 'st sled_db \<Rightarrow> ('vk, 'sig) Block \<Rightarrow> bool" where
  "sled_storable p b \<longleftrightarrow> postcard_ok (encode_block (fst p)) (decode_block (fst p)) b"

definition sled_latest :: "('vk, 'sig, 'z) store_env_scheme \<times> 'st sled_db \<Rightarrow> 'st \<Rightarrow> BlockHash option" where
  "sled_latest p st = (case sled_get (snd p) MetaTree SLED_LATEST_SNAPSHOT_KEY st of
     Inr (Some bytes) \<Rightarrow> if length bytes = 32 then Some (from_be bytes) else None | _ \<Rightarrow> None)"

lemmas sled_defs = sled_ops_def sled_load_block_def sled_load_snapshot_def sled_latest_def

interpretation sled: storage_contract sled_ops "\<lambda>p. sled_ok (snd p)" "\<lambda>p. block_hash (fst p)" sled_storable sled_latest
proof unfold_locales
  fix p :: "('a, 'b, 'c) store_env_scheme \<times> 'd sled_db" and b :: "('a, 'b) Block" and st st' h k x
  assume ok: "sled_ok (snd p)"
  { assume "save_block (sled_ops p) b st = (Inr (), st')"
    then have "sled_save_block (fst p) (snd p) b st = (Inr (), st')" by (simp add: sled_ops_def case_prod_unfold)
    with ok obtain bytes where bytes: "encode_block (fst p) b = Some bytes" and get: "\<And>t key. sled_get (snd p) t key st' =
      (if t = BlocksTree \<and> key = to_be 32 (block_hash (fst p) b) then Inr (Some bytes) else sled_get (snd p) t key st)"
      by (rule sled_save_blockD) (rule that)
    show "sled_storable p b \<Longrightarrow> load_block (sled_ops p) (block_hash (fst p) b) st' = Inr (Some b)"
      using bytes by (auto simp: sled_defs case_prod_unfold sled_storable_def postcard_ok_def get)
    show "h \<noteq> block_hash (fst p) b \<Longrightarrow> load_block (sled_ops p) h st' = load_block (sled_ops p) h st"
      by (simp add: sled_defs case_prod_unfold get)
    show "load_snapshot (sled_ops p) h st' = load_snapshot (sled_ops p) h st"
      by (simp add: sled_defs case_prod_unfold get)
    show "sled_latest p st' = sled_latest p st" by (simp add: sled_latest_def get)
  }
  { assume "save_snapshot (sled_ops p) h x st = (Inr (), st')"
    then have "sled_save_snapshot (snd p) h x st = (Inr (), st')" by (simp add: sled_ops_def case_prod_unfold)
    note get = sled_save_snapshotD [OF ok this]
    show "load_snapshot (sled_ops p) h st' = Inr (Some x)" by (simp add: sled_defs case_prod_unfold get)
    show "k \<noteq> h \<Longrightarrow> load_snapshot (sled_ops p) k st' = load_snapshot (sled_ops p) k st"
      by (simp add: sled_defs case_prod_unfold get)
    show "load_block (sled_ops p) k st' = load_block (sled_ops p) k st" by (simp add: sled_defs case_prod_unfold get)
    show "sled_latest p st' = Some h" by (simp add: sled_latest_def get)
  }
  show "sled_latest p st = Some h \<Longrightarrow> load_block (sled_ops p) h st = Inr (Some b) \<Longrightarrow>
    load_snapshot (sled_ops p) h st = Inr (Some x) \<Longrightarrow> load_latest_snapshot_bundle (sled_ops p) st = Inr (Some (b, x))"
    by (auto simp: sled_ops_def case_prod_unfold sled_latest_def sled_load_latest_snapshot_bundle_def Let_def
        split: sum.splits option.splits if_splits)
qed

section \<open>Properties\<close>

text \<open>
  C22: The host storage refines the abstract store, and what a restart gets. After any sequence of
  storage commands that the storage task completed, the blocks and snapshots that were persisted are
  loaded back as last written, and a restart that asks for the latest snapshot is sent the event with
  the block and the bytes of the last snapshot persisted.
\<close>

theorem sled_storage_refines:
  assumes "sled_ok D" and "\<forall>b. PersistBlockCommand b \<in> set cs \<longrightarrow> postcard_ok (encode_block E) (decode_block E) b"
    and "host_storage_run (sled_ops (E, D)) cs sm = (Inr (), sm')" and "a = fold (store_command (block_hash E)) cs empty_store"
  shows "(\<forall>h b. store_blocks a h = Some b \<longrightarrow> sled_load_block E D h (backend sm') = Inr (Some b)) \<and>
    (\<forall>h x. store_snapshots a h = Some x \<longrightarrow> sled_load_snapshot D h (backend sm') = Inr (Some x)) \<and>
    (\<forall>h b x. store_latest a = Some h \<longrightarrow> store_blocks a h = Some b \<longrightarrow> store_snapshots a h = Some x \<longrightarrow>
       \<not> receiver_dropped (storage_event_tx sm') \<longrightarrow>
       (\<exists>sm''. host_storage_command (sled_ops (E, D)) LoadLatestSnapshotCommand sm' = (Inr (), sm'') \<and>
          sent (storage_event_tx sm'') = sent (storage_event_tx sm') @ [LatestSnapshotLoadedEvent (Some b) (Some x)]))"
proof -
  have valid: "sled_ok (snd (E, D))" using assms(1) by simp
  have storable: "\<forall>b. PersistBlockCommand b \<in> set cs \<longrightarrow> sled_storable (E, D) b"
    using assms(2) by (simp add: sled_storable_def)
  have run: "storage_run (sled_ops (E, D)) cs sm = (Inr (), sm')"
    using assms(3) host_storage_run_eq [of "sled_ops (E, D)" cs sm] by (auto simp: prod_eq_iff)
  have r: "sled.refines (E, D) a (backend sm')"
    using sled.refines_run [OF valid storable sled.refines_empty run] assms(4) by simp
  have loads: "\<forall>h b. store_blocks a h = Some b \<longrightarrow> sled_load_block E D h (backend sm') = Inr (Some b)"
    "\<forall>h x. store_snapshots a h = Some x \<longrightarrow> sled_load_snapshot D h (backend sm') = Inr (Some x)"
    using r unfolding sled.refines_def by (simp_all add: sled_ops_def)
  have "\<exists>sm''. host_storage_command (sled_ops (E, D)) LoadLatestSnapshotCommand sm' = (Inr (), sm'') \<and>
      sent (storage_event_tx sm'') = sent (storage_event_tx sm') @ [LatestSnapshotLoadedEvent (Some b) (Some x)]"
    if "store_latest a = Some h" "store_blocks a h = Some b" "store_snapshots a h = Some x"
      "\<not> receiver_dropped (storage_event_tx sm')" for h b x
  proof -
    note latest = that
    obtain sm'' where "storage_command (sled_ops (E, D)) LoadLatestSnapshotCommand sm' = (Inr (), sm'')"
      "sent (storage_event_tx sm'') = sent (storage_event_tx sm') @ [LatestSnapshotLoadedEvent (Some b) (Some x)]"
      using sled.restart_bundle [OF valid storable run _ latest] assms(4) by auto
    then show ?thesis
      using host_storage_command_eq [of "sled_ops (E, D)" LoadLatestSnapshotCommand sm'] by (metis fst_conv map_err_simps(2) snd_conv)
  qed
  with loads show ?thesis by blast
qed

definition demo_db :: "(sled_tree \<times> byte_vec \<Rightarrow> byte_vec option) sled_db" where
  "demo_db = \<lparr> sled_get = (\<lambda>t key st. Inr (st (t, key))),
     sled_insert = (\<lambda>t key v st. (Inr (st (t, key)), st((t, key) \<mapsto> v))), sled_flush = (\<lambda>st. (Inr 0, st)) \<rparr>"

lemma demo_db_ok: "sled_ok demo_db"
  by (auto simp: sled_ok_def demo_db_def)

theorem sled_storage_refines_witness:
  "\<exists>sm'. host_storage_run (sled_ops (demo_store_env, demo_db)) demo_session
      \<lparr> backend = (\<lambda>_. None), storage_event_tx = open_channel \<rparr> = (Inr (), sm') \<and>
    sled_load_block demo_store_env demo_db (block_hash demo_store_env demo_child) (backend sm') = Inr (Some demo_child)"
proof -
  obtain sm' where run: "host_storage_run (sled_ops (demo_store_env, demo_db)) demo_session
      \<lparr> backend = (\<lambda>_. None), storage_event_tx = open_channel \<rparr> = (Inr (), sm')"
    by (simp add: demo_session_def sled_ops_def and_then_def on_backend_def map_err_effect_def sled_save_block_def
        sled_save_snapshot_def flush_db_def demo_db_def)
  have "\<forall>b. PersistBlockCommand b \<in> set demo_session \<longrightarrow>
      postcard_ok (encode_block demo_store_env) (decode_block demo_store_env) b"
    by (simp add: demo_session_def postcard_ok_def)
  from sled_storage_refines [OF demo_db_ok this run refl] run show ?thesis
    unfolding demo_session_store by (intro exI [of _ sm']) simp
qed

end
