(* ===== verification/NodeHello.thy ===== *)
theory NodeHello
  imports Framing DemoNet
begin

text \<open>
  The identities of a node and the message that binds them to a connection.

  \<^item> \<open>erp-runtime/src/identity/manager.rs\<close>: the node identity, a P-256 key in software or in the efuse
    block. Its hardware calls are the function inside \<open>EfuseKey\<close>.
  \<^item> \<open>erp-runtime/src/network/protocol/node_hello.rs\<close>: the hello that carries the node key, its hash, the
    transport peer id and the limits of the peer, signed by the node key; its builder and its verifier.
  \<^item> \<open>erp-runtime/src/runtime/block_signing.rs\<close>: a block signed with the node identity.

  Postcard encoders, signature parsing and signing are parameters (\<open>hello_env\<close> and the functions in the
  identity).
\<close>

section \<open>Data\<close>

record PeerCapabilities =
  supports_sync_v1 :: bool
  supports_announce_v1 :: bool
  supports_ping :: bool

record NodeHello =
  hello_version :: u16
  node_public_key :: byte_vec
  hello_node_peer_id :: PeerId
  hello_transport_peer_id :: byte_vec
  hello_max_frame_len :: u32
  hello_max_blocks_per_chunk :: u16
  hello_capabilities :: PeerCapabilities
  hello_signature :: byte_vec

datatype NodeHelloRejectReason =
    VersionMismatch | InvalidHelloSignature | PeerIdMismatch | TransportBindingMismatch | UnsupportedRequiredProtocol

record NodeHelloResponse =
  hello_accepted :: bool
  hello_remote :: NodeHello
  hello_reject_reason :: "NodeHelloRejectReason option"

record NodeHelloTranscript =
  transcript_version :: u16
  transcript_node_peer_id :: PeerId
  transcript_transport_peer_id :: byte_vec
  transcript_max_frame_len :: u32
  transcript_max_blocks_per_chunk :: u16
  transcript_capabilities :: PeerCapabilities

record VerifiedPeer =
  verified_node_peer_id :: PeerId
  verified_public_key :: byte_vec
  verified_transport_peer_id :: byte_vec
  verified_max_frame_len :: u32
  verified_max_blocks_per_chunk :: u16
  verified_capabilities :: PeerCapabilities

record ('vk, 'sig) hello_env = "('vk, 'sig) net" +
  sig_from_slice :: "byte_vec \<Rightarrow> 'sig option"
  sig_to_bytes :: "'sig \<Rightarrow> byte_vec"
  postcard_transcript :: "NodeHelloTranscript \<Rightarrow> byte_vec option"
  encode_hello :: "NodeHello \<Rightarrow> byte_vec option"
  decode_hello :: "byte_vec \<Rightarrow> NodeHello option"
  encode_hello_response :: "NodeHelloResponse \<Rightarrow> byte_vec option"
  decode_hello_response :: "byte_vec \<Rightarrow> NodeHelloResponse option"

section \<open>The node identity\<close>

datatype 'sig IdentityBackend = SoftwareKey "byte_vec \<Rightarrow> 'sig" | EfuseKey "byte_vec \<Rightarrow> (string, 'sig) result"

record ('vk, 'sig) IdentityManager =
  peer_id :: PeerId
  public_key :: byte_vec
  id_verifying_key :: 'vk
  id_backend :: "'sig IdentityBackend"

definition from_software_signing_key ::
  "('vk, 'sig, 'z) hello_env_scheme \<Rightarrow> 'vk \<Rightarrow> (byte_vec \<Rightarrow> 'sig) \<Rightarrow> ('vk, 'sig) IdentityManager" where
  "from_software_signing_key E verifying_key signing =
     (let pk = verifying_key_bytes E verifying_key
      in \<lparr> peer_id = hash E pk, public_key = pk, id_verifying_key = verifying_key, id_backend = SoftwareKey signing \<rparr>)"

definition from_efuse_block ::
  "('vk, 'sig, 'z) hello_env_scheme \<Rightarrow> (string, 'vk) result \<Rightarrow> (byte_vec \<Rightarrow> (string, 'sig) result)
    \<Rightarrow> (RuntimeError, ('vk, 'sig) IdentityManager) result" where
  "from_efuse_block E loaded_key signing =
     bind_result (map_err Crypto loaded_key)
       (\<lambda>verifying_key.
          let pk = verifying_key_bytes E verifying_key
          in Inr \<lparr> peer_id = hash E pk, public_key = pk, id_verifying_key = verifying_key, id_backend = EfuseKey signing \<rparr>)"

definition identity_sign ::
  "('vk, 'sig, 'z) hello_env_scheme \<Rightarrow> ('vk, 'sig) IdentityManager \<Rightarrow> byte_vec \<Rightarrow> (ContractError, byte_vec) result" where
  "identity_sign E identity message =
     bind_result
       (case id_backend identity of
          SoftwareKey signing \<Rightarrow> Inr (signing message)
        | EfuseKey signing \<Rightarrow> map_err (\<lambda>_. Identity) (signing message))
       (\<lambda>signature. Inr (sig_to_bytes E signature))"

definition ESP32P4_ECDSA_MIN_SUPPORTED_CHIP_REVISION :: u16 where
  "ESP32P4_ECDSA_MIN_SUPPORTED_CHIP_REVISION = 300"

definition unsupported_esp32p4_ecdsa_revision :: "u16 \<Rightarrow> (u16 \<times> u16) option" where
  "unsupported_esp32p4_ecdsa_revision chip_revision =
     (if chip_revision \<ge> ESP32P4_ECDSA_MIN_SUPPORTED_CHIP_REVISION then None
      else Some (chip_revision div 100, chip_revision mod 100))"

definition try_efuse ::
  "('vk, 'sig, 'z) hello_env_scheme \<Rightarrow> (string, 'b) result \<Rightarrow> u16 \<Rightarrow> ('b \<Rightarrow> (string, 'vk) result)
    \<Rightarrow> ('b \<Rightarrow> byte_vec \<Rightarrow> (string, 'sig) result) \<Rightarrow> (RuntimeError, ('vk, 'sig) IdentityManager option) result" where
  "try_efuse E found_block chip_revision load_key signing =
     (case found_block of
        Inr key_block \<Rightarrow>
          (case unsupported_esp32p4_ecdsa_revision chip_revision of
             Some (major, minor) \<Rightarrow> Inr None
           | None \<Rightarrow> bind_result (from_efuse_block E (load_key key_block) (signing key_block)) (\<lambda>i. Inr (Some i)))
      | Inl error \<Rightarrow>
          (if error = ''no efuse key with ECDSA_KEY purpose found'' then Inr None else Inl (Crypto error)))"

definition select_identity ::
  "('vk, 'sig, 'z) hello_env_scheme \<Rightarrow> (string, 'b) result \<Rightarrow> u16 \<Rightarrow> ('b \<Rightarrow> (string, 'vk) result)
    \<Rightarrow> ('b \<Rightarrow> byte_vec \<Rightarrow> (string, 'sig) result) \<Rightarrow> (string, 'vk \<times> (byte_vec \<Rightarrow> 'sig)) result
    \<Rightarrow> (RuntimeError, ('vk, 'sig) IdentityManager) result" where
  "select_identity E found_block chip_revision load_key signing development_key =
     bind_result (try_efuse E found_block chip_revision load_key signing)
       (\<lambda>i. case i of
          Some identity \<Rightarrow> Inr identity
        | None \<Rightarrow>
            bind_result (map_err Crypto development_key)
              (\<lambda>(verifying_key, sign_with). Inr (from_software_signing_key E verifying_key sign_with)))"

section \<open>Building and verifying a hello\<close>

definition encode_transcript :: "('vk, 'sig, 'z) hello_env_scheme \<Rightarrow> NodeHelloTranscript \<Rightarrow> (RuntimeError, byte_vec) result" where
  "encode_transcript E transcript =
     ok_or (Crypto ''failed to serialize node hello transcript'') (postcard_transcript E transcript)"

definition NodeHelloBuilder_build ::
  "('vk, 'sig, 'z) hello_env_scheme \<Rightarrow> ('vk, 'sig) IdentityManager \<Rightarrow> byte_vec \<Rightarrow> u32 \<Rightarrow> u16 \<Rightarrow> PeerCapabilities
    \<Rightarrow> (RuntimeError, NodeHello) result" where
  "NodeHelloBuilder_build E identity transport_peer_id max_frame_len max_blocks_per_chunk capabilities =
     (let transcript = \<lparr> transcript_version = 1, transcript_node_peer_id = peer_id identity,
            transcript_transport_peer_id = transport_peer_id, transcript_max_frame_len = max_frame_len,
            transcript_max_blocks_per_chunk = max_blocks_per_chunk, transcript_capabilities = capabilities \<rparr>
      in bind_result (encode_transcript E transcript)
        (\<lambda>transcript_bytes. bind_result (map_err ContractFailure (identity_sign E identity transcript_bytes))
          (\<lambda>signature. Inr \<lparr> hello_version = transcript_version transcript, node_public_key = public_key identity,
             hello_node_peer_id = peer_id identity, hello_transport_peer_id = transport_peer_id,
             hello_max_frame_len = max_frame_len, hello_max_blocks_per_chunk = max_blocks_per_chunk,
             hello_capabilities = capabilities, hello_signature = signature \<rparr>)))"

definition hello_transcript :: "NodeHello \<Rightarrow> NodeHelloTranscript" where
  "hello_transcript remote =
     \<lparr> transcript_version = hello_version remote, transcript_node_peer_id = hello_node_peer_id remote,
       transcript_transport_peer_id = hello_transport_peer_id remote,
       transcript_max_frame_len = hello_max_frame_len remote,
       transcript_max_blocks_per_chunk = hello_max_blocks_per_chunk remote,
       transcript_capabilities = hello_capabilities remote \<rparr>"

definition NodeHelloVerifier_verify ::
  "('vk, 'sig, 'z) hello_env_scheme \<Rightarrow> NodeHello \<Rightarrow> byte_vec \<Rightarrow> (RuntimeError, VerifiedPeer) result" where
  "NodeHelloVerifier_verify E remote authenticated_transport_peer =
     (if hello_transport_peer_id remote \<noteq> authenticated_transport_peer
      then Inl (Config ''node hello transport peer id does not match authenticated session peer'')
      else if hash E (node_public_key remote) \<noteq> hello_node_peer_id remote
      then Inl (Config ''node hello peer id does not match node public key'')
      else if length (node_public_key remote) \<noteq> PUBLIC_KEY_SIZE
      then Inl (Config ''node hello public key must be a compressed 33-byte P-256 key'')
      else
        bind_result (map_err Crypto (verifying_key_from_bytes E (from_be (node_public_key remote))))
          (\<lambda>verifying_key. bind_result (encode_transcript E (hello_transcript remote))
            (\<lambda>transcript_bytes. bind_result (ok_or (Crypto ''invalid node hello signature bytes'')
                (sig_from_slice E (hello_signature remote)))
              (\<lambda>signature.
                 if \<not> ecdsa_verify E verifying_key transcript_bytes signature
                 then Inl (Config ''node hello signature verification failed'')
                 else Inr \<lparr> verified_node_peer_id = hello_node_peer_id remote,
                   verified_public_key = node_public_key remote,
                   verified_transport_peer_id = hello_transport_peer_id remote,
                   verified_max_frame_len = hello_max_frame_len remote,
                   verified_max_blocks_per_chunk = hello_max_blocks_per_chunk remote,
                   verified_capabilities = hello_capabilities remote \<rparr>))))"

definition node_hello_reject_reason :: "RuntimeError \<Rightarrow> NodeHelloRejectReason" where
  "node_hello_reject_reason error =
     (case error of
        Config message \<Rightarrow>
          (if message = ''node hello transport peer id does not match authenticated session peer''
           then TransportBindingMismatch
           else if message = ''node hello peer id does not match node public key'' then PeerIdMismatch
           else InvalidHelloSignature)
      | Crypto _ \<Rightarrow> InvalidHelloSignature
      | _ \<Rightarrow> InvalidHelloSignature)"

section \<open>Signed blocks\<close>

definition identity_verifying_key ::
  "('vk, 'sig, 'z) hello_env_scheme \<Rightarrow> ('vk, 'sig) IdentityManager \<Rightarrow> (RuntimeError, 'vk) result" where
  "identity_verifying_key E identity =
     (if length (public_key identity) \<noteq> PUBLIC_KEY_SIZE then Inl (ContractFailure Identity)
      else map_err (\<lambda>_. ContractFailure Identity) (verifying_key_from_bytes E (from_be (public_key identity))))"

definition identity_signature ::
  "('vk, 'sig, 'z) hello_env_scheme \<Rightarrow> ('vk, 'sig) IdentityManager \<Rightarrow> byte_vec \<Rightarrow> (RuntimeError, 'sig) result" where
  "identity_signature E identity message =
     bind_result (map_err ContractFailure (identity_sign E identity message))
       (\<lambda>signature_bytes. ok_or (ContractFailure Identity) (sig_from_slice E signature_bytes))"

definition build_signed_block ::
  "('vk, 'sig, 'z) hello_env_scheme \<Rightarrow> ('vk, 'sig) Block \<Rightarrow> u64 \<Rightarrow> ('vk, 'sig) Transaction list \<Rightarrow> ('vk, 'sig) SlashProof list
    \<Rightarrow> bytes32 \<Rightarrow> ('vk, 'sig) IdentityManager \<Rightarrow> (RuntimeError, ('vk, 'sig) Block) result exec" where
  "build_signed_block E parent sl ts proofs root identity = do {
     h \<leftarrow> add_u64 (overflow_checks E) (height parent) 1;
     Some (bind_result (identity_verifying_key E identity)
       (\<lambda>verifying_key.
          let unsigned = Block h sl (block_hash E parent) verifying_key ts None proofs root
          in bind_result (identity_signature E identity (to_be 32 (block_hash E unsigned)))
            (\<lambda>signature. Inr (Block h sl (block_hash E parent) verifying_key ts (Some signature) proofs root)))) }"

section \<open>What an identity signs verifies\<close>

definition signatures_ok :: "('vk, 'sig, 'z) hello_env_scheme \<Rightarrow> bool" where
  "signatures_ok E \<longleftrightarrow> (\<forall>sg. sig_from_slice E (sig_to_bytes E sg) = Some sg)"

definition backend_signs :: "'sig IdentityBackend \<Rightarrow> byte_vec \<Rightarrow> 'sig \<Rightarrow> bool" where
  "backend_signs backend message sg \<longleftrightarrow>
     (case backend of SoftwareKey signing \<Rightarrow> sg = signing message | EfuseKey signing \<Rightarrow> signing message = Inr sg)"

definition identity_ok :: "('vk, 'sig, 'z) hello_env_scheme \<Rightarrow> ('vk, 'sig) IdentityManager \<Rightarrow> bool" where
  "identity_ok E identity \<longleftrightarrow>
     public_key identity = verifying_key_bytes E (id_verifying_key identity) \<and>
     peer_id identity = hash E (public_key identity) \<and>
     (\<forall>message sg. backend_signs (id_backend identity) message sg \<longrightarrow>
        ecdsa_verify E (id_verifying_key identity) message sg)"

lemma software_identity_ok:
  "(\<And>message. ecdsa_verify E vk message (signing message)) \<Longrightarrow> identity_ok E (from_software_signing_key E vk signing)"
  by (simp add: identity_ok_def from_software_signing_key_def backend_signs_def Let_def)

lemma efuse_identity_ok:
  assumes "from_efuse_block E (Inr vk) signing = Inr identity"
    and "\<And>message sg. signing message = Inr sg \<Longrightarrow> ecdsa_verify E vk message sg"
  shows "identity_ok E identity"
  using assms by (auto simp: identity_ok_def from_efuse_block_def backend_signs_def Let_def)

lemma identity_signD:
  assumes "identity_sign E identity message = Inr bytes" and "identity_ok E identity" and "signatures_ok E"
  obtains sg where "sig_from_slice E bytes = Some sg" and "ecdsa_verify E (id_verifying_key identity) message sg"
proof -
  obtain sg where "backend_signs (id_backend identity) message sg" and "bytes = sig_to_bytes E sg"
    using assms(1)
    by (auto simp: identity_sign_def backend_signs_def bind_result_Inr split: IdentityBackend.split_asm)
  then show thesis using that assms(2,3) by (auto simp: identity_ok_def signatures_ok_def)
qed

lemma identity_key_parses:
  assumes "sec1_ok E" and "identity_ok E identity"
  shows "length (public_key identity) = PUBLIC_KEY_SIZE"
    and "verifying_key_from_bytes E (from_be (public_key identity)) = Inr (id_verifying_key identity)"
  using assms
  by (simp_all add: identity_ok_def verifying_key_bytes_def verifying_key_to_bytes_def verifying_key_from_bytes_def
      sec1_ok_def PUBLIC_KEY_SIZE_def)

definition peer_of_hello :: "NodeHello \<Rightarrow> VerifiedPeer" where
  "peer_of_hello h = \<lparr> verified_node_peer_id = hello_node_peer_id h, verified_public_key = node_public_key h,
     verified_transport_peer_id = hello_transport_peer_id h, verified_max_frame_len = hello_max_frame_len h,
     verified_max_blocks_per_chunk = hello_max_blocks_per_chunk h, verified_capabilities = hello_capabilities h \<rparr>"

lemma build_verifies:
  assumes "sec1_ok E" and "signatures_ok E" and "identity_ok E identity"
    and "NodeHelloBuilder_build E identity tpid frame_len chunk caps = Inr h"
  shows "NodeHelloVerifier_verify E h tpid = Inr (peer_of_hello h)"
    and "hello_node_peer_id h = peer_id identity" and "hello_transport_peer_id h = tpid"
proof -
  obtain bytes signature where enc: "encode_transcript E (hello_transcript h) = Inr bytes"
    and sig: "identity_sign E identity bytes = Inr signature" and "hello_signature h = signature"
    and h: "hello_node_peer_id h = peer_id identity" "hello_transport_peer_id h = tpid"
      "node_public_key h = public_key identity"
    using assms(4)
    by (auto simp: NodeHelloBuilder_build_def Let_def bind_result_Inr hello_transcript_def)
  obtain sg where "sig_from_slice E signature = Some sg" "ecdsa_verify E (id_verifying_key identity) bytes sg"
    using identity_signD [OF sig assms(3,2)] .
  then show "NodeHelloVerifier_verify E h tpid = Inr (peer_of_hello h)"
    using identity_key_parses [OF assms(1,3)] enc h \<open>hello_signature h = signature\<close> assms(3)
    by (simp add: NodeHelloVerifier_verify_def peer_of_hello_def identity_ok_def)
  show "hello_node_peer_id h = peer_id identity" "hello_transport_peer_id h = tpid" by (fact h)+
qed

text \<open>What a verified hello says: who signed it, for which transport peer and with which limits.\<close>

definition hello_signed_by_key :: "('vk, 'sig, 'z) hello_env_scheme \<Rightarrow> NodeHello \<Rightarrow> bool" where
  "hello_signed_by_key E h \<longleftrightarrow>
     (\<exists>vk bytes sg. from_sec1_bytes E (from_be (node_public_key h)) = Some vk \<and> length (node_public_key h) = 33 \<and>
        postcard_transcript E (hello_transcript h) = Some bytes \<and> sig_from_slice E (hello_signature h) = Some sg \<and>
        ecdsa_verify E vk bytes sg)"

lemma verify_sound:
  assumes "NodeHelloVerifier_verify E h auth = Inr v"
  shows "v = peer_of_hello h \<and> hello_transport_peer_id h = auth \<and>
    hello_node_peer_id h = hash E (node_public_key h) \<and> hello_signed_by_key E h"
  using assms
  by (auto simp: NodeHelloVerifier_verify_def bind_result_Inr hello_signed_by_key_def peer_of_hello_def
      encode_transcript_def verifying_key_from_bytes_def PUBLIC_KEY_SIZE_def split: if_splits option.splits)

lemma reject_reasons:
  assumes "NodeHelloVerifier_verify E h auth = Inl e"
  shows "node_hello_reject_reason e =
    (if hello_transport_peer_id h \<noteq> auth then TransportBindingMismatch
     else if hello_node_peer_id h \<noteq> hash E (node_public_key h) then PeerIdMismatch else InvalidHelloSignature)"
  using assms
  by (auto simp: NodeHelloVerifier_verify_def node_hello_reject_reason_def encode_transcript_def
      bind_result_def ok_or_def map_err_def split: if_splits option.splits sum.splits)

text \<open>
  Blocks are signed so that other nodes accept the signature. A block built with an identity
  extends the given parent (its hash, the next height, at most one below the 64-bit limit) and carries a
  signature that \<open>is_valid\<close> accepts for the key of the identity.
\<close>

theorem signed_block_valid:
  assumes "sec1_ok E" and "signatures_ok E" and "identity_ok E identity"
    and "build_signed_block E parent sl ts proofs root identity = Some (Inr b)"
  shows "block_is_valid E b \<and> previous_hash b = block_hash E parent \<and> height b = height parent + 1 \<and> slot b = sl \<and>
    validator b = id_verifying_key identity"
proof -
  have key: "identity_verifying_key E identity = Inr (id_verifying_key identity)"
    using identity_key_parses [OF assms(1,3)] by (simp add: identity_verifying_key_def)
  let ?u = "Block (height parent + 1) sl (block_hash E parent) (id_verifying_key identity) ts None proofs root"
  have "add_u64 (overflow_checks E) (height parent) 1 = Some (height parent + 1)"
    using assms(4) by (auto simp: build_signed_block_def dest: add_u64_eq elim!: bind_eq_SomeE)
  with assms(4) key obtain sg where b: "b = Block (height parent + 1) sl (block_hash E parent) (id_verifying_key identity) ts (Some sg) proofs root"
    and sg: "identity_signature E identity (to_be 32 (block_hash E ?u)) = Inr sg"
    by (auto simp: build_signed_block_def Let_def bind_result_Inr)
  have "block_hash E b = block_hash E ?u" by (simp add: b block_hash_def)
  moreover have "ecdsa_verify E (id_verifying_key identity) (to_be 32 (block_hash E ?u)) sg"
  proof -
    obtain bytes where sign: "identity_sign E identity (to_be 32 (block_hash E ?u)) = Inr bytes"
      and slice: "sig_from_slice E bytes = Some sg"
      using sg by (auto simp: identity_signature_def bind_result_Inr)
    show ?thesis using identity_signD [OF sign assms(3,2)] slice by (metis option.inject)
  qed
  ultimately show ?thesis by (simp add: b block_is_valid_def)
qed

section \<open>A concrete identity\<close>

definition demo_hello_env :: "(u8, demo_sig) hello_env" where
  "demo_hello_env = net.extend demo_net \<lparr>
     sig_from_slice = (\<lambda>bytes. case bytes of [] \<Rightarrow> None | k # m \<Rightarrow> Some (k, m)), sig_to_bytes = (\<lambda>(k, m). k # m),
     postcard_transcript = (\<lambda>t. Some (transcript_transport_peer_id t)),
     encode_hello = (\<lambda>_. Some [1]), decode_hello = (\<lambda>_. None),
     encode_hello_response = (\<lambda>_. Some [2]), decode_hello_response = (\<lambda>_. None) \<rparr>"

lemma demo_hello_env_sel [simp]:
  "sig_from_slice demo_hello_env bytes = (case bytes of [] \<Rightarrow> None | k # m \<Rightarrow> Some (k, m))"
  "sig_to_bytes demo_hello_env sg = fst sg # snd sg" "postcard_transcript demo_hello_env t = Some (transcript_transport_peer_id t)"
  "ecdsa_verify demo_hello_env k m sg \<longleftrightarrow> sg = (k, m)" "sec1_compressed demo_hello_env = demo_key"
  "from_sec1_bytes demo_hello_env = demo_key_of" "overflow_checks demo_hello_env = True"
  "encode_hello demo_hello_env h = Some [1]" "encode_hello_response demo_hello_env r = Some [2]"
  by (simp_all add: demo_hello_env_def net.defs demo_net_def case_prod_unfold)

lemma demo_hello_env_ok: "sec1_ok demo_hello_env" "signatures_ok demo_hello_env"
  by (simp_all add: sec1_ok_def signatures_ok_def)

definition demo_identity :: "u8 \<Rightarrow> (u8, demo_sig) IdentityManager" where
  "demo_identity k = from_software_signing_key demo_hello_env k (\<lambda>m. (k, m))"

lemma demo_identity_ok: "identity_ok demo_hello_env (demo_identity k)"
  unfolding demo_identity_def by (rule software_identity_ok) simp

theorem signed_block_valid_witness:
  "\<exists>b. build_signed_block demo_hello_env demo_genesis 3 [] [] 0 (demo_identity 5) = Some (Inr b) \<and>
    block_is_valid demo_hello_env b \<and> height b = 1"
proof -
  have "height demo_genesis = 0" by (simp add: demo_genesis_def)
  moreover have "identity_verifying_key demo_hello_env (demo_identity 5) = Inr 5"
    using identity_key_parses [OF demo_hello_env_ok(1) demo_identity_ok, of 5]
    by (simp add: identity_verifying_key_def demo_identity_def from_software_signing_key_def Let_def)
  ultimately obtain b where b: "build_signed_block demo_hello_env demo_genesis 3 [] [] 0 (demo_identity 5) = Some (Inr b)"
    by (simp add: build_signed_block_def add_u64_def identity_signature_def identity_sign_def demo_identity_def
        from_software_signing_key_def Let_def)
  from signed_block_valid [OF demo_hello_env_ok demo_identity_ok b] b show ?thesis
    using \<open>height demo_genesis = 0\<close> by auto
qed

end
