(* ===== verification/PeerRegistry.thy ===== *)
theory PeerRegistry
  imports NodeHello
begin

text \<open>
  The table of sessions of the embedded runtime (\<open>erp-runtime/src/network/peer_registry.rs\<close>) and its
  configuration (\<open>erp-runtime/src/network/config.rs\<close>, \<open>bootstrap.rs\<close>). A session id is the index of
  a slot; slots of closed sessions are used again. \<open>registry_ok\<close> is the invariant: ids are indices,
  no more slots than allowed, and the index by node peer names exactly the sessions registered for a peer.

  Parsing of multiaddresses and of libp2p peer ids, and name resolution, are parameters.
\<close>

section \<open>Addresses and configuration\<close>

datatype SocketAddr = SocketV4 u32 u16 | SocketV6 "128 word" u16

fun is_ipv4 :: "SocketAddr \<Rightarrow> bool" where
  "is_ipv4 (SocketV4 ip port) = True"
| "is_ipv4 (SocketV6 ip port) = False"

datatype MultiaddrLite = Ip4Tcp u32 u16 | Dns4Tcp string u16

datatype multiaddr_part = Ip4 u32 | Ip6 "128 word" | Dns4 string | Tcp u16 | OtherPart

record BootstrapPeer =
  address :: MultiaddrLite
  expected_transport_peer :: "byte_vec option"

record NetworkConfig =
  listen_port :: u16
  cfg_max_peers :: nat
  max_outbound_dials :: nat
  cfg_max_frame_len :: u32
  cfg_max_blocks_per_chunk :: u16
  idle_timeout_ms :: u64
  bootstrap_peers :: "BootstrapPeer list"

definition DEFAULT_LISTEN_PORT :: u16 where "DEFAULT_LISTEN_PORT = 4001"
definition DEFAULT_MAX_PEERS :: nat where "DEFAULT_MAX_PEERS = 16"
definition DEFAULT_MAX_OUTBOUND_DIALS :: nat where "DEFAULT_MAX_OUTBOUND_DIALS = 4"
definition DEFAULT_MAX_FRAME_LEN :: u32 where "DEFAULT_MAX_FRAME_LEN = 64 * 1024"
definition DEFAULT_MAX_BLOCKS_PER_CHUNK :: u16 where "DEFAULT_MAX_BLOCKS_PER_CHUNK = 8"
definition DEFAULT_IDLE_TIMEOUT_MS :: u64 where "DEFAULT_IDLE_TIMEOUT_MS = 60000"

definition NetworkConfig_default :: NetworkConfig where
  "NetworkConfig_default = \<lparr> listen_port = DEFAULT_LISTEN_PORT, cfg_max_peers = DEFAULT_MAX_PEERS,
     max_outbound_dials = DEFAULT_MAX_OUTBOUND_DIALS, cfg_max_frame_len = DEFAULT_MAX_FRAME_LEN,
     cfg_max_blocks_per_chunk = DEFAULT_MAX_BLOCKS_PER_CHUNK, idle_timeout_ms = DEFAULT_IDLE_TIMEOUT_MS,
     bootstrap_peers = [] \<rparr>"

text \<open>Strings of the build environment are ASCII; \<open>is_space\<close> are the ASCII characters that \<open>str::trim\<close> removes.\<close>

definition is_space :: "char \<Rightarrow> bool" where
  "is_space c \<longleftrightarrow> c = CHR '' '' \<or> (9 \<le> (of_char c :: nat) \<and> (of_char c :: nat) \<le> 13)"

definition trim :: "string \<Rightarrow> string" where
  "trim s = rev (dropWhile is_space (rev (dropWhile is_space s)))"

fun split_at :: "char \<Rightarrow> string \<Rightarrow> string list" where
  "split_at c [] = [[]]"
| "split_at c (x # xs) =
     (if x = c then [] # split_at c xs
      else (case split_at c xs of [] \<Rightarrow> [[x]] | part # parts \<Rightarrow> (x # part) # parts))"

definition split_once :: "char \<Rightarrow> string \<Rightarrow> (string \<times> string) option" where
  "split_once c s = (if c \<in> set s then Some (takeWhile (\<lambda>x. x \<noteq> c) s, tl (dropWhile (\<lambda>x. x \<noteq> c) s)) else None)"

fun collect_results :: "('e, 'a) result list \<Rightarrow> ('e, 'a list) result" where
  "collect_results [] = Inr []"
| "collect_results (r # rs) = bind_result r (\<lambda>x. bind_result (collect_results rs) (\<lambda>xs. Inr (x # xs)))"

record addr_env =
  parse_multiaddr :: "string \<Rightarrow> multiaddr_part list option"
  parse_peer_id :: "string \<Rightarrow> byte_vec option"
  to_socket_addrs :: "string \<Rightarrow> u16 \<Rightarrow> (IoError, SocketAddr list) result"

definition parse_transport_peer_id :: "addr_env \<Rightarrow> string \<Rightarrow> (RuntimeError, byte_vec) result" where
  "parse_transport_peer_id A v = ok_or (Config ''BOOTSTRAP_PEERS contains an invalid libp2p peer id'') (parse_peer_id A v)"

definition parse_bootstrap_address :: "addr_env \<Rightarrow> string \<Rightarrow> (RuntimeError, MultiaddrLite) result" where
  "parse_bootstrap_address A v =
     bind_result (ok_or (Config ''BOOTSTRAP_PEERS contains an invalid multiaddr'') (parse_multiaddr A v))
       (\<lambda>parts. case parts of
          [Ip4 ip, Tcp port] \<Rightarrow> Inr (Ip4Tcp ip port)
        | [Dns4 host, Tcp port] \<Rightarrow> Inr (Dns4Tcp host port)
        | _ \<Rightarrow> Inl (Config ''BOOTSTRAP_PEERS only supports /ip4/.../tcp/... and /dns4/.../tcp/... entries''))"

definition parse_bootstrap_peer :: "addr_env \<Rightarrow> string \<Rightarrow> (RuntimeError, BootstrapPeer) result" where
  "parse_bootstrap_peer A entry =
     bind_result
       (case split_once (CHR ''@'') entry of
          Some (addr, pid) \<Rightarrow> bind_result (parse_transport_peer_id A (trim pid)) (\<lambda>p. Inr (addr, Some p))
        | None \<Rightarrow> Inr (entry, None))
       (\<lambda>(addr, expected). bind_result (parse_bootstrap_address A (trim addr))
          (\<lambda>a. Inr \<lparr> address = a, expected_transport_peer = expected \<rparr>))"

definition parse_bootstrap_peers :: "addr_env \<Rightarrow> string option \<Rightarrow> (RuntimeError, BootstrapPeer list) result" where
  "parse_bootstrap_peers A input =
     (case map_option trim input of
        None \<Rightarrow> Inr []
      | Some s \<Rightarrow>
          if s = [] then Inr []
          else collect_results (map (parse_bootstrap_peer A) (filter (\<lambda>e. e \<noteq> []) (map trim (split_at (CHR '','') s)))))"

definition from_build_env :: "addr_env \<Rightarrow> string option \<Rightarrow> (RuntimeError, NetworkConfig) result" where
  "from_build_env A env =
     bind_result (parse_bootstrap_peers A env) (\<lambda>peers. Inr (NetworkConfig_default\<lparr>bootstrap_peers := peers\<rparr>))"

definition resolve_bootstrap_addr :: "addr_env \<Rightarrow> MultiaddrLite \<Rightarrow> (RuntimeError, SocketAddr) result" where
  "resolve_bootstrap_addr A addr =
     (case addr of
        Ip4Tcp ip port \<Rightarrow> Inr (SocketV4 ip port)
      | Dns4Tcp host port \<Rightarrow>
          bind_result (map_err NetworkError (to_socket_addrs A host port))
            (\<lambda>addrs. ok_or (Config ''bootstrap DNS name did not resolve to an IPv4 address'') (find is_ipv4 addrs)))"

definition bootstrap_targets :: "NetworkConfig \<Rightarrow> BootstrapPeer list" where
  "bootstrap_targets config = bootstrap_peers config"

section \<open>The registry\<close>

datatype SessionState = TcpConnected | NoiseReady | YamuxReady | Identified | NodeReady | Closing

record PeerSession =
  session_id :: nat
  is_outbound :: bool
  outbound_addr :: "SocketAddr option"
  session_node_peer_id :: "PeerId option"
  session_transport_peer_id :: byte_vec
  session_state :: SessionState
  session_max_frame_len :: u32
  session_max_blocks_per_chunk :: u16
  session_last_seen_ms :: u64

record PeerRegistry =
  sessions :: "PeerSession option list"
  by_node_peer :: "(PeerId, nat) btree_map"
  max_peers :: nat

definition PeerRegistry_new :: "nat \<Rightarrow> PeerRegistry" where
  "PeerRegistry_new limit = \<lparr> sessions = [], by_node_peer = [], max_peers = limit \<rparr>"

definition new_session :: "nat \<Rightarrow> byte_vec \<Rightarrow> bool \<Rightarrow> SocketAddr option \<Rightarrow> PeerSession" where
  "new_session sid tpid outbound addr = \<lparr> session_id = sid, is_outbound = outbound, outbound_addr = addr,
     session_node_peer_id = None, session_transport_peer_id = tpid, session_state = TcpConnected,
     session_max_frame_len = 0, session_max_blocks_per_chunk = 0, session_last_seen_ms = 0 \<rparr>"

text \<open>The first slot that holds no session, as \<open>iter_mut().enumerate().find(..)\<close> finds it.\<close>

fun free_slot :: "nat \<Rightarrow> PeerSession option list \<Rightarrow> nat option" where
  "free_slot i [] = None"
| "free_slot i (None # rest) = Some i"
| "free_slot i (Some _ # rest) = free_slot (Suc i) rest"

definition alloc :: "byte_vec \<Rightarrow> bool \<Rightarrow> SocketAddr option \<Rightarrow> (PeerRegistry, RuntimeError, nat) effect" where
  "alloc tpid outbound addr R =
     (case free_slot 0 (sessions R) of
        Some i \<Rightarrow> (Inr i, R\<lparr>sessions := (sessions R)[i := Some (new_session i tpid outbound addr)]\<rparr>)
      | None \<Rightarrow>
          if length (sessions R) \<ge> max_peers R then (Inl (Config ''peer registry is full''), R)
          else (Inr (length (sessions R)),
                R\<lparr>sessions := sessions R @ [Some (new_session (length (sessions R)) tpid outbound addr)]\<rparr>))"

definition registry_get :: "PeerRegistry \<Rightarrow> nat \<Rightarrow> PeerSession option" where
  "registry_get R i = (if i < length (sessions R) then sessions R ! i else None)"

definition update_session :: "nat \<Rightarrow> (PeerSession \<Rightarrow> PeerSession) \<Rightarrow> PeerRegistry \<Rightarrow> PeerRegistry" where
  "update_session i f R =
     (case registry_get R i of
        Some s \<Rightarrow> R\<lparr>sessions := (sessions R)[i := Some (f s)]\<rparr>
      | None \<Rightarrow> R)"

definition register_node_peer :: "nat \<Rightarrow> PeerId \<Rightarrow> (PeerRegistry, RuntimeError, unit) effect" where
  "register_node_peer i p R =
     (case bt_get (by_node_peer R) p of
        Some existing \<Rightarrow>
          if existing \<noteq> i then (Inl (Config ''node peer is already registered to another session''), R)
          else if registry_get R i = None then (Inl (Config ''unknown peer session''), R)
          else (Inr (), (update_session i (\<lambda>s. s\<lparr>session_node_peer_id := Some p\<rparr>) R)\<lparr>by_node_peer := bt_insert p i (by_node_peer R)\<rparr>)
      | None \<Rightarrow>
          if registry_get R i = None then (Inl (Config ''unknown peer session''), R)
          else (Inr (), (update_session i (\<lambda>s. s\<lparr>session_node_peer_id := Some p\<rparr>) R)\<lparr>by_node_peer := bt_insert p i (by_node_peer R)\<rparr>))"

definition session_for_node :: "PeerRegistry \<Rightarrow> PeerId \<Rightarrow> nat option" where
  "session_for_node R p = bt_get (by_node_peer R) p"

definition ready_sessions :: "PeerRegistry \<Rightarrow> nat list" where
  "ready_sessions R =
     filter (\<lambda>i. case sessions R ! i of Some s \<Rightarrow> session_state s = NodeReady | None \<Rightarrow> False) [0..<length (sessions R)]"

definition outbound_session_count :: "PeerRegistry \<Rightarrow> nat" where
  "outbound_session_count R = length (filter (\<lambda>s. case s of Some s \<Rightarrow> is_outbound s | None \<Rightarrow> False) (sessions R))"

definition has_outbound_session_for :: "PeerRegistry \<Rightarrow> SocketAddr \<Rightarrow> bool" where
  "has_outbound_session_for R addr \<longleftrightarrow>
     list_ex (\<lambda>s. case s of Some s \<Rightarrow> outbound_addr s = Some addr | None \<Rightarrow> False) (sessions R)"

definition registry_remove :: "nat \<Rightarrow> PeerRegistry \<Rightarrow> PeerSession option \<times> PeerRegistry" where
  "registry_remove i R =
     (case registry_get R i of
        None \<Rightarrow> (None, R)
      | Some s \<Rightarrow>
          (Some s, R\<lparr>sessions := (sessions R)[i := None],
             by_node_peer := (case session_node_peer_id s of Some p \<Rightarrow> bt_remove p (by_node_peer R) | None \<Rightarrow> by_node_peer R)\<rparr>))"

section \<open>The invariant\<close>

definition registry_ok :: "PeerRegistry \<Rightarrow> bool" where
  "registry_ok R \<longleftrightarrow>
     length (sessions R) \<le> max_peers R \<and> bt_wf (by_node_peer R) \<and>
     (\<forall>i s. registry_get R i = Some s \<longrightarrow> session_id s = i) \<and>
     (\<forall>p i. bt_get (by_node_peer R) p = Some i \<longleftrightarrow> (\<exists>s. registry_get R i = Some s \<and> session_node_peer_id s = Some p))"

lemma registry_new_ok: "registry_ok (PeerRegistry_new limit)"
  by (simp add: registry_ok_def PeerRegistry_new_def registry_get_def)

lemma free_slot_Some: "free_slot k xs = Some i \<Longrightarrow> k \<le> i \<and> i < k + length xs \<and> xs ! (i - k) = None"
proof (induction k xs rule: free_slot.induct)
  case (3 k s rest)
  then show ?case by (auto simp: nth_Cons' Suc_diff_le)
qed auto

lemma free_slot_None: "free_slot k xs = None \<longleftrightarrow> None \<notin> set xs"
  by (induction k xs rule: free_slot.induct) auto

lemma registry_get_update_list [simp]:
  "registry_get (R\<lparr>sessions := (sessions R)[i := v]\<rparr>) j = (if j = i \<and> i < length (sessions R) then v else registry_get R j)"
  by (auto simp: registry_get_def nth_list_update)

lemma registry_get_append [simp]:
  "registry_get (R\<lparr>sessions := sessions R @ [v]\<rparr>) j = (if j = length (sessions R) then v else registry_get R j)"
  by (auto simp: registry_get_def nth_append)

lemma registry_get_by_node [simp]: "registry_get (R\<lparr>by_node_peer := m\<rparr>) = registry_get R"
  by (rule ext) (simp add: registry_get_def)

lemma registry_get_lt: "registry_get R i = Some s \<Longrightarrow> i < length (sessions R)"
  by (simp add: registry_get_def split: if_splits)

lemma alloc_ok:
  assumes "registry_ok R" and "alloc tpid outbound addr R = (Inr i, R')"
  shows "registry_ok R'" and "registry_get R i = None" and "i < max_peers R"
    and "registry_get R' j = (if j = i then Some (new_session i tpid outbound addr) else registry_get R j)"
    and "by_node_peer R' = by_node_peer R"
proof -
  have slot: "registry_get R i = None \<and> i < max_peers R \<and> by_node_peer R' = by_node_peer R \<and> max_peers R' = max_peers R \<and>
      length (sessions R') \<le> max_peers R \<and>
      (\<forall>j. registry_get R' j = (if j = i then Some (new_session i tpid outbound addr) else registry_get R j))"
  proof (cases "free_slot 0 (sessions R)")
    case None
    then show ?thesis
      using assms by (auto simp: alloc_def registry_ok_def registry_get_def nth_append split: if_splits)
  next
    case (Some k)
    with free_slot_Some [OF this] show ?thesis
      using assms by (auto simp: alloc_def registry_ok_def registry_get_def)
  qed
  then show "registry_get R i = None" and "i < max_peers R" and "by_node_peer R' = by_node_peer R"
    and "registry_get R' j = (if j = i then Some (new_session i tpid outbound addr) else registry_get R j)"
    by simp_all
  show "registry_ok R'"
    using slot assms(1) by (auto simp: registry_ok_def new_session_def)
qed

lemma update_session_get:
  "registry_get (update_session i f R) j = (if j = i then map_option f (registry_get R i) else registry_get R j)"
  using registry_get_lt [of R i] by (auto simp: update_session_def split: option.split)

lemma update_session_sel [simp]:
  "by_node_peer (update_session i f R) = by_node_peer R" "max_peers (update_session i f R) = max_peers R"
  "length (sessions (update_session i f R)) = length (sessions R)"
  by (simp_all add: update_session_def split: option.split)

lemma update_session_ok:
  assumes "registry_ok R" and "\<And>s. session_id (f s) = session_id s"
    and "\<And>s. session_node_peer_id (f s) = session_node_peer_id s"
  shows "registry_ok (update_session i f R)"
  using assms(1) by (auto simp: registry_ok_def update_session_get assms(2,3))

lemma register_ok:
  assumes "registry_ok R" and "register_node_peer i p R = (Inr (), R')"
    and "\<forall>s. registry_get R i = Some s \<longrightarrow> session_node_peer_id s = None \<or> session_node_peer_id s = Some p"
  shows "registry_ok R'"
proof -
  have R': "R' = (update_session i (\<lambda>s. s\<lparr>session_node_peer_id := Some p\<rparr>) R)\<lparr>by_node_peer := bt_insert p i (by_node_peer R)\<rparr>"
    and live: "registry_get R i \<noteq> None" and free: "\<forall>j. bt_get (by_node_peer R) p = Some j \<longrightarrow> j = i"
    using assms(2) by (auto simp: register_node_peer_def split: option.splits if_splits)
  have index: "bt_get (by_node_peer R) q = Some j \<longleftrightarrow> (\<exists>s. registry_get R j = Some s \<and> session_node_peer_id s = Some q)" for q j
    using assms(1) by (simp add: registry_ok_def)
  have "bt_get (bt_insert p i (by_node_peer R)) q = Some j \<longleftrightarrow>
      (\<exists>s. registry_get R' j = Some s \<and> session_node_peer_id s = Some q)" for q j
    using index [of q j] index [of p j] live free assms(3)
    by (auto simp: R' update_session_get bt_simps)
  then show ?thesis
    using assms(1) by (auto simp: registry_ok_def R' update_session_get bt_simps)
qed

lemma remove_ok:
  assumes "registry_ok R"
  shows "registry_ok (snd (registry_remove i R))"
    and "registry_get (snd (registry_remove i R)) j = (if j = i then None else registry_get R j)"
proof -
  show get: "registry_get (snd (registry_remove i R)) j = (if j = i then None else registry_get R j)" for j
    using registry_get_lt [of R i]
    by (auto simp: registry_remove_def registry_get_def nth_list_update split: option.split if_splits)
  show "registry_ok (snd (registry_remove i R))"
  proof (cases "registry_get R i")
    case None
    then show ?thesis using assms by (simp add: registry_remove_def)
  next
    case (Some s)
    have wf: "bt_wf (by_node_peer R)" and index: "\<And>q j. bt_get (by_node_peer R) q = Some j \<longleftrightarrow>
        (\<exists>s. registry_get R j = Some s \<and> session_node_peer_id s = Some q)"
      using assms by (simp_all add: registry_ok_def)
    have "bt_get (by_node_peer (snd (registry_remove i R))) q = Some j \<longleftrightarrow>
        (\<exists>s. registry_get (snd (registry_remove i R)) j = Some s \<and> session_node_peer_id s = Some q)" for q j
      unfolding get using Some index [of q j] index [of q i] wf
      by (auto simp: registry_remove_def bt_simps split: option.split)
    then show ?thesis
      using assms Some wf unfolding registry_ok_def get
      by (auto simp: registry_remove_def bt_simps split: option.split)
  qed
qed

end
