(* ===== verification/ErpNetwork.thy ===== *)
theory ErpNetwork
  imports PeerRegistry NodeManager
begin

text \<open>
  The network task of the embedded runtime (\<open>erp-runtime/src/network/manager.rs\<close>): it accepts and dials
  connections, starts a session thread for each, forwards the commands of the node to the sessions and
  the events of the sessions to the node.

  Each turn of its loop takes one \<open>net_input\<close>: an accepted connection, a command, a session event or the
  bootstrap timer, with what the operating system answered (\<open>net_io\<close>: dialling and thread creation).
  Bringing up the radio and binding the listener are in theory \<open>EspHost\<close>.
\<close>

section \<open>State\<close>

datatype ConnectionRole = Inbound | Outbound

datatype SessionCommand = SessionSendFrame byte_vec | SessionDisconnect

datatype SessionEvent = SessionReady nat VerifiedPeer | SessionClosed nat "PeerId option"

record SessionWorker =
  worker_session_id :: nat
  worker_role :: ConnectionRole
  worker_config :: NetworkConfig
  worker_expected_transport_peer :: "byte_vec option"

record net_io =
  connect_to :: "SocketAddr \<Rightarrow> (RuntimeError, unit) result"
  spawn_thread :: "nat \<Rightarrow> (string, unit) result"

record ('vk, 'sig) NetworkManager =
  nm_event_tx :: "('vk, 'sig) RuntimeEvent channel"
  nm_config :: NetworkConfig
  nm_peers :: PeerRegistry
  session_commands :: "(nat, SessionCommand channel) btree_map"
  spawned_workers :: "SessionWorker list"

definition NetworkManager_new ::
  "addr_env \<Rightarrow> string option \<Rightarrow> ('vk, 'sig) RuntimeEvent channel \<Rightarrow> (RuntimeError, ('vk, 'sig) NetworkManager) result" where
  "NetworkManager_new A env event_tx =
     bind_result (from_build_env A env)
       (\<lambda>config. Inr \<lparr> nm_event_tx = event_tx, nm_config = config, nm_peers = PeerRegistry_new (cfg_max_peers config),
          session_commands = [], spawned_workers = [] \<rparr>)"

section \<open>Commands\<close>

definition send_session :: "nat \<Rightarrow> SessionCommand \<Rightarrow> (('vk, 'sig) NetworkManager, RuntimeError, unit) effect" where
  "send_session i command nm =
     (case bt_get (session_commands nm) i of
        None \<Rightarrow> (Inr (), nm)
      | Some command_tx \<Rightarrow>
          (let (r, ch) = send command command_tx
           in (map_err network_send r, nm\<lparr>session_commands := bt_insert i ch (session_commands nm)\<rparr>)))"

definition send_frame_to_peer :: "PeerId \<Rightarrow> byte_vec \<Rightarrow> (('vk, 'sig) NetworkManager, RuntimeError, unit) effect" where
  "send_frame_to_peer p frame nm =
     (case session_for_node (nm_peers nm) p of
        None \<Rightarrow> (Inr (), nm)
      | Some i \<Rightarrow> send_session i (SessionSendFrame frame) nm)"

definition disconnect_peer :: "PeerId \<Rightarrow> (('vk, 'sig) NetworkManager, RuntimeError, unit) effect" where
  "disconnect_peer p nm =
     (case session_for_node (nm_peers nm) p of
        None \<Rightarrow> (Inr (), nm)
      | Some i \<Rightarrow> send_session i SessionDisconnect nm)"

definition clamp_sync_request :: "('vk, 'sig) NetworkManager \<Rightarrow> PeerId \<Rightarrow> SyncRequest \<Rightarrow> SyncRequest" where
  "clamp_sync_request nm p request =
     (case session_for_node (nm_peers nm) p of
        None \<Rightarrow> request
      | Some i \<Rightarrow>
          (case registry_get (nm_peers nm) i of
             None \<Rightarrow> request
           | Some session \<Rightarrow>
               (let limit = session_max_blocks_per_chunk session
                in if limit = 0 \<or> sync_from request > sync_to request then request
                   else
                     (let max_to_height = saturating_add (sync_from request) (saturating_sub (ucast limit) 1)
                      in SyncRequest (sync_from request) (min (sync_to request) max_to_height)))))"

fun broadcast_frame :: "nat list \<Rightarrow> byte_vec \<Rightarrow> (('vk, 'sig) NetworkManager, RuntimeError, unit) effect" where
  "broadcast_frame [] frame = done_with ()"
| "broadcast_frame (i # js) frame = and_then (send_session i (SessionSendFrame frame)) (\<lambda>_. broadcast_frame js frame)"

definition handle_network_command ::
  "('vk, 'sig, 'z) net_scheme \<Rightarrow> NetworkCommand \<Rightarrow> ('vk, 'sig) NetworkManager
    \<Rightarrow> ((RuntimeError, unit) result \<times> ('vk, 'sig) NetworkManager) exec" where
  "handle_network_command E command nm =
     (case command of
        SendFrameCommand p frame \<Rightarrow> Some (send_frame_to_peer p frame nm)
      | BroadcastFrameCommand frame \<Rightarrow> Some (broadcast_frame (ready_sessions (nm_peers nm)) frame nm)
      | DisconnectPeerCommand p \<Rightarrow> Some (disconnect_peer p nm)
      | RequestBlocksCommand p lo hi \<Rightarrow> do {
          frame \<leftarrow> message_to_bytes E (SyncRequestMsg (clamp_sync_request nm p (SyncRequest lo hi)));
          Some (send_frame_to_peer p frame nm) })"

section \<open>Session events\<close>

definition send_runtime_event :: "('vk, 'sig) RuntimeEvent \<Rightarrow> (('vk, 'sig) NetworkManager, RuntimeError, unit) effect" where
  "send_runtime_event = send_on nm_event_tx (\<lambda>ch. nm_event_tx_update (\<lambda>_. ch)) event_send"

definition ready_session :: "VerifiedPeer \<Rightarrow> PeerSession \<Rightarrow> PeerSession" where
  "ready_session v s = s\<lparr>session_transport_peer_id := verified_transport_peer_id v,
     session_max_frame_len := verified_max_frame_len v,
     session_max_blocks_per_chunk := verified_max_blocks_per_chunk v, session_state := NodeReady\<rparr>"

definition on_peers :: "(PeerRegistry, 'e, 'a) effect \<Rightarrow> (('vk, 'sig) NetworkManager, 'e, 'a) effect" where
  "on_peers m nm = (let (r, R) = m (nm_peers nm) in (r, nm\<lparr>nm_peers := R\<rparr>))"

fun handle_session_event :: "SessionEvent \<Rightarrow> (('vk, 'sig) NetworkManager, RuntimeError, unit) effect" where
  "handle_session_event (SessionReady i v) nm =
     (if registry_get (nm_peers nm) i = None
      then (Inl (Config ''session ready event referenced an unknown session''), nm)
      else and_then (on_peers (register_node_peer i (verified_node_peer_id v)))
             (\<lambda>_. send_runtime_event (PeerConnectedEvent (verified_node_peer_id v)))
             (nm\<lparr>nm_peers := update_session i (ready_session v) (nm_peers nm)\<rparr>))"
| "handle_session_event (SessionClosed i node_peer) nm =
     (let nm' = nm\<lparr>session_commands := bt_remove i (session_commands nm),
                   nm_peers := snd (registry_remove i (nm_peers nm))\<rparr>
      in case node_peer of
           Some p \<Rightarrow> send_runtime_event (PeerDisconnectedEvent p) nm'
         | None \<Rightarrow> (Inr (), nm'))"

section \<open>Sessions\<close>

definition spawn_session ::
  "net_io \<Rightarrow> ConnectionRole \<Rightarrow> SocketAddr option \<Rightarrow> byte_vec option \<Rightarrow> (('vk, 'sig) NetworkManager, RuntimeError, unit) effect" where
  "spawn_session io role addr expected =
     and_then (on_peers (alloc [] (role = Outbound) addr))
       (\<lambda>i nm. (map_err (\<lambda>m. NetworkError (IoError OtherKind m)) (spawn_thread io i),
          nm\<lparr>session_commands := bt_insert i open_channel (session_commands nm),
             spawned_workers := spawned_workers nm @
               [\<lparr> worker_session_id = i, worker_role = role, worker_config = nm_config nm,
                  worker_expected_transport_peer = expected \<rparr>]\<rparr>))"

definition bootstrap_once ::
  "addr_env \<Rightarrow> net_io \<Rightarrow> nat \<Rightarrow> ('vk, 'sig) NetworkManager
    \<Rightarrow> ((RuntimeError, unit) result \<times> ('vk, 'sig) NetworkManager) \<times> nat" where
  "bootstrap_once A io bootstrap_cursor nm =
     (if outbound_session_count (nm_peers nm) \<ge> max_outbound_dials (nm_config nm) then ((Inr (), nm), bootstrap_cursor)
      else
        (let targets = bootstrap_targets (nm_config nm)
         in if targets = [] then ((Inr (), nm), bootstrap_cursor)
            else
              (let target = targets ! (bootstrap_cursor mod length targets)
               in (case resolve_bootstrap_addr A (address target) of
                     Inl e \<Rightarrow> (Inr (), nm)
                   | Inr addr \<Rightarrow>
                       if has_outbound_session_for (nm_peers nm) addr then (Inr (), nm)
                       else (case connect_to io addr of
                               Inr _ \<Rightarrow> spawn_session io Outbound (Some addr) (expected_transport_peer target) nm
                             | Inl e \<Rightarrow> (Inr (), nm)),
                   Suc bootstrap_cursor))))"

section \<open>The loop\<close>

datatype net_input =
    Accepted "(RuntimeError, unit) result" net_io
  | NetCommand NetworkCommand
  | SessionEventArrived SessionEvent
  | BootstrapTimer net_io

fun network_turn ::
  "('vk, 'sig, 'z) net_scheme \<Rightarrow> addr_env \<Rightarrow> net_input \<Rightarrow> nat \<Rightarrow> ('vk, 'sig) NetworkManager
    \<Rightarrow> (((RuntimeError, unit) result \<times> ('vk, 'sig) NetworkManager) \<times> nat) exec" where
  "network_turn E A (Accepted (Inr _) io) cursor nm = Some (spawn_session io Inbound None None nm, cursor)"
| "network_turn E A (Accepted (Inl e) io) cursor nm = Some ((Inr (), nm), cursor)"
| "network_turn E A (NetCommand command) cursor nm = do {
     r \<leftarrow> handle_network_command E command nm; Some (r, cursor) }"
| "network_turn E A (SessionEventArrived event) cursor nm = Some (handle_session_event event nm, cursor)"
| "network_turn E A (BootstrapTimer io) cursor nm = Some (bootstrap_once A io cursor nm)"

fun network_loop ::
  "('vk, 'sig, 'z) net_scheme \<Rightarrow> addr_env \<Rightarrow> net_input list \<Rightarrow> nat \<Rightarrow> ('vk, 'sig) NetworkManager
    \<Rightarrow> ((RuntimeError, unit) result \<times> ('vk, 'sig) NetworkManager) exec" where
  "network_loop E A [] cursor nm = Some (Inr (), nm)"
| "network_loop E A (input # inputs) cursor nm = do {
     ((r, nm'), cursor') \<leftarrow> network_turn E A input cursor nm;
     case r of Inl e \<Rightarrow> Some (Inl e, nm') | Inr _ \<Rightarrow> network_loop E A inputs cursor' nm' }"

section \<open>The invariant\<close>

definition manager_ok :: "('vk, 'sig) NetworkManager \<Rightarrow> bool" where
  "manager_ok nm \<longleftrightarrow> registry_ok (nm_peers nm) \<and> bt_wf (session_commands nm) \<and>
     (\<forall>i. bt_get (session_commands nm) i = None \<longleftrightarrow> registry_get (nm_peers nm) i = None)"

text \<open>A session thread reports that it is ready at most once.\<close>

definition ready_once :: "net_input \<Rightarrow> ('vk, 'sig) NetworkManager \<Rightarrow> bool" where
  "ready_once input nm \<longleftrightarrow>
     (\<forall>i v s. input = SessionEventArrived (SessionReady i v) \<longrightarrow> registry_get (nm_peers nm) i = Some s \<longrightarrow>
        session_node_peer_id s = None)"

inductive net_reachable ::
  "('vk, 'sig, 'z) net_scheme \<Rightarrow> addr_env \<Rightarrow> ('vk, 'sig) NetworkManager \<Rightarrow> bool" for E A where
  net_start: "NetworkManager_new A env event_tx = Inr nm \<Longrightarrow> net_reachable E A nm"
| net_turn: "net_reachable E A nm \<Longrightarrow> ready_once input nm \<Longrightarrow>
    network_turn E A input cursor nm = Some ((Inr (), nm'), cursor') \<Longrightarrow> net_reachable E A nm'"

lemma send_session_keys:
  "nm_peers (snd (send_session i c nm)) = nm_peers nm"
  "bt_wf (session_commands nm) \<Longrightarrow> bt_wf (session_commands (snd (send_session i c nm)))"
  "bt_get (session_commands (snd (send_session i c nm))) j = None \<longleftrightarrow> bt_get (session_commands nm) j = None"
  by (simp_all add: send_session_def Let_def case_prod_unfold bt_simps split: option.split)

lemma send_session_ok: "manager_ok nm \<Longrightarrow> manager_ok (snd (send_session i c nm))"
  by (simp add: manager_ok_def send_session_keys)

lemma broadcast_ok: "manager_ok nm \<Longrightarrow> manager_ok (snd (broadcast_frame js frame nm))"
proof (induction js arbitrary: nm)
  case (Cons i js)
  show ?case
    unfolding broadcast_frame.simps
    by (rule and_then_invariant [where P = manager_ok]) (use Cons send_session_ok in blast)+
qed simp

lemma send_to_peer_ok: "manager_ok nm \<Longrightarrow> manager_ok (snd (send_frame_to_peer p frame nm))"
  "manager_ok nm \<Longrightarrow> manager_ok (snd (disconnect_peer p nm))"
  by (simp_all add: send_frame_to_peer_def disconnect_peer_def send_session_ok split: option.split)

lemma send_event_ok: "manager_ok (snd (send_runtime_event ev nm)) = manager_ok nm"
  by (simp add: send_runtime_event_def send_on_def send_def manager_ok_def)

lemma ready_ok:
  assumes "manager_ok nm" and "ready_once (SessionEventArrived (SessionReady i v)) nm"
    and "handle_session_event (SessionReady i v) nm = (Inr (), nm')"
  shows "manager_ok nm'"
proof -
  let ?R = "update_session i (ready_session v) (nm_peers nm)"
  have reg: "registry_ok ?R"
    using assms(1) by (intro update_session_ok) (simp_all add: manager_ok_def ready_session_def)
  obtain R1 where R1: "register_node_peer i (verified_node_peer_id v) ?R = (Inr (), R1)"
    and nm': "send_runtime_event (PeerConnectedEvent (verified_node_peer_id v)) (nm\<lparr>nm_peers := R1\<rparr>) = (Inr (), nm')"
    using assms(3) by (auto simp: and_then_Inr on_peers_def split: if_splits prod.splits)
  have "registry_ok R1"
    using assms(2)
    by (intro register_ok [OF reg R1]) (auto simp: ready_once_def update_session_get ready_session_def)
  moreover have "registry_get R1 j = None \<longleftrightarrow> registry_get (nm_peers nm) j = None" for j
    using R1 by (auto simp: register_node_peer_def update_session_get split: option.splits if_splits)
  ultimately have "manager_ok (nm\<lparr>nm_peers := R1\<rparr>)" using assms(1) by (simp add: manager_ok_def)
  then show ?thesis using send_event_ok [of "PeerConnectedEvent (verified_node_peer_id v)" "nm\<lparr>nm_peers := R1\<rparr>"] nm' by simp
qed

lemma closed_ok:
  assumes "manager_ok nm"
  shows "manager_ok (snd (handle_session_event (SessionClosed i node_peer) nm))"
proof -
  let ?nm = "nm\<lparr>session_commands := bt_remove i (session_commands nm), nm_peers := snd (registry_remove i (nm_peers nm))\<rparr>"
  have "manager_ok ?nm" using assms by (auto simp: manager_ok_def remove_ok bt_simps)
  then show ?thesis by (simp add: Let_def send_event_ok split: option.split)
qed

lemma spawn_ok:
  assumes "manager_ok nm"
  shows "manager_ok (snd (spawn_session io role addr expected nm))"
proof (cases "alloc [] (role = Outbound) addr (nm_peers nm)")
  case (Pair r R)
  show ?thesis
  proof (cases r)
    case (Inl e)
    then have "R = nm_peers nm" using Pair by (auto simp: alloc_def split: option.splits if_splits)
    then show ?thesis using Pair Inl assms by (simp add: spawn_session_def and_then_def on_peers_def)
  next
    case (Inr i)
    have reg: "registry_ok (nm_peers nm)" using assms by (simp add: manager_ok_def)
    note new = alloc_ok [OF reg Pair [unfolded Inr]]
    show ?thesis
      using assms new Pair Inr by (auto simp: spawn_session_def and_then_def on_peers_def manager_ok_def bt_simps)
  qed
qed

lemma network_turn_ok:
  assumes "manager_ok nm" and "ready_once input nm" and "network_turn E A input cursor nm = Some ((Inr (), nm'), cursor')"
  shows "manager_ok nm'"
proof (cases input)
  case (Accepted r io)
  then show ?thesis using assms(1,3) spawn_ok [of nm io Inbound None None] by (cases r) auto
next
  case (NetCommand command)
  then show ?thesis
    using assms(1,3) send_to_peer_ok [of nm] broadcast_ok [of nm]
    by (cases command) (auto simp: handle_network_command_def elim!: bind_eq_SomeE, (metis snd_conv)+)
next
  case (SessionEventArrived event)
  then show ?thesis
  proof (cases event)
    case (SessionReady i v)
    then show ?thesis using ready_ok assms SessionEventArrived by (metis network_turn.simps(4) option.inject prod.inject)
  next
    case (SessionClosed i p)
    then show ?thesis using closed_ok [OF assms(1), of i p] assms(3) SessionEventArrived by auto
  qed
next
  case (BootstrapTimer io)
  then show ?thesis
    using assms(1,3) spawn_ok [OF assms(1)]
    by (auto simp: bootstrap_once_def Let_def split: if_splits sum.splits) (metis snd_conv)
qed

lemma new_manager_ok: "NetworkManager_new A env event_tx = Inr nm \<Longrightarrow> manager_ok nm"
  by (auto simp: NetworkManager_new_def bind_result_Inr manager_ok_def registry_new_ok)
    (simp add: PeerRegistry_new_def registry_get_def)

lemma net_reachable_ok: "net_reachable E A nm \<Longrightarrow> manager_ok nm"
  by (induction rule: net_reachable.induct) (auto intro: new_manager_ok network_turn_ok)

section \<open>Properties\<close>

text \<open>
  C24: The bookkeeping of sessions stays exact. Whatever connections, commands, session events and
  timers arrive, the registry never has more slots than allowed, the id of a session is its slot, the
  index by node peer names exactly the session registered for the peer (so at most one), and a
  command channel is kept exactly for the sessions that exist. A session thread is taken to report
  that it is ready only once.
\<close>

theorem net_manager_invariant:
  assumes "net_reachable E A nm"
  shows "length (sessions (nm_peers nm)) \<le> max_peers (nm_peers nm) \<and>
    (\<forall>i s. registry_get (nm_peers nm) i = Some s \<longrightarrow> session_id s = i) \<and>
    (\<forall>p i. session_for_node (nm_peers nm) p = Some i \<longleftrightarrow>
       (\<exists>s. registry_get (nm_peers nm) i = Some s \<and> session_node_peer_id s = Some p)) \<and>
    (\<forall>i. bt_get (session_commands nm) i \<noteq> None \<longleftrightarrow> registry_get (nm_peers nm) i \<noteq> None)"
  using net_reachable_ok [OF assms] by (simp add: manager_ok_def registry_ok_def session_for_node_def)

lemma send_session_get:
  assumes "bt_get (session_commands nm) i = Some ch" and "\<not> receiver_dropped ch"
  shows "send_session i c nm = (Inr (), nm\<lparr>session_commands := bt_insert i (ch\<lparr>sent := sent ch @ [c]\<rparr>) (session_commands nm)\<rparr>)"
  using assms by (simp add: send_session_def send_def)

text \<open>
  Frames go to the right session. A frame for a peer is put on the command channel of the
  session that is registered for the peer and on no other; a frame for a peer without a session is dropped
  and nothing changes.
\<close>

theorem frame_routed_to_session:
  assumes "net_reachable E A nm" and "\<forall>i ch. bt_get (session_commands nm) i = Some ch \<longrightarrow> \<not> receiver_dropped ch"
  shows "\<exists>nm'. handle_network_command E (SendFrameCommand p frame) nm = Some (Inr (), nm') \<and> nm_peers nm' = nm_peers nm \<and>
    (\<forall>i. map_option sent (bt_get (session_commands nm') i) =
       map_option (\<lambda>ch. sent ch @
         (if \<exists>s. registry_get (nm_peers nm) i = Some s \<and> session_node_peer_id s = Some p
          then [SessionSendFrame frame] else []))
         (bt_get (session_commands nm) i))"
proof -
  have ok: "manager_ok nm" using assms(1) by (rule net_reachable_ok)
  have index: "session_for_node (nm_peers nm) p = Some i \<longleftrightarrow>
      (\<exists>s. registry_get (nm_peers nm) i = Some s \<and> session_node_peer_id s = Some p)" for i
    using ok by (simp add: manager_ok_def registry_ok_def session_for_node_def)
  show ?thesis
  proof (cases "session_for_node (nm_peers nm) p")
    case None
    then show ?thesis
      using index by (auto simp: handle_network_command_def send_frame_to_peer_def option.map_comp comp_def)
  next
    case (Some i)
    then have "registry_get (nm_peers nm) i \<noteq> None" using index by blast
    then obtain ch where ch: "bt_get (session_commands nm) i = Some ch" using ok unfolding manager_ok_def
      by (metis not_None_eq)
    then have "\<not> receiver_dropped ch" using assms(2) by blast
    note send = send_session_get [OF ch this, of "SessionSendFrame frame"]
    have wf: "bt_wf (session_commands nm)" using ok by (simp add: manager_ok_def)
    have "(\<exists>s. registry_get (nm_peers nm) j = Some s \<and> session_node_peer_id s = Some p) \<longleftrightarrow> j = i" for j
      using index [of j] Some by auto
    then show ?thesis
      using Some send ch wf by (simp add: handle_network_command_def send_frame_to_peer_def bt_simps option.map_id0 id_def)
  qed
qed

text \<open>
  C25: Requests respect the limit of the peer. A request for blocks that is sent to a registered
  peer keeps its start, stays inside the range that was asked for, and spans at most as many heights as
  the peer announced in its hello (a limit of 0 means none).
\<close>

theorem clamped_request_bounded:
  assumes "session_for_node (nm_peers nm) p = Some i" and "registry_get (nm_peers nm) i = Some s"
    and "session_max_blocks_per_chunk s \<noteq> 0" and "lo \<le> hi"
  shows "sync_from (clamp_sync_request nm p (SyncRequest lo hi)) = lo \<and>
    lo \<le> sync_to (clamp_sync_request nm p (SyncRequest lo hi)) \<and>
    sync_to (clamp_sync_request nm p (SyncRequest lo hi)) \<le> hi \<and>
    unat (sync_to (clamp_sync_request nm p (SyncRequest lo hi))) - unat lo + 1 \<le> unat (session_max_blocks_per_chunk s)"
proof -
  let ?limit = "session_max_blocks_per_chunk s"
  let ?top = "saturating_add lo (saturating_sub (ucast ?limit) 1)"
  have limit: "unat (ucast ?limit :: u64) = unat ?limit"
    using unat_lt_length [of ?limit] by (simp add: unsigned_ucast_eq take_bit_nat_eq_self)
  have pos: "0 < unat ?limit" using assms(3) by (simp add: unat_gt_0)
  have eq: "clamp_sync_request nm p (SyncRequest lo hi) = SyncRequest lo (min hi ?top)"
    using assms by (simp add: clamp_sync_request_def Let_def leD)
  have top: "unat ?top = min (unat lo + (unat ?limit - 1)) (2 ^ 64 - 1)"
    by (simp only: unat_saturating_add unat_saturating_sub limit unat_1)
  have "unat lo < 2 ^ 64" by (rule unat_u64_less)
  then have "unat lo \<le> unat ?top" and "unat ?top - unat lo + 1 \<le> unat ?limit"
    using pos unfolding top by linarith+
  moreover have "unat (min hi ?top) = min (unat hi) (unat ?top)"
    by (simp add: min_def word_le_nat_alt)
  ultimately show ?thesis
    using assms(4) unfolding eq by (simp add: word_le_nat_alt min_def split: if_splits)
qed

text \<open>
  When the registry is full, the next connection ends the network task. If every slot of the
  registry holds a session, an accepted connection makes the loop return the error \<open>peer registry is full\<close>,
  and whatever inputs follow are not handled.
\<close>

theorem full_registry_stops_manager:
  assumes "None \<notin> set (sessions (nm_peers nm))" and "length (sessions (nm_peers nm)) = max_peers (nm_peers nm)"
  shows "network_loop E A (Accepted (Inr ()) io # inputs) cursor nm = Some (Inl (Config ''peer registry is full''), nm)"
proof -
  have "alloc [] False None (nm_peers nm) = (Inl (Config ''peer registry is full''), nm_peers nm)"
    using assms free_slot_None [of 0 "sessions (nm_peers nm)"] by (simp add: alloc_def)
  then show ?thesis by (simp add: spawn_session_def and_then_def on_peers_def)
qed

text \<open>A second session of a node that is already connected has the same effect.\<close>

lemma duplicate_peer_stops_manager:
  assumes "session_for_node (nm_peers nm) (verified_node_peer_id v) = Some j" and "j \<noteq> i"
    and "registry_get (nm_peers nm) i \<noteq> None"
  shows "\<exists>nm'. network_loop E A (SessionEventArrived (SessionReady i v) # inputs) cursor nm =
    Some (Inl (Config ''node peer is already registered to another session''), nm')"
  using assms by (simp add: and_then_def on_peers_def register_node_peer_def session_for_node_def)

text \<open>A session that registers twice under different peers leaves its first entry in the index behind.\<close>

lemma register_twice_stale:
  assumes "registry_ok R" and "registry_get R i = Some s" and "session_node_peer_id s = Some p" and "q \<noteq> p"
    and "register_node_peer i q R = (Inr (), R')"
  shows "session_for_node (snd (registry_remove i R')) p = Some i \<and> registry_get (snd (registry_remove i R')) i = None"
proof -
  have R': "R' = (update_session i (\<lambda>s. s\<lparr>session_node_peer_id := Some q\<rparr>) R)\<lparr>by_node_peer := bt_insert q i (by_node_peer R)\<rparr>"
    using assms(5) by (auto simp: register_node_peer_def split: option.splits if_splits)
  have wf: "bt_wf (by_node_peer R)" and p: "bt_get (by_node_peer R) p = Some i"
    using assms(1-3) by (auto simp: registry_ok_def)
  have i: "i < length (sessions R)" using assms(2) by (rule registry_get_lt)
  have get: "registry_get R' i = Some (s\<lparr>session_node_peer_id := Some q\<rparr>)"
    using assms(2) by (simp add: R' update_session_get)
  show ?thesis
    using get wf p assms(4) i
    by (simp add: registry_remove_def session_for_node_def R' bt_simps)
qed

section \<open>Concrete managers\<close>

definition demo_addr :: addr_env where
  "demo_addr = \<lparr> parse_multiaddr = (\<lambda>_. None), parse_peer_id = (\<lambda>_. None), to_socket_addrs = (\<lambda>_ _. Inr []) \<rparr>"

definition demo_io :: net_io where
  "demo_io = \<lparr> connect_to = (\<lambda>_. Inr ()), spawn_thread = (\<lambda>_. Inr ()) \<rparr>"

definition demo_peer :: VerifiedPeer where
  "demo_peer = \<lparr> verified_node_peer_id = 7, verified_public_key = [], verified_transport_peer_id = [1],
     verified_max_frame_len = 1024, verified_max_blocks_per_chunk = 8,
     verified_capabilities = \<lparr> supports_sync_v1 = True, supports_announce_v1 = True, supports_ping = True \<rparr> \<rparr>"

definition demo_net0 :: "(u8, demo_sig) NetworkManager" where
  "demo_net0 = \<lparr> nm_event_tx = open_channel, nm_config = NetworkConfig_default, nm_peers = PeerRegistry_new 16,
     session_commands = [], spawned_workers = [] \<rparr>"

definition demo_session_7 :: PeerSession where
  "demo_session_7 = (ready_session demo_peer (new_session 0 [] False None))\<lparr>session_node_peer_id := Some 7\<rparr>"

definition demo_net1 :: "(u8, demo_sig) NetworkManager" where
  "demo_net1 = \<lparr> nm_event_tx = open_channel, nm_config = NetworkConfig_default,
     nm_peers = \<lparr> sessions = [Some (new_session 0 [] False None)], by_node_peer = [], max_peers = 16 \<rparr>,
     session_commands = [(0, open_channel)],
     spawned_workers = [\<lparr> worker_session_id = 0, worker_role = Inbound, worker_config = NetworkConfig_default,
       worker_expected_transport_peer = None \<rparr>] \<rparr>"

definition demo_net2 :: "(u8, demo_sig) NetworkManager" where
  "demo_net2 = demo_net1\<lparr>nm_event_tx := \<lparr> sent = [PeerConnectedEvent 7], receiver_dropped = False \<rparr>,
     nm_peers := \<lparr> sessions = [Some demo_session_7], by_node_peer = [(7, 0)], max_peers = 16 \<rparr>\<rparr>"

lemma demo_net_reachable: "net_reachable demo_net demo_addr demo_net2"
proof -
  have "NetworkManager_new demo_addr None open_channel = Inr demo_net0"
    by (simp add: NetworkManager_new_def from_build_env_def parse_bootstrap_peers_def NetworkConfig_default_def
        DEFAULT_MAX_PEERS_def demo_net0_def)
  then have "net_reachable demo_net demo_addr demo_net0" by (rule net_start)
  moreover have "ready_once (Accepted (Inr ()) demo_io) demo_net0" by (simp add: ready_once_def)
  moreover have "network_turn demo_net demo_addr (Accepted (Inr ()) demo_io) 0 demo_net0 = Some ((Inr (), demo_net1), 0)"
    by (simp add: spawn_session_def and_then_def on_peers_def alloc_def demo_net0_def demo_net1_def demo_io_def
        PeerRegistry_new_def)
  ultimately have "net_reachable demo_net demo_addr demo_net1" by (rule net_turn)
  moreover have "ready_once (SessionEventArrived (SessionReady 0 demo_peer)) demo_net1"
    by (simp add: ready_once_def demo_net1_def registry_get_def new_session_def)
  moreover have "network_turn demo_net demo_addr (SessionEventArrived (SessionReady 0 demo_peer)) 0 demo_net1 =
      Some ((Inr (), demo_net2), 0)"
    by (simp add: and_then_def on_peers_def demo_net1_def demo_net2_def demo_session_7_def demo_peer_def registry_get_def
        update_session_def register_node_peer_def send_runtime_event_def send_on_def send_def open_channel_def
        ready_session_def)
  ultimately show ?thesis by (rule net_turn)
qed

lemma demo_net2_sel:
  "session_for_node (nm_peers demo_net2) 7 = Some 0" "registry_get (nm_peers demo_net2) 0 = Some demo_session_7"
  "session_commands demo_net2 = [(0, open_channel)]"
  by (simp_all add: demo_net2_def session_for_node_def registry_get_def demo_net1_def)

theorem net_manager_invariant_witness:
  "\<exists>nm :: (u8, demo_sig) NetworkManager. net_reachable demo_net demo_addr nm \<and> session_for_node (nm_peers nm) 7 = Some 0 \<and>
    length (sessions (nm_peers nm)) \<le> max_peers (nm_peers nm)"
  using net_manager_invariant [OF demo_net_reachable] demo_net_reachable demo_net2_sel(1) by blast

theorem frame_routed_to_session_witness:
  "\<exists>nm'. handle_network_command demo_net (SendFrameCommand 7 [3]) demo_net2 = Some (Inr (), nm') \<and>
    map_option sent (bt_get (session_commands nm') 0) = Some [SessionSendFrame [3]]"
proof -
  have "\<forall>i ch. bt_get (session_commands demo_net2) i = Some ch \<longrightarrow> \<not> receiver_dropped ch"
    by (simp add: demo_net2_sel open_channel_def)
  from frame_routed_to_session [OF demo_net_reachable this, of 7 "[3]"] show ?thesis
    by (auto simp: demo_net2_sel demo_session_7_def open_channel_def dest!: spec [of _ 0])
qed

theorem clamped_request_bounded_witness:
  "unat (sync_to (clamp_sync_request demo_net2 7 (SyncRequest 1 100))) - unat (1 :: u64) + 1 \<le> 8"
  using clamped_request_bounded [of demo_net2 7 0 demo_session_7 1 100]
  by (simp add: demo_net2_sel demo_session_7_def ready_session_def demo_peer_def)

theorem full_registry_stops_manager_witness:
  "network_loop demo_net demo_addr [Accepted (Inr ()) demo_io]  0
      (demo_net1\<lparr>nm_peers := \<lparr> sessions = [Some (new_session 0 [] False None)], by_node_peer = [], max_peers = 1 \<rparr>\<rparr>)
    = Some (Inl (Config ''peer registry is full''),
        demo_net1\<lparr>nm_peers := \<lparr> sessions = [Some (new_session 0 [] False None)], by_node_peer = [], max_peers = 1 \<rparr>\<rparr>)"
  by (rule full_registry_stops_manager) simp_all

end
