(* ===== verification/Multistream.thy ===== *)
theory Multistream
  imports Framing
begin

text \<open>
  Protocol negotiation (\<open>erp-runtime/src/network/transport/multistream.rs\<close>). The names of protocols are
  Rust strings, modelled by their UTF-8 bytes; \<open>utf8_valid\<close> is the check of \<open>String::from_utf8\<close>.
\<close>

section \<open>Strings\<close>

definition is_cont :: "u8 \<Rightarrow> bool" where
  "is_cont b \<longleftrightarrow> 0x80 \<le> b \<and> b \<le> 0xBF"

fun utf8_valid :: "byte_vec \<Rightarrow> bool" where
  "utf8_valid [] = True"
| "utf8_valid (a # bs) =
     (if a < 0x80 then utf8_valid bs
      else if 0xC2 \<le> a \<and> a \<le> 0xDF
      then (case bs of b # rest \<Rightarrow> is_cont b \<and> utf8_valid rest | _ \<Rightarrow> False)
      else if 0xE0 \<le> a \<and> a \<le> 0xEF
      then (case bs of
              b # c # rest \<Rightarrow> is_cont b \<and> is_cont c \<and> (a = 0xE0 \<longrightarrow> 0xA0 \<le> b) \<and> (a = 0xED \<longrightarrow> b \<le> 0x9F) \<and> utf8_valid rest
            | _ \<Rightarrow> False)
      else if 0xF0 \<le> a \<and> a \<le> 0xF4
      then (case bs of
              b # c # d # rest \<Rightarrow> is_cont b \<and> is_cont c \<and> is_cont d \<and> (a = 0xF0 \<longrightarrow> 0x90 \<le> b) \<and>
                (a = 0xF4 \<longrightarrow> b \<le> 0x8F) \<and> utf8_valid rest
            | _ \<Rightarrow> False)
      else False)"

definition str_bytes :: "string \<Rightarrow> byte_vec" where
  "str_bytes s = map of_char s"

definition newline :: u8 where "newline = 10"

definition MULTISTREAM_V1 :: byte_vec where "MULTISTREAM_V1 = str_bytes ''/multistream/1.0.0''"
definition MULTISTREAM_NOT_AVAILABLE :: byte_vec where "MULTISTREAM_NOT_AVAILABLE = str_bytes ''na''"
definition MAX_PROTOCOL_FRAME_LEN :: nat where "MAX_PROTOCOL_FRAME_LEN = 16 * 1024"

section \<open>Lines\<close>

definition ends_with_newline :: "byte_vec \<Rightarrow> bool" where
  "ends_with_newline line \<longleftrightarrow> line \<noteq> [] \<and> last line = newline"

definition write_protocol :: "varint \<Rightarrow> byte_vec \<Rightarrow> (io_stream, RuntimeError, unit) effect" where
  "write_protocol V protocol =
     (let line = (if ends_with_newline protocol then protocol else protocol @ [newline])
      in if length line > MAX_PROTOCOL_FRAME_LEN
         then fail_with (NetworkError (IoError InvalidData ''multistream protocol line exceeds maximum frame length''))
         else and_then (of_result (map_err NetworkError
                (encode_length_prefixed V line (word_of_nat MAX_PROTOCOL_FRAME_LEN))))
           (\<lambda>frame. and_then (map_err_effect NetworkError (write_all frame))
             (\<lambda>_. map_err_effect NetworkError flush)))"

definition read_protocol :: "varint \<Rightarrow> nat \<Rightarrow> (io_stream, RuntimeError, byte_vec) effect" where
  "read_protocol V max_len =
     (let frame_limit = word_of_nat (min max_len MAX_PROTOCOL_FRAME_LEN) :: u32
      in and_then (map_err_effect NetworkError (read_length_prefixed_frame V frame_limit))
        (\<lambda>frame. and_then (of_result (map_err NetworkError (decode_length_prefix V frame frame_limit)))
          (\<lambda>(_, line).
             if \<not> ends_with_newline line
             then fail_with (NetworkError (IoError InvalidData ''multistream protocol line is not newline terminated''))
             else if utf8_valid (butlast line) then done_with (butlast line)
             else fail_with (NetworkError (IoError InvalidData ''multistream protocol line is not valid UTF-8'')))))"

section \<open>Dialer and listener\<close>

definition dialer_select :: "varint \<Rightarrow> byte_vec \<Rightarrow> (io_stream, RuntimeError, unit) effect" where
  "dialer_select V protocol =
     and_then (write_protocol V MULTISTREAM_V1)
       (\<lambda>_. and_then (read_protocol V MAX_PROTOCOL_FRAME_LEN)
         (\<lambda>remote_header.
            if remote_header \<noteq> MULTISTREAM_V1
            then fail_with (Config ''remote did not acknowledge multistream v1'')
            else and_then (write_protocol V protocol)
              (\<lambda>_. and_then (read_protocol V MAX_PROTOCOL_FRAME_LEN)
                (\<lambda>selected.
                   if selected = protocol then done_with ()
                   else if selected = MULTISTREAM_NOT_AVAILABLE
                   then fail_with (Config ''remote rejected requested protocol'')
                   else fail_with (Config ''remote acknowledged an unexpected protocol'')))))"

definition listener_select_optional :: "varint \<Rightarrow> byte_vec list \<Rightarrow> (io_stream, RuntimeError, byte_vec option) effect" where
  "listener_select_optional V supported =
     and_then (read_protocol V MAX_PROTOCOL_FRAME_LEN)
       (\<lambda>remote_header.
          if remote_header \<noteq> MULTISTREAM_V1
          then fail_with (Config ''remote did not initiate multistream v1 negotiation'')
          else and_then (write_protocol V MULTISTREAM_V1)
            (\<lambda>_. and_then (read_protocol V MAX_PROTOCOL_FRAME_LEN)
              (\<lambda>requested.
                 if requested \<in> set supported
                 then and_then (write_protocol V requested) (\<lambda>_. done_with (Some requested))
                 else and_then (write_protocol V MULTISTREAM_NOT_AVAILABLE) (\<lambda>_. done_with None))))"

definition listener_select :: "varint \<Rightarrow> byte_vec list \<Rightarrow> (io_stream, RuntimeError, byte_vec) effect" where
  "listener_select V supported =
     and_then (listener_select_optional V supported)
       (\<lambda>selected. case selected of
          Some protocol \<Rightarrow> done_with protocol
        | None \<Rightarrow> fail_with (Config ''requested protocol is not supported by the listener''))"

section \<open>The wire\<close>

definition protocol_frame :: "varint \<Rightarrow> byte_vec \<Rightarrow> byte_vec" where
  "protocol_frame V protocol = varint_encode V (word_of_nat (Suc (length protocol))) @ protocol @ [newline]"

text \<open>A name that can be negotiated: valid UTF-8, no newline at its end, short enough for a line.\<close>

definition protocol_name :: "byte_vec \<Rightarrow> bool" where
  "protocol_name p \<longleftrightarrow> utf8_valid p \<and> \<not> ends_with_newline p \<and> length p < MAX_PROTOCOL_FRAME_LEN"

lemma utf8_ascii: "\<forall>b\<in>set p. b < 0x80 \<Longrightarrow> utf8_valid p"
  by (induction p) simp_all

lemma protocol_name_header: "protocol_name MULTISTREAM_V1" "protocol_name MULTISTREAM_NOT_AVAILABLE"
  by (simp_all add: protocol_name_def MULTISTREAM_V1_def MULTISTREAM_NOT_AVAILABLE_def str_bytes_def
      ends_with_newline_def newline_def MAX_PROTOCOL_FRAME_LEN_def)

lemma limit_unat: "unat (word_of_nat MAX_PROTOCOL_FRAME_LEN :: u32) = MAX_PROTOCOL_FRAME_LEN"
  by (simp add: MAX_PROTOCOL_FRAME_LEN_def)

lemma write_protocol_ok:
  assumes "protocol_name p" and "tx_fault s = None"
  shows "write_protocol V p s = (Inr (), s\<lparr>tx := tx s @ protocol_frame V p\<rparr>)"
proof -
  have len: "length (p @ [newline]) \<le> MAX_PROTOCOL_FRAME_LEN" and line: "\<not> ends_with_newline p"
    using assms(1) by (simp_all add: protocol_name_def)
  have "encode_length_prefixed V (p @ [newline]) (word_of_nat MAX_PROTOCOL_FRAME_LEN) = Inr (protocol_frame V p)"
    using len by (subst encode_length_prefixed_ok) (simp_all add: limit_unat protocol_frame_def)
  then show ?thesis
    using len line assms(2)
    by (simp add: write_protocol_def and_then_def map_err_effect_def write_all_open flush_open)
qed

lemma read_protocol_ok:
  assumes "rx s = protocol_frame V p @ rest" and "varint_ok V" and "protocol_name p"
  shows "read_protocol V MAX_PROTOCOL_FRAME_LEN s = (Inr p, s\<lparr>rx := rest\<rparr>)"
proof -
  let ?limit = "word_of_nat MAX_PROTOCOL_FRAME_LEN :: u32" and ?line = "p @ [newline]"
  have len: "length ?line \<le> unat ?limit" using assms(3) by (simp add: limit_unat protocol_name_def)
  have rx: "rx s = varint_encode V (word_of_nat (length ?line)) @ ?line @ rest"
    using assms(1) by (simp add: protocol_frame_def)
  note read = read_frame_encoded [OF assms(2) len rx]
    and decode = decode_length_prefix_encoded [OF assms(2) len, of "[]"]
  show ?thesis
    using read decode assms(3)
    by (simp add: read_protocol_def Let_def and_then_def map_err_effect_def ends_with_newline_def protocol_name_def)
qed

lemma listener_ok:
  assumes "varint_ok V" and "protocol_name p" and "\<forall>q\<in>set supported. protocol_name q"
    and "rx s = protocol_frame V MULTISTREAM_V1 @ protocol_frame V p @ rest" and "tx_fault s = None"
  shows "listener_select_optional V supported s =
    (Inr (if p \<in> set supported then Some p else None),
     s\<lparr>rx := rest, tx := tx s @ protocol_frame V MULTISTREAM_V1 @
         protocol_frame V (if p \<in> set supported then p else MULTISTREAM_NOT_AVAILABLE)\<rparr>)"
  using assms
  by (cases "p \<in> set supported") (simp_all add: listener_select_optional_def and_then_def read_protocol_ok write_protocol_ok protocol_name_header)

lemma dialer_ok:
  assumes "varint_ok V" and "protocol_name p" and "protocol_name answer"
    and "rx s = protocol_frame V MULTISTREAM_V1 @ protocol_frame V answer @ rest" and "tx_fault s = None"
  shows "dialer_select V p s =
    ((if answer = p then Inr ()
      else if answer = MULTISTREAM_NOT_AVAILABLE then Inl (Config ''remote rejected requested protocol'')
      else Inl (Config ''remote acknowledged an unexpected protocol'')),
     s\<lparr>rx := rest, tx := tx s @ protocol_frame V MULTISTREAM_V1 @ protocol_frame V p\<rparr>)"
  using assms
  by (simp add: dialer_select_def and_then_def read_protocol_ok write_protocol_ok protocol_name_header)

definition fresh_stream :: "byte_vec \<Rightarrow> io_stream" where
  "fresh_stream bytes = \<lparr> rx = bytes, rx_fault = None, tx = [], tx_fault = None \<rparr>"

lemma fresh_stream_sel [simp]: "rx (fresh_stream bytes) = bytes" "tx (fresh_stream bytes) = []" "tx_fault (fresh_stream bytes) = None"
  by (simp_all add: fresh_stream_def)

text \<open>
  Both ends agree on the protocol. A dialer that asks for \<open>p\<close> and a listener, each reading what
  the other writes, finish the negotiation: when the listener supports \<open>p\<close> both go on with \<open>p\<close>, and
  otherwise the listener has refused and the dialer reports the refusal; in both cases no byte of the
  negotiation is left on the stream for the protocol that follows. The name must not be the refusal
  itself: a dialer that asked for \<open>na\<close> would take the refusal for a confirmation.
\<close>

theorem multistream_agreement:
  assumes "varint_ok V" and "protocol_name p" and "p \<noteq> MULTISTREAM_NOT_AVAILABLE" and "\<forall>q\<in>set supported. protocol_name q"
  shows "\<exists>to_listener to_dialer.
    listener_select_optional V supported (fresh_stream (to_listener @ after_l)) =
      (Inr (if p \<in> set supported then Some p else None), (fresh_stream after_l)\<lparr>tx := to_dialer\<rparr>) \<and>
    dialer_select V p (fresh_stream (to_dialer @ after_d)) =
      (if p \<in> set supported then Inr () else Inl (Config ''remote rejected requested protocol''),
       (fresh_stream after_d)\<lparr>tx := to_listener\<rparr>)"
proof -
  let ?answer = "if p \<in> set supported then p else MULTISTREAM_NOT_AVAILABLE"
  let ?to_listener = "protocol_frame V MULTISTREAM_V1 @ protocol_frame V p"
  let ?to_dialer = "protocol_frame V MULTISTREAM_V1 @ protocol_frame V ?answer"
  have "protocol_name ?answer" using assms(2) protocol_name_header by simp
  then have "dialer_select V p (fresh_stream (?to_dialer @ after_d)) =
      (if p \<in> set supported then Inr () else Inl (Config ''remote rejected requested protocol''),
       (fresh_stream after_d)\<lparr>tx := ?to_listener\<rparr>)"
    using dialer_ok [OF assms(1,2), of ?answer "fresh_stream (?to_dialer @ after_d)" after_d] assms(3)
    by (auto simp: fresh_stream_def)
  moreover have "listener_select_optional V supported (fresh_stream (?to_listener @ after_l)) =
      (Inr (if p \<in> set supported then Some p else None), (fresh_stream after_l)\<lparr>tx := ?to_dialer\<rparr>)"
    using listener_ok [OF assms(1,2,4), of "fresh_stream (?to_listener @ after_l)" after_l]
    by (auto simp: fresh_stream_def)
  ultimately show ?thesis by (intro exI [of _ ?to_listener] exI [of _ ?to_dialer] conjI)
qed

theorem multistream_agreement_witness:
  "\<exists>to_listener to_dialer.
    listener_select_optional demo_varint [str_bytes ''/noise''] (fresh_stream to_listener) =
      (Inr (Some (str_bytes ''/noise'')), (fresh_stream [])\<lparr>tx := to_dialer\<rparr>) \<and>
    dialer_select demo_varint (str_bytes ''/noise'') (fresh_stream to_dialer) = (Inr (), (fresh_stream [])\<lparr>tx := to_listener\<rparr>)"
proof -
  have "protocol_name (str_bytes ''/noise'')" "str_bytes ''/noise'' \<noteq> MULTISTREAM_NOT_AVAILABLE"
    by (simp_all add: protocol_name_def str_bytes_def ends_with_newline_def newline_def MAX_PROTOCOL_FRAME_LEN_def
        MULTISTREAM_NOT_AVAILABLE_def)
  then show ?thesis
    using multistream_agreement [OF demo_varint_ok, of "str_bytes ''/noise''" "[str_bytes ''/noise'']" "[]" "[]"] by simp
qed

end
