(* ===== verification/Identify.thy ===== *)
theory Identify
  imports Multistream PeerRegistry
begin

text \<open>
  The libp2p identify message (\<open>erp-runtime/src/network/protocol/identify.rs\<close>) and the protocol names of
  a session (\<open>protocol/mod.rs\<close>). The readers and writers of \<open>quick_protobuf\<close>, the binary form of
  multiaddresses, their text parser and the libp2p key decoder are the parameter \<open>P\<close>; \<open>protobuf_ok\<close> is
  the documented behaviour of the reader on what the writer wrote. The reader's position is the list of
  bytes that are left.
\<close>

section \<open>Protocol names\<close>

definition IDENTIFY_PROTOCOL :: byte_vec where "IDENTIFY_PROTOCOL = str_bytes ''/ipfs/id/1.0.0''"
definition IDENTIFY_PUSH_PROTOCOL :: byte_vec where "IDENTIFY_PUSH_PROTOCOL = str_bytes ''/ipfs/id/push/1.0.0''"
definition NODE_HELLO_PROTOCOL :: byte_vec where "NODE_HELLO_PROTOCOL = str_bytes ''/rust-proof/node-hello/1''"
definition PING_PROTOCOL :: byte_vec where "PING_PROTOCOL = str_bytes ''/ipfs/ping/1.0.0''"
definition ANNOUNCE_PROTOCOL :: byte_vec where "ANNOUNCE_PROTOCOL = str_bytes ''/rust-proof/announce/1''"
definition SYNC_PROTOCOL :: byte_vec where "SYNC_PROTOCOL = str_bytes ''/rust-proof/sync/1''"

definition SESSION_SETUP_PROTOCOLS :: "byte_vec list" where
  "SESSION_SETUP_PROTOCOLS = [IDENTIFY_PROTOCOL, NODE_HELLO_PROTOCOL]"

definition INBOUND_SESSION_PROTOCOLS :: "byte_vec list" where
  "INBOUND_SESSION_PROTOCOLS = [IDENTIFY_PROTOCOL, IDENTIFY_PUSH_PROTOCOL, NODE_HELLO_PROTOCOL, PING_PROTOCOL,
     ANNOUNCE_PROTOCOL, SYNC_PROTOCOL]"

definition advertised_protocols :: "byte_vec list" where
  "advertised_protocols = INBOUND_SESSION_PROTOCOLS"

lemmas protocol_defs = IDENTIFY_PROTOCOL_def IDENTIFY_PUSH_PROTOCOL_def NODE_HELLO_PROTOCOL_def PING_PROTOCOL_def
  ANNOUNCE_PROTOCOL_def SYNC_PROTOCOL_def INBOUND_SESSION_PROTOCOLS_def

lemma protocol_names:
  "protocol_name IDENTIFY_PROTOCOL" "protocol_name NODE_HELLO_PROTOCOL" "protocol_name PING_PROTOCOL"
  "protocol_name ANNOUNCE_PROTOCOL" "protocol_name SYNC_PROTOCOL" "protocol_name IDENTIFY_PUSH_PROTOCOL"
  by (simp_all add: protocol_defs protocol_name_def str_bytes_def ends_with_newline_def newline_def MAX_PROTOCOL_FRAME_LEN_def)

section \<open>The message\<close>

definition MAX_IDENTIFY_MESSAGE_SIZE :: u32 where "MAX_IDENTIFY_MESSAGE_SIZE = 4096"

record IdentifyInfo =
  protocol_version :: byte_vec
  agent_version :: byte_vec
  listen_addrs :: "MultiaddrLite list"
  supported_protocols :: "byte_vec list"
  observed_addr :: "SocketAddr option"
  transport_public_key :: byte_vec
  identify_transport_peer_id :: byte_vec

record IdentifyMessage =
  msg_protocol_version :: "byte_vec option"
  msg_agent_version :: "byte_vec option"
  msg_public_key :: "byte_vec option"
  msg_listen_addrs :: "byte_vec list"
  msg_observed_addr :: "byte_vec option"
  msg_protocols :: "byte_vec list"
  msg_signed_peer_record :: "byte_vec option"

record identify_env =
  pb_next_tag :: "byte_vec \<Rightarrow> (string, nat \<times> byte_vec) result"
  pb_read_bytes :: "byte_vec \<Rightarrow> (string, byte_vec \<times> byte_vec) result"
  pb_read_string :: "byte_vec \<Rightarrow> (string, byte_vec \<times> byte_vec) result"
  pb_read_unknown :: "nat \<Rightarrow> byte_vec \<Rightarrow> (string, byte_vec) result"
  pb_write_bytes :: "nat \<Rightarrow> byte_vec \<Rightarrow> (string, byte_vec) result"
  pb_write_string :: "nat \<Rightarrow> byte_vec \<Rightarrow> (string, byte_vec) result"
  pb_sizeof_len :: "nat \<Rightarrow> nat"
  multiaddr_parse :: "string \<Rightarrow> multiaddr_part list option"
  multiaddr_to_vec :: "multiaddr_part list \<Rightarrow> byte_vec"
  multiaddr_from_vec :: "byte_vec \<Rightarrow> multiaddr_part list option"
  ip6_text :: "128 word \<Rightarrow> string"
  public_key_peer_id :: "byte_vec \<Rightarrow> byte_vec option"

definition message_default :: IdentifyMessage where
  "message_default = \<lparr> msg_protocol_version = None, msg_agent_version = None, msg_public_key = None,
     msg_listen_addrs = [], msg_observed_addr = None, msg_protocols = [], msg_signed_peer_record = None \<rparr>"

text \<open>One round of the reader: the tag has been read, the value is read and stored.\<close>

definition read_field :: "identify_env \<Rightarrow> nat \<Rightarrow> byte_vec \<Rightarrow> IdentifyMessage \<Rightarrow> (string, IdentifyMessage \<times> byte_vec) result" where
  "read_field P tag bytes message =
     (if tag = 42 then bind_result (pb_read_string P bytes) (\<lambda>(v, rest). Inr (message\<lparr>msg_protocol_version := Some v\<rparr>, rest))
      else if tag = 50 then bind_result (pb_read_string P bytes) (\<lambda>(v, rest). Inr (message\<lparr>msg_agent_version := Some v\<rparr>, rest))
      else if tag = 10 then bind_result (pb_read_bytes P bytes) (\<lambda>(v, rest). Inr (message\<lparr>msg_public_key := Some v\<rparr>, rest))
      else if tag = 18 then bind_result (pb_read_bytes P bytes)
        (\<lambda>(v, rest). Inr (message\<lparr>msg_listen_addrs := msg_listen_addrs message @ [v]\<rparr>, rest))
      else if tag = 34 then bind_result (pb_read_bytes P bytes) (\<lambda>(v, rest). Inr (message\<lparr>msg_observed_addr := Some v\<rparr>, rest))
      else if tag = 26 then bind_result (pb_read_string P bytes)
        (\<lambda>(v, rest). Inr (message\<lparr>msg_protocols := msg_protocols message @ [v]\<rparr>, rest))
      else if tag = 66 then bind_result (pb_read_bytes P bytes) (\<lambda>(v, rest). Inr (message\<lparr>msg_signed_peer_record := Some v\<rparr>, rest))
      else bind_result (pb_read_unknown P tag bytes) (\<lambda>rest. Inr (message, rest)))"

partial_function (option) read_message :: "identify_env \<Rightarrow> byte_vec \<Rightarrow> IdentifyMessage \<Rightarrow> (string, IdentifyMessage) result exec" where
  "read_message P bytes message =
     (if bytes = [] then Some (Inr message)
      else (case pb_next_tag P bytes of
              Inl e \<Rightarrow> Some (Inl e)
            | Inr (tag, bytes') \<Rightarrow>
                (case read_field P tag bytes' message of
                   Inl e \<Rightarrow> Some (Inl e)
                 | Inr (message', rest) \<Rightarrow> read_message P rest message')))"

definition from_reader :: "identify_env \<Rightarrow> byte_vec \<Rightarrow> (string, IdentifyMessage) result exec" where
  "from_reader P bytes = read_message P bytes message_default"

fun write_all_fields :: "(string, byte_vec) result list \<Rightarrow> (string, byte_vec) result" where
  "write_all_fields [] = Inr []"
| "write_all_fields (w # ws) = bind_result w (\<lambda>bytes. bind_result (write_all_fields ws) (\<lambda>rest. Inr (bytes @ rest)))"

definition opt_list :: "'a option \<Rightarrow> 'a list" where
  "opt_list x = (case x of Some a \<Rightarrow> [a] | None \<Rightarrow> [])"

definition write_message :: "identify_env \<Rightarrow> IdentifyMessage \<Rightarrow> (string, byte_vec) result" where
  "write_message P m =
     write_all_fields
       (map (pb_write_string P 42) (opt_list (msg_protocol_version m)) @
        map (pb_write_string P 50) (opt_list (msg_agent_version m)) @
        map (pb_write_bytes P 10) (opt_list (msg_public_key m)) @
        map (pb_write_bytes P 18) (msg_listen_addrs m) @
        map (pb_write_bytes P 34) (opt_list (msg_observed_addr m)) @
        map (pb_write_string P 26) (msg_protocols m) @
        map (pb_write_bytes P 66) (opt_list (msg_signed_peer_record m)))"

definition get_size :: "identify_env \<Rightarrow> IdentifyMessage \<Rightarrow> nat" where
  "get_size P m =
     (let field = (\<lambda>v. 1 + pb_sizeof_len P (length v))
      in (case msg_protocol_version m of Some v \<Rightarrow> field v | None \<Rightarrow> 0) +
         (case msg_agent_version m of Some v \<Rightarrow> field v | None \<Rightarrow> 0) +
         (case msg_public_key m of Some v \<Rightarrow> field v | None \<Rightarrow> 0) +
         sum_list (map field (msg_listen_addrs m)) +
         (case msg_observed_addr m of Some v \<Rightarrow> field v | None \<Rightarrow> 0) +
         sum_list (map field (msg_protocols m)) +
         (case msg_signed_peer_record m of Some v \<Rightarrow> field v | None \<Rightarrow> 0))"

section \<open>Addresses\<close>

fun dec_text :: "nat \<Rightarrow> string" where
  "dec_text n = (if n < 10 then [char_of (48 + n)] else dec_text (n div 10) @ [char_of (48 + n mod 10)])"

declare dec_text.simps [simp del]

definition ip4_text :: "u32 \<Rightarrow> string" where
  "ip4_text ip = (let octet = (\<lambda>i. dec_text (unat (to_be 4 ip ! i)))
     in octet 0 @ ''.'' @ octet 1 @ ''.'' @ octet 2 @ ''.'' @ octet 3)"

definition encode_multiaddr :: "identify_env \<Rightarrow> MultiaddrLite \<Rightarrow> (RuntimeError, byte_vec) result" where
  "encode_multiaddr P addr =
     bind_result (ok_or (Config ''failed to encode identify listen multiaddr'')
         (multiaddr_parse P (case addr of
            Ip4Tcp ip port \<Rightarrow> ''/ip4/'' @ ip4_text ip @ ''/tcp/'' @ dec_text (unat port)
          | Dns4Tcp host port \<Rightarrow> ''/dns4/'' @ host @ ''/tcp/'' @ dec_text (unat port))))
       (\<lambda>multiaddr. Inr (multiaddr_to_vec P multiaddr))"

definition decode_multiaddr :: "identify_env \<Rightarrow> byte_vec \<Rightarrow> (RuntimeError, MultiaddrLite) result" where
  "decode_multiaddr P bytes =
     bind_result (ok_or (Config ''failed to decode identify multiaddr bytes'') (multiaddr_from_vec P bytes))
       (\<lambda>parts. case parts of
          [Ip4 ip, Tcp port] \<Rightarrow> Inr (Ip4Tcp ip port)
        | [Dns4 host, Tcp port] \<Rightarrow> Inr (Dns4Tcp host port)
        | _ \<Rightarrow> Inl (Config ''unsupported identify multiaddr''))"

definition encode_socket_addr :: "identify_env \<Rightarrow> SocketAddr \<Rightarrow> byte_vec exec" where
  "encode_socket_addr P addr =
     map_option (multiaddr_to_vec P)
       (multiaddr_parse P (case addr of
          SocketV4 ip port \<Rightarrow> ''/ip4/'' @ ip4_text ip @ ''/tcp/'' @ dec_text (unat port)
        | SocketV6 ip port \<Rightarrow> ''/ip6/'' @ ip6_text P ip @ ''/tcp/'' @ dec_text (unat port)))"

definition decode_socket_addr :: "identify_env \<Rightarrow> byte_vec \<Rightarrow> (RuntimeError, SocketAddr) result" where
  "decode_socket_addr P bytes =
     bind_result (ok_or (Config ''failed to decode observed multiaddr bytes'') (multiaddr_from_vec P bytes))
       (\<lambda>parts. case parts of
          [Ip4 ip, Tcp port] \<Rightarrow> Inr (SocketV4 ip port)
        | [Ip6 ip, Tcp port] \<Rightarrow> Inr (SocketV6 ip port)
        | _ \<Rightarrow> Inl (Config ''observed address is not a direct ip/tcp multiaddr''))"

section \<open>Encoding and decoding\<close>

definition identify_message ::
  "identify_env \<Rightarrow> IdentifyInfo \<Rightarrow> byte_vec list \<Rightarrow> byte_vec option \<Rightarrow> IdentifyMessage" where
  "identify_message P info addrs observed =
     \<lparr> msg_protocol_version = Some (protocol_version info), msg_agent_version = Some (agent_version info),
       msg_public_key = Some (transport_public_key info), msg_listen_addrs = addrs, msg_observed_addr = observed,
       msg_protocols = supported_protocols info, msg_signed_peer_record = None \<rparr>"

definition encode_identify :: "varint \<Rightarrow> identify_env \<Rightarrow> IdentifyInfo \<Rightarrow> (RuntimeError, byte_vec) result exec" where
  "encode_identify V P info =
     (case collect_results (map (encode_multiaddr P) (listen_addrs info)) of
        Inl e \<Rightarrow> Some (Inl e)
      | Inr addrs \<Rightarrow> do {
          observed \<leftarrow> (case observed_addr info of
             None \<Rightarrow> Some None
           | Some addr \<Rightarrow> map_option Some (encode_socket_addr P addr));
          Some (bind_result (map_err (\<lambda>_. Crypto ''failed to encode identify protobuf payload'')
                  (write_message P (identify_message P info addrs observed)))
            (\<lambda>payload. erp_encode_length_prefixed V payload MAX_IDENTIFY_MESSAGE_SIZE)) })"

definition decode_identify :: "varint \<Rightarrow> identify_env \<Rightarrow> byte_vec \<Rightarrow> (RuntimeError, IdentifyInfo) result exec" where
  "decode_identify V P bytes =
     (case erp_decode_length_prefix V bytes MAX_IDENTIFY_MESSAGE_SIZE of
        Inl e \<Rightarrow> Some (Inl e)
      | Inr (_, payload) \<Rightarrow> do {
          r \<leftarrow> from_reader P payload;
          Some (bind_result (map_err (\<lambda>_. Crypto ''failed to decode identify protobuf payload'') r)
            (\<lambda>message. bind_result
               (ok_or (Config ''identify payload is missing a transport public key'') (msg_public_key message))
               (\<lambda>key. bind_result
                  (ok_or (Crypto ''identify payload contains an invalid transport public key'') (public_key_peer_id P key))
                  (\<lambda>peer. Inr \<lparr> protocol_version = (case msg_protocol_version message of Some v \<Rightarrow> v | None \<Rightarrow> []),
                     agent_version = (case msg_agent_version message of Some v \<Rightarrow> v | None \<Rightarrow> []),
                     listen_addrs = List.map_filter
                       (\<lambda>b. case decode_multiaddr P b of Inr a \<Rightarrow> Some a | Inl _ \<Rightarrow> None) (msg_listen_addrs message),
                     supported_protocols = msg_protocols message,
                     observed_addr = Option.bind (msg_observed_addr message)
                       (\<lambda>b. case decode_socket_addr P b of Inr a \<Rightarrow> Some a | Inl _ \<Rightarrow> None),
                     transport_public_key = key, identify_transport_peer_id = peer \<rparr>)))) })"

section \<open>Reading back what was written\<close>

definition field_ok ::
  "identify_env \<Rightarrow> (nat \<Rightarrow> byte_vec \<Rightarrow> (string, byte_vec) result) \<Rightarrow> (byte_vec \<Rightarrow> (string, byte_vec \<times> byte_vec) result)
    \<Rightarrow> nat \<Rightarrow> byte_vec \<Rightarrow> bool" where
  "field_ok P wr rd tag v \<longleftrightarrow>
     (\<exists>w. wr tag v = Inr w \<and> w \<noteq> [] \<and>
        (\<forall>rest. \<exists>body. pb_next_tag P (w @ rest) = Inr (tag, body) \<and> rd body = Inr (v, rest)))"

definition protobuf_ok :: "identify_env \<Rightarrow> bool" where
  "protobuf_ok P \<longleftrightarrow>
     (\<forall>tag v. field_ok P (pb_write_bytes P) (pb_read_bytes P) tag v) \<and>
     (\<forall>tag v. utf8_valid v \<longrightarrow> field_ok P (pb_write_string P) (pb_read_string P) tag v)"

definition multiaddr_ok :: "identify_env \<Rightarrow> bool" where
  "multiaddr_ok P \<longleftrightarrow>
     (\<forall>ip port. multiaddr_parse P (''/ip4/'' @ ip4_text ip @ ''/tcp/'' @ dec_text (unat port)) = Some [Ip4 ip, Tcp port]) \<and>
     (\<forall>parts. multiaddr_from_vec P (multiaddr_to_vec P parts) = Some parts)"

definition string_tag :: "nat \<Rightarrow> bool" where
  "string_tag tag \<longleftrightarrow> tag \<in> {42, 50, 26}"

definition bytes_tag :: "nat \<Rightarrow> bool" where
  "bytes_tag tag \<longleftrightarrow> tag \<in> {10, 18, 34, 66}"

definition write_field :: "identify_env \<Rightarrow> nat \<times> byte_vec \<Rightarrow> (string, byte_vec) result" where
  "write_field P f = (if string_tag (fst f) then pb_write_string P (fst f) (snd f) else pb_write_bytes P (fst f) (snd f))"

definition set_field :: "nat \<times> byte_vec \<Rightarrow> IdentifyMessage \<Rightarrow> IdentifyMessage" where
  "set_field f m =
     (case f of (tag, v) \<Rightarrow>
       if tag = 42 then m\<lparr>msg_protocol_version := Some v\<rparr>
       else if tag = 50 then m\<lparr>msg_agent_version := Some v\<rparr>
       else if tag = 10 then m\<lparr>msg_public_key := Some v\<rparr>
       else if tag = 18 then m\<lparr>msg_listen_addrs := msg_listen_addrs m @ [v]\<rparr>
       else if tag = 34 then m\<lparr>msg_observed_addr := Some v\<rparr>
       else if tag = 26 then m\<lparr>msg_protocols := msg_protocols m @ [v]\<rparr>
       else m\<lparr>msg_signed_peer_record := Some v\<rparr>)"

definition field_valid :: "nat \<times> byte_vec \<Rightarrow> bool" where
  "field_valid f \<longleftrightarrow> (string_tag (fst f) \<and> utf8_valid (snd f)) \<or> bytes_tag (fst f)"

lemma read_field_written:
  assumes "protobuf_ok P" and "field_valid f"
  obtains w where "write_field P f = Inr w" and "w \<noteq> []"
    and "\<And>rest m. \<exists>body. pb_next_tag P (w @ rest) = Inr (fst f, body) \<and> read_field P (fst f) body m = Inr (set_field f m, rest)"
proof (cases "string_tag (fst f)")
  case True
  then have "field_ok P (pb_write_string P) (pb_read_string P) (fst f) (snd f)"
    using assms by (auto simp: protobuf_ok_def field_valid_def string_tag_def bytes_tag_def)
  then obtain w where w: "pb_write_string P (fst f) (snd f) = Inr w" "w \<noteq> []"
    and rd: "\<And>rest. \<exists>body. pb_next_tag P (w @ rest) = Inr (fst f, body) \<and> pb_read_string P body = Inr (snd f, rest)"
    unfolding field_ok_def by blast
  have "\<exists>body. pb_next_tag P (w @ rest) = Inr (fst f, body) \<and> read_field P (fst f) body m = Inr (set_field f m, rest)" for rest m
    using rd [of rest] True by (cases f) (auto simp: read_field_def set_field_def string_tag_def)
  then show thesis using that w True by (simp add: write_field_def)
next
  case False
  then have tag: "bytes_tag (fst f)" using assms(2) by (simp add: field_valid_def)
  then have "field_ok P (pb_write_bytes P) (pb_read_bytes P) (fst f) (snd f)"
    using assms by (simp add: protobuf_ok_def)
  then obtain w where w: "pb_write_bytes P (fst f) (snd f) = Inr w" "w \<noteq> []"
    and rd: "\<And>rest. \<exists>body. pb_next_tag P (w @ rest) = Inr (fst f, body) \<and> pb_read_bytes P body = Inr (snd f, rest)"
    unfolding field_ok_def by blast
  have "\<exists>body. pb_next_tag P (w @ rest) = Inr (fst f, body) \<and> read_field P (fst f) body m = Inr (set_field f m, rest)" for rest m
    using rd [of rest] tag by (cases f) (auto simp: read_field_def set_field_def bytes_tag_def)
  then show thesis using that w False by (simp add: write_field_def)
qed

lemma read_message_written:
  assumes "protobuf_ok P" and "\<forall>f\<in>set fs. field_valid f"
  shows "\<exists>bytes. write_all_fields (map (write_field P) fs) = Inr bytes \<and>
    (\<forall>m. read_message P bytes m = Some (Inr (fold set_field fs m)))"
  using assms(2)
proof (induction fs)
  case Nil
  then show ?case by (simp add: read_message.simps)
next
  case (Cons f fs)
  then obtain bytes where bytes: "write_all_fields (map (write_field P) fs) = Inr bytes"
    and read: "\<And>m. read_message P bytes m = Some (Inr (fold set_field fs m))" by auto
  obtain w where w: "write_field P f = Inr w" "w \<noteq> []" and field: "\<And>rest m. \<exists>body. pb_next_tag P (w @ rest) = Inr (fst f, body) \<and>
      read_field P (fst f) body m = Inr (set_field f m, rest)"
    using read_field_written [OF assms(1), of f] Cons.prems by auto
  have "read_message P (w @ bytes) m = Some (Inr (fold set_field (f # fs) m))" for m
  proof -
    obtain body where "pb_next_tag P (w @ bytes) = Inr (fst f, body)"
      "read_field P (fst f) body m = Inr (set_field f m, bytes)"
      using field by blast
    then show ?thesis using w(2) read by (subst read_message.simps) simp
  qed
  then show ?case using bytes w by simp
qed

lemma fold_listen: "fold set_field (map (Pair 18) vs) m = m\<lparr>msg_listen_addrs := msg_listen_addrs m @ vs\<rparr>"
  by (induction vs arbitrary: m) (simp_all add: set_field_def)

lemma fold_protocols: "fold set_field (map (Pair 26) vs) m = m\<lparr>msg_protocols := msg_protocols m @ vs\<rparr>"
  by (induction vs arbitrary: m) (simp_all add: set_field_def)

definition message_fields :: "IdentifyMessage \<Rightarrow> (nat \<times> byte_vec) list" where
  "message_fields m =
     map (Pair 42) (opt_list (msg_protocol_version m)) @ map (Pair 50) (opt_list (msg_agent_version m)) @
     map (Pair 10) (opt_list (msg_public_key m)) @ map (Pair 18) (msg_listen_addrs m) @
     map (Pair 34) (opt_list (msg_observed_addr m)) @ map (Pair 26) (msg_protocols m) @
     map (Pair 66) (opt_list (msg_signed_peer_record m))"

lemma write_message_fields: "write_message P m = write_all_fields (map (write_field P) (message_fields m))"
  by (simp add: write_message_def message_fields_def write_field_def string_tag_def comp_def)

lemma fold_message_fields: "fold set_field (message_fields m) message_default = m"
  by (cases m)
    (simp add: message_fields_def fold_listen fold_protocols message_default_def opt_list_def set_field_def split: option.split)

definition message_valid :: "IdentifyMessage \<Rightarrow> bool" where
  "message_valid m \<longleftrightarrow> (\<forall>v\<in>set (opt_list (msg_protocol_version m) @ opt_list (msg_agent_version m) @ msg_protocols m). utf8_valid v)"

lemma message_roundtrip:
  assumes "protobuf_ok P" and "message_valid m"
  shows "\<exists>bytes. write_message P m = Inr bytes \<and> from_reader P bytes = Some (Inr m)"
proof -
  have "\<forall>f\<in>set (message_fields m). field_valid f"
    using assms(2)
    by (auto simp: message_fields_def message_valid_def field_valid_def string_tag_def bytes_tag_def)
  from read_message_written [OF assms(1) this] show ?thesis
    by (auto simp: write_message_fields from_reader_def fold_message_fields)
qed

lemma written_size:
  assumes "\<And>tag v w. pb_write_string P tag v = Inr w \<or> pb_write_bytes P tag v = Inr w \<Longrightarrow> length w = 1 + pb_sizeof_len P (length v)"
    and "write_message P m = Inr bytes"
  shows "length bytes = get_size P m"
proof -
  have "write_all_fields (map (write_field P) fs) = Inr bytes \<Longrightarrow>
      length bytes = sum_list (map (\<lambda>f. 1 + pb_sizeof_len P (length (snd f))) fs)" for fs bytes
  proof (induction fs arbitrary: bytes)
    case (Cons f fs)
    then show ?case using assms(1) [of "fst f" "snd f"] by (auto simp: bind_result_Inr write_field_def split: if_splits)
  qed simp
  from this [OF assms(2) [unfolded write_message_fields]] show ?thesis
    by (simp add: message_fields_def get_size_def Let_def opt_list_def comp_def split: option.split)
qed

lemma ip4_addr_roundtrip:
  assumes "multiaddr_ok P"
  shows "\<exists>b. encode_multiaddr P (Ip4Tcp ip port) = Inr b \<and> decode_multiaddr P b = Inr (Ip4Tcp ip port)"
proof -
  have "multiaddr_parse P (''/ip4/'' @ ip4_text ip @ ''/tcp/'' @ dec_text (unat port)) = Some [Ip4 ip, Tcp port]"
    and "multiaddr_from_vec P (multiaddr_to_vec P [Ip4 ip, Tcp port]) = Some [Ip4 ip, Tcp port]"
    using assms unfolding multiaddr_ok_def by blast+
  then show ?thesis by (simp add: encode_multiaddr_def decode_multiaddr_def)
qed

lemma identify_roundtrip:
  assumes "varint_ok V" and "protobuf_ok P" and "multiaddr_ok P"
    and "public_key_peer_id P (transport_public_key info) = Some (identify_transport_peer_id info)"
    and "listen_addrs info = [Ip4Tcp ip port]" and "observed_addr info = None"
    and "\<forall>v\<in>set (protocol_version info # agent_version info # supported_protocols info). utf8_valid v"
    and "encode_identify V P info = Some (Inr frame)"
  shows "decode_identify V P frame = Some (Inr info)"
    and "\<exists>payload. frame = varint_encode V (word_of_nat (length payload)) @ payload \<and>
      length payload \<le> unat MAX_IDENTIFY_MESSAGE_SIZE"
proof -
  obtain b where b: "encode_multiaddr P (Ip4Tcp ip port) = Inr b" "decode_multiaddr P b = Inr (Ip4Tcp ip port)"
    using ip4_addr_roundtrip [OF assms(3)] by blast
  let ?m = "identify_message P info [b] None"
  have "message_valid ?m" using assms(7) by (auto simp: message_valid_def identify_message_def opt_list_def)
  then obtain payload where payload: "write_message P ?m = Inr payload" "from_reader P payload = Some (Inr ?m)"
    using message_roundtrip [OF assms(2)] by blast
  have enc: "encode_length_prefixed V payload MAX_IDENTIFY_MESSAGE_SIZE = Inr frame"
    using assms(5,6,8) b(1) payload(1) by (simp add: encode_identify_def erp_encode_length_prefixed_def)
  then have len: "length payload \<le> unat MAX_IDENTIFY_MESSAGE_SIZE"
    and frame: "frame = varint_encode V (word_of_nat (length payload)) @ payload"
    by (auto simp: encode_length_prefixed_def split: if_splits)
  then show "\<exists>payload. frame = varint_encode V (word_of_nat (length payload)) @ payload \<and>
      length payload \<le> unat MAX_IDENTIFY_MESSAGE_SIZE" by blast
  have "decode_length_prefix V frame MAX_IDENTIFY_MESSAGE_SIZE
      = Inr (length (varint_encode V (word_of_nat (length payload))), payload)"
    using decode_length_prefix_encoded [OF assms(1) len, of "[]"] by (simp add: frame)
  then show "decode_identify V P frame = Some (Inr info)"
    using payload(2) b(2) assms(4-6)
    by (cases info) (simp add: decode_identify_def erp_decode_length_prefix_def identify_message_def List.map_filter_simps)
qed

end
