(* ===== verification/Exchange.thy ===== *)
theory Exchange
  imports Multistream "HOL-Library.Sublist"
begin

text \<open>
  Two programs at the ends of a pair of byte channels. The stream operations of the runtimes are written
  against a stream that holds the bytes that have arrived; a read of more waits for the remote side. This
  theory makes the waiting visible: \<open>sent_after m bs\<close> is what a program has written when exactly the bytes
  \<open>bs\<close> have reached it, and \<open>exchange\<close> interleaves two programs, byte by byte, where a byte can only be
  delivered after it was written. A program that reads before it writes what the remote side needs to answer
  gets stuck here, although it would run to the end on a stream that holds the whole answer in advance.

  \<open>plays m acts v\<close> says that a program performs the reads and writes \<open>acts\<close> in this order and then returns
  \<open>v\<close>. Two programs that play mirrored scripts always finish (\<open>mirrored_exchange\<close>).
\<close>

section \<open>Scripts\<close>

datatype io_action = Writes byte_vec | Reads byte_vec

fun out_bytes :: "io_action list \<Rightarrow> byte_vec" where
  "out_bytes [] = []"
| "out_bytes (Writes w # acts) = w @ out_bytes acts"
| "out_bytes (Reads r # acts) = out_bytes acts"

fun in_bytes :: "io_action list \<Rightarrow> byte_vec" where
  "in_bytes [] = []"
| "in_bytes (Writes w # acts) = in_bytes acts"
| "in_bytes (Reads r # acts) = r @ in_bytes acts"

text \<open>What the script has written when only the bytes \<open>bs\<close> have arrived: it stops at the first read that lacks bytes.\<close>

fun written :: "io_action list \<Rightarrow> byte_vec \<Rightarrow> byte_vec" where
  "written [] bs = []"
| "written (Writes w # acts) bs = w @ written acts bs"
| "written (Reads r # acts) bs = (if length r \<le> length bs then written acts (drop (length r) bs) else [])"

fun mirror :: "io_action list \<Rightarrow> io_action list" where
  "mirror [] = []"
| "mirror (Writes w # acts) = Reads w # mirror acts"
| "mirror (Reads r # acts) = Writes r # mirror acts"

lemma bytes_append [simp]:
  "out_bytes (xs @ ys) = out_bytes xs @ out_bytes ys" "in_bytes (xs @ ys) = in_bytes xs @ in_bytes ys"
  by (induction xs rule: out_bytes.induct) simp_all

lemma mirror_bytes [simp]: "out_bytes (mirror acts) = in_bytes acts" "in_bytes (mirror acts) = out_bytes acts"
  by (induction acts rule: mirror.induct) simp_all

lemma mirror_mirror [simp]: "mirror (mirror acts) = acts"
  by (induction acts rule: mirror.induct) simp_all

lemma written_all: "written (xs @ ys) (in_bytes xs @ bs) = out_bytes xs @ written ys bs"
  by (induction xs rule: out_bytes.induct) simp_all

lemma written_part: "strict_prefix bs (in_bytes xs) \<Longrightarrow> written (xs @ ys) bs = written xs bs"
proof (induction xs arbitrary: bs rule: in_bytes.induct)
  case (3 r acts)
  show ?case
  proof (cases "length r \<le> length bs")
    case True
    from 3(2) obtain zs where "r @ in_bytes acts = bs @ zs" "zs \<noteq> []" by (auto elim: strict_prefixE')
    with True have "in_bytes acts = drop (length r) bs @ zs" "zs \<noteq> []"
      by (auto simp: append_eq_append_conv_if split: if_splits)
    then have "strict_prefix (drop (length r) bs) (in_bytes acts)" by (auto simp: strict_prefix_def)
    then show ?thesis using 3(1) True by simp
  qed simp
qed (auto simp: strict_prefix_def)

lemma written_prefix: "prefix (written acts bs) (out_bytes acts)"
  by (induction acts bs rule: written.induct) auto

lemma written_mono: "prefix as bs \<Longrightarrow> prefix (written acts as) (written acts bs)"
proof (induction acts as arbitrary: bs rule: written.induct)
  case (3 r acts as)
  then have "length as \<le> length bs" "prefix (drop (length r) as) (drop (length r) bs)"
    by (auto simp: prefix_def)
  with 3 show ?case by auto
qed auto

section \<open>Programs that follow a script\<close>

definition plays :: "(io_stream, 'e, 'a) xeffect \<Rightarrow> io_action list \<Rightarrow> 'a \<Rightarrow> bool" where
  "plays m acts v \<longleftrightarrow> (\<forall>s. tx_fault s = None \<longrightarrow>
     (\<forall>rest. rx s = in_bytes acts @ rest \<longrightarrow> m s = Some (Inr v, s\<lparr>rx := rest, tx := tx s @ out_bytes acts\<rparr>)) \<and>
     (strict_prefix (rx s) (in_bytes acts) \<longrightarrow>
        (\<exists>e s'. m s = Some (Inl e, s') \<and> tx s' = tx s @ written acts (rx s))))"

lemma plays_full:
  "plays m acts v \<Longrightarrow> tx_fault s = None \<Longrightarrow> rx s = in_bytes acts @ rest \<Longrightarrow>
   m s = Some (Inr v, s\<lparr>rx := rest, tx := tx s @ out_bytes acts\<rparr>)"
  by (simp add: plays_def)

lemma plays_short:
  assumes "plays m acts v" and "tx_fault s = None" and "strict_prefix (rx s) (in_bytes acts)"
  shows "\<exists>e s'. m s = Some (Inl e, s') \<and> tx s' = tx s @ written acts (rx s)"
  using assms unfolding plays_def by blast

lemma plays_then:
  assumes m: "plays m xs a" and k: "plays (k a) ys b"
  shows "plays (x_then m k) (xs @ ys) b"
  unfolding plays_def
proof (intro allI impI conjI)
  fix s :: io_stream and rest
  assume s: "tx_fault s = None" "rx s = in_bytes (xs @ ys) @ rest"
  let ?s1 = "s\<lparr>rx := in_bytes ys @ rest, tx := tx s @ out_bytes xs\<rparr>"
  have "m s = Some (Inr a, ?s1)" using plays_full [OF m s(1)] s(2) by simp
  then show "x_then m k s = Some (Inr b, s\<lparr>rx := rest, tx := tx s @ out_bytes (xs @ ys)\<rparr>)"
    using plays_full [OF k, of ?s1 rest] s(1) by (simp add: x_then_ok)
next
  fix s :: io_stream
  assume s: "tx_fault s = None" and short: "strict_prefix (rx s) (in_bytes (xs @ ys))"
  show "\<exists>e s'. x_then m k s = Some (Inl e, s') \<and> tx s' = tx s @ written (xs @ ys) (rx s)"
  proof (cases "strict_prefix (rx s) (in_bytes xs)")
    case True
    then obtain e s' where "m s = Some (Inl e, s')" "tx s' = tx s @ written xs (rx s)" using plays_short [OF m s] by blast
    then show ?thesis using written_part [OF True] by (simp add: x_then_err)
  next
    case False
    with short obtain zs where zs: "rx s = in_bytes xs @ zs" "strict_prefix zs (in_bytes ys)"
      by (auto simp: strict_prefix_def prefix_append)
    let ?s1 = "s\<lparr>rx := zs, tx := tx s @ out_bytes xs\<rparr>"
    have m1: "m s = Some (Inr a, ?s1)" using plays_full [OF m s zs(1)] .
    obtain e s' where "k a ?s1 = Some (Inl e, s')" "tx s' = tx ?s1 @ written ys (rx ?s1)"
      using plays_short [OF k, of ?s1] s zs by auto
    then show ?thesis using m1 zs(1) by (simp add: x_then_ok written_all)
  qed
qed

lemma returns_then: "returns (and_then m k) = x_then (returns m) (\<lambda>a. returns (k a))"
  by (simp add: fun_eq_iff x_then_def and_then_def split: prod.split sum.split)

lemma plays_and_then:
  "plays (returns m) xs a \<Longrightarrow> plays (returns (k a)) ys b \<Longrightarrow> plays (returns (and_then m k)) (xs @ ys) b"
  unfolding returns_then by (rule plays_then)

lemma plays_first:
  "plays (returns m) [act] a \<Longrightarrow> plays (returns (k a)) acts b \<Longrightarrow> plays (returns (and_then m k)) (act # acts) b"
  using plays_and_then [of m "[act]"] by simp

lemma plays_value: "plays (returns (k a)) acts b \<Longrightarrow> plays (returns (and_then (of_result (Inr a)) k)) acts b"
  by (simp add: plays_def)

lemma plays_done: "plays (returns (done_with v)) [] v" "plays (returns (of_result (Inr v))) [] v"
  by (auto simp: plays_def rx_update_same done_with_def of_result_def strict_prefix_def)

lemma plays_write:
  "(\<And>s. tx_fault s = None \<Longrightarrow> m s = (Inr (), s\<lparr>tx := tx s @ w\<rparr>)) \<Longrightarrow> plays (returns m) [Writes w] ()"
  by (simp add: plays_def strict_prefix_def)

section \<open>Reads\<close>

text \<open>
  A program that only reads: it writes nothing, and when it succeeds on the bytes that have arrived it does
  the same when more have.
\<close>

definition reader :: "(io_stream, 'e, 'a) effect \<Rightarrow> bool" where
  "reader m \<longleftrightarrow> (\<forall>s. tx (snd (m s)) = tx s) \<and>
     (\<forall>s v s' more. m s = (Inr v, s') \<longrightarrow> m (s\<lparr>rx := rx s @ more\<rparr>) = (Inr v, s'\<lparr>rx := rx s' @ more\<rparr>))"

lemma readerD:
  "reader m \<Longrightarrow> tx (snd (m s)) = tx s"
  "reader m \<Longrightarrow> m s = (Inr v, s') \<Longrightarrow> m (s\<lparr>rx := rx s @ bs\<rparr>) = (Inr v, s'\<lparr>rx := rx s' @ bs\<rparr>)"
  by (simp_all add: reader_def)

lemma reader_and_then:
  assumes m: "reader m" and k: "\<And>a. reader (k a)"
  shows "reader (and_then m k)"
  unfolding reader_def
proof (intro conjI allI impI)
  show "tx (snd (and_then m k s)) = tx s" for s
    using readerD(1) [OF m, of s] readerD(1) [OF k] by (auto simp: and_then_def split: prod.split sum.split)
  show "and_then m k (s\<lparr>rx := rx s @ bs\<rparr>) = (Inr v, s'\<lparr>rx := rx s' @ bs\<rparr>)"
    if "and_then m k s = (Inr v, s')" for s v s' bs
    using that readerD(2) [OF m] readerD(2) [OF k] by (auto simp: and_then_Inr)
qed

lemma reader_basic:
  "reader (done_with v)" "reader (fail_with e)" "reader (of_result r)" "reader (read_exact n)"
  by (auto simp: reader_def read_exact_def done_with_def fail_with_def of_result_def)

lemma reader_map_err: "reader m \<Longrightarrow> reader (map_err_effect f m)"
  by (simp add: reader_def)

lemma reader_frame_body: "reader (read_frame_body V bs max_len)"
  unfolding read_frame_body_def by (intro reader_and_then reader_basic)

lemma reader_frame_loop: "reader (read_frame_loop V max_len bs)"
proof -
  have "tx (snd (read_frame_loop V max_len bs s)) = tx s" for s
  proof (induction V max_len bs s rule: read_frame_loop.induct)
    case (1 V max_len bs s)
    show ?case
      using "1.IH" readerD(1) [OF reader_basic(4), of 1 s] readerD(1) [OF reader_frame_body, of V _ max_len]
      by (subst read_frame_loop.simps) (auto simp: Let_def split: prod.split sum.split)
  qed
  moreover have "read_frame_loop V max_len bs (s\<lparr>rx := rx s @ cs\<rparr>) = (Inr v, s'\<lparr>rx := rx s' @ cs\<rparr>)"
    if "read_frame_loop V max_len bs s = (Inr v, s')" for s v s' cs
    using that
  proof (induction V max_len bs s rule: read_frame_loop.induct)
    case (1 V max_len bs s)
    from "1.prems" obtain byte s1 where len: "\<not> 5 \<le> length bs" and read: "read_exact 1 s = (Inr byte, s1)"
      by (subst (asm) read_frame_loop.simps) (auto split: if_splits prod.splits sum.splits)
    have read': "read_exact 1 (s\<lparr>rx := rx s @ cs\<rparr>) = (Inr byte, s1\<lparr>rx := rx s1 @ cs\<rparr>)"
      using readerD(2) [OF reader_basic(4) read] .
    show ?case
    proof (cases "continues (last (bs @ byte))")
      case True
      then have "read_frame_loop V max_len (bs @ byte) s1 = (Inr v, s')"
        using "1.prems" len read by (subst (asm) read_frame_loop.simps) simp
      then have "read_frame_loop V max_len (bs @ byte) (s1\<lparr>rx := rx s1 @ cs\<rparr>) = (Inr v, s'\<lparr>rx := rx s' @ cs\<rparr>)"
        using "1.IH" [OF len read [symmetric]] True by simp
      then show ?thesis using len read' True by (subst read_frame_loop.simps) simp
    next
      case False
      then have "read_frame_body V (bs @ byte) max_len s1 = (Inr v, s')"
        using "1.prems" len read by (subst (asm) read_frame_loop.simps) simp
      then show ?thesis
        using readerD(2) [OF reader_frame_body] len read' False by (subst read_frame_loop.simps) simp
    qed
  qed
  ultimately show ?thesis by (simp add: reader_def)
qed

lemma reader_frames:
  "reader (read_length_prefixed_frame V max_len)" "reader (erp_read_postcard_frame V dec max_len)" "reader (read_protocol V n)"
proof -
  show frame: "reader (read_length_prefixed_frame V max_len)" for max_len
    unfolding read_length_prefixed_frame_def by (rule reader_frame_loop)
  show "reader (erp_read_postcard_frame V dec max_len)"
    unfolding erp_read_postcard_frame_def read_postcard_frame_def
    by (intro reader_map_err reader_and_then frame reader_basic) (simp add: reader_basic split: prod.split)
  show "reader (read_protocol V n)"
    unfolding read_protocol_def Let_def
    by (intro reader_and_then reader_map_err frame reader_basic) (simp add: reader_basic split: prod.split)
qed

lemma plays_read:
  assumes reads: "reader m" and full: "\<And>s rest. rx s = r @ rest \<Longrightarrow> m s = (Inr v, s\<lparr>rx := rest\<rparr>)"
  shows "plays (returns m) [Reads r] v"
  unfolding plays_def
proof (intro allI impI conjI)
  fix s :: io_stream and rest
  assume "rx s = in_bytes [Reads r] @ rest"
  then show "returns m s = Some (Inr v, s\<lparr>rx := rest, tx := tx s @ out_bytes [Reads r]\<rparr>)" using full [of s rest] by simp
next
  fix s :: io_stream
  assume "strict_prefix (rx s) (in_bytes [Reads r])"
  then obtain zs where zs: "r = rx s @ zs" "zs \<noteq> []" by (auto elim: strict_prefixE')
  have "fst (m s) \<noteq> Inr v'" for v'
  proof
    assume "fst (m s) = Inr v'"
    then have "m s = (Inr v', snd (m s))" by (simp add: prod_eq_iff)
    from readerD(2) [OF reads this, of zs] show False
      using full [of "s\<lparr>rx := rx s @ zs\<rparr>" "[]"] zs by (auto dest: arg_cong [where f = rx])
  qed
  then obtain e where "fst (m s) = Inl e" by (cases "fst (m s)") auto
  then show "\<exists>e s'. returns m s = Some (Inl e, s') \<and> tx s' = tx s @ written [Reads r] (rx s)"
    using readerD(1) [OF reads, of s] zs by (auto simp: prod_eq_iff)
qed

section \<open>The exchange\<close>

definition sent_after :: "(io_stream, 'e, 'a) xeffect \<Rightarrow> byte_vec \<Rightarrow> byte_vec" where
  "sent_after m bs = (case m (fresh_stream bs) of Some (_, s) \<Rightarrow> tx s | None \<Rightarrow> [])"

text \<open>
  The state is the bytes that have reached the program \<open>b\<close> and those that have reached \<open>a\<close>; a step delivers
  one more byte that the other side has written.
\<close>

inductive exchange ::
  "(io_stream, 'e, 'a) xeffect \<Rightarrow> (io_stream, 'f, 'b) xeffect \<Rightarrow> byte_vec \<times> byte_vec \<Rightarrow> byte_vec \<times> byte_vec \<Rightarrow> bool" for a b where
  to_b: "prefix (xs @ [x]) (sent_after a ys) \<Longrightarrow> exchange a b (xs, ys) (xs @ [x], ys)"
| to_a: "prefix (ys @ [y]) (sent_after b xs) \<Longrightarrow> exchange a b (xs, ys) (xs, ys @ [y])"

inductive_cases exchangeE: "exchange a b (xs, ys) st"

lemma sent_after_plays:
  assumes "plays m acts v" and "prefix bs (in_bytes acts)"
  shows "sent_after m bs = written acts bs"
proof (cases "bs = in_bytes acts")
  case True
  then have "m (fresh_stream bs) = Some (Inr v, (fresh_stream bs)\<lparr>rx := [], tx := tx (fresh_stream bs) @ out_bytes acts\<rparr>)"
    using assms by (intro plays_full) simp_all
  then show ?thesis using True written_all [of acts "[]" "[]"] by (simp add: sent_after_def)
next
  case False
  then have "strict_prefix (rx (fresh_stream bs)) (in_bytes acts)" using assms(2) by (simp add: strict_prefix_def)
  then obtain e s' where "m (fresh_stream bs) = Some (Inl e, s')" "tx s' = written acts bs"
    using plays_short [OF assms(1), of "fresh_stream bs"] by auto
  then show ?thesis by (simp add: sent_after_def)
qed

lemma prefix_extend: "prefix xs ys \<Longrightarrow> xs \<noteq> ys \<Longrightarrow> \<exists>x. prefix (xs @ [x]) ys"
proof -
  assume "prefix xs ys" and "xs \<noteq> ys"
  then obtain zs where "ys = xs @ zs" "zs \<noteq> []" by (auto simp: prefix_def)
  then show ?thesis by (cases zs) auto
qed

text \<open>A script and its mirror have no wait cycle.\<close>

lemma mirrored_fixpoint:
  "xs = written acts ys \<Longrightarrow> ys = written (mirror acts) xs \<Longrightarrow> xs = out_bytes acts \<and> ys = in_bytes acts"
proof (induction acts arbitrary: xs ys rule: mirror.induct)
  case (2 w acts)
  obtain zs where zs: "xs = w @ zs" "zs = written acts ys" using "2.prems"(1) by simp
  have "ys = written (mirror acts) zs" using "2.prems"(2) unfolding zs(1) by simp
  from "2.IH" [OF zs(2) this] zs(1) show ?case by simp
next
  case (3 r acts)
  obtain zs where zs: "ys = r @ zs" "zs = written (mirror acts) xs" using "3.prems"(2) by simp
  have "xs = written acts zs" using "3.prems"(1) unfolding zs(1) by simp
  from "3.IH" [OF this zs(2)] zs(1) show ?case by simp
qed simp

lemma mirrored_exchange:
  assumes a: "plays a acts u" and b: "plays b (mirror acts) v" and run: "(exchange a b ^^ n) ([], []) (xs, ys)"
  shows "prefix xs (out_bytes acts) \<and> prefix ys (in_bytes acts) \<and> n = length xs + length ys \<and>
    (xs = out_bytes acts \<and> ys = in_bytes acts \<or> (\<exists>st. exchange a b (xs, ys) st))"
proof -
  have inv: "prefix xs (written acts ys) \<and> prefix ys (written (mirror acts) xs) \<and> n = length xs + length ys"
    using run
  proof (induction n arbitrary: xs ys)
    case (Suc n)
    then obtain xs' ys' where run: "(exchange a b ^^ n) ([], []) (xs', ys')" and step: "exchange a b (xs', ys') (xs, ys)"
      by auto
    note IH = Suc.IH [OF run]
    then have pre: "prefix xs' (in_bytes (mirror acts))" "prefix ys' (in_bytes acts)"
      using written_prefix [of acts ys'] written_prefix [of "mirror acts" xs'] by (auto intro: prefix_order.trans)
    from step show ?case
      by (rule exchangeE)
        (use IH pre written_mono [of xs' xs "mirror acts"] written_mono [of ys' ys acts] in
          \<open>auto simp: sent_after_plays [OF a] sent_after_plays [OF b] intro: prefix_order.trans\<close>)
  qed simp
  then have pre: "prefix xs (in_bytes (mirror acts))" "prefix ys (in_bytes acts)"
    using written_prefix [of acts ys] written_prefix [of "mirror acts" xs] by (auto intro: prefix_order.trans)
  have "\<exists>st. exchange a b (xs, ys) st" if "\<not> (xs = out_bytes acts \<and> ys = in_bytes acts)"
  proof -
    have "xs \<noteq> written acts ys \<or> ys \<noteq> written (mirror acts) xs" using that mirrored_fixpoint by blast
    then show ?thesis
    proof
      assume "xs \<noteq> written acts ys"
      with inv obtain x where "prefix (xs @ [x]) (sent_after a ys)"
        using prefix_extend by (metis sent_after_plays [OF a pre(2)])
      then show ?thesis by (blast intro: exchange.intros)
    next
      assume "ys \<noteq> written (mirror acts) xs"
      with inv obtain y where "prefix (ys @ [y]) (sent_after b xs)"
        using prefix_extend by (metis sent_after_plays [OF b pre(1)])
      then show ?thesis by (blast intro: exchange.intros)
    qed
  qed
  then show ?thesis using inv pre by auto
qed

section \<open>Protocol negotiation as a script\<close>

lemma plays_write_protocol: "protocol_name p \<Longrightarrow> plays (returns (write_protocol V p)) [Writes (protocol_frame V p)] ()"
  by (rule plays_write) (rule write_protocol_ok)

lemma plays_read_protocol:
  "varint_ok V \<Longrightarrow> protocol_name p \<Longrightarrow> plays (returns (read_protocol V MAX_PROTOCOL_FRAME_LEN)) [Reads (protocol_frame V p)] p"
  by (rule plays_read [OF reader_frames(3)]) (rule read_protocol_ok)

lemmas plays_protocol = plays_first [OF plays_write_protocol] plays_first [OF plays_read_protocol]

lemma dialer_select_plays:
  assumes "varint_ok V" and "protocol_name p"
  shows "plays (returns (dialer_select V p))
    [Writes (protocol_frame V MULTISTREAM_V1), Reads (protocol_frame V MULTISTREAM_V1),
     Writes (protocol_frame V p), Reads (protocol_frame V p)] ()"
  unfolding dialer_select_def
  by (auto simp: assms plays_done protocol_name_header 
      intro!: plays_protocol)

lemma listener_select_plays:
  assumes "varint_ok V" and "protocol_name p" and "p \<in> set supported"
  shows "plays (returns (listener_select V supported))
    [Reads (protocol_frame V MULTISTREAM_V1), Writes (protocol_frame V MULTISTREAM_V1),
     Reads (protocol_frame V p), Writes (protocol_frame V p)] p"
proof -
  have "plays (returns (listener_select_optional V supported))
      [Reads (protocol_frame V MULTISTREAM_V1), Writes (protocol_frame V MULTISTREAM_V1),
       Reads (protocol_frame V p), Writes (protocol_frame V p)] (Some p)"
    unfolding listener_select_optional_def
    by (auto simp: assms plays_done protocol_name_header 
      intro!: plays_protocol)
  from plays_and_then [OF this, of _ "[]" p] show ?thesis
    by (simp add: listener_select_def plays_done)
qed

end
