(* ===== verification/Session.thy ===== *)
theory Session
  imports ErpNetwork Identify Exchange
begin

text \<open>
  A session of the embedded runtime (\<open>erp-runtime/src/network/session.rs\<close>): the handshake on a new
  connection (identify and node hello), and the loop of an established session that sends frames of
  the node and serves the substreams of the remote side.

  The multiplexer is a \<open>muxer\<close>: the substreams the remote side opens, in order, what happens after the
  last of them, and the outcome of each attempt to open one. A substream is a byte stream; when it has been
  dealt with it is kept in \<open>mux_finished\<close>. The encryption and multiplexing of the connection below
  are represented by their outcome: the authenticated transport peer and the muxer, or an error.
\<close>

section \<open>Multiplexer\<close>

record muxer =
  mux_inbound :: "io_stream list"
  mux_inbound_end :: "RuntimeError option"
  mux_outbound :: "(RuntimeError, io_stream) result list"
  mux_finished :: "io_stream list"

definition accept_substream :: "(muxer, RuntimeError, io_stream option) effect" where
  "accept_substream m =
     (case mux_inbound m of
        s # rest \<Rightarrow> (Inr (Some s), m\<lparr>mux_inbound := rest\<rparr>)
      | [] \<Rightarrow> (case mux_inbound_end m of None \<Rightarrow> (Inr None, m) | Some e \<Rightarrow> (Inl e, m)))"

definition open_substream :: "(muxer, RuntimeError, io_stream) effect" where
  "open_substream m =
     (case mux_outbound m of
        r # rest \<Rightarrow> (r, m\<lparr>mux_outbound := rest\<rparr>)
      | [] \<Rightarrow> (Inl (NetworkError (IoError OtherKind ''yamux connection error: connection is closed'')), m))"

definition on_substream :: "io_stream \<Rightarrow> (io_stream, RuntimeError, 'a) xeffect \<Rightarrow> (muxer, RuntimeError, 'a) xeffect" where
  "on_substream s body m =
     map_option (\<lambda>(r, s'). (r, m\<lparr>mux_finished := mux_finished m @ [s']\<rparr>)) (body s)"

section \<open>Identify\<close>

record TransportIdentity =
  tid_public_key_protobuf :: byte_vec
  tid_peer_id :: byte_vec

definition IDENTIFY_PROTOCOL_VERSION :: byte_vec where "IDENTIFY_PROTOCOL_VERSION = str_bytes ''rust-proof/1''"
definition IDENTIFY_AGENT_VERSION :: byte_vec where "IDENTIFY_AGENT_VERSION = str_bytes ''erp-runtime/0.1.0''"

definition build_local_identify :: "NetworkConfig \<Rightarrow> TransportIdentity \<Rightarrow> IdentifyInfo" where
  "build_local_identify config T =
     \<lparr> protocol_version = IDENTIFY_PROTOCOL_VERSION, agent_version = IDENTIFY_AGENT_VERSION,
       listen_addrs = [Ip4Tcp 0 (listen_port config)], supported_protocols = advertised_protocols, observed_addr = None,
       transport_public_key = tid_public_key_protobuf T, identify_transport_peer_id = tid_peer_id T \<rparr>"

definition write_frame :: "byte_vec \<Rightarrow> (io_stream, RuntimeError, unit) effect" where
  "write_frame frame =
     and_then (map_err_effect NetworkError (write_all frame)) (\<lambda>_. map_err_effect NetworkError flush)"

definition send_identify ::
  "varint \<Rightarrow> identify_env \<Rightarrow> NetworkConfig \<Rightarrow> TransportIdentity \<Rightarrow> (io_stream, RuntimeError, unit) xeffect" where
  "send_identify V P config T =
     x_then (of_exec (encode_identify V P (build_local_identify config T))) (\<lambda>frame. returns (write_frame frame))"

definition answer_ping :: "(io_stream, RuntimeError, unit) effect" where
  "answer_ping = and_then (map_err_effect NetworkError (read_exact 32)) (\<lambda>payload. write_frame payload)"

definition request_identify_io ::
  "varint \<Rightarrow> identify_env \<Rightarrow> NetworkConfig \<Rightarrow> byte_vec \<Rightarrow> (io_stream, RuntimeError, IdentifyInfo) xeffect" where
  "request_identify_io V P config auth =
     x_then (returns (dialer_select V IDENTIFY_PROTOCOL))
       (\<lambda>_. x_then (returns (erp_read_length_prefixed_frame V (cfg_max_frame_len config)))
         (\<lambda>frame. x_then (of_exec (decode_identify V P frame))
           (\<lambda>identify. returns (of_result
              (if identify_transport_peer_id identify \<noteq> auth
               then Inl (Config ''identify transport peer id did not match the authenticated transport session'')
               else Inr identify)))))"

definition request_identify ::
  "varint \<Rightarrow> identify_env \<Rightarrow> NetworkConfig \<Rightarrow> byte_vec \<Rightarrow> (muxer, RuntimeError, IdentifyInfo) xeffect" where
  "request_identify V P config auth =
     x_then (returns open_substream) (\<lambda>s. on_substream s (request_identify_io V P config auth))"

text \<open>One substream while the dialer waits to be asked for its identify: whether it has been served.\<close>

definition serve_setup_io ::
  "varint \<Rightarrow> identify_env \<Rightarrow> NetworkConfig \<Rightarrow> TransportIdentity \<Rightarrow> (io_stream, RuntimeError, bool) xeffect" where
  "serve_setup_io V P config T =
     x_then (returns (listener_select V [IDENTIFY_PROTOCOL, PING_PROTOCOL]))
       (\<lambda>protocol.
          if protocol = IDENTIFY_PROTOCOL then x_then (send_identify V P config T) (\<lambda>_. returns (done_with True))
          else if protocol = PING_PROTOCOL then x_then (returns answer_ping) (\<lambda>_. returns (done_with False))
          else (\<lambda>_. None))"

function serve_identify_request ::
  "varint \<Rightarrow> identify_env \<Rightarrow> NetworkConfig \<Rightarrow> TransportIdentity \<Rightarrow> (muxer, RuntimeError, unit) xeffect" where
  "serve_identify_request V P config T m =
     (case accept_substream m of
        (Inl e, m') \<Rightarrow> Some (Inl e, m')
      | (Inr None, m') \<Rightarrow> Some (Inl (Config ''remote closed the connection before requesting identify''), m')
      | (Inr (Some s), m') \<Rightarrow>
          (case on_substream s (serve_setup_io V P config T) m' of
             None \<Rightarrow> None
           | Some (Inl e, m'') \<Rightarrow> Some (Inl e, m'')
           | Some (Inr True, m'') \<Rightarrow> Some (Inr (), m'')
           | Some (Inr False, m'') \<Rightarrow> serve_identify_request V P config T m''))"
  by pat_completeness auto
termination
  by (relation "measure (\<lambda>(V, P, config, T, m). length (mux_inbound m))")
    (auto simp: accept_substream_def on_substream_def split: list.splits option.splits)

declare serve_identify_request.simps [simp del]

section \<open>Node hello\<close>

datatype HandshakeOutcome = Established VerifiedPeer | Rejected

definition build_node_hello ::
  "('vk, 'sig, 'z) hello_env_scheme \<Rightarrow> ('vk, 'sig) IdentityManager \<Rightarrow> TransportIdentity \<Rightarrow> NetworkConfig \<Rightarrow> (RuntimeError, NodeHello) result" where
  "build_node_hello E identity T config =
     NodeHelloBuilder_build E identity (tid_peer_id T) (cfg_max_frame_len config) (cfg_max_blocks_per_chunk config)
       \<lparr> supports_sync_v1 = True, supports_announce_v1 = True, supports_ping = True \<rparr>"

definition request_node_hello_io ::
  "varint \<Rightarrow> ('vk, 'sig, 'z) hello_env_scheme \<Rightarrow> ('vk, 'sig) IdentityManager \<Rightarrow> TransportIdentity \<Rightarrow> NetworkConfig \<Rightarrow> byte_vec
    \<Rightarrow> (io_stream, RuntimeError, HandshakeOutcome) effect" where
  "request_node_hello_io V E identity T config auth =
     and_then (dialer_select V NODE_HELLO_PROTOCOL)
       (\<lambda>_. and_then (of_result (build_node_hello E identity T config))
         (\<lambda>local_hello. and_then (write_postcard_frame V (encode_hello E) local_hello (cfg_max_frame_len config))
           (\<lambda>_. and_then (erp_read_postcard_frame V (decode_hello_response E) (cfg_max_frame_len config))
             (\<lambda>response.
                if \<not> hello_accepted response then done_with Rejected
                else (case NodeHelloVerifier_verify E (hello_remote response) auth of
                        Inr verified \<Rightarrow> done_with (Established verified)
                      | Inl error \<Rightarrow> done_with Rejected)))))"

definition request_node_hello ::
  "varint \<Rightarrow> ('vk, 'sig, 'z) hello_env_scheme \<Rightarrow> ('vk, 'sig) IdentityManager \<Rightarrow> TransportIdentity \<Rightarrow> NetworkConfig \<Rightarrow> byte_vec
    \<Rightarrow> (muxer, RuntimeError, HandshakeOutcome) xeffect" where
  "request_node_hello V E identity T config auth =
     x_then (returns open_substream) (\<lambda>s. on_substream s (returns (request_node_hello_io V E identity T config auth)))"

definition answer_node_hello ::
  "varint \<Rightarrow> ('vk, 'sig, 'z) hello_env_scheme \<Rightarrow> ('vk, 'sig) IdentityManager \<Rightarrow> TransportIdentity \<Rightarrow> NetworkConfig \<Rightarrow> byte_vec
    \<Rightarrow> (io_stream, RuntimeError, HandshakeOutcome) effect" where
  "answer_node_hello V E identity T config auth =
     and_then (erp_read_postcard_frame V (decode_hello E) (cfg_max_frame_len config))
       (\<lambda>remote_hello.
          case NodeHelloVerifier_verify E remote_hello auth of
            Inl error \<Rightarrow>
              and_then (of_result (build_node_hello E identity T config))
                (\<lambda>local_hello s.
                   (Inr Rejected, snd (write_postcard_frame V (encode_hello_response E)
                      \<lparr> hello_accepted = False, hello_remote = local_hello,
                        hello_reject_reason = Some (node_hello_reject_reason error) \<rparr>
                      (cfg_max_frame_len config) s)))
          | Inr verified \<Rightarrow>
              and_then (of_result (build_node_hello E identity T config))
                (\<lambda>local_hello. and_then (write_postcard_frame V (encode_hello_response E)
                     \<lparr> hello_accepted = True, hello_remote = local_hello, hello_reject_reason = None \<rparr>
                     (cfg_max_frame_len config))
                   (\<lambda>_. done_with (Established verified))))"

section \<open>The handshakes\<close>

definition complete_outbound_handshake ::
  "varint \<Rightarrow> ('vk, 'sig, 'z) hello_env_scheme \<Rightarrow> identify_env \<Rightarrow> ('vk, 'sig) IdentityManager \<Rightarrow> TransportIdentity \<Rightarrow> NetworkConfig
    \<Rightarrow> byte_vec \<Rightarrow> (muxer, RuntimeError, HandshakeOutcome) xeffect" where
  "complete_outbound_handshake V E P identity T config auth =
     x_then (serve_identify_request V P config T)
       (\<lambda>_. x_then (request_identify V P config auth)
         (\<lambda>_. request_node_hello V E identity T config auth))"

datatype setup_step = IdentifyServed | PingAnswered | HelloAnswered HandshakeOutcome

definition setup_substream_io ::
  "varint \<Rightarrow> ('vk, 'sig, 'z) hello_env_scheme \<Rightarrow> identify_env \<Rightarrow> ('vk, 'sig) IdentityManager \<Rightarrow> TransportIdentity \<Rightarrow> NetworkConfig
    \<Rightarrow> byte_vec \<Rightarrow> (io_stream, RuntimeError, setup_step) xeffect" where
  "setup_substream_io V E P identity T config auth =
     x_then (returns (listener_select V [IDENTIFY_PROTOCOL, NODE_HELLO_PROTOCOL, PING_PROTOCOL]))
       (\<lambda>protocol.
          if protocol = IDENTIFY_PROTOCOL then x_then (send_identify V P config T) (\<lambda>_. returns (done_with IdentifyServed))
          else if protocol = PING_PROTOCOL then x_then (returns answer_ping) (\<lambda>_. returns (done_with PingAnswered))
          else if protocol = NODE_HELLO_PROTOCOL
          then x_then (returns (answer_node_hello V E identity T config auth)) (\<lambda>o'. returns (done_with (HelloAnswered o')))
          else returns (fail_with (Config ''unexpected session setup protocol'')))"

function inbound_handshake_loop ::
  "varint \<Rightarrow> ('vk, 'sig, 'z) hello_env_scheme \<Rightarrow> identify_env \<Rightarrow> ('vk, 'sig) IdentityManager \<Rightarrow> TransportIdentity \<Rightarrow> NetworkConfig
    \<Rightarrow> byte_vec \<Rightarrow> bool \<Rightarrow> VerifiedPeer option \<Rightarrow> (muxer, RuntimeError, HandshakeOutcome) xeffect" where
  "inbound_handshake_loop V E P identity T config auth identify_served verified m =
     (if identify_served \<and> verified \<noteq> None
      then Some (map_err id (ok_or (Config ''node hello handshake did not complete'') (map_option Established verified)), m)
      else
        (case accept_substream m of
           (Inl e, m') \<Rightarrow> Some (Inl e, m')
         | (Inr None, m') \<Rightarrow> Some (Inl (Config ''remote closed the connection before session setup completed''), m')
         | (Inr (Some s), m') \<Rightarrow>
             (case on_substream s (setup_substream_io V E P identity T config auth) m' of
                None \<Rightarrow> None
              | Some (Inl e, m'') \<Rightarrow> Some (Inl e, m'')
              | Some (Inr IdentifyServed, m'') \<Rightarrow> inbound_handshake_loop V E P identity T config auth True verified m''
              | Some (Inr PingAnswered, m'') \<Rightarrow> inbound_handshake_loop V E P identity T config auth identify_served verified m''
              | Some (Inr (HelloAnswered (Established p)), m'') \<Rightarrow>
                  inbound_handshake_loop V E P identity T config auth identify_served (Some p) m''
              | Some (Inr (HelloAnswered Rejected), m'') \<Rightarrow> Some (Inr Rejected, m''))))"
  by pat_completeness auto
termination
  by (relation "measure (\<lambda>(V, E, P, identity, T, config, auth, served, v, m). length (mux_inbound m))")
    (auto simp: accept_substream_def on_substream_def split: list.splits option.splits)

declare inbound_handshake_loop.simps [simp del]

definition complete_inbound_handshake ::
  "varint \<Rightarrow> ('vk, 'sig, 'z) hello_env_scheme \<Rightarrow> identify_env \<Rightarrow> ('vk, 'sig) IdentityManager \<Rightarrow> TransportIdentity \<Rightarrow> NetworkConfig
    \<Rightarrow> byte_vec \<Rightarrow> (muxer, RuntimeError, HandshakeOutcome) xeffect" where
  "complete_inbound_handshake V E P identity T config auth =
     inbound_handshake_loop V E P identity T config auth False None"

text \<open>
  \<open>connection\<close> is the outcome of the noise and yamux upgrades: the transport peer that noise authenticated
  and, when that peer is the expected one, the multiplexer.
\<close>

definition establish_session ::
  "varint \<Rightarrow> ('vk, 'sig, 'z) hello_env_scheme \<Rightarrow> identify_env \<Rightarrow> (RuntimeError, byte_vec \<times> (RuntimeError, muxer) result) result
    \<Rightarrow> ConnectionRole \<Rightarrow> ('vk, 'sig) IdentityManager \<Rightarrow> TransportIdentity \<Rightarrow> NetworkConfig \<Rightarrow> byte_vec option
    \<Rightarrow> (RuntimeError, (muxer \<times> VerifiedPeer) option) result exec" where
  "establish_session V E P connection role identity T config expected =
     (case connection of
        Inl e \<Rightarrow> Some (Inl e)
      | Inr (remote, upgraded) \<Rightarrow>
          if (case expected of Some x \<Rightarrow> x \<noteq> remote | None \<Rightarrow> False)
          then Some (Inl (Config ''bootstrap peer transport identity did not match expectation''))
          else
            (case upgraded of
               Inl e \<Rightarrow> Some (Inl e)
             | Inr m \<Rightarrow>
                 (case (case role of
                          Outbound \<Rightarrow> complete_outbound_handshake V E P identity T config remote m
                        | Inbound \<Rightarrow> complete_inbound_handshake V E P identity T config remote m) of
                    None \<Rightarrow> None
                  | Some (Inl e, m') \<Rightarrow> Some (Inl e)
                  | Some (Inr (Established v), m') \<Rightarrow> Some (Inr (Some (m', v)))
                  | Some (Inr Rejected, m') \<Rightarrow> Some (Inr None))))"

section \<open>Who is at the other end\<close>

text \<open>The peer of a hello that was checked against the authenticated transport peer.\<close>

definition bound_peer :: "('vk, 'sig, 'z) hello_env_scheme \<Rightarrow> byte_vec \<Rightarrow> VerifiedPeer \<Rightarrow> bool" where
  "bound_peer E auth v \<longleftrightarrow>
     (\<exists>h. v = peer_of_hello h \<and> hello_transport_peer_id h = auth \<and>
        hello_node_peer_id h = hash E (node_public_key h) \<and> hello_signed_by_key E h)"

lemma verified_bound: "NodeHelloVerifier_verify E h auth = Inr v \<Longrightarrow> bound_peer E auth v"
  using verify_sound [of E h auth v] by (auto simp: bound_peer_def)

lemma on_substream_Inr:
  "on_substream s body m = Some (Inr a, m') \<longleftrightarrow>
     (\<exists>s'. body s = Some (Inr a, s') \<and> m' = m\<lparr>mux_finished := mux_finished m @ [s']\<rparr>)"
  by (auto simp: on_substream_def)

lemma request_hello_bound:
  assumes "request_node_hello_io V E identity T config auth s = (Inr (Established v), s')"
  shows "bound_peer E auth v"
  using assms verified_bound
  by (auto simp: request_node_hello_io_def and_then_Inr split: if_split_asm sum.split_asm)

lemma answer_hello_bound:
  assumes "answer_node_hello V E identity T config auth s = (Inr (Established v), s')"
  shows "bound_peer E auth v"
proof -
  obtain h where "(case NodeHelloVerifier_verify E h auth of Inl _ \<Rightarrow> True | Inr p \<Rightarrow> p = v)"
    and "NodeHelloVerifier_verify E h auth \<noteq> Inl e" for e
    using assms by (force simp: answer_node_hello_def and_then_Inr split: sum.split_asm)
  then show ?thesis using verified_bound [of E h auth] by (cases "NodeHelloVerifier_verify E h auth") auto
qed

lemma setup_substream_bound:
  assumes "setup_substream_io V E P identity T config auth s = Some (Inr (HelloAnswered (Established v)), s')"
  shows "bound_peer E auth v"
proof -
  obtain t t' where "answer_node_hello V E identity T config auth t = (Inr (Established v), t')"
    using assms by (auto simp: setup_substream_io_def x_then_Inr split: if_split_asm)
  then show ?thesis by (rule answer_hello_bound)
qed

lemma inbound_loop_bound:
  assumes "inbound_handshake_loop V E P identity T config auth served verified m = Some (Inr (Established v), m')"
    and "\<And>p. verified = Some p \<Longrightarrow> bound_peer E auth p"
  shows "bound_peer E auth v"
  using assms
proof (induction V E P identity T config auth served verified m rule: inbound_handshake_loop.induct)
  case (1 V E P identity T config auth served verified m)
  show ?case
  proof (cases "served \<and> verified \<noteq> None")
    case True
    then show ?thesis using 1(4,5) by (subst (asm) inbound_handshake_loop.simps) auto
  next
    case False
    obtain s m1 step m2 where acc: "accept_substream m = (Inr (Some s), m1)"
      and on: "on_substream s (setup_substream_io V E P identity T config auth) m1 = Some (Inr step, m2)"
      and rest: "(case step of
          IdentifyServed \<Rightarrow> inbound_handshake_loop V E P identity T config auth True verified m2
        | PingAnswered \<Rightarrow> inbound_handshake_loop V E P identity T config auth served verified m2
        | HelloAnswered (Established p) \<Rightarrow> inbound_handshake_loop V E P identity T config auth served (Some p) m2
        | HelloAnswered Rejected \<Rightarrow> Some (Inr Rejected, m2)) = Some (Inr (Established v), m')"
      using 1(4) False
      by (subst (asm) inbound_handshake_loop.simps)
        (auto split: prod.split_asm sum.split_asm option.split_asm setup_step.split_asm HandshakeOutcome.split_asm)
    show ?thesis
    proof (cases step)
      case IdentifyServed
      then show ?thesis using 1(1) [OF False] acc on rest 1(5) by (auto simp: acc on)
    next
      case PingAnswered
      then show ?thesis using 1(2) [OF False] acc on rest 1(5) by (auto simp: acc on)
    next
      case (HelloAnswered outcome)
      then obtain p where step: "step = HelloAnswered (Established p)" using rest by (cases outcome) auto
      then have "bound_peer E auth p" using on by (auto simp: on_substream_Inr dest: setup_substream_bound)
      then show ?thesis using 1(3) [OF False] acc on rest step by (auto simp: acc on)
    qed
  qed
qed

lemma establish_bound:
  assumes "establish_session V E P connection role identity T config expected = Some (Inr (Some (m, v)))"
  shows "\<exists>remote upgraded. connection = Inr (remote, upgraded) \<and> (\<forall>x. expected = Some x \<longrightarrow> x = remote) \<and> bound_peer E remote v"
proof -
  obtain remote m0 where conn: "connection = Inr (remote, Inr m0)" and exp: "\<forall>x. expected = Some x \<longrightarrow> x = remote"
    and hs: "(case role of Outbound \<Rightarrow> complete_outbound_handshake V E P identity T config remote m0
        | Inbound \<Rightarrow> complete_inbound_handshake V E P identity T config remote m0) = Some (Inr (Established v), m)"
    using assms
    by (auto simp: establish_session_def split: sum.split_asm prod.split_asm if_split_asm option.split_asm
        HandshakeOutcome.split_asm)
  have "bound_peer E remote v"
  proof (cases role)
    case Outbound
    then show ?thesis using hs
      by (auto simp: complete_outbound_handshake_def request_node_hello_def x_then_Inr on_substream_Inr
          dest: request_hello_bound)
  next
    case Inbound
    then show ?thesis using hs by (auto simp: complete_inbound_handshake_def dest: inbound_loop_bound)
  qed
  then show ?thesis using conn exp by blast
qed

section \<open>An established session\<close>

record ('vk, 'sig) EstablishedSession =
  ses_muxer :: muxer
  ses_event_tx :: "('vk, 'sig) RuntimeEvent channel"
  ses_command_rx :: "SessionCommand list"
  ses_deferred :: "SessionCommand list"

definition ses_send_event :: "('vk, 'sig) RuntimeEvent \<Rightarrow> (('vk, 'sig) EstablishedSession, RuntimeError, unit) effect" where
  "ses_send_event = send_on ses_event_tx (\<lambda>ch. ses_event_tx_update (\<lambda>_. ch)) event_send"

fun restore_deferred_commands :: "SessionCommand list \<Rightarrow> SessionCommand list \<Rightarrow> SessionCommand list" where
  "restore_deferred_commands deferred retained =
     (if retained = [] then deferred else restore_deferred_commands (last retained # deferred) (butlast retained))"

declare restore_deferred_commands.simps [simp del]

function wait_for_sync_response ::
  "('vk, 'sig, 'z) net_scheme \<Rightarrow> SessionCommand list \<Rightarrow> SessionCommand list \<Rightarrow> SessionCommand list
    \<Rightarrow> ((RuntimeError, ('vk, 'sig) SyncResponse) result \<times> SessionCommand list \<times> SessionCommand list) exec" where
  "wait_for_sync_response E command_rx deferred retained =
     (let (command, deferred', command_rx') =
        (case deferred of
           c # ds \<Rightarrow> (Some c, ds, command_rx)
         | [] \<Rightarrow> (case command_rx of c # cs \<Rightarrow> (Some c, [], cs) | [] \<Rightarrow> (None, [], [])))
      in case command of
           Some (SessionSendFrame frame) \<Rightarrow>
             (case message_from_bytes E frame of
                Inl _ \<Rightarrow> Some (Inl (Config ''invalid runtime frame while waiting for sync response''), command_rx', deferred')
              | Inr (SyncResponseMsg response) \<Rightarrow>
                  Some (Inr response, command_rx', restore_deferred_commands deferred' retained)
              | Inr other \<Rightarrow> do {
                  bytes \<leftarrow> message_to_bytes E other;
                  wait_for_sync_response E command_rx' deferred' (retained @ [SessionSendFrame bytes]) })
         | Some SessionDisconnect \<Rightarrow>
             Some (Inl (Config ''session disconnected while waiting for sync response''), command_rx', deferred')
         | None \<Rightarrow>
             Some (Inl (Config ''session command channel closed while waiting for sync response''), command_rx', deferred'))"
  by pat_completeness auto
termination
  by (relation "measure (\<lambda>(E, q, deferred, retained). length q + length deferred)") (auto split: list.splits)

declare wait_for_sync_response.simps [simp del]

lemma restore_deferred_eq: "restore_deferred_commands deferred retained = retained @ deferred"
proof (induction retained arbitrary: deferred rule: rev_induct)
  case Nil
  then show ?case by (subst restore_deferred_commands.simps) simp
next
  case (snoc c cs)
  then show ?case by (subst restore_deferred_commands.simps) simp
qed

text \<open>The frames of the node that are not responses, read and written again.\<close>

definition reencoded :: "('vk, 'sig, 'z) net_scheme \<Rightarrow> SessionCommand \<Rightarrow> SessionCommand \<Rightarrow> bool" where
  "reencoded E c c' \<longleftrightarrow>
     (\<exists>frame msg bytes. c = SessionSendFrame frame \<and> message_from_bytes E frame = Inr msg \<and> (\<nexists>r. msg = SyncResponseMsg r) \<and>
        message_to_bytes E msg = Some bytes \<and> c' = SessionSendFrame bytes)"

lemma wait_step_other:
  assumes "reencoded E c c'" and "deferred @ q = c # rest"
  shows "\<exists>deferred' q'. deferred' @ q' = rest \<and> length deferred' \<le> length deferred \<and>
    wait_for_sync_response E q deferred retained = wait_for_sync_response E q' deferred' (retained @ [c'])"
proof -
  obtain frame msg bytes where c: "c = SessionSendFrame frame" and msg: "message_from_bytes E frame = Inr msg"
    and other: "\<nexists>r. msg = SyncResponseMsg r" and bytes: "message_to_bytes E msg = Some bytes" and c': "c' = SessionSendFrame bytes"
    using assms(1) unfolding reencoded_def by blast
  obtain deferred' q' where nxt: "(case deferred of d # ds \<Rightarrow> (Some d, ds, q)
      | [] \<Rightarrow> (case q of d # cs \<Rightarrow> (Some d, [], cs) | [] \<Rightarrow> (None, [], []))) = (Some c, deferred', q')"
    and rest: "deferred' @ q' = rest" and len: "length deferred' \<le> length deferred"
    using assms(2) by (cases deferred) auto
  have "wait_for_sync_response E q deferred retained = wait_for_sync_response E q' deferred' (retained @ [c'])"
    using other msg bytes by (subst wait_for_sync_response.simps) (cases msg; simp add: nxt c c')
  then show ?thesis using rest len by blast
qed

lemma wait_step_response:
  assumes "message_from_bytes E frame = Inr (SyncResponseMsg response)" and "deferred @ q = SessionSendFrame frame # rest"
  shows "\<exists>deferred' q'. deferred' @ q' = retained @ rest \<and>
    wait_for_sync_response E q deferred retained = Some (Inr response, q', deferred')"
proof -
  obtain deferred' q' where nxt: "(case deferred of d # ds \<Rightarrow> (Some d, ds, q)
      | [] \<Rightarrow> (case q of d # cs \<Rightarrow> (Some d, [], cs) | [] \<Rightarrow> (None, [], []))) = (Some (SessionSendFrame frame), deferred', q')"
    and rest: "deferred' @ q' = rest"
    using assms(2) by (cases deferred) auto
  have "wait_for_sync_response E q deferred retained = Some (Inr response, q', retained @ deferred')"
    by (subst wait_for_sync_response.simps) (simp add: nxt assms(1) restore_deferred_eq)
  then show ?thesis using rest by (intro exI [of _ "retained @ deferred'"] exI [of _ q']) simp
qed

lemma wait_keeps_order:
  assumes "list_all2 (reencoded E) pre pre'" and "message_from_bytes E frame = Inr (SyncResponseMsg response)"
    and "deferred @ q = pre @ SessionSendFrame frame # rest"
  shows "\<exists>deferred' q'. wait_for_sync_response E q deferred retained = Some (Inr response, q', deferred') \<and>
    deferred' @ q' = retained @ pre' @ rest"
  using assms(1,3)
proof (induction pre pre' arbitrary: deferred q retained rule: list_all2_induct)
  case Nil
  then show ?case using wait_step_response [OF assms(2)] by fastforce
next
  case (Cons c pre c' pre')
  obtain deferred1 q1 where "deferred1 @ q1 = pre @ SessionSendFrame frame # rest"
    and "wait_for_sync_response E q deferred retained = wait_for_sync_response E q1 deferred1 (retained @ [c'])"
    using wait_step_other [OF Cons.hyps(1), of deferred q "pre @ SessionSendFrame frame # rest" retained] Cons.prems by auto
  then show ?case using Cons.IH [of deferred1 q1 "retained @ [c']"] by auto
qed

section \<open>Frames of the node\<close>

text \<open>A request on a substream of its own: negotiate, write the frame, read the response.\<close>

definition exchange_io ::
  "varint \<Rightarrow> NetworkConfig \<Rightarrow> byte_vec \<Rightarrow> (RuntimeError, byte_vec) result \<Rightarrow> (byte_vec \<Rightarrow> (RuntimeError, 'r) result)
    \<Rightarrow> (io_stream, RuntimeError, 'r) effect" where
  "exchange_io V config protocol payload decode =
     and_then (dialer_select V protocol)
       (\<lambda>_. and_then (of_result payload)
         (\<lambda>bytes. and_then (write_frame bytes)
           (\<lambda>_. and_then (erp_read_length_prefixed_frame V (cfg_max_frame_len config))
             (\<lambda>response_frame. of_result (decode response_frame)))))"

definition on_muxer :: "(muxer, RuntimeError, 'a) xeffect \<Rightarrow> (('vk, 'sig) EstablishedSession, RuntimeError, 'a) xeffect" where
  "on_muxer body ses = map_option (\<lambda>(r, m). (r, ses\<lparr>ses_muxer := m\<rparr>)) (body (ses_muxer ses))"

definition forward_message ::
  "('vk, 'sig, 'z) net_scheme \<Rightarrow> PeerId \<Rightarrow> ('vk, 'sig) NetworkMessage \<Rightarrow> (('vk, 'sig) EstablishedSession, RuntimeError, unit) xeffect" where
  "forward_message E remote_node_peer msg =
     x_then (of_exec (map_option Inr (message_to_bytes E msg)))
       (\<lambda>frame. returns (ses_send_event (FrameReceivedEvent remote_node_peer frame)))"

definition handle_outbound_frame ::
  "varint \<Rightarrow> ('vk, 'sig, 'z) net_scheme \<Rightarrow> NetworkConfig \<Rightarrow> PeerId \<Rightarrow> byte_vec
    \<Rightarrow> (('vk, 'sig) EstablishedSession, RuntimeError, unit) xeffect" where
  "handle_outbound_frame V E config remote_node_peer frame =
     (case message_from_bytes E frame of
        Inl _ \<Rightarrow> returns (fail_with (Config ''invalid outbound network frame''))
      | Inr (AnnounceRequestMsg request) \<Rightarrow>
          x_then (on_muxer (x_then (returns open_substream)
            (\<lambda>s. on_substream s (returns (exchange_io V config ANNOUNCE_PROTOCOL
               (erp_encode_announce_request V E request (cfg_max_frame_len config))
               (\<lambda>f. erp_decode_announce_response V E f (cfg_max_frame_len config)))))))
            (\<lambda>response. forward_message E remote_node_peer (AnnounceResponseMsg response))
      | Inr (SyncRequestMsg request) \<Rightarrow>
          x_then (on_muxer (x_then (returns open_substream)
            (\<lambda>s. on_substream s (returns (exchange_io V config SYNC_PROTOCOL
               (erp_encode_sync_request V E request (cfg_max_frame_len config))
               (\<lambda>f. erp_decode_sync_response V E f (cfg_max_frame_len config)))))))
            (\<lambda>response. forward_message E remote_node_peer (SyncResponseMsg response))
      | Inr (AnnounceResponseMsg _) \<Rightarrow>
          returns (fail_with (Config ''outbound response routing is not implemented for session commands''))
      | Inr (SyncResponseMsg _) \<Rightarrow>
          returns (fail_with (Config ''outbound response routing is not implemented for session commands'')))"

section \<open>Substreams of the remote side\<close>

text \<open>The state of a handler of a substream: the substream and the session.\<close>

definition io_part :: "(io_stream, RuntimeError, 'a) effect \<Rightarrow> (io_stream \<times> ('vk, 'sig) EstablishedSession, RuntimeError, 'a) xeffect" where
  "io_part m = returns (\<lambda>(s, ses). let (r, s') = m s in (r, (s', ses)))"

definition session_part ::
  "(('vk, 'sig) EstablishedSession, RuntimeError, 'a) xeffect \<Rightarrow> (io_stream \<times> ('vk, 'sig) EstablishedSession, RuntimeError, 'a) xeffect" where
  "session_part m = (\<lambda>(s, ses). map_option (\<lambda>(r, ses'). (r, (s, ses'))) (m ses))"

definition wait_in_session ::
  "('vk, 'sig, 'z) net_scheme \<Rightarrow> (('vk, 'sig) EstablishedSession, RuntimeError, ('vk, 'sig) SyncResponse) xeffect" where
  "wait_in_session E ses =
     map_option (\<lambda>(r, q, deferred). (r, ses\<lparr>ses_command_rx := q, ses_deferred := deferred\<rparr>))
       (wait_for_sync_response E (ses_command_rx ses) (ses_deferred ses) [])"

definition serve_protocol ::
  "varint \<Rightarrow> ('vk, 'sig, 'z) hello_env_scheme \<Rightarrow> identify_env \<Rightarrow> ('vk, 'sig) IdentityManager \<Rightarrow> TransportIdentity \<Rightarrow> NetworkConfig
    \<Rightarrow> VerifiedPeer \<Rightarrow> byte_vec \<Rightarrow> (io_stream \<times> ('vk, 'sig) EstablishedSession, RuntimeError, unit) xeffect" where
  "serve_protocol V E P identity T config verified protocol =
     (if protocol = IDENTIFY_PROTOCOL then
        x_then (of_exec (encode_identify V P (build_local_identify config T))) (\<lambda>frame. io_part (write_frame frame))
      else if protocol = IDENTIFY_PUSH_PROTOCOL then
        x_then (io_part (erp_read_length_prefixed_frame V (cfg_max_frame_len config)))
          (\<lambda>frame. x_then (of_exec (decode_identify V P frame)) (\<lambda>_. returns (done_with ())))
      else if protocol = NODE_HELLO_PROTOCOL then
        x_then (io_part (answer_node_hello V E identity T config (verified_transport_peer_id verified)))
          (\<lambda>outcome. case outcome of
             Established remote \<Rightarrow>
               if verified_node_peer_id remote \<noteq> verified_node_peer_id verified
               then returns (fail_with (Config ''node hello peer changed during an existing session''))
               else returns (done_with ())
           | Rejected \<Rightarrow> returns (done_with ()))
      else if protocol = PING_PROTOCOL then io_part answer_ping
      else if protocol = ANNOUNCE_PROTOCOL then
        x_then (io_part (erp_read_length_prefixed_frame V (cfg_max_frame_len config)))
          (\<lambda>frame. x_then (of_exec (Some (erp_decode_announce_request V E frame (cfg_max_frame_len config))))
            (\<lambda>request. x_then (session_part (forward_message E (verified_node_peer_id verified) (AnnounceRequestMsg request)))
              (\<lambda>_. x_then (of_exec (Some (erp_encode_announce_response V E (AnnounceResponse True) (cfg_max_frame_len config))))
                (\<lambda>response_frame. io_part (write_frame response_frame)))))
      else if protocol = SYNC_PROTOCOL then
        x_then (io_part (erp_read_length_prefixed_frame V (cfg_max_frame_len config)))
          (\<lambda>frame. x_then (of_exec (Some (erp_decode_sync_request V E frame (cfg_max_frame_len config))))
            (\<lambda>request. x_then (session_part (forward_message E (verified_node_peer_id verified) (SyncRequestMsg request)))
              (\<lambda>_. x_then (session_part (wait_in_session E))
                (\<lambda>response. x_then (of_exec (Some (erp_encode_sync_response V E response (cfg_max_frame_len config))))
                  (\<lambda>response_frame. io_part (write_frame response_frame))))))
      else returns (fail_with (Config ''unsupported inbound protocol'')))"

definition handle_inbound_substream ::
  "varint \<Rightarrow> ('vk, 'sig, 'z) hello_env_scheme \<Rightarrow> identify_env \<Rightarrow> ('vk, 'sig) IdentityManager \<Rightarrow> TransportIdentity \<Rightarrow> NetworkConfig
    \<Rightarrow> VerifiedPeer \<Rightarrow> (io_stream \<times> ('vk, 'sig) EstablishedSession, RuntimeError, unit) xeffect" where
  "handle_inbound_substream V E P identity T config verified =
     x_then (io_part (listener_select_optional V INBOUND_SESSION_PROTOCOLS))
       (\<lambda>selected. case selected of
          None \<Rightarrow> returns (done_with ())
        | Some protocol \<Rightarrow> serve_protocol V E P identity T config verified protocol)"

section \<open>The loop\<close>

text \<open>
  Every round of the loop takes a deferred command, a queued command or a substream that the remote side opened. No
  handler puts back more than it took: what \<open>wait_for_sync_response\<close> defers came from the queues.
\<close>

definition session_work :: "('vk, 'sig) EstablishedSession \<Rightarrow> nat" where
  "session_work ses = length (ses_deferred ses) + length (ses_command_rx ses) + length (mux_inbound (ses_muxer ses))"

definition no_more :: "('s \<Rightarrow> nat) \<Rightarrow> ('s, 'e, 'a) xeffect \<Rightarrow> bool" where
  "no_more f m \<longleftrightarrow> (\<forall>s r t. m s = Some (r, t) \<longrightarrow> f t \<le> f s)"

lemma no_moreD: "no_more f m \<Longrightarrow> m s = Some (r, t) \<Longrightarrow> f t \<le> f s"
  by (auto simp: no_more_def)

lemma no_more_then [intro]:
  assumes "no_more f m" and "\<And>a. no_more f (k a)"
  shows "no_more f (x_then m k)"
  unfolding no_more_def
proof (intro allI impI)
  fix s r t
  assume "x_then m k s = Some (r, t)"
  then consider r' where "m s = Some (r', t)" | a s' where "m s = Some (Inr a, s')" "k a s' = Some (r, t)"
    by (auto simp: x_then_def split: option.split_asm prod.split_asm sum.split_asm)
  then show "f t \<le> f s"
  proof cases
    case (1 r')
    then show ?thesis by (rule no_moreD [OF assms(1)])
  next
    case (2 a s')
    then show ?thesis using no_moreD [OF assms(1) 2(1)] no_moreD [OF assms(2) 2(2)] by simp
  qed
qed

lemma no_more_pure [intro!]:
  "no_more f (of_exec x)" "no_more f (returns (done_with a))" "no_more f (returns (fail_with e))" "no_more f (returns (of_result y))"
  by (auto simp: no_more_def of_exec_def)

lemma accept_substream_work:
  "accept_substream m = (r, m') \<Longrightarrow> length (mux_inbound m') = length (mux_inbound m) - (case r of Inr (Some _) \<Rightarrow> 1 | _ \<Rightarrow> 0)"
  "accept_substream m = (Inr (Some s), m') \<Longrightarrow> length (mux_inbound m') < length (mux_inbound m)"
  by (auto simp: accept_substream_def split: list.split_asm option.split_asm)

lemma on_muxer_work:
  assumes "\<And>m r m'. body m = Some (r, m') \<Longrightarrow> mux_inbound m' = mux_inbound m"
  shows "no_more session_work (on_muxer body)"
  using assms by (auto simp: no_more_def on_muxer_def session_work_def)

lemma opened_substream_inbound:
  assumes "x_then (returns open_substream) (\<lambda>s. on_substream s body) m = Some (r, m')"
  shows "mux_inbound m' = mux_inbound m"
  using assms
  by (auto simp: x_then_def open_substream_def on_substream_def split: list.split_asm sum.split_asm prod.split_asm)

lemma forward_work [intro]: "no_more session_work (forward_message E p msg)"
  unfolding forward_message_def
  by (intro no_more_then no_more_pure)
    (auto simp: no_more_def ses_send_event_def send_on_def send_def session_work_def split: if_split_asm)

lemma outbound_work [intro]: "no_more session_work (handle_outbound_frame V E config p frame)"
  by (auto simp: handle_outbound_frame_def opened_substream_inbound intro!: no_more_then on_muxer_work
      split: sum.split NetworkMessage.split)

lemma wait_work:
  assumes "wait_for_sync_response E q deferred retained = Some (r, q', deferred')"
  shows "length q' + length deferred' \<le> length q + length deferred + length retained"
  using assms
proof (induction E q deferred retained rule: wait_for_sync_response.induct)
  case (1 E q deferred retained)
  obtain command d1 q1 where nxt: "(case deferred of c # ds \<Rightarrow> (Some c, ds, q)
      | [] \<Rightarrow> (case q of c # cs \<Rightarrow> (Some c, [], cs) | [] \<Rightarrow> (None, [], []))) = (command, d1, q1)"
    by (metis prod_cases3)
  then have len: "length q1 + length d1 + (if command = None then 0 else 1) = length q + length deferred"
    by (auto split: list.split_asm)
  show ?case
  proof (cases "\<exists>frame msg. command = Some (SessionSendFrame frame) \<and> message_from_bytes E frame = Inr msg \<and> (\<nexists>resp. msg = SyncResponseMsg resp)")
    case True
    then obtain frame msg where fm: "command = Some (SessionSendFrame frame)" "message_from_bytes E frame = Inr msg"
      "\<nexists>resp. msg = SyncResponseMsg resp" by blast
    then obtain bytes where bytes: "message_to_bytes E msg = Some bytes"
      and rec: "wait_for_sync_response E q1 d1 (retained @ [SessionSendFrame bytes]) = Some (r, q', deferred')"
      using 1(4) by (subst (asm) wait_for_sync_response.simps) (cases msg; auto simp: nxt elim!: bind_eq_SomeE)
    show ?thesis using 1 nxt fm bytes rec len by (cases msg) (fastforce+)
  next
    case False
    then show ?thesis using 1(4) len
      by (subst (asm) wait_for_sync_response.simps)
        (auto simp: nxt restore_deferred_eq split: option.split_asm SessionCommand.split_asm sum.split_asm NetworkMessage.split_asm)
  qed
qed

lemma io_part_work [intro]: "no_more (\<lambda>(s, ses). session_work ses) (io_part m)"
  by (auto simp: no_more_def io_part_def Let_def split: prod.split_asm)

lemma session_part_work:
  "no_more session_work m \<Longrightarrow> no_more (\<lambda>(s, ses). session_work ses) (session_part m)"
  by (fastforce simp: no_more_def session_part_def)

lemma wait_in_session_work: "no_more session_work (wait_in_session E)"
  by (auto simp: no_more_def wait_in_session_def session_work_def dest: wait_work)

lemma inbound_work: "no_more (\<lambda>(s, ses). session_work ses) (handle_inbound_substream V E P identity T config verified)"
  unfolding handle_inbound_substream_def serve_protocol_def
  by (auto intro!: no_more_then session_part_work wait_in_session_work split: option.split HandshakeOutcome.split)

lemma x_then_cong [fundef_cong]:
  "m s = m' s' \<Longrightarrow> (\<And>a t. m' s' = Some (Inr a, t) \<Longrightarrow> k a t = k' a t) \<Longrightarrow> x_then m k s = x_then m' k' s'"
  by (auto simp: x_then_def split: option.split sum.split)

text \<open>
  What the loop selects when no command was deferred: the next command, or the next substream. The sequence
  of these choices is the environment's. The command channel is closed when no command is left in it.
\<close>

datatype loop_choice = TakeCommand | TakeInbound

function run_established_session ::
  "varint \<Rightarrow> ('vk, 'sig, 'z) hello_env_scheme \<Rightarrow> identify_env \<Rightarrow> ('vk, 'sig) IdentityManager \<Rightarrow> TransportIdentity \<Rightarrow> NetworkConfig
    \<Rightarrow> VerifiedPeer \<Rightarrow> loop_choice list \<Rightarrow> (('vk, 'sig) EstablishedSession, RuntimeError, unit) xeffect" where
  "run_established_session V E P identity T config verified choices ses =
     (case ses_deferred ses of
        c # ds \<Rightarrow>
          (case c of
             SessionDisconnect \<Rightarrow> Some (Inr (), ses\<lparr>ses_deferred := ds\<rparr>)
           | SessionSendFrame frame \<Rightarrow>
               x_then (handle_outbound_frame V E config (verified_node_peer_id verified) frame)
                 (\<lambda>_ ses'. run_established_session V E P identity T config verified choices ses') (ses\<lparr>ses_deferred := ds\<rparr>))
      | [] \<Rightarrow>
          (case choices of
             TakeInbound # choices' \<Rightarrow>
               (case accept_substream (ses_muxer ses) of
                  (Inl e, m) \<Rightarrow> Some (Inl e, ses\<lparr>ses_muxer := m\<rparr>)
                | (Inr None, m) \<Rightarrow> Some (Inr (), ses\<lparr>ses_muxer := m\<rparr>)
                | (Inr (Some s), m) \<Rightarrow>
                    (case handle_inbound_substream V E P identity T config verified (s, ses\<lparr>ses_muxer := m\<rparr>) of
                       None \<Rightarrow> None
                     | Some (Inl e, (s', ses')) \<Rightarrow> Some (Inl e, ses')
                     | Some (Inr _, (s', ses')) \<Rightarrow>
                         run_established_session V E P identity T config verified choices'
                           (ses'\<lparr>ses_muxer := (ses_muxer ses')\<lparr>mux_finished := mux_finished (ses_muxer ses') @ [s']\<rparr>\<rparr>)))
           | _ \<Rightarrow>
               (case ses_command_rx ses of
                  SessionSendFrame frame # cs \<Rightarrow>
                    x_then (handle_outbound_frame V E config (verified_node_peer_id verified) frame)
                      (\<lambda>_ ses'. run_established_session V E P identity T config verified (tl choices) ses') (ses\<lparr>ses_command_rx := cs\<rparr>)
                | SessionDisconnect # cs \<Rightarrow> Some (Inr (), ses\<lparr>ses_command_rx := cs\<rparr>)
                | [] \<Rightarrow> Some (Inr (), ses))))"
  by pat_completeness auto
termination
  by (relation "measure (\<lambda>(V, E, P, identity, T, config, verified, choices, ses). session_work ses)")
    (auto simp: session_work_def dest!: no_moreD [OF outbound_work] no_moreD [OF inbound_work] accept_substream_work(2) [OF sym])

declare run_established_session.simps [simp del]

section \<open>The session worker\<close>

definition send_session_event :: "SessionEvent \<Rightarrow> (SessionEvent channel, RuntimeError, unit) effect" where
  "send_session_event event =
     map_err_effect (\<lambda>_. Config ''failed to send session event to network manager'') (send event)"

definition session_run_async ::
  "varint \<Rightarrow> ('vk, 'sig, 'z) hello_env_scheme \<Rightarrow> identify_env \<Rightarrow> (RuntimeError, byte_vec \<times> (RuntimeError, muxer) result) result
    \<Rightarrow> SessionWorker \<Rightarrow> ('vk, 'sig) IdentityManager \<Rightarrow> TransportIdentity \<Rightarrow> loop_choice list \<Rightarrow> SessionCommand list
    \<Rightarrow> ('vk, 'sig) RuntimeEvent channel \<Rightarrow> SessionEvent channel
    \<Rightarrow> ((RuntimeError, unit) result \<times> SessionEvent channel \<times> ('vk, 'sig) RuntimeEvent channel) exec" where
  "session_run_async V E P connection worker identity T choices commands event_tx events = do {
     established \<leftarrow> establish_session V E P connection (worker_role worker) identity T (worker_config worker)
       (worker_expected_transport_peer worker);
     (result, remote, events', event_tx') \<leftarrow>
       (case established of
          Inl e \<Rightarrow> Some (Inl e, None, events, event_tx)
        | Inr None \<Rightarrow> Some (Inr (), None, events, event_tx)
        | Inr (Some (m, verified)) \<Rightarrow>
            (case send_session_event (SessionReady (worker_session_id worker) verified) events of
               (Inl e, events') \<Rightarrow> Some (Inl e, None, events', event_tx)
             | (Inr _, events') \<Rightarrow>
                 map_option (\<lambda>(r, ses). (r, Some (verified_node_peer_id verified), events', ses_event_tx ses))
                   (run_established_session V E P identity T (worker_config worker) verified choices
                      \<lparr> ses_muxer = m, ses_event_tx = event_tx, ses_command_rx = commands, ses_deferred = [] \<rparr>)));
     Some (result, snd (send_session_event (SessionClosed (worker_session_id worker) remote) events'), event_tx') }"

section \<open>The node hello between honest nodes\<close>

abbreviation accepting :: "NodeHello \<Rightarrow> NodeHelloResponse" where
  "accepting h \<equiv> \<lparr>hello_accepted = True, hello_remote = h, hello_reject_reason = None\<rparr>"

definition payload_frame :: "varint \<Rightarrow> byte_vec \<Rightarrow> byte_vec" where
  "payload_frame V payload = varint_encode V (word_of_nat (length payload)) @ payload"

text \<open>The exchange as the dialer sees it; the listener plays its mirror.\<close>

definition hello_script :: "varint \<Rightarrow> byte_vec \<Rightarrow> byte_vec \<Rightarrow> io_action list" where
  "hello_script V hello response =
     [Writes (protocol_frame V MULTISTREAM_V1), Reads (protocol_frame V MULTISTREAM_V1),
      Writes (protocol_frame V NODE_HELLO_PROTOCOL), Reads (protocol_frame V NODE_HELLO_PROTOCOL),
      Writes (payload_frame V hello), Reads (payload_frame V response)]"

lemma plays_write_postcard:
  "enc v = Some p \<Longrightarrow> length p \<le> unat max_len \<Longrightarrow>
   plays (returns (write_postcard_frame V enc v max_len)) [Writes (payload_frame V p)] ()"
  by (rule plays_write) (simp add: write_postcard_frame_ok payload_frame_def)

lemma plays_read_postcard:
  "varint_ok V \<Longrightarrow> enc v = Some p \<Longrightarrow> dec p = Some v \<Longrightarrow> length p \<le> unat max_len \<Longrightarrow>
   plays (returns (erp_read_postcard_frame V dec max_len)) [Reads (payload_frame V p)] v"
  by (rule plays_read [OF reader_frames(2)])
    (simp add: erp_read_postcard_frame_def map_err_effect_ok read_postcard_encoded payload_frame_def)

lemma hello_dialer_plays:
  assumes "varint_ok V" and "build_node_hello E identity T config = Inr h" and "encode_hello E h = Some p"
    and "encode_hello_response E (accepting h') = Some p'" and "decode_hello_response E p' = Some (accepting h')"
    and "NodeHelloVerifier_verify E h' auth = Inr v"
    and "length p \<le> unat (cfg_max_frame_len config)" and "length p' \<le> unat (cfg_max_frame_len config)"
  shows "plays (returns (request_node_hello_io V E identity T config auth)) (hello_script V p p') (Established v)"
proof -
  have "plays (returns (and_then (of_result (build_node_hello E identity T config))
         (\<lambda>local_hello. and_then (write_postcard_frame V (encode_hello E) local_hello (cfg_max_frame_len config))
           (\<lambda>_. and_then (erp_read_postcard_frame V (decode_hello_response E) (cfg_max_frame_len config))
             (\<lambda>response.
                if \<not> hello_accepted response then done_with Rejected
                else (case NodeHelloVerifier_verify E (hello_remote response) auth of
                        Inr verified \<Rightarrow> done_with (Established verified)
                      | Inl error \<Rightarrow> done_with Rejected))))))
      [Writes (payload_frame V p), Reads (payload_frame V p')] (Established v)"
    by (auto simp: assms plays_done intro!: plays_value
        plays_first [OF plays_write_postcard [where enc = "encode_hello E", OF assms(3)]]
        plays_first [OF plays_read_postcard [where enc = "encode_hello_response E" and dec = "decode_hello_response E", OF assms(1,4,5)]])
  then show ?thesis
    unfolding request_node_hello_io_def hello_script_def
    by (rule plays_and_then [OF dialer_select_plays [OF assms(1) protocol_names(2)], simplified append.simps])
qed

lemma hello_listener_plays:
  assumes "varint_ok V" and "build_node_hello E identity T config = Inr h" and "encode_hello E h' = Some p'"
    and "decode_hello E p' = Some h'" and "encode_hello_response E (accepting h) = Some p"
    and "NodeHelloVerifier_verify E h' auth = Inr v"
    and "length p \<le> unat (cfg_max_frame_len config)" and "length p' \<le> unat (cfg_max_frame_len config)"
  shows "plays (setup_substream_io V E P identity T config auth) (mirror (hello_script V p' p)) (HelloAnswered (Established v))"
proof -
  let ?supported = "[IDENTIFY_PROTOCOL, NODE_HELLO_PROTOCOL, PING_PROTOCOL]"
  have "plays (returns (and_then (of_result (build_node_hello E identity T config))
        (\<lambda>local_hello. and_then (write_postcard_frame V (encode_hello_response E)
             \<lparr> hello_accepted = True, hello_remote = local_hello, hello_reject_reason = None \<rparr> (cfg_max_frame_len config))
           (\<lambda>_. done_with (Established v)))))
      [Writes (payload_frame V p)] (Established v)"
    by (auto simp: assms plays_done intro!: plays_value
        plays_first [OF plays_write_postcard [where enc = "encode_hello_response E", OF assms(5)]])
  then have "plays (returns (answer_node_hello V E identity T config auth))
      [Reads (payload_frame V p'), Writes (payload_frame V p)] (Established v)"
    unfolding answer_node_hello_def
    by (auto simp: assms intro!: plays_first [OF plays_read_postcard [where enc = "encode_hello E" and dec = "decode_hello E", OF assms(1,3,4)]])
  then have answer: "plays (x_then (returns (answer_node_hello V E identity T config auth)) (\<lambda>o'. returns (done_with (HelloAnswered o'))))
      ([Reads (payload_frame V p'), Writes (payload_frame V p)] @ []) (HelloAnswered (Established v))"
    by (rule plays_then) (rule plays_done)
  have names: "NODE_HELLO_PROTOCOL \<noteq> IDENTIFY_PROTOCOL" "NODE_HELLO_PROTOCOL \<noteq> PING_PROTOCOL"
    by (simp_all add: protocol_defs str_bytes_def)
  have select: "plays (returns (listener_select V ?supported))
      [Reads (protocol_frame V MULTISTREAM_V1), Writes (protocol_frame V MULTISTREAM_V1),
       Reads (protocol_frame V NODE_HELLO_PROTOCOL), Writes (protocol_frame V NODE_HELLO_PROTOCOL)] NODE_HELLO_PROTOCOL"
    by (rule listener_select_plays [OF assms(1) protocol_names(2)]) simp
  show ?thesis
    unfolding setup_substream_io_def hello_script_def mirror.simps
    by (rule plays_then [OF select, simplified append.simps]) (use answer names in simp)
qed

text \<open>On the whole transcript of the other side each end completes.\<close>

lemma hello_listener_ok:
  assumes "plays m (mirror (hello_script V p' p)) v"
  shows "m (fresh_stream (out_bytes (hello_script V p' p))) = Some (Inr v, (fresh_stream [])\<lparr>tx := in_bytes (hello_script V p' p)\<rparr>)"
  using plays_full [OF assms, of "fresh_stream (out_bytes (hello_script V p' p))" "[]"] by (simp add: fresh_stream_def)

lemma hello_dialer_ok:
  assumes "plays (returns m) (hello_script V p p') v"
  shows "m (fresh_stream (in_bytes (hello_script V p p'))) = (Inr v, (fresh_stream [])\<lparr>tx := out_bytes (hello_script V p p')\<rparr>)"
  using plays_full [OF assms, of "fresh_stream (in_bytes (hello_script V p p'))" "[]"] by (simp add: fresh_stream_def)

section \<open>Properties of a session\<close>

text \<open>
  The peer of a session is authenticated. A session is established only with a peer whose node hello
  verified: the transport peer id in the hello is the one that noise authenticated on this connection, and the
  expected one where the node dialled a configured peer; the node id is the hash of the node key in the hello; and
  this key signed the transcript of the hello, so the node key vouches for the transport peer and for the
  limits that the session works with. This holds for both roles and for any bytes the remote side sends, repeated
  hellos during the setup included.
\<close>

lemma established_peer_authenticated:
  assumes "establish_session V E P connection role identity T config expected = Some (Inr (Some (m, v)))"
  shows "\<exists>upgraded h. connection = Inr (verified_transport_peer_id v, upgraded) \<and>
    (\<forall>x. expected = Some x \<longrightarrow> x = verified_transport_peer_id v) \<and>
    verified_node_peer_id v = hash E (verified_public_key v) \<and> v = peer_of_hello h \<and> hello_signed_by_key E h"
  using establish_bound [OF assms] by (auto simp: bound_peer_def peer_of_hello_def)

text \<open>
  C26: two honest nodes complete the node hello, whatever the timing. A dialer and a listener with
  working identities, and with hellos that fit the frame limits of both sides, are connected by two byte channels. Bytes
  are delivered one at a time and in any interleaving, each only after the other side has written it, and a side
  that lacks bytes waits. No reachable state is a deadlock: either a written byte is still to be delivered, or
  both transcripts have arrived whole; every step delivers one byte of them, so this takes as many steps as
  they have bytes. Both sides have then established the other: its node id, transport id and limits, with no byte left over.
\<close>

theorem honest_hello_handshake:
  assumes "varint_ok V" and "sec1_ok E" and "signatures_ok E" and "identity_ok E ia" and "identity_ok E ib"
    and "build_node_hello E ia Ta ca = Inr ha" and "build_node_hello E ib Tb cb = Inr hb"
    and "encode_hello E ha = Some pa" and "decode_hello E pa = Some ha"
    and "encode_hello_response E (accepting hb) = Some pb"
    and "decode_hello_response E pb = Some (accepting hb)"
    and "length pa \<le> unat (min (cfg_max_frame_len ca) (cfg_max_frame_len cb))"
    and "length pb \<le> unat (min (cfg_max_frame_len ca) (cfg_max_frame_len cb))"
  shows "\<exists>to_listener to_dialer.
    (\<forall>n xs ys. (exchange (returns (request_node_hello_io V E ia Ta ca (tid_peer_id Tb)))
        (setup_substream_io V E P ib Tb cb (tid_peer_id Ta)) ^^ n) ([], []) (xs, ys) \<longrightarrow>
      prefix xs to_listener \<and> prefix ys to_dialer \<and> n = length xs + length ys \<and>
      (xs = to_listener \<and> ys = to_dialer \<or>
       (\<exists>st. exchange (returns (request_node_hello_io V E ia Ta ca (tid_peer_id Tb)))
          (setup_substream_io V E P ib Tb cb (tid_peer_id Ta)) (xs, ys) st))) \<and>
    request_node_hello_io V E ia Ta ca (tid_peer_id Tb) (fresh_stream to_dialer) =
      (Inr (Established (peer_of_hello hb)), (fresh_stream [])\<lparr>tx := to_listener\<rparr>) \<and>
    setup_substream_io V E P ib Tb cb (tid_peer_id Ta) (fresh_stream to_listener) =
      Some (Inr (HelloAnswered (Established (peer_of_hello ha))), (fresh_stream [])\<lparr>tx := to_dialer\<rparr>) \<and>
    verified_node_peer_id (peer_of_hello ha) = peer_id ia \<and> verified_node_peer_id (peer_of_hello hb) = peer_id ib"
proof -
  have va: "NodeHelloVerifier_verify E ha (tid_peer_id Ta) = Inr (peer_of_hello ha)" "hello_node_peer_id ha = peer_id ia"
    and vb: "NodeHelloVerifier_verify E hb (tid_peer_id Tb) = Inr (peer_of_hello hb)" "hello_node_peer_id hb = peer_id ib"
    using build_verifies [OF assms(2-4)] build_verifies [OF assms(2,3,5)] assms(6,7) by (auto simp: build_node_hello_def)
  have la: "length pa \<le> unat (cfg_max_frame_len ca)" "length pa \<le> unat (cfg_max_frame_len cb)"
    and lb: "length pb \<le> unat (cfg_max_frame_len ca)" "length pb \<le> unat (cfg_max_frame_len cb)"
    using assms(12,13) by (auto simp: min_def word_le_nat_alt split: if_splits)
  note dialer = hello_dialer_plays [OF assms(1,6,8,10,11) vb(1) la(1) lb(1)]
  note listener = hello_listener_plays [OF assms(1,7,8,9,10) va(1) lb(2) la(2), of P]
  show ?thesis
    using mirrored_exchange [OF dialer listener] hello_dialer_ok [OF dialer] hello_listener_ok [OF listener] va(2) vb(2)
    by (intro exI [of _ "out_bytes (hello_script V pa pb)"] exI [of _ "in_bytes (hello_script V pa pb)"])
      (simp add: peer_of_hello_def)
qed

text \<open>
  C27: A sync response is sent to the peer that asked and no command is lost. While the session waits for the
  node's response to a sync request, the other frames of the node are set aside; when the response comes they are
  put back before the commands that are still queued, in their order, so the session goes on as if only the
  response had been taken out of its queue.
\<close>

theorem deferred_commands_keep_order:
  assumes "list_all2 (reencoded E) pre pre'" and "message_from_bytes E frame = Inr (SyncResponseMsg response)"
    and "ses_deferred ses @ ses_command_rx ses = pre @ SessionSendFrame frame # rest"
  shows "\<exists>ses'. wait_in_session E ses = Some (Inr response, ses') \<and>
    ses_deferred ses' @ ses_command_rx ses' = pre' @ rest \<and>
    ses_muxer ses' = ses_muxer ses \<and> ses_event_tx ses' = ses_event_tx ses"
  using wait_keeps_order [OF assms, of "[]"] by (auto simp: wait_in_session_def)

section \<open>A concrete session\<close>

definition demo_transport :: "u8 \<Rightarrow> TransportIdentity" where
  "demo_transport k = \<lparr> tid_public_key_protobuf = [k], tid_peer_id = [k] \<rparr>"

definition demo_hello :: "u8 \<Rightarrow> NodeHello" where
  "demo_hello k = \<lparr> hello_version = 1, node_public_key = public_key (demo_identity k), hello_node_peer_id = peer_id (demo_identity k),
     hello_transport_peer_id = [k], hello_max_frame_len = DEFAULT_MAX_FRAME_LEN,
     hello_max_blocks_per_chunk = DEFAULT_MAX_BLOCKS_PER_CHUNK,
     hello_capabilities = \<lparr> supports_sync_v1 = True, supports_announce_v1 = True, supports_ping = True \<rparr>,
     hello_signature = [k, k] \<rparr>"

text \<open>The demo hellos are encoded by the byte of their key.\<close>

definition demo_session_env :: "(u8, demo_sig) hello_env" where
  "demo_session_env = demo_hello_env\<lparr>encode_hello := (\<lambda>h. Some (hello_transport_peer_id h)),
     decode_hello := (\<lambda>p. map_option demo_hello (if p = [] then None else Some (hd p))),
     encode_hello_response := (\<lambda>r. Some (hello_transport_peer_id (hello_remote r))),
     decode_hello_response := (\<lambda>p. map_option (\<lambda>k. accepting (demo_hello k)) (if p = [] then None else Some (hd p)))\<rparr>"

lemma demo_session_env_ok: "sec1_ok demo_session_env" "signatures_ok demo_session_env" "identity_ok demo_session_env (demo_identity k)"
  using demo_hello_env_ok demo_identity_ok [of k]
  by (simp_all add: demo_session_env_def sec1_ok_def signatures_ok_def identity_ok_def verifying_key_bytes_def
      verifying_key_to_bytes_def hash_def)

lemma demo_build_hello:
  "build_node_hello demo_session_env (demo_identity k) (demo_transport k) NetworkConfig_default = Inr (demo_hello k)"
  by (simp add: build_node_hello_def NodeHelloBuilder_build_def encode_transcript_def demo_session_env_def demo_hello_def
      identity_sign_def demo_identity_def from_software_signing_key_def demo_transport_def NetworkConfig_default_def Let_def)

lemma demo_hello_codec:
  "encode_hello demo_session_env (demo_hello k) = Some [k]" "decode_hello demo_session_env [k] = Some (demo_hello k)"
  "encode_hello_response demo_session_env (accepting (demo_hello k)) = Some [k]"
  "decode_hello_response demo_session_env [k] = Some (accepting (demo_hello k))"
  by (simp_all add: demo_session_env_def demo_hello_def)

lemma demo_frame_fits: "length [k :: u8] \<le> unat (min (cfg_max_frame_len NetworkConfig_default) (cfg_max_frame_len NetworkConfig_default))"
  by (simp add: NetworkConfig_default_def DEFAULT_MAX_FRAME_LEN_def)

definition unary :: "nat \<Rightarrow> byte_vec" where
  "unary n = replicate n 1 @ [0]"

definition un_unary :: "byte_vec \<Rightarrow> (nat \<times> byte_vec) option" where
  "un_unary bytes = (let n = length (takeWhile (\<lambda>b. b = 1) bytes) in if drop n bytes = [] then None else Some (n, drop (Suc n) bytes))"

lemma un_unary_unary [simp]: "un_unary (unary n @ rest) = Some (n, rest)"
  by (simp add: un_unary_def unary_def takeWhile_append)

definition demo_tag :: "nat \<Rightarrow> byte_vec" where
  "demo_tag tag = (if tag < 128 then [word_of_nat tag] else 255 # unary tag)"

definition demo_next_tag :: "byte_vec \<Rightarrow> (string, nat \<times> byte_vec) result" where
  "demo_next_tag bytes = (case bytes of
     [] \<Rightarrow> Inl ''end''
   | b # rest \<Rightarrow> if b < 128 then Inr (unat b, rest) else ok_or ''tag'' (un_unary rest))"

definition demo_read_bytes :: "byte_vec \<Rightarrow> (string, byte_vec \<times> byte_vec) result" where
  "demo_read_bytes bytes = (case un_unary bytes of
     None \<Rightarrow> Inl ''length''
   | Some (n, rest) \<Rightarrow> if length rest < n then Inl ''end'' else Inr (take n rest, drop n rest))"

definition demo_identify_env :: identify_env where
  "demo_identify_env = \<lparr> pb_next_tag = demo_next_tag, pb_read_bytes = demo_read_bytes, pb_read_string = demo_read_bytes,
     pb_read_unknown = (\<lambda>_ _. Inl ''unknown''), pb_write_bytes = (\<lambda>tag v. Inr (demo_tag tag @ unary (length v) @ v)),
     pb_write_string = (\<lambda>tag v. Inr (demo_tag tag @ unary (length v) @ v)),
     pb_sizeof_len = (\<lambda>n. 2 * n + 1), multiaddr_parse = (\<lambda>_. Some []), multiaddr_to_vec = (\<lambda>_. []), multiaddr_from_vec = (\<lambda>_. None),
     ip6_text = (\<lambda>_. []), public_key_peer_id = (\<lambda>_. None) \<rparr>"

lemma demo_next_tag_tag: "demo_next_tag (demo_tag tag @ rest) = Inr (tag, rest)"
proof (cases "tag < 128")
  case True
  then have "(word_of_nat tag :: u8) < 128" "unat (word_of_nat tag :: u8) = tag"
    by (simp_all add: word_less_nat_alt unat_of_nat take_bit_eq_mod)
  then show ?thesis using True by (simp add: demo_tag_def demo_next_tag_def)
next
  case False
  then show ?thesis by (simp add: demo_tag_def demo_next_tag_def)
qed

lemma demo_protobuf_ok: "protobuf_ok demo_identify_env"
proof -
  have "demo_tag tag @ unary (length v) @ v \<noteq> []" for tag v by (simp add: unary_def)
  moreover have "demo_read_bytes (unary (length v) @ v @ rest) = Inr (v, rest)" for v rest by (simp add: demo_read_bytes_def)
  ultimately show ?thesis
    by (simp add: protobuf_ok_def field_ok_def demo_identify_env_def demo_next_tag_tag)
qed

definition demo_dialer :: "(io_stream, RuntimeError, HandshakeOutcome) effect" where
  "demo_dialer = request_node_hello_io demo_varint demo_session_env (demo_identity 5) (demo_transport 5) NetworkConfig_default [7]"

definition demo_listener :: "(io_stream, RuntimeError, setup_step) xeffect" where
  "demo_listener = setup_substream_io demo_varint demo_session_env demo_identify_env (demo_identity 7) (demo_transport 7)
     NetworkConfig_default [5]"

theorem honest_hello_handshake_witness:
  "\<exists>to_listener to_dialer.
    (\<forall>n xs ys. (exchange (returns demo_dialer) demo_listener ^^ n) ([], []) (xs, ys) \<longrightarrow>
       (xs = to_listener \<and> ys = to_dialer) \<or> (\<exists>st. exchange (returns demo_dialer) demo_listener (xs, ys) st)) \<and>
    demo_dialer (fresh_stream to_dialer) =
      (Inr (Established (peer_of_hello (demo_hello 7))), (fresh_stream [])\<lparr>tx := to_listener\<rparr>) \<and>
    demo_listener (fresh_stream to_listener) =
      Some (Inr (HelloAnswered (Established (peer_of_hello (demo_hello 5)))), (fresh_stream [])\<lparr>tx := to_dialer\<rparr>)"
proof -
  have "tid_peer_id (demo_transport k) = [k]" for k by (simp add: demo_transport_def)
  then show ?thesis
    using honest_hello_handshake [OF demo_varint_ok demo_session_env_ok(1,2) demo_session_env_ok(3) demo_session_env_ok(3)
        demo_build_hello demo_build_hello demo_hello_codec(1,2) demo_hello_codec(3,4) demo_frame_fits demo_frame_fits, of 5 7 demo_identify_env]
    unfolding demo_dialer_def demo_listener_def by metis
qed

lemma demo_identify_served:
  "\<exists>s'. setup_substream_io demo_varint demo_session_env demo_identify_env (demo_identity 7) (demo_transport 7) NetworkConfig_default [5]
    (fresh_stream (protocol_frame demo_varint MULTISTREAM_V1 @ protocol_frame demo_varint IDENTIFY_PROTOCOL)) = Some (Inr IdentifyServed, s')"
proof -
  let ?bytes = "protocol_frame demo_varint MULTISTREAM_V1 @ protocol_frame demo_varint IDENTIFY_PROTOCOL"
  let ?info = "build_local_identify NetworkConfig_default (demo_transport 7)"
  have "listener_select demo_varint [IDENTIFY_PROTOCOL, NODE_HELLO_PROTOCOL, PING_PROTOCOL] (fresh_stream ?bytes) =
      (Inr IDENTIFY_PROTOCOL, (fresh_stream [])\<lparr>tx := ?bytes\<rparr>)"
    using listener_ok [OF demo_varint_ok protocol_names(1), of "[IDENTIFY_PROTOCOL, NODE_HELLO_PROTOCOL, PING_PROTOCOL]"
        "fresh_stream ?bytes" "[]"] protocol_names
    by (simp add: fresh_stream_def listener_select_def and_then_def)
  moreover obtain frame where "encode_identify demo_varint demo_identify_env ?info = Some (Inr frame)"
  proof -
    have "encode_multiaddr demo_identify_env a = Inr []" for a by (simp add: encode_multiaddr_def demo_identify_env_def)
    moreover obtain payload where "write_message demo_identify_env (identify_message demo_identify_env ?info [[]] None) = Inr payload"
        "length payload \<le> unat MAX_IDENTIFY_MESSAGE_SIZE"
      by (simp add: write_message_def identify_message_def build_local_identify_def demo_identify_env_def opt_list_def
          advertised_protocols_def protocol_defs demo_transport_def IDENTIFY_PROTOCOL_VERSION_def IDENTIFY_AGENT_VERSION_def
          str_bytes_def demo_tag_def unary_def MAX_IDENTIFY_MESSAGE_SIZE_def)
    ultimately show ?thesis using that
      by (simp add: encode_identify_def erp_encode_length_prefixed_def encode_length_prefixed_ok MAX_IDENTIFY_MESSAGE_SIZE_def
          build_local_identify_def)
  qed
  ultimately show ?thesis
    by (simp add: setup_substream_io_def x_then_def send_identify_def write_frame_def and_then_def write_all_open flush_open
        map_err_effect_def)
qed

lemma demo_session_established:
  "\<exists>m m'. establish_session demo_varint demo_session_env demo_identify_env (Inr ([5], Inr m)) Inbound (demo_identity 7)
      (demo_transport 7) NetworkConfig_default (Some [5]) = Some (Inr (Some (m', peer_of_hello (demo_hello 5))))"
proof -
  let ?identify = "protocol_frame demo_varint MULTISTREAM_V1 @ protocol_frame demo_varint IDENTIFY_PROTOCOL"
  let ?hello = "out_bytes (hello_script demo_varint [5] [7])"
  let ?m = "\<lparr> mux_inbound = [fresh_stream ?identify, fresh_stream ?hello], mux_inbound_end = None, mux_outbound = [], mux_finished = [] \<rparr>"
  have "NodeHelloVerifier_verify demo_session_env (demo_hello 5) [5] = Inr (peer_of_hello (demo_hello 5))"
    using build_verifies(1) [OF demo_session_env_ok demo_build_hello [unfolded build_node_hello_def]] by (simp add: demo_transport_def)
  then have "\<exists>t. setup_substream_io demo_varint demo_session_env demo_identify_env (demo_identity 7) (demo_transport 7) NetworkConfig_default [5]
      (fresh_stream ?hello) = Some (Inr (HelloAnswered (Established (peer_of_hello (demo_hello 5)))), t)"
    using hello_listener_ok [OF hello_listener_plays [OF demo_varint_ok demo_build_hello demo_hello_codec(1,2,3)]] demo_frame_fits by auto
  moreover note demo_identify_served
  ultimately obtain m' where est: "establish_session demo_varint demo_session_env demo_identify_env (Inr ([5], Inr ?m)) Inbound (demo_identity 7)
      (demo_transport 7) NetworkConfig_default (Some [5]) = Some (Inr (Some (m', peer_of_hello (demo_hello 5))))"
    by (auto simp: establish_session_def complete_inbound_handshake_def accept_substream_def on_substream_def
        inbound_handshake_loop.simps [of _ _ _ _ _ _ _ False None] inbound_handshake_loop.simps [of _ _ _ _ _ _ _ True])
  from est show ?thesis by blast
qed

theorem deferred_commands_keep_order_witness:
  "\<exists>ses'. wait_in_session demo_net
      \<lparr> ses_muxer = \<lparr> mux_inbound = [], mux_inbound_end = None, mux_outbound = [], mux_finished = [] \<rparr>, ses_event_tx = open_channel,
        ses_command_rx = [SessionSendFrame [1], SessionSendFrame [5], SessionDisconnect], ses_deferred = [] \<rparr> =
      Some (Inr (SyncResponse [] True (Some 40)), ses') \<and>
    ses_deferred ses' @ ses_command_rx ses' = [SessionSendFrame [1], SessionDisconnect]"
proof -
  have "reencoded demo_net (SessionSendFrame [1]) (SessionSendFrame [1])"
    by (simp add: reencoded_def message_from_bytes_def message_to_bytes_def decode_or_def demo_decode_def demo_encode_def
        announce_block_def)
  moreover have "message_from_bytes demo_net [5] = Inr (SyncResponseMsg (SyncResponse [] True (Some 40)))"
    by (simp add: message_from_bytes_def decode_or_def demo_decode_def)
  ultimately show ?thesis
    using deferred_commands_keep_order [of demo_net "[SessionSendFrame [1]]" "[SessionSendFrame [1]]" "[5]"
        "SyncResponse [] True (Some 40)"
        "\<lparr> ses_muxer = \<lparr> mux_inbound = [], mux_inbound_end = None, mux_outbound = [], mux_finished = [] \<rparr>, ses_event_tx = open_channel,
          ses_command_rx = [SessionSendFrame [1], SessionSendFrame [5], SessionDisconnect], ses_deferred = [] \<rparr>"
        "[SessionDisconnect]"] by auto
qed

end
