(* ===== verification/HostNetwork.thy ===== *)
theory HostNetwork
  imports NodeHello PeerRegistry NodeManager
begin

text \<open>
  The network task of the host runtime (\<open>rp-runtime/src/network/manager.rs\<close>) and its configuration
  (\<open>rp-runtime/src/network/config.rs\<close>).

  The libp2p swarm is not part of the repository. What the task calls of it is recorded in \<open>hn_calls\<close>; what
  the swarm answers is the argument \<open>W\<close> of each turn (\<open>swarm_io\<close>: the ids of requests and whether a response
  channel still takes a response); what it reports is a \<open>swarm_event\<close>. Transport peer ids are represented by their
  bytes, response channels and request ids by numbers. The hash maps of the source are maps; where the source
  iterates over one, the order of its keys is an argument.
\<close>

section \<open>Configuration\<close>

record 'a HostNetworkConfig =
  host_listen_addr :: 'a
  host_bootstrap_addrs :: "'a list"
  host_request_timeout_secs :: u64
  host_idle_timeout_secs :: u64
  host_max_frame_len :: u32
  host_max_blocks_per_chunk :: u16

definition HOST_DEFAULT_MAX_FRAME_LEN :: u32 where "HOST_DEFAULT_MAX_FRAME_LEN = 64 * 1024"
definition HOST_DEFAULT_MAX_BLOCKS_PER_CHUNK :: u16 where "HOST_DEFAULT_MAX_BLOCKS_PER_CHUNK = 8"
definition DEFAULT_LISTEN_ADDR :: string where "DEFAULT_LISTEN_ADDR = ''/ip4/0.0.0.0/tcp/4001''"
definition DEFAULT_REQUEST_TIMEOUT_SECS :: u64 where "DEFAULT_REQUEST_TIMEOUT_SECS = 10"
definition DEFAULT_IDLE_TIMEOUT_SECS :: u64 where "DEFAULT_IDLE_TIMEOUT_SECS = 300"

definition host_config_default :: "(string \<Rightarrow> 'a option) \<Rightarrow> 'a HostNetworkConfig exec" where
  "host_config_default parse_addr = do {
     listen \<leftarrow> parse_addr DEFAULT_LISTEN_ADDR;
     Some \<lparr> host_listen_addr = listen, host_bootstrap_addrs = [], host_request_timeout_secs = DEFAULT_REQUEST_TIMEOUT_SECS,
       host_idle_timeout_secs = DEFAULT_IDLE_TIMEOUT_SECS, host_max_frame_len = HOST_DEFAULT_MAX_FRAME_LEN,
       host_max_blocks_per_chunk = HOST_DEFAULT_MAX_BLOCKS_PER_CHUNK \<rparr> }"

text \<open>\<open>str::parse::<u64>\<close>: an optional plus sign and decimal digits whose value fits 64 bits.\<close>

definition is_digit :: "char \<Rightarrow> bool" where
  "is_digit c \<longleftrightarrow> 48 \<le> (of_char c :: nat) \<and> (of_char c :: nat) \<le> 57"

definition digits_value :: "string \<Rightarrow> nat" where
  "digits_value = foldl (\<lambda>n c. 10 * n + (of_char c - 48)) 0"

definition parse_u64 :: "string \<Rightarrow> u64 option" where
  "parse_u64 text =
     (let digits = (case text of c # rest \<Rightarrow> if c = CHR ''+'' then rest else text | [] \<Rightarrow> [])
      in if digits \<noteq> [] \<and> list_all is_digit digits \<and> digits_value digits < 2 ^ 64
         then Some (word_of_nat (digits_value digits)) else None)"

definition host_parse_bootstrap :: "(string \<Rightarrow> 'a option) \<Rightarrow> string \<Rightarrow> (HostError, 'a list) result" where
  "host_parse_bootstrap parse_addr value =
     collect_results (map (\<lambda>entry. ok_or (HostConfig ''invalid RP_RUNTIME_BOOTSTRAP_PEERS'') (parse_addr entry))
       (filter (\<lambda>entry. entry \<noteq> []) (map trim (split_at (CHR '','') value))))"

definition host_config_from_env ::
  "(string \<Rightarrow> 'a option) \<Rightarrow> (string \<Rightarrow> string option) \<Rightarrow> (HostError, 'a HostNetworkConfig) result exec" where
  "host_config_from_env parse_addr env = do {
     config \<leftarrow> host_config_default parse_addr;
     Some (bind_result
       (case env ''RP_RUNTIME_LISTEN_ADDR'' of
          None \<Rightarrow> Inr config
        | Some value \<Rightarrow>
            bind_result (ok_or (HostConfig ''invalid RP_RUNTIME_LISTEN_ADDR'') (parse_addr value))
              (\<lambda>addr. Inr (config\<lparr>host_listen_addr := addr\<rparr>)))
       (\<lambda>config. bind_result
         (case env ''RP_RUNTIME_BOOTSTRAP_PEERS'' of
            None \<Rightarrow> Inr config
          | Some value \<Rightarrow>
              bind_result (host_parse_bootstrap parse_addr value) (\<lambda>addrs. Inr (config\<lparr>host_bootstrap_addrs := addrs\<rparr>)))
         (\<lambda>config. Inr
           (case Option.bind (env ''RP_RUNTIME_REQUEST_TIMEOUT_SECS'') parse_u64 of
              None \<Rightarrow> config
            | Some value \<Rightarrow> config\<lparr>host_request_timeout_secs := value\<rparr>)))) }"

section \<open>Identity and node hello\<close>

record 'sig HostNodeIdentity =
  host_signing_key :: "byte_vec \<Rightarrow> 'sig"
  host_public_key :: byte_vec
  host_peer_id :: PeerId

definition host_from_signing_key ::
  "('vk, 'sig, 'z) hello_env_scheme \<Rightarrow> 'vk \<Rightarrow> (byte_vec \<Rightarrow> 'sig) \<Rightarrow> 'sig HostNodeIdentity" where
  "host_from_signing_key E verifying_key signing =
     (let pk = verifying_key_bytes E verifying_key
      in \<lparr> host_signing_key = signing, host_public_key = pk, host_peer_id = hash E pk \<rparr>)"

text \<open>
  The identity file: its bytes when it exists. \<open>key_of\<close> is the key that 32 private bytes stand for, \<open>fresh\<close> a new
  random key with its bytes, \<open>write_file\<close> what writing the file returns. The result says which bytes are in the file.
\<close>

definition host_load_or_create ::
  "('vk, 'sig, 'z) hello_env_scheme \<Rightarrow> (byte_vec \<Rightarrow> (string, 'vk \<times> (byte_vec \<Rightarrow> 'sig)) result)
    \<Rightarrow> byte_vec \<times> 'vk \<times> (byte_vec \<Rightarrow> 'sig) \<Rightarrow> (byte_vec \<Rightarrow> (string, unit) result) \<Rightarrow> (string, byte_vec) result option
    \<Rightarrow> (HostError, 'sig HostNodeIdentity \<times> byte_vec) result" where
  "host_load_or_create E key_of fresh write_file file =
     (case file of
        Some read_result \<Rightarrow>
          bind_result (map_err host_io_other read_result)
            (\<lambda>bytes. if length bytes \<noteq> 32 then Inl (HostConfig ''invalid persisted node identity bytes'')
               else bind_result (map_err HostCrypto (key_of bytes))
                 (\<lambda>(vk, signing). Inr (host_from_signing_key E vk signing, bytes)))
      | None \<Rightarrow>
          (case fresh of (bytes, vk, signing) \<Rightarrow>
             bind_result (map_err host_io_other (write_file bytes))
               (\<lambda>_. Inr (host_from_signing_key E vk signing, bytes))))"

definition host_build_signature :: "('vk, 'sig, 'z) hello_env_scheme \<Rightarrow> 'sig HostNodeIdentity \<Rightarrow> byte_vec \<Rightarrow> byte_vec" where
  "host_build_signature E identity message = sig_to_bytes E (host_signing_key identity message)"

record HostVerifiedPeer =
  host_verified_node :: PeerId
  host_verified_max_blocks :: u16

definition host_encode_transcript :: "('vk, 'sig, 'z) hello_env_scheme \<Rightarrow> NodeHelloTranscript \<Rightarrow> (HostError, byte_vec) result" where
  "host_encode_transcript E transcript =
     ok_or (HostCrypto ''failed to serialize node hello transcript'') (postcard_transcript E transcript)"

definition host_verify ::
  "('vk, 'sig, 'z) hello_env_scheme \<Rightarrow> NodeHello \<Rightarrow> byte_vec \<Rightarrow> (HostError, HostVerifiedPeer) result" where
  "host_verify E remote authenticated_transport_peer =
     (if hello_transport_peer_id remote \<noteq> authenticated_transport_peer
      then Inl (HostConfig ''node hello transport peer id does not match authenticated session peer'')
      else if hash E (node_public_key remote) \<noteq> hello_node_peer_id remote
      then Inl (HostConfig ''node hello peer id does not match node public key'')
      else if length (node_public_key remote) \<noteq> PUBLIC_KEY_SIZE
      then Inl (HostConfig ''node hello public key must be a compressed 33-byte P-256 key'')
      else
        bind_result (map_err HostCrypto (verifying_key_from_bytes E (from_be (node_public_key remote))))
          (\<lambda>verifying_key. bind_result (host_encode_transcript E (hello_transcript remote))
            (\<lambda>transcript_bytes. bind_result (ok_or (HostCrypto ''invalid node hello signature bytes'')
                (sig_from_slice E (hello_signature remote)))
              (\<lambda>signature.
                 if \<not> ecdsa_verify E verifying_key transcript_bytes signature
                 then Inl (HostConfig ''node hello signature verification failed'')
                 else Inr \<lparr> host_verified_node = hello_node_peer_id remote,
                   host_verified_max_blocks = hello_max_blocks_per_chunk remote \<rparr>))))"

definition host_reject_reason :: "HostError \<Rightarrow> NodeHelloRejectReason" where
  "host_reject_reason error =
     (case error of
        HostConfig message \<Rightarrow>
          (if message = ''node hello transport peer id does not match authenticated session peer''
           then TransportBindingMismatch
           else if message = ''node hello peer id does not match node public key'' then PeerIdMismatch
           else InvalidHelloSignature)
      | HostCrypto _ \<Rightarrow> InvalidHelloSignature
      | _ \<Rightarrow> InvalidHelloSignature)"

section \<open>State\<close>

datatype ('vk, 'sig, 'a) swarm_call =
    Dial 'a
  | AddAddress byte_vec 'a
  | Publish byte_vec
  | DisconnectTransport byte_vec
  | RequestHello byte_vec NodeHello
  | RequestSync byte_vec SyncRequest
  | RequestAnnounce byte_vec "('vk, 'sig) AnnounceRequest"
  | RespondHello nat NodeHelloResponse
  | RespondSync nat "('vk, 'sig) SyncResponse"
  | RespondAnnounce nat AnnounceResponse

text \<open>The answers of the swarm during a turn: the id of a request by the number of calls before it, and which channels are open.\<close>

record swarm_io =
  request_id :: "nat \<Rightarrow> nat"
  response_ok :: "nat \<Rightarrow> bool"

record ('vk, 'sig, 'a) HostNetwork =
  hn_config :: "'a HostNetworkConfig"
  hn_identity :: "'sig HostNodeIdentity"
  hn_transport_peer_id :: byte_vec
  hn_event_tx :: "('vk, 'sig) RuntimeEvent channel"
  hn_calls :: "('vk, 'sig, 'a) swarm_call list"
  peer_by_node :: "PeerId \<rightharpoonup> byte_vec"
  node_by_transport :: "byte_vec \<rightharpoonup> PeerId"
  peer_max_blocks_per_chunk :: "PeerId \<rightharpoonup> u16"
  host_transport_peers :: "byte_vec set"
  pending_node_hello :: "byte_vec set"
  pending_sync_responses :: "PeerId \<rightharpoonup> nat list"
  outbound_sync_requests :: "nat \<rightharpoonup> PeerId"

type_synonym ('vk, 'sig, 'a, 'r) host_step = "('vk, 'sig, 'a) HostNetwork \<Rightarrow> (HostError, 'r) result \<times> ('vk, 'sig, 'a) HostNetwork"

definition HostNetwork_new ::
  "'a HostNetworkConfig \<Rightarrow> 'sig HostNodeIdentity \<Rightarrow> byte_vec \<Rightarrow> ('vk, 'sig) RuntimeEvent channel \<Rightarrow> ('vk, 'sig, 'a) HostNetwork" where
  "HostNetwork_new config identity transport event_tx =
     \<lparr> hn_config = config, hn_identity = identity, hn_transport_peer_id = transport, hn_event_tx = event_tx, hn_calls = [],
       peer_by_node = Map.empty, node_by_transport = Map.empty, peer_max_blocks_per_chunk = Map.empty,
       host_transport_peers = {}, pending_node_hello = {}, pending_sync_responses = Map.empty,
       outbound_sync_requests = Map.empty \<rparr>"

definition swarm_do :: "('vk, 'sig, 'a) swarm_call \<Rightarrow> ('vk, 'sig, 'a, unit) host_step" where
  "swarm_do c hn = (Inr (), hn\<lparr>hn_calls := hn_calls hn @ [c]\<rparr>)"

definition respond :: "swarm_io \<Rightarrow> nat \<Rightarrow> ('vk, 'sig, 'a) swarm_call \<Rightarrow> ('vk, 'sig, 'a, bool) host_step" where
  "respond W channel c hn = (Inr (response_ok W channel), hn\<lparr>hn_calls := hn_calls hn @ [c]\<rparr>)"

definition respond_or_fail :: "swarm_io \<Rightarrow> nat \<Rightarrow> ('vk, 'sig, 'a) swarm_call \<Rightarrow> string \<Rightarrow> ('vk, 'sig, 'a, unit) host_step" where
  "respond_or_fail W channel c message =
     and_then (respond W channel c) (\<lambda>sent_ok. if sent_ok then done_with () else fail_with (host_io_other message))"

definition host_emit :: "('vk, 'sig) RuntimeEvent \<Rightarrow> ('vk, 'sig, 'a, unit) host_step" where
  "host_emit = send_on hn_event_tx (\<lambda>ch. hn_event_tx_update (\<lambda>_. ch)) host_event_send"

section \<open>Commands of the node\<close>

definition host_clamp_sync_request :: "('vk, 'sig, 'a) HostNetwork \<Rightarrow> PeerId \<Rightarrow> SyncRequest \<Rightarrow> SyncRequest" where
  "host_clamp_sync_request hn p request =
     (case peer_max_blocks_per_chunk hn p of
        None \<Rightarrow> request
      | Some limit \<Rightarrow>
          if limit = 0 \<or> sync_from request > sync_to request then request
          else
            (let max_to_height = saturating_add (sync_from request) (saturating_sub (ucast limit) 1)
             in SyncRequest (sync_from request) (min (sync_to request) max_to_height)))"

definition send_sync_request :: "swarm_io \<Rightarrow> PeerId \<Rightarrow> SyncRequest \<Rightarrow> ('vk, 'sig, 'a, unit) host_step" where
  "send_sync_request W p request hn =
     (case peer_by_node hn p of
        None \<Rightarrow> (Inr (), hn)
      | Some transport_peer \<Rightarrow>
          (let r = host_clamp_sync_request hn p request; rid = request_id W (length (hn_calls hn))
           in (Inr (), hn\<lparr>hn_calls := hn_calls hn @ [RequestSync transport_peer r],
                 outbound_sync_requests := (outbound_sync_requests hn)(rid \<mapsto> p)\<rparr>)))"

definition send_sync_response :: "swarm_io \<Rightarrow> PeerId \<Rightarrow> ('vk, 'sig) SyncResponse \<Rightarrow> ('vk, 'sig, 'a, unit) host_step" where
  "send_sync_response W p response hn =
     (case pending_sync_responses hn p of
        None \<Rightarrow> (Inr (), hn)
      | Some [] \<Rightarrow> (Inr (), hn)
      | Some (channel # queue) \<Rightarrow>
          respond_or_fail W channel (RespondSync channel response) ''failed to send sync response''
            (hn\<lparr>pending_sync_responses :=
              (if queue = [] then (pending_sync_responses hn)(p := None) else (pending_sync_responses hn)(p \<mapsto> queue))\<rparr>))"

definition host_send_frame ::
  "('vk, 'sig, 'z) net_scheme \<Rightarrow> swarm_io \<Rightarrow> PeerId \<Rightarrow> byte_vec \<Rightarrow> ('vk, 'sig, 'a, unit) host_step" where
  "host_send_frame E W p frame hn =
     (case peer_by_node hn p of
        None \<Rightarrow> (Inr (), hn)
      | Some transport_peer \<Rightarrow>
          (case message_from_bytes E frame of
             Inl _ \<Rightarrow> (Inl (HostConfig ''invalid outbound network frame''), hn)
           | Inr (AnnounceRequestMsg request) \<Rightarrow> swarm_do (RequestAnnounce transport_peer request) hn
           | Inr (SyncRequestMsg request) \<Rightarrow> send_sync_request W p request hn
           | Inr (SyncResponseMsg response) \<Rightarrow> send_sync_response W p response hn
           | Inr (AnnounceResponseMsg _) \<Rightarrow> (Inr (), hn)))"

definition on_host_transport :: "('vk, 'sig, 'a) HostNetwork \<Rightarrow> PeerId \<Rightarrow> bool" where
  "on_host_transport hn p = (case peer_by_node hn p of Some t \<Rightarrow> t \<in> host_transport_peers hn | None \<Rightarrow> False)"

fun broadcast_to ::
  "('vk, 'sig, 'z) net_scheme \<Rightarrow> swarm_io \<Rightarrow> byte_vec \<Rightarrow> PeerId list \<Rightarrow> ('vk, 'sig, 'a, unit) host_step" where
  "broadcast_to E W frame [] hn = (Inr (), hn)"
| "broadcast_to E W frame (p # ps) hn =
     (if \<not> on_host_transport hn p then and_then (host_send_frame E W p frame) (\<lambda>_. broadcast_to E W frame ps) hn
      else broadcast_to E W frame ps hn)"

definition is_announce :: "('vk, 'sig, 'z) net_scheme \<Rightarrow> byte_vec \<Rightarrow> bool" where
  "is_announce E frame = (case message_from_bytes E frame of Inr (AnnounceRequestMsg _) \<Rightarrow> True | _ \<Rightarrow> False)"

text \<open>\<open>order\<close> are the keys of \<open>peer_by_node\<close> in the order of the hash map.\<close>

definition host_handle_command ::
  "('vk, 'sig, 'z) net_scheme \<Rightarrow> swarm_io \<Rightarrow> PeerId list \<Rightarrow> NetworkCommand \<Rightarrow> ('vk, 'sig, 'a, unit) host_step" where
  "host_handle_command E W order command hn =
     (case command of
        SendFrameCommand p frame \<Rightarrow> host_send_frame E W p frame hn
      | BroadcastFrameCommand frame \<Rightarrow>
          broadcast_to E W frame order (if is_announce E frame then hn\<lparr>hn_calls := hn_calls hn @ [Publish frame]\<rparr> else hn)
      | DisconnectPeerCommand p \<Rightarrow>
          (case peer_by_node hn p of
             Some transport_peer \<Rightarrow> swarm_do (DisconnectTransport transport_peer) hn
           | None \<Rightarrow> (Inr (), hn))
      | RequestBlocksCommand p lo hi \<Rightarrow> send_sync_request W p (SyncRequest lo hi) hn)"

section \<open>Peers\<close>

definition register_verified_peer :: "byte_vec \<Rightarrow> HostVerifiedPeer \<Rightarrow> ('vk, 'sig, 'a, unit) host_step" where
  "register_verified_peer transport_peer verified hn =
     (let node_peer = host_verified_node verified;
          previous_transport = peer_by_node hn node_peer;
          previous_node = node_by_transport hn transport_peer;
          by_node = (peer_by_node hn)(node_peer \<mapsto> transport_peer);
          by_transport = (node_by_transport hn)(transport_peer \<mapsto> node_peer);
          by_transport' = (case previous_transport of
             Some t \<Rightarrow> if t \<noteq> transport_peer then by_transport(t := None) else by_transport
           | None \<Rightarrow> by_transport);
          by_node' = (case previous_node of
             Some n \<Rightarrow> if n \<noteq> node_peer then by_node(n := None) else by_node
           | None \<Rightarrow> by_node);
          hn' = hn\<lparr>peer_by_node := by_node', node_by_transport := by_transport',
            peer_max_blocks_per_chunk := (peer_max_blocks_per_chunk hn)(node_peer \<mapsto> host_verified_max_blocks verified)\<rparr>
      in if previous_transport \<noteq> Some transport_peer \<or> previous_node \<noteq> Some node_peer
         then host_emit (PeerConnectedEvent node_peer) hn'
         else (Inr (), hn'))"

definition unregister_transport_peer :: "byte_vec \<Rightarrow> ('vk, 'sig, 'a, unit) host_step" where
  "unregister_transport_peer transport_peer hn =
     (case node_by_transport hn transport_peer of
        None \<Rightarrow> (Inr (), hn)
      | Some node_peer \<Rightarrow>
          host_emit (PeerDisconnectedEvent node_peer)
            (hn\<lparr>node_by_transport := (node_by_transport hn)(transport_peer := None),
               peer_by_node := (peer_by_node hn)(node_peer := None),
               peer_max_blocks_per_chunk := (peer_max_blocks_per_chunk hn)(node_peer := None),
               host_transport_peers := host_transport_peers hn - {transport_peer},
               pending_node_hello := pending_node_hello hn - {transport_peer},
               pending_sync_responses := (pending_sync_responses hn)(node_peer := None),
               outbound_sync_requests := (\<lambda>rid. case outbound_sync_requests hn rid of
                  Some q \<Rightarrow> if q \<noteq> node_peer then Some q else None | None \<Rightarrow> None)\<rparr>))"

definition host_build_local_hello :: "('vk, 'sig, 'z) hello_env_scheme \<Rightarrow> ('vk, 'sig, 'a) HostNetwork \<Rightarrow> (HostError, NodeHello) result" where
  "host_build_local_hello E hn =
     (let capabilities = \<lparr> supports_sync_v1 = True, supports_announce_v1 = True, supports_ping = True \<rparr>;
          transcript = \<lparr> transcript_version = 1, transcript_node_peer_id = host_peer_id (hn_identity hn),
            transcript_transport_peer_id = hn_transport_peer_id hn,
            transcript_max_frame_len = host_max_frame_len (hn_config hn),
            transcript_max_blocks_per_chunk = host_max_blocks_per_chunk (hn_config hn),
            transcript_capabilities = capabilities \<rparr>
      in bind_result (host_encode_transcript E transcript)
        (\<lambda>transcript_bytes. Inr \<lparr> hello_version = transcript_version transcript,
           node_public_key = host_public_key (hn_identity hn), hello_node_peer_id = host_peer_id (hn_identity hn),
           hello_transport_peer_id = hn_transport_peer_id hn, hello_max_frame_len = host_max_frame_len (hn_config hn),
           hello_max_blocks_per_chunk = host_max_blocks_per_chunk (hn_config hn), hello_capabilities = capabilities,
           hello_signature = host_build_signature E (hn_identity hn) transcript_bytes \<rparr>))"

definition hello_or_disconnect ::
  "('vk, 'sig, 'z) hello_env_scheme \<Rightarrow> byte_vec \<Rightarrow> ('vk, 'sig, 'a, NodeHello option) host_step" where
  "hello_or_disconnect E transport_peer hn =
     (case host_build_local_hello E hn of
        Inr hello \<Rightarrow> (Inr (Some hello), hn)
      | Inl _ \<Rightarrow> (Inr None, hn\<lparr>hn_calls := hn_calls hn @ [DisconnectTransport transport_peer]\<rparr>))"

section \<open>Events of the swarm\<close>

datatype ('vk, 'sig, 'a) swarm_event =
    ConnectionEstablished byte_vec bool 'a
  | ConnectionClosed byte_vec
  | IdentifyReceived byte_vec "'a list" string
  | PingResult byte_vec bool
  | GossipMessage byte_vec byte_vec
  | HelloRequested byte_vec NodeHello nat
  | HelloAnswer byte_vec NodeHelloResponse
  | SyncRequested byte_vec SyncRequest nat
  | SyncAnswer byte_vec nat "('vk, 'sig) SyncResponse"
  | SyncOutboundFailure byte_vec nat
  | SyncInboundFailure byte_vec nat
  | AnnounceRequested byte_vec "('vk, 'sig) AnnounceRequest" nat
  | AnnounceAnswer byte_vec AnnounceResponse
  | OtherSwarmEvent

definition host_agent :: "string \<Rightarrow> bool" where
  "host_agent agent = (take (length ''rp-runtime/'') agent = ''rp-runtime/'')"

definition on_connection_established :: "byte_vec \<Rightarrow> bool \<Rightarrow> 'a \<Rightarrow> ('vk, 'sig, 'a, unit) host_step" where
  "on_connection_established t dialer addr hn =
     (let hn' = hn\<lparr>hn_calls := hn_calls hn @ [AddAddress t addr]\<rparr>
      in (Inr (), if dialer \<and> node_by_transport hn t = None
                  then hn'\<lparr>pending_node_hello := insert t (pending_node_hello hn')\<rparr> else hn'))"

definition handle_ping_event :: "byte_vec \<Rightarrow> bool \<Rightarrow> ('vk, 'sig, 'a, unit) host_step" where
  "handle_ping_event t succeeded hn = (if succeeded then (Inr (), hn) else swarm_do (DisconnectTransport t) hn)"

definition handle_identify_received ::
  "('vk, 'sig, 'z) hello_env_scheme \<Rightarrow> byte_vec \<Rightarrow> 'a list \<Rightarrow> string \<Rightarrow> ('vk, 'sig, 'a, unit) host_step" where
  "handle_identify_received E t addrs agent hn =
     (let hn1 = hn\<lparr>hn_calls := hn_calls hn @ map (AddAddress t) addrs\<rparr>;
          hn2 = hn1\<lparr>host_transport_peers := (if host_agent agent then insert t (host_transport_peers hn1)
                    else host_transport_peers hn1 - {t}), pending_node_hello := pending_node_hello hn1 - {t}\<rparr>
      in if t \<in> pending_node_hello hn1 \<and> node_by_transport hn1 t = None
         then and_then (hello_or_disconnect E t)
           (\<lambda>hello. case hello of None \<Rightarrow> done_with () | Some h \<Rightarrow> swarm_do (RequestHello t h)) hn2
         else (Inr (), hn2))"

definition handle_gossip :: "byte_vec \<Rightarrow> byte_vec \<Rightarrow> ('vk, 'sig, 'a, unit) host_step" where
  "handle_gossip t frame hn =
     (case node_by_transport hn t of
        None \<Rightarrow> (Inr (), hn)
      | Some node_peer \<Rightarrow> host_emit (FrameReceivedEvent node_peer frame) hn)"

definition handle_hello_request ::
  "('vk, 'sig, 'z) hello_env_scheme \<Rightarrow> swarm_io \<Rightarrow> byte_vec \<Rightarrow> NodeHello \<Rightarrow> nat \<Rightarrow> ('vk, 'sig, 'a, unit) host_step" where
  "handle_hello_request E W t request channel =
     (case host_verify E request t of
        Inl error \<Rightarrow>
          and_then (hello_or_disconnect E t)
            (\<lambda>hello. case hello of
               None \<Rightarrow> done_with ()
             | Some remote \<Rightarrow>
                 and_then (respond W channel (RespondHello channel \<lparr> hello_accepted = False, hello_remote = remote,
                     hello_reject_reason = Some (host_reject_reason error) \<rparr>))
                   (\<lambda>_. swarm_do (DisconnectTransport t)))
      | Inr verified \<Rightarrow>
          and_then (hello_or_disconnect E t)
            (\<lambda>hello. case hello of
               None \<Rightarrow> done_with ()
             | Some remote \<Rightarrow>
                 and_then (respond W channel (RespondHello channel \<lparr> hello_accepted = True, hello_remote = remote,
                     hello_reject_reason = None \<rparr>))
                   (\<lambda>sent_ok. if sent_ok then register_verified_peer t verified
                      else swarm_do (DisconnectTransport t))))"

definition handle_hello_response ::
  "('vk, 'sig, 'z) hello_env_scheme \<Rightarrow> byte_vec \<Rightarrow> NodeHelloResponse \<Rightarrow> ('vk, 'sig, 'a, unit) host_step" where
  "handle_hello_response E t response =
     (if \<not> hello_accepted response then swarm_do (DisconnectTransport t)
      else (case host_verify E (hello_remote response) t of
              Inr verified \<Rightarrow> register_verified_peer t verified
            | Inl _ \<Rightarrow> swarm_do (DisconnectTransport t)))"

definition host_deliver ::
  "('vk, 'sig, 'z) net_scheme \<Rightarrow> PeerId \<Rightarrow> ('vk, 'sig) NetworkMessage \<Rightarrow> (('vk, 'sig, 'a) HostNetwork, HostError, unit) xeffect" where
  "host_deliver E p msg =
     x_then (of_exec (map_option Inr (message_to_bytes E msg))) (\<lambda>frame. returns (host_emit (FrameReceivedEvent p frame)))"

definition handle_sync_request ::
  "('vk, 'sig, 'z) net_scheme \<Rightarrow> swarm_io \<Rightarrow> byte_vec \<Rightarrow> SyncRequest \<Rightarrow> nat
    \<Rightarrow> (('vk, 'sig, 'a) HostNetwork, HostError, unit) xeffect" where
  "handle_sync_request E W t request channel hn =
     (case node_by_transport hn t of
        None \<Rightarrow>
          Some (respond_or_fail W channel (RespondSync channel (SyncResponse [] False None)) ''failed to send fallback sync response'' hn)
      | Some node_peer \<Rightarrow>
          host_deliver E node_peer (SyncRequestMsg request)
            (hn\<lparr>pending_sync_responses := (pending_sync_responses hn)(node_peer \<mapsto>
               (case pending_sync_responses hn node_peer of Some queue \<Rightarrow> queue | None \<Rightarrow> []) @ [channel])\<rparr>))"

definition handle_sync_response ::
  "('vk, 'sig, 'z) net_scheme \<Rightarrow> nat \<Rightarrow> ('vk, 'sig) SyncResponse \<Rightarrow> (('vk, 'sig, 'a) HostNetwork, HostError, unit) xeffect" where
  "handle_sync_response E rid response hn =
     (case outbound_sync_requests hn rid of
        None \<Rightarrow> Some (Inr (), hn)
      | Some node_peer \<Rightarrow>
          host_deliver E node_peer (SyncResponseMsg response)
            (hn\<lparr>outbound_sync_requests := (outbound_sync_requests hn)(rid := None)\<rparr>))"

definition handle_announce_request ::
  "('vk, 'sig, 'z) net_scheme \<Rightarrow> swarm_io \<Rightarrow> byte_vec \<Rightarrow> ('vk, 'sig) AnnounceRequest \<Rightarrow> nat
    \<Rightarrow> (('vk, 'sig, 'a) HostNetwork, HostError, unit) xeffect" where
  "handle_announce_request E W t request channel hn =
     x_then
       (case node_by_transport hn t of
          Some node_peer \<Rightarrow> x_then (host_deliver E node_peer (AnnounceRequestMsg request)) (\<lambda>_. returns (done_with True))
        | None \<Rightarrow> returns (done_with False))
       (\<lambda>ok. returns (respond_or_fail W channel (RespondAnnounce channel (AnnounceResponse ok)) ''failed to send announce response''))
       hn"

definition handle_announce_response ::
  "('vk, 'sig, 'z) net_scheme \<Rightarrow> byte_vec \<Rightarrow> AnnounceResponse \<Rightarrow> (('vk, 'sig, 'a) HostNetwork, HostError, unit) xeffect" where
  "handle_announce_response E t response hn =
     (case node_by_transport hn t of
        None \<Rightarrow> Some (Inr (), hn)
      | Some node_peer \<Rightarrow> host_deliver E node_peer (AnnounceResponseMsg response) hn)"

fun handle_swarm_event ::
  "('vk, 'sig, 'z) hello_env_scheme \<Rightarrow> swarm_io \<Rightarrow> ('vk, 'sig, 'a) swarm_event
    \<Rightarrow> (('vk, 'sig, 'a) HostNetwork, HostError, unit) xeffect" where
  "handle_swarm_event E W (ConnectionEstablished t dialer addr) = returns (on_connection_established t dialer addr)"
| "handle_swarm_event E W (ConnectionClosed t) = returns (unregister_transport_peer t)"
| "handle_swarm_event E W (IdentifyReceived t addrs agent) = returns (handle_identify_received E t addrs agent)"
| "handle_swarm_event E W (PingResult t succeeded) = returns (handle_ping_event t succeeded)"
| "handle_swarm_event E W (GossipMessage t frame) = returns (handle_gossip t frame)"
| "handle_swarm_event E W (HelloRequested t request channel) = returns (handle_hello_request E W t request channel)"
| "handle_swarm_event E W (HelloAnswer t response) = returns (handle_hello_response E t response)"
| "handle_swarm_event E W (SyncRequested t request channel) = handle_sync_request E W t request channel"
| "handle_swarm_event E W (SyncAnswer t rid response) = handle_sync_response E rid response"
| "handle_swarm_event E W (SyncOutboundFailure t rid) =
     returns (\<lambda>hn. (Inr (), hn\<lparr>outbound_sync_requests := (outbound_sync_requests hn)(rid := None)\<rparr>))"
| "handle_swarm_event E W (SyncInboundFailure t rid) = returns (done_with ())"
| "handle_swarm_event E W (AnnounceRequested t request channel) = handle_announce_request E W t request channel"
| "handle_swarm_event E W (AnnounceAnswer t response) = handle_announce_response E t response"
| "handle_swarm_event E W OtherSwarmEvent = returns (done_with ())"

section \<open>The loop\<close>

datatype ('vk, 'sig, 'a) host_input = HostCommand "PeerId list" NetworkCommand | HostSwarm "('vk, 'sig, 'a) swarm_event"

fun host_turn ::
  "('vk, 'sig, 'z) hello_env_scheme \<Rightarrow> swarm_io \<Rightarrow> ('vk, 'sig, 'a) host_input
    \<Rightarrow> (('vk, 'sig, 'a) HostNetwork, HostError, unit) xeffect" where
  "host_turn E W (HostCommand order command) = returns (host_handle_command E W order command)"
| "host_turn E W (HostSwarm event) = handle_swarm_event E W event"

text \<open>The inputs are what the task receives until its command channel is closed.\<close>

fun host_network_loop ::
  "('vk, 'sig, 'z) hello_env_scheme \<Rightarrow> (swarm_io \<times> ('vk, 'sig, 'a) host_input) list
    \<Rightarrow> (('vk, 'sig, 'a) HostNetwork, HostError, unit) xeffect" where
  "host_network_loop E [] = returns (done_with ())"
| "host_network_loop E (i # inputs) = x_then (host_turn E (fst i) (snd i)) (\<lambda>_. host_network_loop E inputs)"

definition host_network_run ::
  "('vk, 'sig, 'z) hello_env_scheme \<Rightarrow> (swarm_io \<times> ('vk, 'sig, 'a) host_input) list
    \<Rightarrow> (('vk, 'sig, 'a) HostNetwork, HostError, unit) xeffect" where
  "host_network_run E inputs hn =
     host_network_loop E inputs (hn\<lparr>hn_calls := hn_calls hn @ map Dial (host_bootstrap_addrs (hn_config hn))\<rparr>)"

section \<open>The registered peers\<close>

text \<open>The node ids for which a hello has verified.\<close>

definition known_on :: "('vk, 'sig, 'z) hello_env_scheme \<Rightarrow> byte_vec \<Rightarrow> PeerId \<Rightarrow> bool" where
  "known_on E t n \<longleftrightarrow> (\<exists>h v. host_verify E h t = Inr v \<and> host_verified_node v = n)"

definition event_known :: "('vk, 'sig, 'z) hello_env_scheme \<Rightarrow> ('vk, 'sig) RuntimeEvent \<Rightarrow> bool" where
  "event_known E e =
     (case e of
        PeerConnectedEvent n \<Rightarrow> \<exists>t. known_on E t n
      | PeerDisconnectedEvent n \<Rightarrow> \<exists>t. known_on E t n
      | FrameReceivedEvent n frame \<Rightarrow> \<exists>t. known_on E t n
      | _ \<Rightarrow> True)"

definition host_ok :: "('vk, 'sig, 'z) hello_env_scheme \<Rightarrow> ('vk, 'sig, 'a) HostNetwork \<Rightarrow> bool" where
  "host_ok E hn \<longleftrightarrow>
     (\<forall>n t. peer_by_node hn n = Some t \<longleftrightarrow> node_by_transport hn t = Some n) \<and>
     (\<forall>n t. peer_by_node hn n = Some t \<longrightarrow> known_on E t n \<and> peer_max_blocks_per_chunk hn n \<noteq> None) \<and>
     (\<forall>rid n. outbound_sync_requests hn rid = Some n \<longrightarrow> (\<exists>t. known_on E t n)) \<and>
     (\<forall>e\<in>set (sent (hn_event_tx hn)). event_known E e)"

text \<open>The peers that the node believes to be connected, from the events it was sent.\<close>

definition connection_event :: "('vk, 'sig) RuntimeEvent \<Rightarrow> PeerId set \<Rightarrow> PeerId set" where
  "connection_event e S = (case e of PeerConnectedEvent n \<Rightarrow> insert n S | PeerDisconnectedEvent n \<Rightarrow> S - {n} | _ \<Rightarrow> S)"

definition connected_peers :: "('vk, 'sig) RuntimeEvent list \<Rightarrow> PeerId set" where
  "connected_peers es = fold connection_event es {}"

definition announced :: "('vk, 'sig, 'a) HostNetwork \<Rightarrow> bool" where
  "announced hn \<longleftrightarrow> dom (peer_by_node hn) \<subseteq> connected_peers (sent (hn_event_tx hn))"

lemma connected_peers_snoc: "connected_peers (es @ [e]) = connection_event e (connected_peers es)"
  by (simp add: connected_peers_def)

definition host_keeps :: "('vk, 'sig, 'z) hello_env_scheme \<Rightarrow> (('vk, 'sig, 'a) HostNetwork, HostError, 'r) xeffect \<Rightarrow> bool" where
  "host_keeps E m \<longleftrightarrow>
     (\<forall>hn r hn'. host_ok E hn \<longrightarrow> announced hn \<longrightarrow> m hn = Some (r, hn') \<longrightarrow>
        host_ok E hn' \<and> (\<forall>a. r = Inr a \<longrightarrow> announced hn'))"

lemma host_keepsI:
  "(\<And>hn r hn'. host_ok E hn \<Longrightarrow> announced hn \<Longrightarrow> m hn = Some (r, hn') \<Longrightarrow> host_ok E hn' \<and> (\<forall>a. r = Inr a \<longrightarrow> announced hn'))
    \<Longrightarrow> host_keeps E m"
  unfolding host_keeps_def by blast

lemma host_keepsD:
  "host_keeps E m \<Longrightarrow> host_ok E hn \<Longrightarrow> announced hn \<Longrightarrow> m hn = Some (r, hn') \<Longrightarrow>
    host_ok E hn' \<and> (\<forall>a. r = Inr a \<longrightarrow> announced hn')"
  unfolding host_keeps_def by blast

lemma host_keeps_then:
  assumes "host_keeps E m" and "\<And>a. host_keeps E (k a)"
  shows "host_keeps E (x_then m k)"
proof (rule host_keepsI)
  fix hn r hn'
  assume ok: "host_ok E hn" "announced hn" and run: "x_then m k hn = Some (r, hn')"
  show "host_ok E hn' \<and> (\<forall>a. r = Inr a \<longrightarrow> announced hn')"
  proof (cases "\<exists>a hn1. m hn = Some (Inr a, hn1)")
    case True
    then obtain a hn1 where m: "m hn = Some (Inr a, hn1)" by blast
    with run have "k a hn1 = Some (r, hn')" by (simp add: x_then_ok)
    then show ?thesis using host_keepsD [OF assms(1) ok m] host_keepsD [OF assms(2)] by blast
  next
    case False
    then obtain e where "m hn = Some (Inl e, hn')" and "r = Inl e"
      using run by (auto simp: x_then_def split: option.split_asm prod.split_asm sum.split_asm)
    then show ?thesis using host_keepsD [OF assms(1) ok] by blast
  qed
qed

lemma returns_and_then: "returns (and_then m k) = x_then (returns m) (\<lambda>a. returns (k a))"
  by (rule ext) (simp add: returns_def x_then_def and_then_def split: prod.split sum.split)

text \<open>Steps that leave the peers, the requests and the events alone.\<close>

definition peers_same :: "('vk, 'sig, 'a) HostNetwork \<Rightarrow> ('vk, 'sig, 'a) HostNetwork \<Rightarrow> bool" where
  "peers_same hn hn' \<longleftrightarrow>
     peer_by_node hn' = peer_by_node hn \<and> node_by_transport hn' = node_by_transport hn \<and>
     peer_max_blocks_per_chunk hn' = peer_max_blocks_per_chunk hn \<and> hn_event_tx hn' = hn_event_tx hn \<and>
     ran (outbound_sync_requests hn') \<subseteq> ran (outbound_sync_requests hn) \<union> dom (peer_by_node hn)"

lemma host_keeps_same:
  assumes "\<And>hn r hn'. m hn = Some (r, hn') \<Longrightarrow> peers_same hn hn'"
  shows "host_keeps E m"
proof (rule host_keepsI)
  fix hn r hn'
  assume ok: "host_ok E hn" "announced hn" and "m hn = Some (r, hn')"
  then have same: "peers_same hn hn'" using assms by blast
  have "\<exists>t. known_on E t n" if "outbound_sync_requests hn' rid = Some n" for rid n
  proof -
    have "n \<in> ran (outbound_sync_requests hn) \<union> dom (peer_by_node hn)"
      using same that by (auto simp: peers_same_def ran_def)
    then show ?thesis using ok(1) unfolding host_ok_def ran_def by blast
  qed
  then show "host_ok E hn' \<and> (\<forall>a. r = Inr a \<longrightarrow> announced hn')"
    using ok same by (simp add: host_ok_def announced_def peers_same_def)
qed

lemma swarm_do_keeps [intro]: "host_keeps E (returns (swarm_do c))"
  by (rule host_keeps_same) (auto simp: swarm_do_def peers_same_def)

lemma respond_keeps [intro]: "host_keeps E (returns (respond W channel c))"
  by (rule host_keeps_same) (auto simp: respond_def peers_same_def)

lemma respond_or_fail_keeps: "host_keeps E (returns (respond_or_fail W channel c message))"
  by (rule host_keeps_same) (auto simp: respond_or_fail_def respond_def and_then_def peers_same_def split: if_split_asm)

lemma pure_keeps [intro]: "host_keeps E (returns (done_with a))" "host_keeps E (returns (fail_with e))" "host_keeps E (of_exec x)"
  by (rule host_keeps_same, auto simp: peers_same_def of_exec_def)+

lemma hello_or_disconnect_keeps [intro]: "host_keeps E (returns (hello_or_disconnect E' t))"
  by (rule host_keeps_same) (auto simp: hello_or_disconnect_def peers_same_def split: sum.split_asm)

lemma send_sync_request_keeps [intro]: "host_keeps E (returns (send_sync_request W p request))"
  by (rule host_keeps_same)
    (auto simp: send_sync_request_def peers_same_def Let_def ran_def split: option.split_asm if_split_asm)

lemma send_sync_response_keeps [intro]: "host_keeps E (returns (send_sync_response W p response))"
  by (rule host_keeps_same)
    (auto simp: send_sync_response_def respond_or_fail_def peers_same_def respond_def and_then_def split: option.split_asm list.split_asm if_split_asm)

lemma host_send_frame_keeps [intro]: "host_keeps E (returns (host_send_frame E' W p frame))"
proof (rule host_keepsI)
  fix hn r hn'
  assume ok: "host_ok E hn" "announced hn" and run: "returns (host_send_frame E' W p frame) hn = Some (r, hn')"
  show "host_ok E hn' \<and> (\<forall>a. r = Inr a \<longrightarrow> announced hn')"
  proof -
    consider "hn' = hn" | c where "returns (swarm_do c) hn = Some (r, hn')"
      | request where "returns (send_sync_request W p request) hn = Some (r, hn')"
      | response where "returns (send_sync_response W p response) hn = Some (r, hn')"
      using run by (auto simp: host_send_frame_def split: option.split_asm sum.split_asm NetworkMessage.split_asm)
    then show ?thesis
    proof cases
      case 1
      then show ?thesis using ok by blast
    qed (rule host_keepsD [OF swarm_do_keeps ok] host_keepsD [OF send_sync_request_keeps ok]
        host_keepsD [OF send_sync_response_keeps ok]; assumption)+
  qed
qed

lemma broadcast_keeps [intro]: "host_keeps E (returns (broadcast_to E' W frame ps :: ('vk, 'sig, 'a, unit) host_step))"
proof (induction ps)
  case Nil
  then show ?case by (intro host_keeps_same) (auto simp: peers_same_def)
next
  case (Cons p ps)
  have step: "host_keeps E (returns (and_then (host_send_frame E' W p frame) (\<lambda>_. broadcast_to E' W frame ps) ::
      ('vk, 'sig, 'a, unit) host_step))"
    unfolding returns_and_then by (intro host_keeps_then host_send_frame_keeps Cons)
  show ?case
  proof (rule host_keepsI)
    fix hn hn' :: "('vk, 'sig, 'a) HostNetwork" and r
    assume ok: "host_ok E hn" "announced hn" and run: "returns (broadcast_to E' W frame (p # ps)) hn = Some (r, hn')"
    show "host_ok E hn' \<and> (\<forall>a. r = Inr a \<longrightarrow> announced hn')"
    proof (cases "on_host_transport hn p")
      case True
      then show ?thesis using run by (intro host_keepsD [OF Cons ok]) simp
    next
      case False
      then show ?thesis using run by (intro host_keepsD [OF step ok]) simp
    qed
  qed
qed

lemma command_keeps: "host_keeps E (returns (host_handle_command E' W order command :: ('vk, 'sig, 'a, unit) host_step))"
proof (cases command)
  case (SendFrameCommand p frame)
  then have "host_handle_command E' W order command = host_send_frame E' W p frame"
    by (intro ext) (simp add: host_handle_command_def)
  then show ?thesis using host_send_frame_keeps by metis
next
  case (BroadcastFrameCommand frame)
  have "host_keeps E (x_then (returns (\<lambda>hn. (Inr (), if is_announce E' frame then hn\<lparr>hn_calls := hn_calls hn @ [Publish frame]\<rparr> else hn)))
      (\<lambda>_. returns (broadcast_to E' W frame order :: ('vk, 'sig, 'a, unit) host_step)))"
    by (intro host_keeps_then broadcast_keeps host_keeps_same) (auto simp: peers_same_def split: if_split_asm)
  moreover have "returns (host_handle_command E' W order command) =
      x_then (returns (\<lambda>hn. (Inr (), if is_announce E' frame then hn\<lparr>hn_calls := hn_calls hn @ [Publish frame]\<rparr> else hn)))
        (\<lambda>_. returns (broadcast_to E' W frame order :: ('vk, 'sig, 'a, unit) host_step))"
    by (intro ext) (simp add: BroadcastFrameCommand host_handle_command_def x_then_def)
  ultimately show ?thesis by metis
next
  case (DisconnectPeerCommand p)
  then show ?thesis
    by (intro host_keeps_same) (auto simp: host_handle_command_def swarm_do_def peers_same_def split: option.split_asm)
next
  case (RequestBlocksCommand p lo hi)
  then have "host_handle_command E' W order command = send_sync_request W p (SyncRequest lo hi)"
    by (intro ext) (simp add: host_handle_command_def)
  then show ?thesis using send_sync_request_keeps by metis
qed

section \<open>Events and the peers\<close>

lemma emit_known:
  assumes "host_emit e hn = (r, hn')" and "host_ok E hn" and "event_known E e"
  shows "host_ok E hn'" and "peer_by_node hn' = peer_by_node hn"
    and "r = Inr u \<Longrightarrow> sent (hn_event_tx hn') = sent (hn_event_tx hn) @ [e]"
  using assms by (auto simp: host_emit_def send_on_def send_def host_ok_def split: if_split_asm)

lemma deliver_keeps:
  assumes "host_ok E hn" and "announced hn" and "known_on E t n" and "host_deliver E' n msg hn = Some (r, hn')"
  shows "host_ok E hn' \<and> (\<forall>a. r = Inr a \<longrightarrow> announced hn')"
proof -
  obtain frame where emit: "host_emit (FrameReceivedEvent n frame) hn = (r, hn')"
    using assms(4) by (auto simp: host_deliver_def x_then_def of_exec_def split: option.split_asm)
  have known: "event_known E (FrameReceivedEvent n frame)" using assms(3) by (auto simp: event_known_def)
  show ?thesis using emit_known [OF emit assms(1) known] assms(2)
    by (auto simp: announced_def connected_peers_snoc connection_event_def)
qed

lemma register_keeps:
  assumes ok: "host_ok E hn" "announced hn" and v: "host_verify E h t = Inr v" and run: "register_verified_peer t v hn = (r, hn')"
  shows "host_ok E hn' \<and> (\<forall>a. r = Inr a \<longrightarrow> announced hn')"
proof -
  let ?n = "host_verified_node v"
  have inv: "peer_by_node hn n = Some u \<longleftrightarrow> node_by_transport hn u = Some n" for n u
    using ok(1) by (simp add: host_ok_def)
  have by_node: "peer_by_node hn' n = Some u \<longleftrightarrow> (if n = ?n then u = t else u \<noteq> t \<and> peer_by_node hn n = Some u)" for n u
    using run inv [of n t] inv [of ?n t]
    by (auto simp: register_verified_peer_def Let_def host_emit_def send_on_def send_def split: option.split_asm if_split_asm)
  have by_transport: "node_by_transport hn' u = Some n \<longleftrightarrow> (if u = t then n = ?n else n \<noteq> ?n \<and> node_by_transport hn u = Some n)" for n u
    using run inv [of ?n u] 
    by (auto simp: register_verified_peer_def Let_def host_emit_def send_on_def send_def split: option.split_asm if_split_asm)
  have rest: "outbound_sync_requests hn' = outbound_sync_requests hn"
      "peer_max_blocks_per_chunk hn' = (peer_max_blocks_per_chunk hn)(?n \<mapsto> host_verified_max_blocks v)"
    and events: "sent (hn_event_tx hn') = sent (hn_event_tx hn) @ [PeerConnectedEvent ?n] \<or>
      sent (hn_event_tx hn') = sent (hn_event_tx hn) \<and> (r = Inr a \<longrightarrow> peer_by_node hn ?n = Some t)" for a
    using run
    by (auto simp: register_verified_peer_def Let_def host_emit_def send_on_def send_def split: if_split_asm)
  have known: "known_on E t ?n" using v by (auto simp: known_on_def)
  have "host_ok E hn'"
    unfolding host_ok_def
  proof (intro conjI allI ballI impI)
    show "peer_by_node hn' n = Some u \<longleftrightarrow> node_by_transport hn' u = Some n" for n u
      using by_node by_transport inv by auto
    show "known_on E u n" "peer_max_blocks_per_chunk hn' n \<noteq> None" if "peer_by_node hn' n = Some u" for n u
      using that by_node [of n u] known ok(1) rest(2) by (auto simp: host_ok_def split: if_split_asm)
    show "\<exists>t. known_on E t n" if "outbound_sync_requests hn' rid = Some n" for rid n
      using that ok(1) rest(1) by (simp add: host_ok_def)
    show "event_known E e" if "e \<in> set (sent (hn_event_tx hn'))" for e
    proof -
      have "event_known E (PeerConnectedEvent ?n)" using known by (auto simp: event_known_def)
      then show ?thesis using that ok(1) events [of undefined] by (auto simp: host_ok_def)
    qed
  qed
  moreover have "announced hn'" if "r = Inr a" for a
  proof -
    have "dom (peer_by_node hn') \<subseteq> insert ?n (dom (peer_by_node hn))" using by_node by (auto split: if_split_asm)
    then show ?thesis using ok(2) events [of a] that
      unfolding announced_def by (auto simp: connected_peers_snoc connection_event_def) blast+
  qed
  ultimately show ?thesis by blast
qed

lemma unregister_keeps: "host_keeps E (returns (unregister_transport_peer t))"
proof (rule host_keepsI)
  fix hn r hn'
  assume ok: "host_ok E hn" "announced hn" and run: "returns (unregister_transport_peer t) hn = Some (r, hn')"
  show "host_ok E hn' \<and> (\<forall>a. r = Inr a \<longrightarrow> announced hn')"
  proof (cases "node_by_transport hn t")
    case None
    then show ?thesis using run ok by (simp add: unregister_transport_peer_def)
  next
    case (Some n)
    obtain hn1 where emit: "host_emit (PeerDisconnectedEvent n) hn1 = (r, hn')"
      and maps: "peer_by_node hn1 = (peer_by_node hn)(n := None)" "node_by_transport hn1 = (node_by_transport hn)(t := None)"
        "peer_max_blocks_per_chunk hn1 = (peer_max_blocks_per_chunk hn)(n := None)" "hn_event_tx hn1 = hn_event_tx hn"
      and rids: "\<And>rid q. outbound_sync_requests hn1 rid = Some q \<Longrightarrow> outbound_sync_requests hn rid = Some q"
      using run Some by (force simp: unregister_transport_peer_def split: option.split_asm if_split_asm)
    have inv: "peer_by_node hn m = Some u \<longleftrightarrow> node_by_transport hn u = Some m" for m u
      using ok(1) by (simp add: host_ok_def)
    have "host_ok E hn1"
      unfolding host_ok_def
    proof (intro conjI allI ballI impI)
      show "peer_by_node hn1 m = Some u \<longleftrightarrow> node_by_transport hn1 u = Some m" for m u
        using inv [of m u] inv [of n t] inv [of n u] inv [of m t] Some by (auto simp: maps)
      show "known_on E u m" "peer_max_blocks_per_chunk hn1 m \<noteq> None" if "peer_by_node hn1 m = Some u" for m u
        using that ok(1) by (auto simp: maps host_ok_def split: if_split_asm)
      show "\<exists>t. known_on E t m" if "outbound_sync_requests hn1 rid = Some m" for rid m
        using rids [OF that] ok(1) unfolding host_ok_def by blast
      show "event_known E e" if "e \<in> set (sent (hn_event_tx hn1))" for e
        using that ok(1) by (simp add: maps host_ok_def)
    qed
    moreover have "event_known E (PeerDisconnectedEvent n)"
      using ok(1) Some inv [of n t] unfolding host_ok_def event_known_def RuntimeEvent.case by blast
    ultimately have "host_ok E hn'" and same: "peer_by_node hn' = peer_by_node hn1"
      and sent: "r = Inr a \<Longrightarrow> sent (hn_event_tx hn') = sent (hn_event_tx hn1) @ [PeerDisconnectedEvent n]" for a
      using emit_known [OF emit] by blast+
    moreover have "announced hn'" if "r = Inr a" for a
      using ok(2) sent [OF that] by (auto simp: announced_def same maps connected_peers_snoc connection_event_def)
    ultimately show ?thesis by blast
  qed
qed

lemma register_after_verify_keeps:
  assumes "host_verify E h t = Inr v"
  shows "host_keeps E (returns (register_verified_peer t v))"
  by (rule host_keepsI) (use register_keeps [OF _ _ assms] in auto)

lemma hello_request_keeps: "host_keeps E (returns (handle_hello_request E W t request channel))"
proof (cases "host_verify E request t")
  case (Inl e)
  then show ?thesis
    unfolding handle_hello_request_def Inl sum.case returns_and_then
    by (intro host_keeps_then hello_or_disconnect_keeps)
      (auto simp: returns_and_then split: option.split intro!: host_keeps_then)
next
  case (Inr v)
  then show ?thesis
    unfolding handle_hello_request_def Inr sum.case returns_and_then
    by (intro host_keeps_then hello_or_disconnect_keeps)
      (auto simp: returns_and_then split: option.split intro!: host_keeps_then register_after_verify_keeps [OF Inr])
qed

lemma hello_response_keeps: "host_keeps E (returns (handle_hello_response E t response))"
  unfolding handle_hello_response_def
  by (auto split: sum.split intro: register_after_verify_keeps)

lemma identify_keeps: "host_keeps E (returns (handle_identify_received E' t addrs agent))"
proof (rule host_keeps_same)
  show "peers_same hn hn'" if "returns (handle_identify_received E' t addrs agent) hn = Some (r, hn')" for hn r hn'
    using that
    by (auto simp: handle_identify_received_def Let_def hello_or_disconnect_def swarm_do_def and_then_def peers_same_def
        split: if_split_asm option.split_asm sum.split_asm)
qed

lemma gossip_keeps: "host_keeps E (returns (handle_gossip t frame))"
proof (rule host_keepsI)
  fix hn r hn'
  assume ok: "host_ok E hn" "announced hn" and run: "returns (handle_gossip t frame) hn = Some (r, hn')"
  show "host_ok E hn' \<and> (\<forall>a. r = Inr a \<longrightarrow> announced hn')"
  proof (cases "node_by_transport hn t")
    case None
    then show ?thesis using run ok by (simp add: handle_gossip_def)
  next
    case (Some n)
    then have emit: "host_emit (FrameReceivedEvent n frame) hn = (r, hn')" using run by (simp add: handle_gossip_def)
    have "event_known E (FrameReceivedEvent n frame)"
      using ok(1) Some unfolding host_ok_def event_known_def RuntimeEvent.case by blast
    from emit_known [OF emit ok(1) this] show ?thesis
      using ok(2) by (auto simp: announced_def connected_peers_snoc connection_event_def)
  qed
qed

text \<open>A message of a registered or asked peer, after a change that leaves the peers alone.\<close>

lemma deliver_after_same:
  assumes "host_ok E hn" and "announced hn" and "peers_same hn hn1" and "host_deliver E' n msg hn1 = Some (r, hn')"
    and "n \<in> ran (outbound_sync_requests hn) \<union> dom (peer_by_node hn)"
  shows "host_ok E hn' \<and> (\<forall>a. r = Inr a \<longrightarrow> announced hn')"
proof -
  have "host_keeps E (returns (\<lambda>s. (Inr (), if s = hn then hn1 else s)))"
    using assms(3) by (intro host_keeps_same) (auto simp: peers_same_def split: if_split_asm)
  from host_keepsD [OF this assms(1,2)] have "host_ok E hn1" "announced hn1" by auto
  moreover obtain t where "known_on E t n" using assms(1,5) unfolding host_ok_def ran_def dom_def by blast
  ultimately show ?thesis using deliver_keeps assms(4) by blast
qed

lemma sync_request_keeps: "host_keeps E (handle_sync_request E' W t request channel)"
proof (rule host_keepsI)
  fix hn r hn'
  assume ok: "host_ok E hn" "announced hn" and run: "handle_sync_request E' W t request channel hn = Some (r, hn')"
  show "host_ok E hn' \<and> (\<forall>a. r = Inr a \<longrightarrow> announced hn')"
  proof (cases "node_by_transport hn t")
    case None
    then have "returns (respond_or_fail W channel (RespondSync channel (SyncResponse [] False None))
        ''failed to send fallback sync response'') hn = Some (r, hn')"
      using run by (simp add: handle_sync_request_def)
    then show ?thesis by (rule host_keepsD [OF respond_or_fail_keeps ok])
  next
    case (Some n)
    then have "n \<in> dom (peer_by_node hn)" using ok(1) by (auto simp: host_ok_def)
    then show ?thesis using Some run
      by (intro deliver_after_same [OF ok, of _ E' n "SyncRequestMsg request"]) (auto simp: handle_sync_request_def peers_same_def)
  qed
qed

lemma sync_response_keeps: "host_keeps E (handle_sync_response E' rid response)"
proof (rule host_keepsI)
  fix hn r hn'
  assume ok: "host_ok E hn" "announced hn" and run: "handle_sync_response E' rid response hn = Some (r, hn')"
  show "host_ok E hn' \<and> (\<forall>a. r = Inr a \<longrightarrow> announced hn')"
  proof (cases "outbound_sync_requests hn rid")
    case None
    then show ?thesis using run ok by (simp add: handle_sync_response_def)
  next
    case (Some n)
    then show ?thesis using run
      by (intro deliver_after_same [OF ok, of _ E' n "SyncResponseMsg response"])
        (auto simp: handle_sync_response_def peers_same_def ran_def)
  qed
qed

lemma announce_response_keeps: "host_keeps E (handle_announce_response E' t response)"
proof (rule host_keepsI)
  fix hn r hn'
  assume ok: "host_ok E hn" "announced hn" and run: "handle_announce_response E' t response hn = Some (r, hn')"
  show "host_ok E hn' \<and> (\<forall>a. r = Inr a \<longrightarrow> announced hn')"
  proof (cases "node_by_transport hn t")
    case None
    then show ?thesis using run ok by (simp add: handle_announce_response_def)
  next
    case (Some n)
    then show ?thesis using run ok
      by (intro deliver_after_same [OF ok, of hn E' n "AnnounceResponseMsg response"])
        (auto simp: handle_announce_response_def peers_same_def host_ok_def)
  qed
qed

lemma announce_request_keeps:
  "host_keeps E (handle_announce_request E' W t request channel :: (('vk, 'sig, 'a) HostNetwork, HostError, unit) xeffect)"
proof -
  let ?deliver = "\<lambda>hn :: ('vk, 'sig, 'a) HostNetwork. (case node_by_transport hn t of
      Some n \<Rightarrow> x_then (host_deliver E' n (AnnounceRequestMsg request)) (\<lambda>_. returns (done_with True)) hn
    | None \<Rightarrow> returns (done_with False) hn)"
  have deliver: "host_keeps E ?deliver"
  proof (rule host_keepsI)
    fix hn hn' :: "('vk, 'sig, 'a) HostNetwork" and r
    assume ok: "host_ok E hn" "announced hn" and run: "?deliver hn = Some (r, hn')"
    show "host_ok E hn' \<and> (\<forall>a. r = Inr a \<longrightarrow> announced hn')"
    proof (cases "node_by_transport hn t")
      case None
      then show ?thesis using run ok by simp
    next
      case (Some n)
      then obtain r' where "host_deliver E' n (AnnounceRequestMsg request) hn = Some (r', hn')" and "\<And>a. r = Inr a \<Longrightarrow> r' = Inr ()"
        using run by (auto simp: x_then_def split: option.split_asm prod.split_asm sum.split_asm)
      moreover have "n \<in> dom (peer_by_node hn)" using Some ok(1) by (auto simp: host_ok_def)
      ultimately show ?thesis
        using deliver_after_same [OF ok, of hn E' n "AnnounceRequestMsg request" r' hn'] by (auto simp: peers_same_def)
    qed
  qed
  have "handle_announce_request E' W t request channel = x_then ?deliver
      (\<lambda>a. returns (respond_or_fail W channel (RespondAnnounce channel (AnnounceResponse a)) ''failed to send announce response''))"
    by (rule ext) (simp add: handle_announce_request_def x_then_def split: option.split)
  then show ?thesis using host_keeps_then [OF deliver respond_or_fail_keeps] by simp
qed

lemma swarm_event_keeps: "host_keeps E (handle_swarm_event E W event)"
proof (cases event)
  case (ConnectionEstablished t dialer addr)
  then show ?thesis
    by (intro host_keeps_same) (auto simp: on_connection_established_def peers_same_def Let_def split: if_split_asm)
next
  case (PingResult t succeeded)
  then show ?thesis
    by (intro host_keeps_same) (auto simp: handle_ping_event_def swarm_do_def peers_same_def split: if_split_asm)
next
  case (SyncOutboundFailure t rid)
  then show ?thesis by (intro host_keeps_same) (auto simp: peers_same_def ran_def)
qed (simp_all add: unregister_keeps identify_keeps gossip_keeps hello_request_keeps hello_response_keeps sync_request_keeps
    sync_response_keeps announce_request_keeps announce_response_keeps pure_keeps(1) del: returns_simp)

lemma host_loop_keeps: "host_keeps E (host_network_loop E inputs)"
proof (induction inputs)
  case Nil
  show ?case unfolding host_network_loop.simps by (rule pure_keeps)
next
  case (Cons i inputs)
  have "host_keeps E (host_turn E (fst i) (snd i))"
    by (cases "snd i") (simp_all add: command_keeps swarm_event_keeps)
  then show ?case unfolding host_network_loop.simps by (intro host_keeps_then Cons)
qed

lemma host_network_run_eq:
  "host_network_run E inputs =
     x_then (returns (\<lambda>hn. (Inr (), hn\<lparr>hn_calls := hn_calls hn @ map Dial (host_bootstrap_addrs (hn_config hn))\<rparr>)))
       (\<lambda>_. host_network_loop E inputs)"
  by (rule ext) (simp add: host_network_run_def x_then_def)

lemma host_run_keeps: "host_keeps E (host_network_run E inputs)"
  unfolding host_network_run_eq by (intro host_keeps_then host_loop_keeps host_keeps_same) (auto simp: peers_same_def)

lemma host_new_ok: "host_ok E (HostNetwork_new config identity transport open_channel)" "announced (HostNetwork_new config identity transport open_channel)"
  by (simp_all add: host_ok_def announced_def HostNetwork_new_def open_channel_def)

section \<open>The two runtimes\<close>

lemma host_verify_like:
  "host_verify E g t = (case NodeHelloVerifier_verify E g t of
     Inr v \<Rightarrow> Inr \<lparr> host_verified_node = verified_node_peer_id v, host_verified_max_blocks = verified_max_blocks_per_chunk v \<rparr>
   | Inl e \<Rightarrow> Inl (host_error e))"
  by (simp add: host_verify_def NodeHelloVerifier_verify_def host_encode_transcript_def encode_transcript_def
      bind_result_def map_err_def ok_or_def split: sum.split option.split)

lemma host_reject_like: "host_reject_reason (host_error e) = node_hello_reject_reason e"
  by (cases e rule: host_error.cases) (simp_all add: host_reject_reason_def node_hello_reject_reason_def)

lemma host_hello_verifies:
  assumes "sec1_ok E" and "signatures_ok E" and "hn_identity hn = host_from_signing_key E vk signing"
    and "\<And>message. ecdsa_verify E vk message (signing message)" and "host_build_local_hello E hn = Inr h"
  shows "NodeHelloVerifier_verify E h (hn_transport_peer_id hn) = Inr (peer_of_hello h)"
    and "hello_node_peer_id h = host_peer_id (hn_identity hn)"
    and "hello_max_blocks_per_chunk h = host_max_blocks_per_chunk (hn_config hn)"
proof -
  have same: "NodeHelloBuilder_build E (from_software_signing_key E vk signing) (hn_transport_peer_id hn) (host_max_frame_len (hn_config hn))
      (host_max_blocks_per_chunk (hn_config hn)) \<lparr> supports_sync_v1 = True, supports_announce_v1 = True, supports_ping = True \<rparr> = Inr h"
    using assms(3,5)
    by (auto simp: host_build_local_hello_def NodeHelloBuilder_build_def host_encode_transcript_def encode_transcript_def
        host_from_signing_key_def from_software_signing_key_def host_build_signature_def identity_sign_def Let_def bind_result_Inr)
  show "NodeHelloVerifier_verify E h (hn_transport_peer_id hn) = Inr (peer_of_hello h)"
    by (rule build_verifies(1) [OF assms(1,2) software_identity_ok same]) (rule assms(4))
  show "hello_node_peer_id h = host_peer_id (hn_identity hn)"
    and "hello_max_blocks_per_chunk h = host_max_blocks_per_chunk (hn_config hn)"
    using assms(5) by (auto simp: host_build_local_hello_def Let_def bind_result_Inr)
qed

section \<open>Properties of the host network\<close>

text \<open>
  C28: The host network knows its peers. Whatever the swarm reports and the node commands, in any order, and
  whichever way the task ends: the table from node ids to transport peers and the table back are inverse to each
  other; every registered pair is backed by a hello that the node key signed for that transport peer; every peer named
  in an event to the node has such a hello; and as long as the task runs, every registered peer has been reported
  to the node as connected and not as disconnected since.
\<close>

theorem host_peers_authenticated:
  assumes "host_network_run E inputs (HostNetwork_new config identity transport open_channel) = Some (r, hn)"
  shows "(\<forall>n t. peer_by_node hn n = Some t \<longleftrightarrow> node_by_transport hn t = Some n) \<and>
    (\<forall>n t. peer_by_node hn n = Some t \<longrightarrow> (\<exists>h v. host_verify E h t = Inr v \<and> host_verified_node v = n)) \<and>
    (\<forall>n frame. FrameReceivedEvent n frame \<in> set (sent (hn_event_tx hn)) \<longrightarrow>
       (\<exists>h t v. host_verify E h t = Inr v \<and> host_verified_node v = n)) \<and>
    (r = Inr () \<longrightarrow> dom (peer_by_node hn) \<subseteq> connected_peers (sent (hn_event_tx hn)))"
proof -
  let ?hn = "HostNetwork_new config identity transport open_channel"
  have "host_ok E hn" "r = Inr () \<Longrightarrow> announced hn"
    using host_keepsD [OF host_run_keeps host_new_ok assms] by blast+
  then show ?thesis unfolding host_ok_def known_on_def event_known_def announced_def by fastforce
qed

text \<open>
  C29: One protocol for both runtimes. On every hello and every authenticated transport peer the host and the
  embedded runtime decide alike: they accept the same node id with the same block limit or reject with the same reason.
  And the hello that a host builds with a working key is accepted by both, for the transport peer of the host.
\<close>

theorem hello_interop:
  assumes "sec1_ok E" and "signatures_ok E" and "hn_identity hn = host_from_signing_key E vk signing"
    and "\<And>message. ecdsa_verify E vk message (signing message)" and "host_build_local_hello E hn = Inr h"
  shows "(\<forall>g t. host_verify E g t = (case NodeHelloVerifier_verify E g t of
        Inr v \<Rightarrow> Inr \<lparr> host_verified_node = verified_node_peer_id v, host_verified_max_blocks = verified_max_blocks_per_chunk v \<rparr>
      | Inl e \<Rightarrow> Inl (host_error e))) \<and>
    (\<forall>e. host_reject_reason (host_error e) = node_hello_reject_reason e) \<and>
    NodeHelloVerifier_verify E h (hn_transport_peer_id hn) = Inr (peer_of_hello h) \<and>
    host_verify E h (hn_transport_peer_id hn) = Inr \<lparr> host_verified_node = host_peer_id (hn_identity hn),
      host_verified_max_blocks = host_max_blocks_per_chunk (hn_config hn) \<rparr>"
  using host_verify_like [of E] host_hello_verifies [OF assms] by (simp add: host_reject_like peer_of_hello_def)

text \<open>
  A response that comes too late ends the network task. When the swarm gives up on an inbound sync request (for
  instance because its timeout passed), its channel stays in the queue of the peer; the node's response is then sent
  on a channel that no longer takes it, and the task returns the error instead of dropping the response.
\<close>

theorem stale_sync_channel_stops_network:
  assumes "peer_by_node hn p = Some t" and "pending_sync_responses hn p = Some (channel # queue)" and "\<not> response_ok W channel"
    and "message_from_bytes E frame = Inr (SyncResponseMsg response)"
  shows "\<exists>hn'. host_network_loop E ((W', HostSwarm (SyncInboundFailure t rid)) # (W, HostCommand order (SendFrameCommand p frame)) # inputs) hn =
    Some (Inl (HostNetworkError (IoError OtherKind ''failed to send sync response'')), hn')"
  using assms
  by (simp add: x_then_def host_handle_command_def host_send_frame_def send_sync_response_def respond_or_fail_def respond_def
      and_then_def host_io_other_def)

text \<open>
  A transport peer that shows a hello of another node key takes the place of the first node: the first is no longer
  registered, but the node is not told that it is gone.
\<close>

lemma displaced_peer_not_reported:
  assumes "host_ok E hn" and "node_by_transport hn t = Some m" and "host_verified_node v \<noteq> m"
    and "register_verified_peer t v hn = (Inr (), hn')"
  shows "peer_by_node hn' m = None" and "sent (hn_event_tx hn') = sent (hn_event_tx hn) @ [PeerConnectedEvent (host_verified_node v)]"
  using assms
  by (auto simp: register_verified_peer_def Let_def host_emit_def send_on_def send_def split: if_split_asm option.split_asm)

section \<open>A concrete host\<close>

definition demo_host :: "(u8, demo_sig, string) HostNetwork" where
  "demo_host = HostNetwork_new \<lparr> host_listen_addr = DEFAULT_LISTEN_ADDR, host_bootstrap_addrs = [], host_request_timeout_secs = 10,
       host_idle_timeout_secs = 300, host_max_frame_len = HOST_DEFAULT_MAX_FRAME_LEN, host_max_blocks_per_chunk = 8 \<rparr>
     (host_from_signing_key demo_hello_env 7 (\<lambda>m. (7, m))) [7] open_channel"

definition demo_swarm :: swarm_io where
  "demo_swarm = \<lparr> request_id = id, response_ok = (\<lambda>c. c < 5) \<rparr>"

lemma demo_host_hello: "\<exists>h. host_build_local_hello demo_hello_env demo_host = Inr h"
  by (simp add: host_build_local_hello_def host_encode_transcript_def Let_def)

lemma demo_peer_hello:
  obtains h where "host_verify demo_hello_env h [5] = Inr \<lparr> host_verified_node = peer_id (demo_identity 5), host_verified_max_blocks = 8 \<rparr>"
proof -
  let ?caps = "\<lparr> supports_sync_v1 = True, supports_announce_v1 = True, supports_ping = True \<rparr>"
  obtain h where h: "NodeHelloBuilder_build demo_hello_env (demo_identity 5) [5] 100 8 ?caps = Inr h" and "hello_max_blocks_per_chunk h = 8"
    by (simp add: NodeHelloBuilder_build_def encode_transcript_def identity_sign_def demo_identity_def from_software_signing_key_def Let_def)
  then show thesis
    using that [of h] build_verifies [OF demo_hello_env_ok demo_identity_ok h] by (simp add: host_verify_like peer_of_hello_def)
qed

lemma demo_host_registers:
  assumes "host_verify demo_hello_env h [5] = Inr v"
  shows "\<exists>hn. host_network_run demo_hello_env [(demo_swarm, HostSwarm (HelloRequested [5] h 0))] demo_host = Some (Inr (), hn) \<and>
    peer_by_node hn (host_verified_node v) = Some [5]"
proof -
  obtain local where "host_build_local_hello demo_hello_env demo_host = Inr local" using demo_host_hello by blast
  then show ?thesis
    by (simp add: host_network_run_def x_then_def handle_hello_request_def assms and_then_def hello_or_disconnect_def respond_def
        demo_swarm_def register_verified_peer_def demo_host_def HostNetwork_new_def host_build_local_hello_def Let_def
        host_emit_def send_on_def send_def open_channel_def host_encode_transcript_def)
qed

theorem host_peers_authenticated_witness:
  "\<exists>h hn. host_network_run demo_hello_env [(demo_swarm, HostSwarm (HelloRequested [5] h 0))] demo_host = Some (Inr (), hn) \<and>
    peer_by_node hn (peer_id (demo_identity 5)) = Some [5] \<and> node_by_transport hn [5] = Some (peer_id (demo_identity 5)) \<and>
    peer_id (demo_identity 5) \<in> connected_peers (sent (hn_event_tx hn))"
proof -
  obtain h where h: "host_verify demo_hello_env h [5] = Inr \<lparr> host_verified_node = peer_id (demo_identity 5), host_verified_max_blocks = 8 \<rparr>"
    using demo_peer_hello .
  obtain hn where run: "host_network_run demo_hello_env [(demo_swarm, HostSwarm (HelloRequested [5] h 0))] demo_host = Some (Inr (), hn)"
    and reg: "peer_by_node hn (peer_id (demo_identity 5)) = Some [5]"
    using demo_host_registers [OF h] by auto
  from host_peers_authenticated [OF run [unfolded demo_host_def]] run reg show ?thesis by blast
qed

theorem hello_interop_witness:
  "\<exists>h. host_build_local_hello demo_hello_env demo_host = Inr h \<and>
    NodeHelloVerifier_verify demo_hello_env h [7] = Inr (peer_of_hello h)"
proof -
  obtain h where h: "host_build_local_hello demo_hello_env demo_host = Inr h" using demo_host_hello by blast
  have "hn_identity demo_host = host_from_signing_key demo_hello_env 7 (\<lambda>m. (7, m))" "hn_transport_peer_id demo_host = [7]"
    by (simp_all add: demo_host_def HostNetwork_new_def)
  then show ?thesis using hello_interop [OF demo_hello_env_ok _ _ h, of 7 "\<lambda>m. (7, m)"] h by auto
qed

theorem stale_sync_channel_stops_network_witness:
  "\<exists>hn'. host_network_loop demo_hello_env [(demo_swarm, HostSwarm (SyncInboundFailure [5] 3)), (demo_swarm, HostCommand [1] (SendFrameCommand 1 [5]))]
      (demo_host\<lparr>peer_by_node := [1 \<mapsto> [5]], node_by_transport := [[5] \<mapsto> 1], pending_sync_responses := [1 \<mapsto> [6]]\<rparr>) =
    Some (Inl (HostNetworkError (IoError OtherKind ''failed to send sync response'')), hn')"
proof -
  have "message_from_bytes demo_hello_env [5] = Inr (SyncResponseMsg (SyncResponse [] True (Some 40)))"
    by (simp add: message_from_bytes_def decode_or_def demo_hello_env_def net.defs demo_net_def demo_decode_def)
  then show ?thesis
    using stale_sync_channel_stops_network [of "demo_host\<lparr>peer_by_node := [1 \<mapsto> [5]], node_by_transport := [[5] \<mapsto> 1],
        pending_sync_responses := [1 \<mapsto> [6]]\<rparr>" 1 "[5]" 6 "[]" demo_swarm demo_hello_env "[5]" _ demo_swarm 3 "[1]" "[]"]
    by (simp add: demo_swarm_def)
qed

end
