(* ===== verification/HostCodec.thy ===== *)
theory HostCodec
  imports Framing HostNetwork
begin

text \<open>
  The codecs of the three request-response protocols of the host (\<open>NodeHelloCodec\<close>, \<open>SyncCodec\<close> and \<open>AnnounceCodec\<close> of
  \<open>rp-runtime/src/network/manager.rs\<close>), and that they exchange messages with the protocols of the embedded runtime
  (\<open>erp-runtime/src/network/protocol\<close>, \<open>erp-runtime/src/network/codec\<close>).
\<close>

section \<open>The codecs\<close>

definition NodeHelloCodec_read_request :: "varint \<Rightarrow> ('vk, 'sig, 'z) hello_env_scheme \<Rightarrow> (io_stream, IoError, NodeHello) effect" where
  "NodeHelloCodec_read_request V E = read_postcard_frame V (decode_hello E) HOST_DEFAULT_MAX_FRAME_LEN"

definition NodeHelloCodec_read_response :: "varint \<Rightarrow> ('vk, 'sig, 'z) hello_env_scheme \<Rightarrow> (io_stream, IoError, NodeHelloResponse) effect" where
  "NodeHelloCodec_read_response V E = read_postcard_frame V (decode_hello_response E) HOST_DEFAULT_MAX_FRAME_LEN"

definition NodeHelloCodec_write_request :: "varint \<Rightarrow> ('vk, 'sig, 'z) hello_env_scheme \<Rightarrow> NodeHello \<Rightarrow> (io_stream, IoError, unit) effect" where
  "NodeHelloCodec_write_request V E v = host_write_postcard_frame V (encode_hello E) v HOST_DEFAULT_MAX_FRAME_LEN"

definition NodeHelloCodec_write_response :: "varint \<Rightarrow> ('vk, 'sig, 'z) hello_env_scheme \<Rightarrow> NodeHelloResponse \<Rightarrow> (io_stream, IoError, unit) effect" where
  "NodeHelloCodec_write_response V E v = host_write_postcard_frame V (encode_hello_response E) v HOST_DEFAULT_MAX_FRAME_LEN"

definition SyncCodec_read_request :: "varint \<Rightarrow> ('vk, 'sig, 'z) net_scheme \<Rightarrow> (io_stream, IoError, SyncRequest) effect" where
  "SyncCodec_read_request V E = read_postcard_frame V (decode_sync_request E) HOST_DEFAULT_MAX_FRAME_LEN"

definition SyncCodec_read_response :: "varint \<Rightarrow> ('vk, 'sig, 'z) net_scheme \<Rightarrow> (io_stream, IoError, ('vk, 'sig) SyncResponse) effect" where
  "SyncCodec_read_response V E = read_postcard_frame V (decode_sync_response E) HOST_DEFAULT_MAX_FRAME_LEN"

definition SyncCodec_write_request :: "varint \<Rightarrow> ('vk, 'sig, 'z) net_scheme \<Rightarrow> SyncRequest \<Rightarrow> (io_stream, IoError, unit) effect" where
  "SyncCodec_write_request V E v = host_write_postcard_frame V (encode_sync_request E) v HOST_DEFAULT_MAX_FRAME_LEN"

definition SyncCodec_write_response :: "varint \<Rightarrow> ('vk, 'sig, 'z) net_scheme \<Rightarrow> ('vk, 'sig) SyncResponse \<Rightarrow> (io_stream, IoError, unit) effect" where
  "SyncCodec_write_response V E v = host_write_postcard_frame V (encode_sync_response E) v HOST_DEFAULT_MAX_FRAME_LEN"

definition AnnounceCodec_read_request :: "varint \<Rightarrow> ('vk, 'sig, 'z) net_scheme \<Rightarrow> (io_stream, IoError, ('vk, 'sig) AnnounceRequest) effect" where
  "AnnounceCodec_read_request V E = read_postcard_frame V (decode_announce_request E) HOST_DEFAULT_MAX_FRAME_LEN"

definition AnnounceCodec_read_response :: "varint \<Rightarrow> ('vk, 'sig, 'z) net_scheme \<Rightarrow> (io_stream, IoError, AnnounceResponse) effect" where
  "AnnounceCodec_read_response V E = read_postcard_frame V (decode_announce_response E) HOST_DEFAULT_MAX_FRAME_LEN"

definition AnnounceCodec_write_request :: "varint \<Rightarrow> ('vk, 'sig, 'z) net_scheme \<Rightarrow> ('vk, 'sig) AnnounceRequest \<Rightarrow> (io_stream, IoError, unit) effect" where
  "AnnounceCodec_write_request V E v = host_write_postcard_frame V (encode_announce_request E) v HOST_DEFAULT_MAX_FRAME_LEN"

definition AnnounceCodec_write_response :: "varint \<Rightarrow> ('vk, 'sig, 'z) net_scheme \<Rightarrow> AnnounceResponse \<Rightarrow> (io_stream, IoError, unit) effect" where
  "AnnounceCodec_write_response V E v = host_write_postcard_frame V (encode_announce_response E) v HOST_DEFAULT_MAX_FRAME_LEN"

lemmas codec_defs = NodeHelloCodec_read_request_def NodeHelloCodec_read_response_def NodeHelloCodec_write_request_def NodeHelloCodec_write_response_def
  SyncCodec_read_request_def SyncCodec_read_response_def SyncCodec_write_request_def SyncCodec_write_response_def
  AnnounceCodec_read_request_def AnnounceCodec_read_response_def AnnounceCodec_write_request_def AnnounceCodec_write_response_def

section \<open>The two runtimes understand each other\<close>

text \<open>The bytes of a message, as both runtimes write it.\<close>

definition framed_bytes :: "varint \<Rightarrow> byte_vec \<Rightarrow> byte_vec" where
  "framed_bytes V payload = varint_encode V (word_of_nat (length payload)) @ payload"

lemma host_write_ok:
  assumes "enc v = Some payload" and "length payload \<le> unat max_len" and "tx_fault s = None"
  shows "host_write_postcard_frame V enc v max_len s = (Inr (), s\<lparr>tx := tx s @ framed_bytes V payload\<rparr>)"
  using assms
  by (simp add: host_write_postcard_frame_def encode_postcard_def encode_length_prefixed_ok and_then_def write_all_open flush_open framed_bytes_def)

lemma host_read_ok:
  assumes "varint_ok V" and "dec payload = Some v" and "length payload \<le> unat max_len" and "rx s = framed_bytes V payload @ rest"
  shows "read_postcard_frame V dec max_len s = (Inr v, s\<lparr>rx := rest\<rparr>)"
  using read_postcard_encoded [of V "\<lambda>_. Some payload" v payload dec max_len s rest] assms by (simp add: framed_bytes_def)

text \<open>The embedded runtime reads a frame and decodes it, or encodes a frame and writes it.\<close>

lemma erp_read_ok:
  assumes "varint_ok V" and "dec payload = Some v" and "length payload \<le> unat max_len" and "rx s = framed_bytes V payload @ rest"
  shows "and_then (erp_read_length_prefixed_frame V max_len) (\<lambda>frame. of_result (decode_framed V dec frame max_len)) s = (Inr v, s\<lparr>rx := rest\<rparr>)"
proof -
  have read: "erp_read_length_prefixed_frame V max_len s = (Inr (framed_bytes V payload), s\<lparr>rx := rest\<rparr>)"
    using read_frame_encoded [OF assms(1,3), of s rest] assms(4)
    by (simp add: erp_read_length_prefixed_frame_def map_err_effect_def framed_bytes_def)
  have "decode_framed V dec (framed_bytes V payload) max_len = Inr v"
    using decode_length_prefix_encoded [OF assms(1,3), of "[]"] assms(2)
    by (simp add: framed_bytes_def decode_framed_def erp_decode_length_prefix_def PostcardCodec_decode_def decode_postcard_def)
  then show ?thesis by (simp add: and_then_def read)
qed

lemma erp_encode_ok:
  assumes "enc v = Some payload" and "length payload \<le> unat max_len"
  shows "encode_framed V enc v max_len = Inr (framed_bytes V payload)"
  using assms
  by (simp add: encode_framed_def PostcardCodec_encode_def encode_postcard_def erp_encode_length_prefixed_def encode_length_prefixed_ok framed_bytes_def)

text \<open>
  Block synchronisation between the runtimes, with the frame limit both have by default: the embedded runtime reads the
  request that the host writes, and the host reads the response that the embedded runtime writes; what follows on the stream stays.
\<close>

theorem sync_codec_interop:
  assumes "varint_ok V" and "encode_sync_request E request = Some q" and "decode_sync_request E q = Some request"
    and "encode_sync_response E response = Some r" and "decode_sync_response E r = Some response"
    and "length q \<le> unat HOST_DEFAULT_MAX_FRAME_LEN" and "length r \<le> unat HOST_DEFAULT_MAX_FRAME_LEN"
    and "tx_fault s = None" and "tx s = []"
  shows "\<exists>s' frame. SyncCodec_write_request V E request s = (Inr (), s') \<and>
    and_then (erp_read_length_prefixed_frame V HOST_DEFAULT_MAX_FRAME_LEN)
      (\<lambda>frame. of_result (erp_decode_sync_request V E frame HOST_DEFAULT_MAX_FRAME_LEN)) (u\<lparr>rx := tx s' @ rest\<rparr>) = (Inr request, u\<lparr>rx := rest\<rparr>) \<and>
    erp_encode_sync_response V E response HOST_DEFAULT_MAX_FRAME_LEN = Inr frame \<and>
    SyncCodec_read_response V E (w\<lparr>rx := frame @ rest\<rparr>) = (Inr response, w\<lparr>rx := rest\<rparr>)"
proof -
  have "SyncCodec_write_request V E request s = (Inr (), s\<lparr>tx := framed_bytes V q\<rparr>)"
    using host_write_ok [of "encode_sync_request E"] assms(2,6,8,9) by (simp add: codec_defs)
  moreover have "and_then (erp_read_length_prefixed_frame V HOST_DEFAULT_MAX_FRAME_LEN)
      (\<lambda>frame. of_result (erp_decode_sync_request V E frame HOST_DEFAULT_MAX_FRAME_LEN)) (u\<lparr>rx := framed_bytes V q @ rest\<rparr>) = (Inr request, u\<lparr>rx := rest\<rparr>)"
    using erp_read_ok [where dec = "decode_sync_request E", OF assms(1,3,6), of "u\<lparr>rx := framed_bytes V q @ rest\<rparr>" rest] by (simp add: erp_decode_sync_request_def)
  moreover have "erp_encode_sync_response V E response HOST_DEFAULT_MAX_FRAME_LEN = Inr (framed_bytes V r)"
    using erp_encode_ok [of "encode_sync_response E"] assms(4,7) by (simp add: erp_encode_sync_response_def)
  moreover have "SyncCodec_read_response V E (w\<lparr>rx := framed_bytes V r @ rest\<rparr>) = (Inr response, w\<lparr>rx := rest\<rparr>)"
    using host_read_ok [where dec = "decode_sync_response E", OF assms(1,5,7), of "w\<lparr>rx := framed_bytes V r @ rest\<rparr>" rest] by (simp add: codec_defs)
  ultimately show ?thesis by auto
qed

text \<open>The same for announcements, and for the hello: the codec of the host and \<open>read_postcard_frame\<close> of the embedded runtime.\<close>

lemma announce_codec_interop:
  assumes "varint_ok V" and "encode_announce_request E request = Some q" and "decode_announce_request E q = Some request"
    and "length q \<le> unat HOST_DEFAULT_MAX_FRAME_LEN" and "tx_fault s = None" and "tx s = []"
  shows "\<exists>s'. AnnounceCodec_write_request V E request s = (Inr (), s') \<and>
    and_then (erp_read_length_prefixed_frame V HOST_DEFAULT_MAX_FRAME_LEN)
      (\<lambda>frame. of_result (erp_decode_announce_request V E frame HOST_DEFAULT_MAX_FRAME_LEN)) (u\<lparr>rx := tx s' @ rest\<rparr>) = (Inr request, u\<lparr>rx := rest\<rparr>)"
  using host_write_ok [of "encode_announce_request E"] erp_read_ok [where dec = "decode_announce_request E", OF assms(1,3,4), of "u\<lparr>rx := framed_bytes V q @ rest\<rparr>" rest] assms(2,4-6)
  by (simp add: codec_defs erp_decode_announce_request_def)

lemma hello_codec_interop:
  assumes "varint_ok V" and "encode_hello E hello = Some q" and "decode_hello E q = Some hello"
    and "length q \<le> unat HOST_DEFAULT_MAX_FRAME_LEN" and "tx_fault s = None" and "tx s = []"
  shows "\<exists>s'. NodeHelloCodec_write_request V E hello s = (Inr (), s') \<and>
    erp_read_postcard_frame V (decode_hello E) HOST_DEFAULT_MAX_FRAME_LEN (u\<lparr>rx := tx s' @ rest\<rparr>) = (Inr hello, u\<lparr>rx := rest\<rparr>)"
  using host_write_ok [of "encode_hello E"] host_read_ok [where dec = "decode_hello E", OF assms(1,3,4), of "u\<lparr>rx := framed_bytes V q @ rest\<rparr>" rest] assms(2,4-6)
  by (simp add: codec_defs erp_read_postcard_frame_def map_err_effect_def)

end
