(* ===== verification/HostRuntime.thy ===== *)
theory HostRuntime
  imports HostNetwork SledStorage WakeTimer
begin

text \<open>
  The host runtime as a whole (\<open>run\<close> of \<open>rp-runtime/src/main.rs\<close>): the node manager, the network, the
  storage and the wake task, joined by bounded channels and interleaved in any order. The models of the
  tasks (theories \<open>NodeManager\<close>, \<open>HostNetwork\<close>, \<open>StorageContract\<close>, \<open>WakeTimer\<close>) treat a send as immediate; here it
  waits for room, one message at a time. A channel of the node manager has the messages that were sent on
  it, and a counter says how many of them the receiver has taken. The three tasks that send events share
  one queue: their own channels have the events they have produced, and a counter says how many of them
  have been put into the queue; a task waits while it has others.

  A step of a task that reads only its own state and one message is a single step here; what another task
  can see of it are the messages it sends, and these are sent one by one.
\<close>

section \<open>The state\<close>

definition EVENT_CHANNEL_CAPACITY :: nat where "EVENT_CHANNEL_CAPACITY = 32"
definition NETWORK_CHANNEL_CAPACITY :: nat where "NETWORK_CHANNEL_CAPACITY = 32"
definition STORAGE_CHANNEL_CAPACITY :: nat where "STORAGE_CHANNEL_CAPACITY = 32"
definition WAKE_CHANNEL_CAPACITY :: nat where "WAKE_CHANNEL_CAPACITY = 8"

lemmas capacity_defs = EVENT_CHANNEL_CAPACITY_def NETWORK_CHANNEL_CAPACITY_def STORAGE_CHANNEL_CAPACITY_def
  WAKE_CHANNEL_CAPACITY_def

datatype run_end = Stopped HostError | Panicked

record ('st, 'vk, 'sig, 'a) host_runtime =
  rt_node :: "('vk, 'sig) NodeManager"
  rt_started :: bool
  rt_actions :: "('vk, 'sig) NodeAction list"
  rt_events :: "('vk, 'sig) RuntimeEvent list"
  rt_taken :: "('vk, 'sig) RuntimeEvent list"
  rt_network :: "('vk, 'sig, 'a) HostNetwork"
  rt_network_in :: nat
  rt_network_out :: nat
  rt_network_error :: "HostError option"
  rt_inputs :: "(swarm_io \<times> ('vk, 'sig, 'a) host_input) list"
  rt_storage :: "('st, 'vk, 'sig) StorageManager"
  rt_storage_in :: nat
  rt_storage_out :: nat
  rt_wake :: "('vk, 'sig) WakeManager"
  rt_wake_in :: nat
  rt_wake_out :: nat
  rt_wake_inputs :: "wake_input list"
  rt_outcome :: "run_end option"

abbreviation network_queue :: "('st, 'vk, 'sig, 'a) host_runtime \<Rightarrow> NetworkCommand list" where
  "network_queue s \<equiv> drop (rt_network_in s) (sent (network_tx (rt_node s)))"
abbreviation storage_queue :: "('st, 'vk, 'sig, 'a) host_runtime \<Rightarrow> ('vk, 'sig) StorageCommand list" where
  "storage_queue s \<equiv> drop (rt_storage_in s) (sent (storage_tx (rt_node s)))"
abbreviation wake_queue :: "('st, 'vk, 'sig, 'a) host_runtime \<Rightarrow> WakeCommand list" where
  "wake_queue s \<equiv> drop (rt_wake_in s) (sent (wake_tx (rt_node s)))"
abbreviation network_pending :: "('st, 'vk, 'sig, 'a) host_runtime \<Rightarrow> ('vk, 'sig) RuntimeEvent list" where
  "network_pending s \<equiv> drop (rt_network_out s) (sent (hn_event_tx (rt_network s)))"
abbreviation storage_pending :: "('st, 'vk, 'sig, 'a) host_runtime \<Rightarrow> ('vk, 'sig) RuntimeEvent list" where
  "storage_pending s \<equiv> drop (rt_storage_out s) (sent (storage_event_tx (rt_storage s)))"
abbreviation wake_pending :: "('st, 'vk, 'sig, 'a) host_runtime \<Rightarrow> ('vk, 'sig) RuntimeEvent list" where
  "wake_pending s \<equiv> drop (rt_wake_out s) (sent (wake_event_tx (rt_wake s)))"

fun channel_room :: "ChannelKind \<Rightarrow> ('st, 'vk, 'sig, 'a) host_runtime \<Rightarrow> bool" where
  "channel_room EventChannel s \<longleftrightarrow> length (rt_events s) < EVENT_CHANNEL_CAPACITY"
| "channel_room NetworkChannel s \<longleftrightarrow> length (network_queue s) < NETWORK_CHANNEL_CAPACITY"
| "channel_room StorageChannel s \<longleftrightarrow> length (storage_queue s) < STORAGE_CHANNEL_CAPACITY"
| "channel_room WakeChannel s \<longleftrightarrow> length (wake_queue s) < WAKE_CHANNEL_CAPACITY"

text \<open>The channel that the node manager sends on for an action.\<close>

fun action_channel :: "('vk, 'sig) NodeAction \<Rightarrow> ChannelKind option" where
  "action_channel (BroadcastFrame frame) = Some NetworkChannel"
| "action_channel (DisconnectPeer p) = Some NetworkChannel"
| "action_channel (FrameReceivedAction p) = None"
| "action_channel (LoadSnapshot h) = Some StorageChannel"
| "action_channel (PersistBlock b) = Some StorageChannel"
| "action_channel (PersistCompletedAction t) = None"
| "action_channel (PersistSnapshot h x) = Some StorageChannel"
| "action_channel (ReportEvent message) = None"
| "action_channel (RequestBlocks p lo hi) = Some NetworkChannel"
| "action_channel (ScheduleWake at_ms) = Some WakeChannel"
| "action_channel CancelWake = Some WakeChannel"
| "action_channel (SendFrame p frame) = Some NetworkChannel"

definition action_room :: "('vk, 'sig) NodeAction \<Rightarrow> ('st, 'vk, 'sig, 'a) host_runtime \<Rightarrow> bool" where
  "action_room a s = (case action_channel a of None \<Rightarrow> True | Some k \<Rightarrow> channel_room k s)"

text \<open>The state that \<open>run\<close> sets up, with the network task past the dials of its start.\<close>

definition host_runtime_init ::
  "('vk, 'sig) Blockchain \<Rightarrow> 'a HostNetworkConfig \<Rightarrow> 'sig HostNodeIdentity \<Rightarrow> byte_vec \<Rightarrow> 'st \<Rightarrow> u64
    \<Rightarrow> ('st, 'vk, 'sig, 'a) host_runtime" where
  "host_runtime_init bc config identity transport st now_ms =
     \<lparr> rt_node = NodeManager_new (NodeEngine_new bc) open_channel open_channel open_channel,
       rt_started = False, rt_actions = [], rt_events = [], rt_taken = [],
       rt_network = (HostNetwork_new config identity transport open_channel)
         \<lparr>hn_calls := map Dial (host_bootstrap_addrs config)\<rparr>,
       rt_network_in = 0, rt_network_out = 0, rt_network_error = None, rt_inputs = [],
       rt_storage = \<lparr> backend = st, storage_event_tx = open_channel \<rparr>, rt_storage_in = 0, rt_storage_out = 0,
       rt_wake = WakeManager_new now_ms open_channel, rt_wake_in = 0, rt_wake_out = 0, rt_wake_inputs = [],
       rt_outcome = None \<rparr>"

section \<open>The steps\<close>

text \<open>What the tasks do by themselves, while none of them has ended the runtime.\<close>

inductive task_step ::
  "('vk, 'sig, 'z) hello_env_scheme \<Rightarrow> ('st, 'vk, 'sig) storage_ops \<Rightarrow> ('st, 'vk, 'sig, 'a) host_runtime
    \<Rightarrow> ('st, 'vk, 'sig, 'a) host_runtime \<Rightarrow> bool" for E S where
  node_starts: "rt_outcome s = None \<Longrightarrow> \<not> rt_started s \<Longrightarrow> channel_room StorageChannel s \<Longrightarrow>
    send_on storage_tx (\<lambda>ch. storage_tx_update (\<lambda>_. ch)) host_storage_send LoadLatestSnapshotCommand (rt_node s) = (Inr (), nm) \<Longrightarrow>
    task_step E S s (s\<lparr>rt_node := nm, rt_started := True\<rparr>)"
| node_receives: "rt_outcome s = None \<Longrightarrow> rt_started s \<Longrightarrow> rt_actions s = [] \<Longrightarrow> rt_events s = event # events \<Longrightarrow>
    event_actions E event (node_engine (rt_node s)) = Some (e, acts) \<Longrightarrow>
    task_step E S s (s\<lparr>rt_events := events, rt_taken := rt_taken s @ [event],
      rt_node := (rt_node s)\<lparr>node_engine := e\<rparr>, rt_actions := acts\<rparr>)"
| node_panics: "rt_outcome s = None \<Longrightarrow> rt_started s \<Longrightarrow> rt_actions s = [] \<Longrightarrow> rt_events s = event # events \<Longrightarrow>
    event_actions E event (node_engine (rt_node s)) = None \<Longrightarrow> task_step E S s (s\<lparr>rt_outcome := Some Panicked\<rparr>)"
| node_acts: "rt_outcome s = None \<Longrightarrow> rt_actions s = a # acts \<Longrightarrow> action_room a s \<Longrightarrow>
    host_handle_action a (rt_node s) = (Inr (), nm) \<Longrightarrow> task_step E S s (s\<lparr>rt_node := nm, rt_actions := acts\<rparr>)"
| network_takes: "rt_outcome s = None \<Longrightarrow> network_pending s = [] \<Longrightarrow> rt_network_error s = None \<Longrightarrow> network_queue s = c # cs \<Longrightarrow>
    host_turn E W (HostCommand order c) (rt_network s) = Some (Inr (), hn) \<Longrightarrow>
    task_step E S s (s\<lparr>rt_network := hn, rt_network_in := Suc (rt_network_in s), rt_inputs := rt_inputs s @ [(W, HostCommand order c)]\<rparr>)"
| network_fails: "rt_outcome s = None \<Longrightarrow> network_pending s = [] \<Longrightarrow> rt_network_error s = None \<Longrightarrow> network_queue s = c # cs \<Longrightarrow>
    host_turn E W (HostCommand order c) (rt_network s) = Some (Inl error, hn) \<Longrightarrow>
    task_step E S s (s\<lparr>rt_network := hn, rt_network_in := Suc (rt_network_in s), rt_inputs := rt_inputs s @ [(W, HostCommand order c)],
      rt_network_error := Some error\<rparr>)"
| network_panics: "rt_outcome s = None \<Longrightarrow> network_pending s = [] \<Longrightarrow> rt_network_error s = None \<Longrightarrow> network_queue s = c # cs \<Longrightarrow>
    host_turn E W (HostCommand order c) (rt_network s) = None \<Longrightarrow> task_step E S s (s\<lparr>rt_outcome := Some Panicked\<rparr>)"
| network_sends: "rt_outcome s = None \<Longrightarrow> network_pending s = event # events \<Longrightarrow> channel_room EventChannel s \<Longrightarrow>
    task_step E S s (s\<lparr>rt_events := rt_events s @ [event], rt_network_out := Suc (rt_network_out s)\<rparr>)"
| network_stops: "rt_outcome s = None \<Longrightarrow> network_pending s = [] \<Longrightarrow> rt_network_error s = Some error \<Longrightarrow>
    task_step E S s (s\<lparr>rt_outcome := Some (Stopped error)\<rparr>)"
| storage_takes: "rt_outcome s = None \<Longrightarrow> storage_pending s = [] \<Longrightarrow> storage_queue s = sc # scs \<Longrightarrow>
    host_storage_command S sc (rt_storage s) = (Inr (), sm) \<Longrightarrow>
    task_step E S s (s\<lparr>rt_storage := sm, rt_storage_in := Suc (rt_storage_in s)\<rparr>)"
| storage_stops: "rt_outcome s = None \<Longrightarrow> storage_pending s = [] \<Longrightarrow> storage_queue s = sc # scs \<Longrightarrow>
    host_storage_command S sc (rt_storage s) = (Inl error, sm) \<Longrightarrow> task_step E S s (s\<lparr>rt_outcome := Some (Stopped error)\<rparr>)"
| storage_sends: "rt_outcome s = None \<Longrightarrow> storage_pending s = event # events \<Longrightarrow> channel_room EventChannel s \<Longrightarrow>
    task_step E S s (s\<lparr>rt_events := rt_events s @ [event], rt_storage_out := Suc (rt_storage_out s)\<rparr>)"
| wake_takes: "rt_outcome s = None \<Longrightarrow> wake_pending s = [] \<Longrightarrow> wake_queue s = w # ws \<Longrightarrow>
    wake_run [NextCommand w] (rt_wake s) = (Inr (), wm) \<Longrightarrow>
    task_step E S s (s\<lparr>rt_wake := wm, rt_wake_in := Suc (rt_wake_in s), rt_wake_inputs := rt_wake_inputs s @ [NextCommand w]\<rparr>)"
| wake_sends: "rt_outcome s = None \<Longrightarrow> wake_pending s = event # events \<Longrightarrow> channel_room EventChannel s \<Longrightarrow>
    task_step E S s (s\<lparr>rt_events := rt_events s @ [event], rt_wake_out := Suc (rt_wake_out s)\<rparr>)"

text \<open>What happens from outside: the swarm has an event for the network task, and the timer elapses.\<close>

inductive outside_step ::
  "('vk, 'sig, 'z) hello_env_scheme \<Rightarrow> ('st, 'vk, 'sig, 'a) host_runtime \<Rightarrow> ('st, 'vk, 'sig, 'a) host_runtime \<Rightarrow> bool" for E where
  swarm_handled: "rt_outcome s = None \<Longrightarrow> network_pending s = [] \<Longrightarrow> rt_network_error s = None \<Longrightarrow>
    host_turn E W (HostSwarm event) (rt_network s) = Some (Inr (), hn) \<Longrightarrow>
    outside_step E s (s\<lparr>rt_network := hn, rt_inputs := rt_inputs s @ [(W, HostSwarm event)]\<rparr>)"
| swarm_fails: "rt_outcome s = None \<Longrightarrow> network_pending s = [] \<Longrightarrow> rt_network_error s = None \<Longrightarrow>
    host_turn E W (HostSwarm event) (rt_network s) = Some (Inl error, hn) \<Longrightarrow>
    outside_step E s (s\<lparr>rt_network := hn, rt_inputs := rt_inputs s @ [(W, HostSwarm event)], rt_network_error := Some error\<rparr>)"
| swarm_panics: "rt_outcome s = None \<Longrightarrow> network_pending s = [] \<Longrightarrow> rt_network_error s = None \<Longrightarrow>
    host_turn E W (HostSwarm event) (rt_network s) = None \<Longrightarrow> outside_step E s (s\<lparr>rt_outcome := Some Panicked\<rparr>)"
| timer_elapses: "rt_outcome s = None \<Longrightarrow> wake_pending s = [] \<Longrightarrow> wake_at (rt_wake s) = Some deadline \<Longrightarrow>
    unat armed_ms + unat (wake_delay_ms deadline armed_ms) \<le> unat now_ms \<Longrightarrow>
    wake_run [TimerElapsed now_ms] (rt_wake s) = (Inr (), wm) \<Longrightarrow>
    outside_step E s (s\<lparr>rt_wake := wm, rt_wake_inputs := rt_wake_inputs s @ [TimerElapsed now_ms]\<rparr>)"

inductive runs_to ::
  "('vk, 'sig, 'z) hello_env_scheme \<Rightarrow> ('st, 'vk, 'sig) storage_ops \<Rightarrow> ('st, 'vk, 'sig, 'a) host_runtime
    \<Rightarrow> ('st, 'vk, 'sig, 'a) host_runtime \<Rightarrow> bool" for E S s where
  runs_refl: "runs_to E S s s"
| runs_task: "runs_to E S s t \<Longrightarrow> task_step E S t u \<Longrightarrow> runs_to E S s u"
| runs_outside: "runs_to E S s t \<Longrightarrow> outside_step E t u \<Longrightarrow> runs_to E S s u"

lemma runs_trans: "runs_to E S t u \<Longrightarrow> runs_to E S s t \<Longrightarrow> runs_to E S s u"
  by (induction rule: runs_to.induct) (auto intro: runs_to.intros)

section \<open>Tasks only add to their channels\<close>

lemma silent_steps:
  "hn_event_tx (snd (swarm_do c hn)) = hn_event_tx hn" "hn_event_tx (snd (respond W channel c hn)) = hn_event_tx hn"
  "hn_event_tx (snd (respond_or_fail W channel c message hn)) = hn_event_tx hn"
  "hn_event_tx (snd (hello_or_disconnect E t hn)) = hn_event_tx hn"
  "hn_event_tx (snd (send_sync_request W p request hn)) = hn_event_tx hn"
  by (simp_all add: swarm_do_def respond_def respond_or_fail_def and_then_def hello_or_disconnect_def send_sync_request_def Let_def
      split: sum.split option.split)

lemma sync_response_silent: "hn_event_tx (snd (send_sync_response W p response hn)) = hn_event_tx hn"
  by (simp add: send_sync_response_def silent_steps split: option.split list.split)

lemma send_frame_silent: "hn_event_tx (snd (host_send_frame E W p frame hn)) = hn_event_tx hn"
  by (simp add: host_send_frame_def silent_steps sync_response_silent split: option.split sum.split NetworkMessage.split)

lemma broadcast_silent: "hn_event_tx (snd (broadcast_to E W frame ps hn)) = hn_event_tx hn"
proof (induction ps arbitrary: hn)
  case (Cons p ps)
  show ?case
    by (auto simp: Cons intro!: and_then_invariant [where P = "\<lambda>t. hn_event_tx t = hn_event_tx hn"] simp: send_frame_silent)
qed simp

lemma command_silent: "hn_event_tx (snd (host_handle_command E W order command hn)) = hn_event_tx hn"
  by (simp add: host_handle_command_def silent_steps send_frame_silent broadcast_silent split: NetworkCommand.split option.split)

definition emits :: "('vk, 'sig, 'a) HostNetwork \<Rightarrow> ('vk, 'sig, 'a) HostNetwork \<Rightarrow> bool" where
  "emits hn hn' \<longleftrightarrow> receiver_dropped (hn_event_tx hn') = receiver_dropped (hn_event_tx hn) \<and>
     (\<exists>es. sent (hn_event_tx hn') = sent (hn_event_tx hn) @ es)"

lemma emits_same: "hn_event_tx hn' = hn_event_tx hn \<Longrightarrow> emits hn hn'"
  by (simp add: emits_def)

lemma emits_from: "hn_event_tx hn = hn_event_tx h0 \<Longrightarrow> emits hn hn' \<Longrightarrow> emits h0 hn'"
  by (simp add: emits_def)

lemma emits_trans: "emits a b \<Longrightarrow> emits b c \<Longrightarrow> emits a c"
  by (auto simp: emits_def)

lemma emit_emits: "emits hn (snd (host_emit e hn))"
  by (simp add: emits_def host_emit_def send_on_def send_def)

lemma register_emits: "emits hn (snd (register_verified_peer t v hn))"
  by (simp add: register_verified_peer_def emits_def Let_def host_emit_def send_on_def send_def)

lemma unregister_emits: "emits hn (snd (unregister_transport_peer t hn))"
  by (simp add: unregister_transport_peer_def emits_def host_emit_def send_on_def send_def split: option.split)

lemma deliver_emits: "host_deliver E n msg hn = Some (r, hn') \<Longrightarrow> emits hn hn'"
  by (auto simp: host_deliver_def x_then_def of_exec_def emits_def host_emit_def send_on_def send_def split: option.split_asm if_split_asm)

definition grows :: "('vk, 'sig, 'a, 'r) host_step \<Rightarrow> bool" where
  "grows m \<longleftrightarrow> (\<forall>hn. emits hn (snd (m hn)))"

lemma grows_basic:
  "grows (swarm_do c)" "grows (respond W channel c)" "grows (hello_or_disconnect E t)" "grows (register_verified_peer t v)"
  "grows (unregister_transport_peer t)" "grows (host_emit e)" "grows (done_with a)"
  by (simp_all add: grows_def emits_same silent_steps register_emits unregister_emits emit_emits)

lemma grows_then: "grows m \<Longrightarrow> (\<And>a. grows (k a)) \<Longrightarrow> grows (and_then m k)"
  unfolding grows_def
proof (intro allI)
  fix hn
  assume m: "\<forall>hn. emits hn (snd (m hn))" and k: "\<And>a. \<forall>hn. emits hn (snd (k a hn))"
  show "emits hn (snd (and_then m k hn))"
    by (rule and_then_invariant) (use m k emits_trans in blast)+
qed

lemma growsD: "grows m \<Longrightarrow> m hn = (r, hn') \<Longrightarrow> emits hn hn'"
  by (metis grows_def snd_conv)

lemma grows_hello: "grows (handle_hello_request E W t request channel)" "grows (handle_hello_response E t response)"
  by (auto simp: handle_hello_request_def handle_hello_response_def grows_basic intro!: grows_then split: sum.split option.split)

lemma grows_identify: "grows (handle_identify_received E t addrs agent)"
proof -
  have ask: "grows (and_then (hello_or_disconnect E t) (\<lambda>hello. case hello of None \<Rightarrow> done_with () | Some h \<Rightarrow> swarm_do (RequestHello t h)))"
    by (rule grows_then) (simp_all add: grows_basic split: option.split)
  have "emits hn (snd (handle_identify_received E t addrs agent hn))" for hn
    unfolding handle_identify_received_def Let_def
    by (simp add: emits_same) (intro conjI impI emits_from [OF _ ask [unfolded grows_def, rule_format]]; simp)
  then show ?thesis by (simp add: grows_def)
qed

lemma sync_request_emits: "handle_sync_request E W t request channel hn = Some (r, hn') \<Longrightarrow> emits hn hn'"
  using deliver_emits [of E _ _ "hn\<lparr>pending_sync_responses := _\<rparr>" r hn'] silent_steps(3) [of W channel _ _ hn]
  by (auto simp: handle_sync_request_def emits_def split: option.split_asm) (metis append_Nil2 snd_conv)+

lemma sync_answer_emits: "handle_sync_response E rid response hn = Some (r, hn') \<Longrightarrow> emits hn hn'"
  using deliver_emits [of E _ _ "hn\<lparr>outbound_sync_requests := _\<rparr>" r hn']
  by (auto simp: handle_sync_response_def emits_def split: option.split_asm) 

lemma announce_response_emits: "handle_announce_response E t response hn = Some (r, hn') \<Longrightarrow> emits hn hn'"
  by (auto simp: handle_announce_response_def intro: emits_same deliver_emits split: option.split_asm)

lemma announce_request_emits:
  assumes "handle_announce_request E W t request channel hn = Some (r, hn')"
  shows "emits hn hn'"
proof -
  have last: "emits hn hn1 \<Longrightarrow> respond_or_fail W channel c message hn1 = (q, hn2) \<Longrightarrow> emits hn hn2" for hn1 c message q hn2
    using silent_steps(3) [of W channel c message hn1] by (simp add: emits_def)
  show ?thesis
  proof (cases "node_by_transport hn t")
    case None
    then show ?thesis using assms last [OF emits_same [OF refl]] by (simp add: handle_announce_request_def x_then_def)
  next
    case (Some n)
    then show ?thesis
      using assms last
      by (auto simp: handle_announce_request_def x_then_def dest: deliver_emits split: option.split_asm prod.split_asm sum.split_asm)
  qed
qed

lemma host_turn_emits:
  assumes "host_turn E W i hn = Some (r, hn')"
  shows "\<exists>es. sent (hn_event_tx hn') = sent (hn_event_tx hn) @ es"
    and "receiver_dropped (hn_event_tx hn') = receiver_dropped (hn_event_tx hn)"
proof -
  have "emits hn hn'"
  proof (cases i)
    case (HostCommand order command)
    then show ?thesis using assms command_silent [of E W order command hn] by (intro emits_same) simp
  next
    case (HostSwarm event)
    then have "handle_swarm_event E W event hn = Some (r, hn')" using assms by simp
    then show ?thesis
      by (cases event)
        (auto simp: on_connection_established_def handle_ping_event_def handle_gossip_def swarm_do_def emits_same Let_def
          intro: growsD [OF grows_basic(5)] growsD [OF grows_basic(6)] growsD [OF grows_identify] growsD [OF grows_hello(1)]
            growsD [OF grows_hello(2)] sync_request_emits sync_answer_emits announce_response_emits announce_request_emits
          split: if_split_asm option.split_asm)
  qed
  then show "\<exists>es. sent (hn_event_tx hn') = sent (hn_event_tx hn) @ es"
    and "receiver_dropped (hn_event_tx hn') = receiver_dropped (hn_event_tx hn)" by (simp_all add: emits_def)
qed

lemma storage_command_emits:
  assumes "host_storage_command S c sm = (r, sm')"
  shows "\<exists>es. sent (storage_event_tx sm') = sent (storage_event_tx sm) @ es"
  using assms
  by (cases c)
    (auto simp: and_then_def map_err_effect_def read_backend_def on_backend_def send_event_def send_on_def send_def Let_def
      split: prod.split_asm sum.split_asm option.split_asm if_split_asm)

section \<open>The runs of the tasks\<close>

lemma event_loop_snoc:
  "event_loop E (events @ [event]) nm =
    (case event_loop E events nm of
       None \<Rightarrow> None | Some (Inl e, nm') \<Rightarrow> Some (Inl e, nm') | Some (Inr _, nm') \<Rightarrow> event_loop E [event] nm')"
  by (induction events arbitrary: nm)
    (simp split: option.split prod.split sum.split, auto split: prod.split sum.split bind_splits)

lemma network_loop_snoc:
  "host_network_loop E (inputs @ [(W, i)]) hn = x_then (host_network_loop E inputs) (\<lambda>_. host_turn E W i) hn"
  by (induction inputs arbitrary: hn) (auto simp: x_then_def split: option.split prod.split sum.split)

lemma storage_run_snoc:
  "host_storage_run S (cs @ [c]) sm = and_then (host_storage_run S cs) (\<lambda>_. host_storage_command S c) sm"
  by (induction cs arbitrary: sm) (auto simp: and_then_def split: prod.split sum.split)

lemma wake_run_snoc: "wake_run inputs wm = (Inr (), wm') \<Longrightarrow> wake_run (inputs @ [i]) wm = wake_run [i] wm'"
proof (induction inputs arbitrary: wm)
  case (Cons j inputs)
  then show ?case
    by (cases j) (auto simp: handle_wake_command_eq and_then_def map_err_effect_def split: option.splits prod.splits sum.splits)
qed simp

fun input_commands :: "(swarm_io \<times> ('vk, 'sig, 'a) host_input) list \<Rightarrow> NetworkCommand list" where
  "input_commands [] = []"
| "input_commands ((W, HostCommand order c) # inputs) = c # input_commands inputs"
| "input_commands ((W, HostSwarm event) # inputs) = input_commands inputs"

fun timer_commands :: "wake_input list \<Rightarrow> WakeCommand list" where
  "timer_commands [] = []"
| "timer_commands (NextCommand c # inputs) = c # timer_commands inputs"
| "timer_commands (TimerElapsed now_ms # inputs) = timer_commands inputs"

lemma input_commands_append: "input_commands (xs @ ys) = input_commands xs @ input_commands ys"
  by (induction xs rule: input_commands.induct) simp_all

lemma timer_commands_append: "timer_commands (xs @ ys) = timer_commands xs @ timer_commands ys"
  by (induction xs rule: timer_commands.induct) simp_all

lemma snoc_in_shuffles: "zs \<in> shuffles xs ys \<Longrightarrow> zs @ [z] \<in> shuffles (xs @ [z]) ys"
proof (induction xs ys arbitrary: zs rule: shuffles.induct)
  case (1 ys)
  then show ?case by (induction ys arbitrary: zs) (auto simp: Cons_in_shuffles_iff)
next
  case (2 x xs)
  then show ?case by simp
next
  case (3 x xs y ys)
  then show ?case by auto
qed

lemma snoc_in_shuffles_right: "zs \<in> shuffles xs ys \<Longrightarrow> zs @ [z] \<in> shuffles xs (ys @ [z])"
  by (metis shuffles_commutes snoc_in_shuffles)

lemma handled_action: "host_handle_action a nm = (Inr u, nm') \<Longrightarrow> nm' = after_actions [a] nm"
  by (cases a) (auto simp: after_actions_def send_on_def send_def map_err_def split: if_split_asm)

lemma handled_open: "channels_open nm \<Longrightarrow> host_handle_action a nm = (Inr (), after_actions [a] nm)"
  by (simp add: host_handle_action_eq handle_action_open)

definition node_begun :: "('vk, 'sig) NodeManager \<Rightarrow> ('vk, 'sig) NodeManager" where
  "node_begun nm = nm\<lparr>storage_tx := (storage_tx nm)\<lparr>sent := sent (storage_tx nm) @ [LoadLatestSnapshotCommand]\<rparr>\<rparr>"

lemma node_begun_sel [simp]:
  "node_engine (node_begun nm) = node_engine nm" "network_tx (node_begun nm) = network_tx nm" "wake_tx (node_begun nm) = wake_tx nm"
  "sent (storage_tx (node_begun nm)) = sent (storage_tx nm) @ [LoadLatestSnapshotCommand]" "channels_open (node_begun nm) = channels_open nm"
  by (simp_all add: node_begun_def channels_open_def)

lemma started_node:
  "send_on storage_tx (\<lambda>ch. storage_tx_update (\<lambda>_. ch)) host_storage_send LoadLatestSnapshotCommand nm = (Inr u, nm') \<Longrightarrow> nm' = node_begun nm"
  by (auto simp: node_begun_def send_on_def send_def split: if_split_asm)

lemma started_open:
  "channels_open nm \<Longrightarrow>
    send_on storage_tx (\<lambda>ch. storage_tx_update (\<lambda>_. ch)) host_storage_send LoadLatestSnapshotCommand nm = (Inr (), node_begun nm)"
  by (simp add: node_begun_def send_on_def send_def channels_open_def)

text \<open>The node manager: it has run on the events it has taken, up to the actions it still has to handle.\<close>

definition node_runs :: "('vk, 'sig, 'z) net_scheme \<Rightarrow> ('vk, 'sig) NodeManager \<Rightarrow> ('st, 'vk, 'sig, 'a) host_runtime \<Rightarrow> bool" where
  "node_runs E nm0 s \<longleftrightarrow> channels_open (rt_node s) \<and>
     (if rt_started s then event_loop E (rt_taken s) (node_begun nm0) = Some (Inr (), after_actions (rt_actions s) (rt_node s))
      else rt_taken s = [] \<and> rt_actions s = [] \<and> rt_node s = nm0)"

lemma after_no_actions [simp]: "after_actions [] nm = nm"
  by (simp add: after_actions_def)

lemma node_runs_task: "node_runs E nm0 s \<Longrightarrow> task_step E S s t \<Longrightarrow> node_runs E nm0 t"
proof (erule task_step.cases, goal_cases)
  case (1 s nm)
  then show ?case using started_node [of "rt_node s"] by (auto simp: node_runs_def)
next
  case (2 s event events e acts)
  then show ?case by (simp add: node_runs_def event_loop_snoc handle_actions_open channels_open_def)
next
  case (4 s a acts nm)
  then show ?case using handled_action [of a "rt_node s"] by (auto simp: node_runs_def after_actions_Cons)
qed (simp_all add: node_runs_def)

lemma node_runs_outside: "node_runs E nm0 s \<Longrightarrow> outside_step E s t \<Longrightarrow> node_runs E nm0 t"
  by (erule outside_step.cases) (simp_all add: node_runs_def)

text \<open>What a step adds to the channels of the node manager.\<close>

lemma task_adds:
  assumes "task_step E S s t"
  obtains ns ss ws where "sent (network_tx (rt_node t)) = sent (network_tx (rt_node s)) @ ns"
    and "sent (storage_tx (rt_node t)) = sent (storage_tx (rt_node s)) @ ss"
    and "sent (wake_tx (rt_node t)) = sent (wake_tx (rt_node s)) @ ws"
  using assms
proof (cases rule: task_step.cases)
  case (node_starts nm)
  then show thesis using started_node [of "rt_node s"] by (intro that [of "[]" "[LoadLatestSnapshotCommand]" "[]"]) auto
next
  case (node_acts a acts nm)
  then show thesis using handled_action [of a "rt_node s"] by (intro that) auto
qed (auto intro: that [of "[]" "[]" "[]"])

text \<open>The storage task: it has run on the commands it has taken.\<close>

definition storage_runs ::
  "('st, 'vk, 'sig) storage_ops \<Rightarrow> ('st, 'vk, 'sig) StorageManager \<Rightarrow> ('st, 'vk, 'sig, 'a) host_runtime \<Rightarrow> bool" where
  "storage_runs S sm0 s \<longleftrightarrow> rt_storage_in s \<le> length (sent (storage_tx (rt_node s))) \<and>
     host_storage_run S (take (rt_storage_in s) (sent (storage_tx (rt_node s)))) sm0 = (Inr (), rt_storage s)"

lemma drop_ConsD: "drop n xs = x # ys \<Longrightarrow> n < length xs \<and> take (Suc n) xs = take n xs @ [x]"
  by (metis append_eq_conv_conj append_take_drop_id drop_eq_Nil2 list.discI not_le_imp_less nth_via_drop take_Suc_conv_app_nth)

lemma storage_runs_task:
  assumes "storage_runs S sm0 s" and "task_step E S s t"
  shows "storage_runs S sm0 t"
proof -
  obtain ss where ss: "sent (storage_tx (rt_node t)) = sent (storage_tx (rt_node s)) @ ss" using assms(2) by (rule task_adds)
  from assms(2,1) ss show ?thesis
  proof (cases rule: task_step.cases)
    case (storage_takes sc scs sm)
    then show ?thesis using assms(1) ss drop_ConsD [OF storage_takes(4)]
      by (simp add: storage_runs_def storage_run_snoc and_then_ok)
  qed (simp_all add: storage_runs_def)
qed

lemma storage_runs_outside: "storage_runs S sm0 s \<Longrightarrow> outside_step E s t \<Longrightarrow> storage_runs S sm0 t"
  by (erule outside_step.cases) (simp_all add: storage_runs_def)

text \<open>The network task: it has run on its inputs, and the commands among them are those it has taken.\<close>

definition network_runs ::
  "('vk, 'sig, 'z) hello_env_scheme \<Rightarrow> ('vk, 'sig, 'a) HostNetwork \<Rightarrow> ('st, 'vk, 'sig, 'a) host_runtime \<Rightarrow> bool" where
  "network_runs E hn0 s \<longleftrightarrow> rt_network_in s \<le> length (sent (network_tx (rt_node s))) \<and>
     input_commands (rt_inputs s) = take (rt_network_in s) (sent (network_tx (rt_node s))) \<and>
     host_network_loop E (rt_inputs s) hn0 =
       Some (case rt_network_error s of None \<Rightarrow> Inr () | Some error \<Rightarrow> Inl error, rt_network s)"

lemma network_runs_task:
  assumes "network_runs E hn0 s" and "task_step E S s t"
  shows "network_runs E hn0 t"
proof -
  obtain ns where ns: "sent (network_tx (rt_node t)) = sent (network_tx (rt_node s)) @ ns" using assms(2) by (rule task_adds)
  from assms(2,1) ns show ?thesis
  proof (cases rule: task_step.cases)
    case (network_takes c cs W order hn)
    then show ?thesis using assms(1) ns drop_ConsD [OF network_takes(5)]
      by (simp add: network_runs_def input_commands_append network_loop_snoc x_then_ok)
  next
    case (network_fails c cs W order error hn)
    then show ?thesis using assms(1) ns drop_ConsD [OF network_fails(5)]
      by (simp add: network_runs_def input_commands_append network_loop_snoc x_then_ok)
  qed (simp_all add: network_runs_def)
qed

lemma network_runs_outside: "network_runs E hn0 s \<Longrightarrow> outside_step E s t \<Longrightarrow> network_runs E hn0 t"
  by (erule outside_step.cases) (simp_all add: network_runs_def input_commands_append network_loop_snoc x_then_ok)

text \<open>The wake task: it has run on its inputs, and the commands among them are those it has taken.\<close>

definition timer_runs :: "('vk, 'sig) WakeManager \<Rightarrow> ('st, 'vk, 'sig, 'a) host_runtime \<Rightarrow> bool" where
  "timer_runs wm0 s \<longleftrightarrow> rt_wake_in s \<le> length (sent (wake_tx (rt_node s))) \<and>
     timer_commands (rt_wake_inputs s) = take (rt_wake_in s) (sent (wake_tx (rt_node s))) \<and>
     wake_run (rt_wake_inputs s) wm0 = (Inr (), rt_wake s)"

lemma timer_runs_task:
  assumes "timer_runs wm0 s" and "task_step E S s t"
  shows "timer_runs wm0 t"
proof -
  obtain ws where ws: "sent (wake_tx (rt_node t)) = sent (wake_tx (rt_node s)) @ ws" using assms(2) by (rule task_adds)
  from assms(2,1) ws show ?thesis
  proof (cases rule: task_step.cases)
    case (wake_takes w ws' wm)
    then show ?thesis using assms(1) ws drop_ConsD [OF wake_takes(4)] wake_run_snoc [of "rt_wake_inputs s" wm0 "rt_wake s"]
      by (simp add: timer_runs_def timer_commands_append)
  qed (simp_all add: timer_runs_def)
qed

lemma timer_runs_outside: "timer_runs wm0 s \<Longrightarrow> outside_step E s t \<Longrightarrow> timer_runs wm0 t"
  using wake_run_snoc [of "rt_wake_inputs s" wm0 "rt_wake s"]
  by (erule_tac outside_step.cases) (auto simp: timer_runs_def timer_commands_append)

section \<open>The queue of events\<close>

text \<open>The events that the three senders have put into the queue, and the queue with what was taken from it.\<close>

definition events_merge :: "('st, 'vk, 'sig, 'a) host_runtime \<Rightarrow> bool" where
  "events_merge s \<longleftrightarrow>
     rt_network_out s \<le> length (sent (hn_event_tx (rt_network s))) \<and>
     rt_storage_out s \<le> length (sent (storage_event_tx (rt_storage s))) \<and>
     rt_wake_out s \<le> length (sent (wake_event_tx (rt_wake s))) \<and>
     (\<exists>both\<in>shuffles (take (rt_network_out s) (sent (hn_event_tx (rt_network s))))
          (take (rt_storage_out s) (sent (storage_event_tx (rt_storage s)))).
        rt_taken s @ rt_events s \<in> shuffles both (take (rt_wake_out s) (sent (wake_event_tx (rt_wake s)))))"

lemma wake_run_emits: "wake_run [i] wm = (Inr (), wm') \<Longrightarrow> \<exists>es. sent (wake_event_tx wm') = sent (wake_event_tx wm) @ es"
  by (cases i) (auto simp: handle_wake_command_eq and_then_def map_err_effect_def emit_tick_def send_on_def send_def
      split: option.split_asm if_split_asm prod.split_asm sum.split_asm)

lemma events_merge_grow:
  assumes "events_merge s" and "rt_taken t @ rt_events t = rt_taken s @ rt_events s"
    and "rt_network_out t = rt_network_out s" "rt_storage_out t = rt_storage_out s" "rt_wake_out t = rt_wake_out s"
    and "sent (hn_event_tx (rt_network t)) = sent (hn_event_tx (rt_network s)) @ ns"
    and "sent (storage_event_tx (rt_storage t)) = sent (storage_event_tx (rt_storage s)) @ ss"
    and "sent (wake_event_tx (rt_wake t)) = sent (wake_event_tx (rt_wake s)) @ ws"
  shows "events_merge t"
  using assms by (simp add: events_merge_def)

lemma events_merge_task:
  assumes "events_merge s" and "task_step E S s t"
  shows "events_merge t"
  using assms(2)
proof (cases rule: task_step.cases)
  case (network_takes c cs W order hn)
  then show ?thesis using host_turn_emits(1) [OF network_takes(6)] by (auto intro: events_merge_grow [OF assms(1)])
next
  case (network_fails c cs W order error hn)
  then show ?thesis using host_turn_emits(1) [OF network_fails(6)] by (auto intro: events_merge_grow [OF assms(1)])
next
  case (storage_takes sc scs sm)
  then show ?thesis using storage_command_emits [OF storage_takes(5)] by (auto intro: events_merge_grow [OF assms(1)])
next
  case (wake_takes w ws wm)
  then show ?thesis using wake_run_emits [OF wake_takes(5)] by (auto intro: events_merge_grow [OF assms(1)])
next
  case (network_sends event events)
  then show ?thesis using assms(1) drop_ConsD [OF network_sends(3)]
    by (auto simp: events_merge_def simp flip: append_assoc intro!: bexI snoc_in_shuffles)
next
  case (storage_sends event events)
  then show ?thesis using assms(1) drop_ConsD [OF storage_sends(3)]
    by (auto simp: events_merge_def simp flip: append_assoc intro!: bexI snoc_in_shuffles snoc_in_shuffles_right)
next
  case (wake_sends event events)
  then show ?thesis using assms(1) drop_ConsD [OF wake_sends(3)]
    by (auto simp: events_merge_def simp flip: append_assoc intro!: bexI snoc_in_shuffles_right)
qed (use assms(1) in \<open>simp_all add: events_merge_def\<close>)

lemma events_merge_outside:
  assumes "events_merge s" and "outside_step E s t"
  shows "events_merge t"
  using assms(2)
proof (cases rule: outside_step.cases)
  case (swarm_handled W event hn)
  then show ?thesis using host_turn_emits(1) [OF swarm_handled(5)] by (auto intro: events_merge_grow [OF assms(1)])
next
  case (swarm_fails W event error hn)
  then show ?thesis using host_turn_emits(1) [OF swarm_fails(5)] by (auto intro: events_merge_grow [OF assms(1)])
next
  case (timer_elapses deadline armed_ms now_ms wm)
  then show ?thesis using wake_run_emits [OF timer_elapses(6)] by (auto intro: events_merge_grow [OF assms(1)])
qed (use assms(1) in \<open>simp_all add: events_merge_def\<close>)

definition queues_bounded :: "('st, 'vk, 'sig, 'a) host_runtime \<Rightarrow> bool" where
  "queues_bounded s \<longleftrightarrow> length (rt_events s) \<le> EVENT_CHANNEL_CAPACITY \<and> length (network_queue s) \<le> NETWORK_CHANNEL_CAPACITY \<and>
     length (storage_queue s) \<le> STORAGE_CHANNEL_CAPACITY \<and> length (wake_queue s) \<le> WAKE_CHANNEL_CAPACITY"

lemma queue_length: "drop n xs = x # ys \<Longrightarrow> length xs - n = Suc (length ys)"
  by (metis length_Cons length_drop)

lemma queues_bounded_task:
  assumes "queues_bounded s" and "task_step E S s t"
  shows "queues_bounded t"
  using assms(2)
proof (cases rule: task_step.cases)
  case (node_starts nm)
  then show ?thesis using assms(1) started_node [of "rt_node s"] by (auto simp: queues_bounded_def)
next
  case (node_acts a acts nm)
  then have nm: "nm = after_actions [a] (rt_node s)" using handled_action by blast
  show ?thesis using assms(1) node_acts(1,4) unfolding nm by (cases a) (auto simp: queues_bounded_def action_room_def)
qed (use assms(1) in \<open>auto simp: queues_bounded_def dest: queue_length\<close>)

lemma queues_bounded_outside: "queues_bounded s \<Longrightarrow> outside_step E s t \<Longrightarrow> queues_bounded t"
  by (erule outside_step.cases) (simp_all add: queues_bounded_def)

section \<open>The invariant of the runtime\<close>

definition runtime_ok ::
  "('vk, 'sig, 'z) hello_env_scheme \<Rightarrow> ('st, 'vk, 'sig) storage_ops \<Rightarrow> ('st, 'vk, 'sig, 'a) host_runtime
    \<Rightarrow> ('st, 'vk, 'sig, 'a) host_runtime \<Rightarrow> bool" where
  "runtime_ok E S s0 s \<longleftrightarrow> node_runs E (rt_node s0) s \<and> network_runs E (rt_network s0) s \<and> storage_runs S (rt_storage s0) s \<and>
     timer_runs (rt_wake s0) s \<and> events_merge s \<and> queues_bounded s"

lemma runtime_ok_init: "s0 = host_runtime_init bc config identity transport st now_ms \<Longrightarrow> runtime_ok E S s0 s0"
  by (simp add: runtime_ok_def host_runtime_init_def node_runs_def network_runs_def storage_runs_def timer_runs_def events_merge_def
      queues_bounded_def NodeManager_new_def WakeManager_new_def open_channel_def channels_open_def HostNetwork_new_def)

lemma runtime_ok_task: "runtime_ok E S s0 t \<Longrightarrow> task_step E S t u \<Longrightarrow> runtime_ok E S s0 u"
  unfolding runtime_ok_def
  by (elim conjE, intro conjI; rule node_runs_task network_runs_task storage_runs_task timer_runs_task events_merge_task queues_bounded_task;
      assumption)

lemma runtime_ok_outside: "runtime_ok E S s0 t \<Longrightarrow> outside_step E t u \<Longrightarrow> runtime_ok E S s0 u"
  unfolding runtime_ok_def
  by (elim conjE, intro conjI; rule node_runs_outside network_runs_outside storage_runs_outside timer_runs_outside events_merge_outside
      queues_bounded_outside; assumption)

lemma runtime_ok_reached:
  "runs_to E S (host_runtime_init bc config identity transport st now_ms) s \<Longrightarrow>
    runtime_ok E S (host_runtime_init bc config identity transport st now_ms) s"
  by (induction rule: runs_to.induct) (auto intro: runtime_ok_init runtime_ok_task runtime_ok_outside)

lemma host_node_run_begun:
  "channels_open nm0 \<Longrightarrow> host_node_run E events nm0 = map_option host_result (event_loop E events (node_begun nm0))"
  by (simp add: host_node_run_def host_event_loop_eq started_open)

lemma host_actions_open: "channels_open nm \<Longrightarrow> host_handle_actions acts nm = (Inr (), after_actions acts nm)"
  by (simp add: host_handle_actions_eq handle_actions_open)

text \<open>
  C37: The bounded channels do not change what the tasks do. Whatever the interleaving of the four tasks, in every state that the
  host runtime reaches each task is where it gets when it runs alone, with sends that never wait, on what it has received: the node
  manager on the events it has taken (up to the actions it is still handling), the network, storage and wake tasks on the commands
  they have taken from the node manager, in the order it sent them. The events that the node manager has taken or that wait in its queue
  are those its three senders have sent, each in its own order, and no queue is longer than its capacity.
\<close>

theorem runtime_runs_tasks:
  assumes "runs_to E S (host_runtime_init bc config identity transport st now_ms) s"
  shows "(rt_started s \<longrightarrow> (\<exists>nm. host_node_run E (rt_taken s) (NodeManager_new (NodeEngine_new bc) open_channel open_channel open_channel)
        = Some (Inr (), nm) \<and> host_handle_actions (rt_actions s) (rt_node s) = (Inr (), nm))) \<and>
    host_network_run E (rt_inputs s) (HostNetwork_new config identity transport open_channel)
      = Some (case rt_network_error s of None \<Rightarrow> Inr () | Some error \<Rightarrow> Inl error, rt_network s) \<and>
    input_commands (rt_inputs s) @ network_queue s = sent (network_tx (rt_node s)) \<and>
    (\<exists>cs. host_storage_run S cs \<lparr> backend = st, storage_event_tx = open_channel \<rparr> = (Inr (), rt_storage s) \<and>
       cs @ storage_queue s = sent (storage_tx (rt_node s))) \<and>
    host_run_wake_loop now_ms (rt_wake_inputs s) open_channel = (Inr (), wake_event_tx (rt_wake s)) \<and>
    timer_commands (rt_wake_inputs s) @ wake_queue s = sent (wake_tx (rt_node s)) \<and>
    (\<exists>from_network from_storage from_wake both.
       from_network @ network_pending s = sent (hn_event_tx (rt_network s)) \<and>
       from_storage @ storage_pending s = sent (storage_event_tx (rt_storage s)) \<and>
       from_wake @ wake_pending s = sent (wake_event_tx (rt_wake s)) \<and>
       both \<in> shuffles from_network from_storage \<and> rt_taken s @ rt_events s \<in> shuffles both from_wake) \<and>
    queues_bounded s"
proof -
  let ?s0 = "host_runtime_init bc config identity transport st now_ms"
  have ok: "node_runs E (rt_node ?s0) s" "network_runs E (rt_network ?s0) s" "storage_runs S (rt_storage ?s0) s"
    "timer_runs (rt_wake ?s0) s" "events_merge s" "queues_bounded s"
    using runtime_ok_reached [OF assms] unfolding runtime_ok_def by blast+
  have init: "rt_node ?s0 = NodeManager_new (NodeEngine_new bc) open_channel open_channel open_channel" "channels_open (rt_node ?s0)"
    "rt_storage ?s0 = \<lparr> backend = st, storage_event_tx = open_channel \<rparr>" "rt_wake ?s0 = WakeManager_new now_ms open_channel"
    "host_network_run E inputs (HostNetwork_new config identity transport open_channel) = host_network_loop E inputs (rt_network ?s0)" for inputs
    by (simp_all add: host_runtime_init_def NodeManager_new_def open_channel_def channels_open_def host_network_run_def HostNetwork_new_def)
  have node: "rt_started s \<longrightarrow> (\<exists>nm. host_node_run E (rt_taken s) (rt_node ?s0) = Some (Inr (), nm) \<and>
      host_handle_actions (rt_actions s) (rt_node s) = (Inr (), nm))"
    using ok(1) by (auto simp: node_runs_def host_node_run_begun [OF init(2)] host_actions_open)
  have wake: "host_run_wake_loop now_ms (rt_wake_inputs s) open_channel = (Inr (), wake_event_tx (rt_wake s))"
    using ok(4) by (simp add: timer_runs_def wake_tasks_alike init(4))
  have storage: "\<exists>cs. host_storage_run S cs (rt_storage ?s0) = (Inr (), rt_storage s) \<and> cs @ storage_queue s = sent (storage_tx (rt_node s))"
    using ok(3) by (intro exI [of _ "take (rt_storage_in s) (sent (storage_tx (rt_node s)))"]) (simp add: storage_runs_def)
  have merge: "\<exists>from_network from_storage from_wake both.
       from_network @ network_pending s = sent (hn_event_tx (rt_network s)) \<and>
       from_storage @ storage_pending s = sent (storage_event_tx (rt_storage s)) \<and>
       from_wake @ wake_pending s = sent (wake_event_tx (rt_wake s)) \<and>
       both \<in> shuffles from_network from_storage \<and> rt_taken s @ rt_events s \<in> shuffles both from_wake"
    using ok(5) unfolding events_merge_def by (metis append_take_drop_id)
  show ?thesis
    using node [unfolded init(1)] ok(2,4) storage [unfolded init(3)] wake merge ok(6)
    by (auto simp: network_runs_def timer_runs_def init(5))
qed

section \<open>Progress\<close>

text \<open>Nothing is left to do, and the tasks that can block each other do so.\<close>

definition runtime_idle :: "('st, 'vk, 'sig, 'a) host_runtime \<Rightarrow> bool" where
  "runtime_idle s \<longleftrightarrow> rt_started s \<and> rt_actions s = [] \<and> rt_events s = [] \<and> network_queue s = [] \<and> storage_queue s = [] \<and>
     wake_queue s = [] \<and> network_pending s = [] \<and> storage_pending s = [] \<and> wake_pending s = [] \<and> rt_network_error s = None"

definition waits_for :: "ChannelKind \<Rightarrow> ('st, 'vk, 'sig, 'a) host_runtime \<Rightarrow> bool" where
  "waits_for k s \<longleftrightarrow> (\<exists>a acts. rt_actions s = a # acts \<and> action_channel a = Some k) \<and> \<not> channel_room k s"

definition runtime_deadlocked :: "('st, 'vk, 'sig, 'a) host_runtime \<Rightarrow> bool" where
  "runtime_deadlocked s \<longleftrightarrow> \<not> channel_room EventChannel s \<and>
     (waits_for NetworkChannel s \<and> network_pending s \<noteq> [] \<or> waits_for StorageChannel s \<and> storage_pending s \<noteq> [] \<or>
      waits_for WakeChannel s \<and> wake_pending s \<noteq> [])"

abbreviation can_step ::
  "('vk, 'sig, 'z) hello_env_scheme \<Rightarrow> ('st, 'vk, 'sig) storage_ops \<Rightarrow> ('st, 'vk, 'sig, 'a) host_runtime \<Rightarrow> bool" where
  "can_step E S s \<equiv> \<exists>t. task_step E S s t"

lemma network_can_step:
  assumes "rt_outcome s = None" and "network_queue s \<noteq> [] \<or> network_pending s \<noteq> [] \<or> rt_network_error s \<noteq> None"
    and "network_pending s = [] \<or> channel_room EventChannel s"
  shows "can_step E S s"
proof (cases "network_pending s")
  case Nil
  show ?thesis
  proof (cases "rt_network_error s")
    case None
    then obtain c cs where queue: "network_queue s = c # cs" using assms(2) Nil by (cases "network_queue s") auto
    show ?thesis
    proof (cases "host_turn E undefined (HostCommand [] c) (rt_network s)")
      case None
      then show ?thesis using network_panics [OF assms(1) Nil \<open>rt_network_error s = None\<close> queue] by blast
    next
      case (Some x)
      then show ?thesis
        using network_takes [OF assms(1) Nil None queue] network_fails [OF assms(1) Nil None queue]
        by (cases x; cases "fst x") (auto, blast+)
    qed
  next
    case (Some error)
    then show ?thesis using network_stops [OF assms(1) Nil] by blast
  qed
next
  case (Cons event events)
  then show ?thesis using assms network_sends [of s event events] by auto
qed

lemma storage_can_step:
  assumes "rt_outcome s = None" and "storage_queue s \<noteq> [] \<or> storage_pending s \<noteq> []"
    and "storage_pending s = [] \<or> channel_room EventChannel s"
  shows "can_step E S s"
proof (cases "storage_pending s")
  case Nil
  then obtain c cs where queue: "storage_queue s = c # cs" using assms(2) by (cases "storage_queue s") auto
  obtain r sm where "host_storage_command S c (rt_storage s) = (r, sm)" by fastforce
  then show ?thesis
    using storage_takes [OF assms(1) Nil queue] storage_stops [OF assms(1) Nil queue] by (cases r) (auto, blast+)
next
  case (Cons event events)
  then show ?thesis using assms storage_sends [of s event events] by auto
qed

lemma wake_can_step:
  assumes "rt_outcome s = None" and "wake_queue s \<noteq> [] \<or> wake_pending s \<noteq> []" and "wake_pending s = [] \<or> channel_room EventChannel s"
  shows "can_step E S s"
proof (cases "wake_pending s")
  case Nil
  then obtain w ws where queue: "wake_queue s = w # ws" using assms(2) by (cases "wake_queue s") auto
  have "wake_run [NextCommand w] (rt_wake s) = (Inr (), (rt_wake s)\<lparr>wake_at := wake_of w\<rparr>)" by (simp only: wake_run_command wake_run.simps)
  then show ?thesis using wake_takes [OF assms(1) Nil queue] by blast
next
  case (Cons event events)
  then show ?thesis using assms wake_sends [of s event events] by auto
qed

lemma node_can_step:
  assumes "rt_outcome s = None" and "channels_open (rt_node s)" and "rt_started s"
    and "(case rt_actions s of [] \<Rightarrow> rt_events s \<noteq> [] | a # acts \<Rightarrow> action_room a s)"
  shows "can_step E S s"
proof (cases "rt_actions s")
  case Nil
  then obtain event events where queue: "rt_events s = event # events" using assms(4) by (cases "rt_events s") auto
  show ?thesis
    using node_receives [OF assms(1,3) Nil queue] node_panics [OF assms(1,3) Nil queue]
    by (cases "event_actions E event (node_engine (rt_node s))") (auto, blast+)
next
  case (Cons a acts)
  then show ?thesis using assms node_acts [OF assms(1) Cons _ handled_open [OF assms(2)]] by auto
qed

lemma no_room_busy: "\<not> channel_room NetworkChannel s \<Longrightarrow> network_queue s \<noteq> []" "\<not> channel_room StorageChannel s \<Longrightarrow> storage_queue s \<noteq> []"
  "\<not> channel_room WakeChannel s \<Longrightarrow> wake_queue s \<noteq> []"
  by (auto simp: capacity_defs)

lemma action_channel_not_event: "action_channel a \<noteq> Some EventChannel"
  by (cases a) simp_all

lemma started_can_step:
  assumes "rt_outcome s = None" and "channels_open (rt_node s)" and "rt_started s" and "\<not> runtime_idle s" and "\<not> runtime_deadlocked s"
  shows "can_step E S s"
proof (rule ccontr)
  assume stuck: "\<not> can_step E S s"
  note tasks = network_can_step [OF assms(1), of E S] storage_can_step [OF assms(1), of E S] wake_can_step [OF assms(1), of E S]
  show False
  proof (cases "rt_actions s")
    case Nil
    then have "rt_events s = []" using node_can_step [OF assms(1-3), of E S] stuck by auto
    then have "channel_room EventChannel s" by (simp add: capacity_defs)
    then show False using tasks stuck assms(3,4) Nil \<open>rt_events s = []\<close> unfolding runtime_idle_def by metis
  next
    case (Cons a acts)
    then have "\<not> action_room a s" using node_can_step [OF assms(1-3), of E S] stuck by auto
    then obtain k where k: "action_channel a = Some k" and full: "\<not> channel_room k s"
      by (auto simp: action_room_def split: option.split_asm)
    then have waits: "waits_for k s" using Cons by (auto simp: waits_for_def)
    show False
      using tasks stuck full waits assms(5) no_room_busy [of s] k action_channel_not_event [of a]
      unfolding runtime_deadlocked_def by (cases k) metis+
  qed
qed

text \<open>
  C39: The runtime only stops moving when it has nothing to do or in one way. In every state that the host runtime reaches and in which no
  task has ended it, a task can take a step, unless everything that was sent has been handled, or the node manager waits for room in the
  full queue of a task that itself waits for room in the full queue of events.
\<close>

theorem runtime_progress:
  assumes "runs_to E S (host_runtime_init bc config identity transport st now_ms) s" and "rt_outcome s = None"
    and "\<not> runtime_idle s" and "\<not> runtime_deadlocked s"
  shows "\<exists>t. task_step E S s t"
proof -
  let ?s0 = "host_runtime_init bc config identity transport st now_ms"
  have ok: "node_runs E (rt_node ?s0) s" using runtime_ok_reached [OF assms(1)] by (simp add: runtime_ok_def)
  then have open_node: "channels_open (rt_node s)" by (simp add: node_runs_def)
  show ?thesis
  proof (cases "rt_started s")
    case True
    then show ?thesis using started_can_step [OF assms(2) open_node _ assms(3,4)] by blast
  next
    case False
    then have "rt_node s = rt_node ?s0" using ok by (simp add: node_runs_def)
    then have "channel_room StorageChannel s"
      by (simp add: host_runtime_init_def NodeManager_new_def open_channel_def capacity_defs)
    then show ?thesis using node_starts [OF assms(2) False _ started_open [OF open_node]] by blast
  qed
qed

section \<open>What is on disk\<close>

lemma persisted_in_store:
  "PersistBlockCommand b \<in> set cs \<Longrightarrow> \<exists>b'. store_blocks (fold (store_command H) cs a) (H b) = Some b' \<and> H b' = H b"
proof (induction cs rule: rev_induct)
  case (snoc c cs)
  then show ?case by (cases c) auto
qed simp

text \<open>
  C38: A block of the chain survives a restart. In every state that the host runtime reaches on a sled database, once the node manager has
  handled its actions and the storage task its commands, every block of the chain of the engine that is not of the initial chain (the
  genesis block) and was not restored from the database is in the database: loading its hash returns a block with that hash.
\<close>

theorem runtime_blocks_on_disk:
  assumes "runs_to E (sled_ops (F, D)) (host_runtime_init bc config identity transport st now_ms) s"
    and "sled_ok D" and "bt_wf (chain bc)" and "rt_actions s = []" and "storage_queue s = []"
    and "\<forall>b. PersistBlockCommand b \<in> set (sent (storage_tx (rt_node s))) \<longrightarrow> postcard_ok (encode_block F) (decode_block F) b"
    and "b \<in> stored (chain (blockchain (node_engine (rt_node s))))"
  shows "b \<in> stored (chain bc) \<or> b \<in> restored_blocks (rt_taken s) \<or>
    (\<exists>b'. sled_load_block F D (block_hash F b) (backend (rt_storage s)) = Inr (Some b') \<and> block_hash F b' = block_hash F b)"
proof -
  let ?s0 = "host_runtime_init bc config identity transport st now_ms"
  have ok: "node_runs E (rt_node ?s0) s" "storage_runs (sled_ops (F, D)) (rt_storage ?s0) s"
    using runtime_ok_reached [OF assms(1)] by (simp_all add: runtime_ok_def)
  let ?cs = "sent (storage_tx (rt_node s))"
  have init: "channels_open (rt_node ?s0)" "blockchain (node_engine (rt_node ?s0)) = bc"
    by (simp_all add: host_runtime_init_def NodeManager_new_def NodeEngine_new_def channels_open_def open_channel_def)
  have "b \<in> stored (chain bc) \<union> persist_requested (rt_node s) \<union> restored_blocks (rt_taken s)"
  proof (cases "rt_started s")
    case True
    then have "event_loop E (rt_taken s) (node_begun (rt_node ?s0)) = Some (Inr (), rt_node s)" using ok(1) assms(4) by (simp add: node_runs_def)
    then show ?thesis using event_loop_persists [of E "rt_taken s" "node_begun (rt_node ?s0)"] assms(3,7) init by auto
  next
    case False
    then show ?thesis using ok(1) assms(7) init by (simp add: node_runs_def)
  qed
  moreover have "\<exists>b'. sled_load_block F D (block_hash F b) (backend (rt_storage s)) = Inr (Some b') \<and> block_hash F b' = block_hash F b"
    if "PersistBlockCommand b \<in> set ?cs"
  proof -
    have "host_storage_run (sled_ops (F, D)) ?cs (rt_storage ?s0) = (Inr (), rt_storage s)"
      using ok(2) assms(5) by (simp add: storage_runs_def)
    then have run: "storage_run (sled_ops (F, D)) ?cs (rt_storage ?s0) = (Inr (), rt_storage s)"
      using host_storage_run_eq [of "sled_ops (F, D)" ?cs "rt_storage ?s0"] by (auto simp: prod_eq_iff)
    have "sled.refines (F, D) (fold (store_command (block_hash F)) ?cs empty_store) (backend (rt_storage s))"
      using sled.refines_run [OF _ _ sled.refines_empty run] assms(2,6) by (simp add: sled_storable_def)
    then have "\<forall>h b. store_blocks (fold (store_command (block_hash F)) ?cs empty_store) h = Some b \<longrightarrow>
        sled_load_block F D h (backend (rt_storage s)) = Inr (Some b)"
      unfolding sled.refines_def by (simp add: sled_ops_def)
    then show ?thesis using persisted_in_store [OF that, of "block_hash F" empty_store] by blast
  qed
  ultimately show ?thesis by blast
qed

section \<open>The deadlock\<close>

text \<open>
  A peer that is registered sends frames that the node answers. \<open>flooded\<close> describes the states on the way: \<open>p\<close> events wait to be
  sent, \<open>q\<close> are queued, \<open>k\<close> actions wait, and the queue of the network task has \<open>m\<close> commands.
\<close>

definition flooded ::
  "('vk, 'sig, 'z) hello_env_scheme \<Rightarrow> byte_vec \<Rightarrow> PeerId \<Rightarrow> byte_vec \<Rightarrow> ('vk, 'sig) NodeAction
    \<Rightarrow> nat \<Rightarrow> nat \<Rightarrow> nat \<Rightarrow> nat \<Rightarrow> ('st, 'vk, 'sig, 'a) host_runtime \<Rightarrow> bool" where
  "flooded E t n frame a p q k m s \<longleftrightarrow>
     rt_outcome s = None \<and> rt_started s \<and> rt_network_error s = None \<and> channels_open (rt_node s) \<and>
     \<not> receiver_dropped (hn_event_tx (rt_network s)) \<and> rt_network_out s \<le> length (sent (hn_event_tx (rt_network s))) \<and>
     rt_network_in s \<le> length (sent (network_tx (rt_node s))) \<and> node_by_transport (rt_network s) t = Some n \<and>
     action_channel a = Some NetworkChannel \<and>
     engine_step E (node_engine (rt_node s)) (FrameReceived n frame) = Some (node_engine (rt_node s), [a]) \<and>
     network_pending s = replicate p (FrameReceivedEvent n frame) \<and> rt_events s = replicate q (FrameReceivedEvent n frame) \<and>
     rt_actions s = replicate k a \<and> length (network_queue s) = m"

lemma flood_gossip:
  assumes "flooded E t n frame a 0 q k m s"
  shows "\<exists>u. runs_to E S s u \<and> flooded E t n frame a 1 q k m u"
proof -
  let ?hn = "(rt_network s)\<lparr>hn_event_tx := (hn_event_tx (rt_network s))\<lparr>sent := sent (hn_event_tx (rt_network s)) @ [FrameReceivedEvent n frame]\<rparr>\<rparr>"
  let ?u = "s\<lparr>rt_network := ?hn, rt_inputs := rt_inputs s @ [(undefined, HostSwarm (GossipMessage t frame))]\<rparr>"
  have "host_turn E undefined (HostSwarm (GossipMessage t frame)) (rt_network s) = Some (Inr (), ?hn)"
    using assms by (simp add: flooded_def handle_gossip_def host_emit_def send_on_def send_def)
  then have "outside_step E s ?u" using assms by (intro swarm_handled) (simp_all add: flooded_def)
  moreover have "flooded E t n frame a 1 q k m ?u" using assms by (simp add: flooded_def)
  ultimately show ?thesis by (blast intro: runs_to.intros)
qed

lemma flood_send:
  assumes "flooded E t n frame a 1 q k m s" and "q < EVENT_CHANNEL_CAPACITY"
  shows "\<exists>u. runs_to E S s u \<and> flooded E t n frame a 0 (Suc q) k m u"
proof -
  let ?u = "s\<lparr>rt_events := rt_events s @ [FrameReceivedEvent n frame], rt_network_out := Suc (rt_network_out s)\<rparr>"
  have pending: "network_pending s = [FrameReceivedEvent n frame]" using assms(1) by (simp add: flooded_def)
  then have "task_step E S s ?u" using assms by (intro network_sends) (simp_all add: flooded_def)
  moreover have "drop (Suc (rt_network_out s)) (sent (hn_event_tx (rt_network s))) = []"
    using pending by (metis drop_Suc drop_tl list.sel(3))
  then have "flooded E t n frame a 0 (Suc q) k m ?u"
    using assms(1) drop_ConsD [OF pending] by (simp add: flooded_def replicate_append_same)
  ultimately show ?thesis by (blast intro: runs_to.intros)
qed

lemma flood_receive:
  assumes "flooded E t n frame a p (Suc q) 0 m s"
  shows "\<exists>u. runs_to E S s u \<and> flooded E t n frame a p q 1 m u"
proof -
  let ?ev = "FrameReceivedEvent n frame"
  let ?u = "s\<lparr>rt_events := replicate q ?ev, rt_taken := rt_taken s @ [?ev],
      rt_node := (rt_node s)\<lparr>node_engine := node_engine (rt_node s)\<rparr>, rt_actions := [a]\<rparr>"
  have "task_step E S s ?u" using assms by (intro node_receives) (simp_all add: flooded_def)
  moreover have "flooded E t n frame a p q 1 m ?u" using assms by (simp add: flooded_def)
  ultimately show ?thesis by (blast intro: runs_to.intros)
qed

lemma flood_act:
  assumes "flooded E t n frame a p q 1 m s" and "m < NETWORK_CHANNEL_CAPACITY"
  shows "\<exists>u. runs_to E S s u \<and> flooded E t n frame a p q 0 (Suc m) u"
proof -
  let ?u = "s\<lparr>rt_node := after_actions [a] (rt_node s), rt_actions := []\<rparr>"
  have chan: "action_channel a = Some NetworkChannel" using assms(1) by (simp add: flooded_def)
  then have one: "length (network_commands [a]) = 1" by (cases a) simp_all
  have "task_step E S s ?u"
    using assms chan handled_open [of "rt_node s" a] by (intro node_acts) (simp_all add: flooded_def action_room_def)
  moreover have "flooded E t n frame a p q 0 (Suc m) ?u" using assms one by (auto simp: flooded_def)
  ultimately show ?thesis by (blast intro: runs_to.intros)
qed

lemma fill_network:
  assumes "flooded E t n frame a 0 0 0 0 s" and "m \<le> NETWORK_CHANNEL_CAPACITY"
  shows "\<exists>u. runs_to E S s u \<and> flooded E t n frame a 0 0 0 m u"
  using assms(2)
proof (induction m)
  case 0
  then show ?case using assms(1) by (blast intro: runs_refl)
next
  case (Suc m)
  then obtain u1 where u1: "runs_to E S s u1" "flooded E t n frame a 0 0 0 m u1" by auto
  obtain u2 where u2: "runs_to E S u1 u2" "flooded E t n frame a 1 0 0 m u2" using flood_gossip [OF u1(2)] by blast
  obtain u3 where u3: "runs_to E S u2 u3" "flooded E t n frame a 0 (Suc 0) 0 m u3"
    using flood_send [OF u2(2)] by (auto simp: capacity_defs)
  obtain u4 where u4: "runs_to E S u3 u4" "flooded E t n frame a 0 0 1 m u4" using flood_receive [OF u3(2)] by blast
  obtain u5 where u5: "runs_to E S u4 u5" "flooded E t n frame a 0 0 0 (Suc m) u5" using flood_act [OF u4(2)] Suc.prems by auto
  show ?case using runs_trans [OF u5(1) runs_trans [OF u4(1) runs_trans [OF u3(1) runs_trans [OF u2(1) u1(1)]]]] u5(2) by blast
qed

lemma fill_events:
  assumes "flooded E t n frame a 0 0 k m s" and "q \<le> EVENT_CHANNEL_CAPACITY"
  shows "\<exists>u. runs_to E S s u \<and> flooded E t n frame a 0 q k m u"
  using assms(2)
proof (induction q)
  case 0
  then show ?case using assms(1) by (blast intro: runs_refl)
next
  case (Suc q)
  then obtain u1 where u1: "runs_to E S s u1" "flooded E t n frame a 0 q k m u1" by auto
  obtain u2 where u2: "runs_to E S u1 u2" "flooded E t n frame a 1 q k m u2" using flood_gossip [OF u1(2)] by blast
  obtain u3 where u3: "runs_to E S u2 u3" "flooded E t n frame a 0 (Suc q) k m u3" using flood_send [OF u2(2)] Suc.prems by auto
  show ?case using runs_trans [OF u3(1) runs_trans [OF u2(1) u1(1)]] u3(2) by blast
qed

lemma flood_deadlocks:
  assumes "flooded E t n frame a 0 0 0 0 s"
  shows "\<exists>u. runs_to E S s u \<and> flooded E t n frame a 1 EVENT_CHANNEL_CAPACITY 1 NETWORK_CHANNEL_CAPACITY u"
proof -
  obtain u1 where u1: "runs_to E S s u1" "flooded E t n frame a 0 0 0 NETWORK_CHANNEL_CAPACITY u1" using fill_network [OF assms] by blast
  obtain u2 where u2: "runs_to E S u1 u2" "flooded E t n frame a 0 (Suc 0) 0 NETWORK_CHANNEL_CAPACITY u2"
    using fill_events [OF u1(2), of "Suc 0"] by (auto simp: capacity_defs)
  obtain u3 where u3: "runs_to E S u2 u3" "flooded E t n frame a 0 0 1 NETWORK_CHANNEL_CAPACITY u3" using flood_receive [OF u2(2)] by blast
  obtain u4 where u4: "runs_to E S u3 u4" "flooded E t n frame a 0 EVENT_CHANNEL_CAPACITY 1 NETWORK_CHANNEL_CAPACITY u4"
    using fill_events [OF u3(2)] by blast
  obtain u5 where u5: "runs_to E S u4 u5" "flooded E t n frame a 1 EVENT_CHANNEL_CAPACITY 1 NETWORK_CHANNEL_CAPACITY u5"
    using flood_gossip [OF u4(2)] by blast
  show ?thesis using runs_trans [OF u5(1) runs_trans [OF u4(1) runs_trans [OF u3(1) runs_trans [OF u2(1) u1(1)]]]] u5(2) by blast
qed

text \<open>Once the node manager and the network task wait for each other, neither moves again.\<close>

definition cycle_closed :: "('st, 'vk, 'sig, 'a) host_runtime \<Rightarrow> bool" where
  "cycle_closed s \<longleftrightarrow> rt_started s \<and> \<not> channel_room EventChannel s \<and> waits_for NetworkChannel s \<and> network_pending s \<noteq> []"

definition same_halves :: "('st, 'vk, 'sig, 'a) host_runtime \<Rightarrow> ('st, 'vk, 'sig, 'a) host_runtime \<Rightarrow> bool" where
  "same_halves s t \<longleftrightarrow> rt_started t = rt_started s \<and> rt_node t = rt_node s \<and> rt_actions t = rt_actions s \<and> rt_events t = rt_events s \<and>
     rt_network t = rt_network s \<and> rt_network_in t = rt_network_in s \<and> rt_network_out t = rt_network_out s"

lemma cycle_task: "cycle_closed s \<Longrightarrow> task_step E S s t \<Longrightarrow> same_halves s t"
  by (erule task_step.cases) (auto simp: cycle_closed_def same_halves_def waits_for_def action_room_def)

lemma cycle_outside: "cycle_closed s \<Longrightarrow> outside_step E s t \<Longrightarrow> same_halves s t"
  by (erule outside_step.cases) (auto simp: cycle_closed_def same_halves_def)

lemma cycle_same: "cycle_closed s \<Longrightarrow> same_halves s t \<Longrightarrow> cycle_closed t"
  by (simp add: cycle_closed_def same_halves_def waits_for_def)

lemma cycle_for_ever:
  assumes "runs_to E S s t" and "cycle_closed s"
  shows "same_halves s t"
  using assms(1)
proof (induction rule: runs_to.induct)
  case runs_refl
  then show ?case by (simp add: same_halves_def)
next
  case (runs_task t u)
  then have "same_halves t u" using cycle_task cycle_same [OF assms(2)] by blast
  then show ?case using runs_task.IH by (simp add: same_halves_def)
next
  case (runs_outside t u)
  then have "same_halves t u" using cycle_outside cycle_same [OF assms(2)] by blast
  then show ?case using runs_outside.IH by (simp add: same_halves_def)
qed

lemma network_listens_task:
  assumes "task_step E S s t"
  shows "receiver_dropped (hn_event_tx (rt_network t)) = receiver_dropped (hn_event_tx (rt_network s))"
  using assms by (cases rule: task_step.cases) (auto simp del: host_turn.simps dest: host_turn_emits(2))

lemma network_listens_outside:
  assumes "outside_step E s t"
  shows "receiver_dropped (hn_event_tx (rt_network t)) = receiver_dropped (hn_event_tx (rt_network s))"
  using assms by (cases rule: outside_step.cases) (auto simp del: host_turn.simps dest: host_turn_emits(2))

lemma network_listens:
  "runs_to E S (host_runtime_init bc config identity transport st now_ms) s \<Longrightarrow> \<not> receiver_dropped (hn_event_tx (rt_network s))"
proof (induction rule: runs_to.induct)
  case runs_refl
  then show ?case by (simp add: host_runtime_init_def HostNetwork_new_def open_channel_def)
qed (simp_all add: network_listens_task network_listens_outside)

abbreviation armed :: "('vk, 'sig) NodeEngine \<Rightarrow> bool" where
  "armed e \<equiv> scheduled_wake_at_ms e = next_wake (pending_requests e)"

lemma engine_armed_task:
  assumes "task_step E S s t" and "armed (node_engine (rt_node s))"
  shows "armed (node_engine (rt_node t))"
  using assms(1)
proof (cases rule: task_step.cases)
  case (node_starts nm)
  then show ?thesis using assms(2) started_node [of "rt_node s"] by auto
next
  case (node_receives event events e acts)
  then show ?thesis using event_timer(1) [OF node_receives(6) assms(2)] by simp
next
  case (node_acts a acts nm)
  then show ?thesis using assms(2) handled_action [of a "rt_node s"] by auto
qed (use assms(2) in simp_all)

lemma engine_armed:
  "runs_to E S (host_runtime_init bc config identity transport st now_ms) s \<Longrightarrow> armed (node_engine (rt_node s))"
proof (induction rule: runs_to.induct)
  case runs_refl
  then show ?case by (simp add: host_runtime_init_def NodeManager_new_def NodeEngine_new_def next_wake_def)
next
  case (runs_outside t u)
  then show ?case by (auto elim: outside_step.cases)
qed (rule engine_armed_task)

lemma sync_request_answered:
  assumes "armed e" and "message_from_bytes E frame = Inr (SyncRequestMsg request)"
    and "sync_response (blockchain e) (sync_from request) (sync_to request) = Some response"
    and "message_to_bytes E (SyncResponseMsg response) = Some answer"
  shows "engine_step E e (FrameReceived n frame) = Some (e, [SendFrame n answer])"
  using assms by (simp add: engine_step_def handle_input_def on_frame_def on_sync_request_def sync_wake_action_def Let_def)

text \<open>
  C40: A peer can stop the host runtime for ever. When the node manager and the network task have handled all their messages, a registered
  peer that sends frames with a sync request, faster than they are handled, brings the runtime into a state in which the node manager
  waits to send an answer to the network task and the network task waits to send a request to the node manager; from then on neither
  of them ever takes a step, whatever else happens, and the runtime does not end either.
\<close>

theorem runtime_can_deadlock:
  assumes "runs_to E S (host_runtime_init bc config identity transport st now_ms) s"
    and "rt_outcome s = None" and "rt_started s" and "rt_actions s = []" and "rt_events s = []"
    and "network_queue s = []" and "network_pending s = []" and "rt_network_error s = None"
    and "node_by_transport (rt_network s) t = Some n"
    and "message_from_bytes E frame = Inr (SyncRequestMsg request)"
    and "sync_response (blockchain (node_engine (rt_node s))) (sync_from request) (sync_to request) = Some response"
    and "message_to_bytes E (SyncResponseMsg response) = Some answer"
  shows "\<exists>u. runs_to E S s u \<and> runtime_deadlocked u \<and> rt_outcome u = None \<and>
    (\<forall>v. runs_to E S u v \<longrightarrow> rt_node v = rt_node u \<and> rt_actions v = rt_actions u \<and> rt_events v = rt_events u \<and> rt_network v = rt_network u)"
proof -
  have ok: "runtime_ok E S (host_runtime_init bc config identity transport st now_ms) s" using runtime_ok_reached [OF assms(1)] .
  have "engine_step E (node_engine (rt_node s)) (FrameReceived n frame) = Some (node_engine (rt_node s), [SendFrame n answer])"
    using sync_request_answered [OF engine_armed [OF assms(1)] assms(10-12)] .
  then have "flooded E t n frame (SendFrame n answer) 0 0 0 0 s"
    using ok assms(2-9) network_listens [OF assms(1)]
    by (simp add: flooded_def runtime_ok_def node_runs_def network_runs_def events_merge_def)
  from flood_deadlocks [OF this] obtain u where u: "runs_to E S s u"
    and fl: "flooded E t n frame (SendFrame n answer) 1 EVENT_CHANNEL_CAPACITY 1 NETWORK_CHANNEL_CAPACITY u" by blast
  have "cycle_closed u" "runtime_deadlocked u" "rt_outcome u = None"
    using fl by (simp_all add: flooded_def cycle_closed_def waits_for_def runtime_deadlocked_def)
  then show ?thesis using u cycle_for_ever by (fastforce simp: same_halves_def)
qed

section \<open>A concrete runtime\<close>

type_synonym demo_disk = "sled_tree \<times> byte_vec \<Rightarrow> byte_vec option"

definition demo_runtime :: "(demo_disk, u8, demo_sig, string) host_runtime" where
  "demo_runtime = host_runtime_init demo_tree (hn_config demo_host) (hn_identity demo_host) [7] (\<lambda>_. None) 0"

abbreviation demo_ops :: "(demo_disk, u8, demo_sig) storage_ops" where
  "demo_ops \<equiv> sled_ops (demo_store_env, demo_db)"

abbreviation demo_runs :: "(demo_disk, u8, demo_sig, string) host_runtime \<Rightarrow> bool" where
  "demo_runs s \<equiv> runs_to demo_hello_env demo_ops demo_runtime s"

lemma demo_runtime_sel:
  "rt_outcome demo_runtime = None" "\<not> rt_started demo_runtime" "rt_actions demo_runtime = []" "rt_events demo_runtime = []"
  "rt_taken demo_runtime = []" "rt_network demo_runtime = demo_host" "rt_network_in demo_runtime = 0" "rt_network_out demo_runtime = 0"
  "rt_network_error demo_runtime = None" "rt_storage demo_runtime = \<lparr> backend = (\<lambda>_. None), storage_event_tx = open_channel \<rparr>"
  "rt_storage_in demo_runtime = 0" "rt_storage_out demo_runtime = 0"
  "rt_node demo_runtime = NodeManager_new (NodeEngine_new demo_tree) open_channel open_channel open_channel"
  by (simp_all add: demo_runtime_def host_runtime_init_def demo_host_def HostNetwork_new_def)

definition demo_started :: "(demo_disk, u8, demo_sig, string) host_runtime" where
  "demo_started = demo_runtime\<lparr>rt_node := node_begun (rt_node demo_runtime), rt_started := True\<rparr>"

lemma demo_channels_open: "channels_open (rt_node demo_runtime)"
  by (simp add: demo_runtime_sel NodeManager_new_def channels_open_def open_channel_def)

lemma demo_starts: "demo_runs demo_started"
  unfolding demo_started_def
  by (rule runs_task [OF runs_refl node_starts [OF _ _ _ started_open [OF demo_channels_open]]])
    (simp_all add: demo_runtime_sel NodeManager_new_def open_channel_def capacity_defs)

lemma demo_first_load:
  "host_storage_command demo_ops LoadLatestSnapshotCommand (rt_storage demo_runtime) =
    (Inr (), \<lparr> backend = (\<lambda>_. None), storage_event_tx = \<lparr> sent = [LatestSnapshotLoadedEvent None None], receiver_dropped = False \<rparr> \<rparr>)"
  by (simp add: demo_runtime_sel and_then_def map_err_effect_def read_backend_def sled_ops_def demo_db_def
      sled_load_latest_snapshot_bundle_def send_event_def send_on_def send_def open_channel_def)

lemma demo_loads:
  "\<exists>s. demo_runs s \<and> rt_outcome s = None \<and> rt_started s \<and> rt_actions s = [] \<and> storage_queue s = [] \<and>
    sent (storage_tx (rt_node s)) = [LoadLatestSnapshotCommand] \<and> storage_pending s = [LatestSnapshotLoadedEvent None None] \<and>
    node_engine (rt_node s) = NodeEngine_new demo_tree"
proof -
  let ?sm = "\<lparr> backend = (\<lambda>_. None), storage_event_tx = \<lparr> sent = [LatestSnapshotLoadedEvent None None], receiver_dropped = False \<rparr> \<rparr>
    :: (demo_disk, u8, demo_sig) StorageManager"
  let ?s = "demo_started\<lparr>rt_storage := ?sm, rt_storage_in := 1\<rparr>"
  have cmd: "host_storage_command demo_ops LoadLatestSnapshotCommand (rt_storage demo_started) = (Inr (), ?sm)"
    using demo_first_load by (simp add: demo_started_def)
  have "task_step demo_hello_env demo_ops demo_started (demo_started\<lparr>rt_storage := ?sm, rt_storage_in := Suc (rt_storage_in demo_started)\<rparr>)"
    by (rule storage_takes [where scs = "[]", OF _ _ _ cmd])
      (simp_all add: demo_started_def demo_runtime_sel NodeManager_new_def open_channel_def)
  moreover have "rt_storage_in demo_started = 0" by (simp add: demo_started_def demo_runtime_sel)
  ultimately have "demo_runs ?s" using runs_task [OF demo_starts] by simp
  then show ?thesis
    by (intro exI [of _ ?s]) (simp add: demo_started_def demo_runtime_sel NodeManager_new_def open_channel_def)
qed

theorem runtime_runs_tasks_witness:
  "\<exists>s nm. demo_runs s \<and> rt_started s \<and>
    host_node_run demo_hello_env (rt_taken s) (NodeManager_new (NodeEngine_new demo_tree) open_channel open_channel open_channel) = Some (Inr (), nm) \<and>
    host_handle_actions (rt_actions s) (rt_node s) = (Inr (), nm) \<and> queues_bounded s"
  using demo_loads runtime_runs_tasks [of demo_hello_env demo_ops demo_tree "hn_config demo_host" "hn_identity demo_host" "[7]" "\<lambda>_. None" 0]
  unfolding demo_runtime_def by blast

theorem runtime_progress_witness: "\<exists>s t. demo_runs s \<and> storage_queue s \<noteq> [] \<and> task_step demo_hello_env demo_ops s t"
proof -
  have queue: "storage_queue demo_started \<noteq> []" and "rt_outcome demo_started = None" "rt_events demo_started = []"
    by (simp_all add: demo_started_def demo_runtime_sel NodeManager_new_def open_channel_def)
  then have "\<not> runtime_idle demo_started" "\<not> runtime_deadlocked demo_started" "rt_outcome demo_started = None"
    by (simp_all add: runtime_idle_def runtime_deadlocked_def capacity_defs)
  then show ?thesis using runtime_progress [OF demo_starts [unfolded demo_runtime_def]] demo_starts queue by blast
qed

text \<open>A run in which a peer registers and the node manager asks it for blocks.\<close>

lemma demo_engine_connected:
  "\<exists>e at_ms. engine_step demo_hello_env (NodeEngine_new demo_tree) (PeerConnected n) =
      Some (e, [ReportEvent ''peer connected'', RequestBlocks n 1 100, ScheduleWake at_ms]) \<and> blockchain e = demo_tree \<and> pending_blocks e = []"
  by (simp add: engine_step_def handle_input_def on_peer_connected_def NodeEngine_new_def get_latest_block_def demo_tree_def demo_genesis_def
      queue_block_request_def sync_wake_action_def next_wake_def Let_def REQUEST_TIMEOUT_MS_def saturating_add_def)

lemma demo_hello_turn:
  assumes "host_verify demo_hello_env h [5] = Inr v"
  shows "\<exists>hn. host_turn demo_hello_env demo_swarm (HostSwarm (HelloRequested [5] h 0)) demo_host = Some (Inr (), hn) \<and>
    peer_by_node hn (host_verified_node v) = Some [5] \<and> node_by_transport hn [5] = Some (host_verified_node v) \<and>
    sent (hn_event_tx hn) = [PeerConnectedEvent (host_verified_node v)]"
proof -
  obtain local where "host_build_local_hello demo_hello_env demo_host = Inr local" using demo_host_hello by blast
  then show ?thesis
    by (simp add: handle_hello_request_def assms and_then_def hello_or_disconnect_def respond_def
        demo_swarm_def register_verified_peer_def demo_host_def HostNetwork_new_def host_build_local_hello_def Let_def
        host_emit_def send_on_def send_def open_channel_def host_encode_transcript_def)
qed

lemma demo_greeted:
  "\<exists>s n. demo_runs s \<and> rt_outcome s = None \<and> rt_started s \<and> rt_actions s = [] \<and> rt_events s = [PeerConnectedEvent n] \<and>
    network_queue s = [] \<and> network_pending s = [] \<and> rt_network_error s = None \<and> peer_by_node (rt_network s) n = Some [5] \<and>
    node_by_transport (rt_network s) [5] = Some n \<and> node_engine (rt_node s) = NodeEngine_new demo_tree \<and>
    sent (network_tx (rt_node s)) = [] \<and> rt_network_in s = 0 \<and> sent (wake_tx (rt_node s)) = [] \<and> rt_network_out s = 1 \<and>
    rt_storage s = rt_storage demo_runtime \<and> rt_storage_in s = 0 \<and> rt_storage_out s = 0 \<and>
    sent (storage_tx (rt_node s)) = [LoadLatestSnapshotCommand]"
proof -
  obtain h n where h: "host_verify demo_hello_env h [5] = Inr \<lparr> host_verified_node = n, host_verified_max_blocks = 8 \<rparr>"
    using demo_peer_hello by blast
  then obtain hn where turn: "host_turn demo_hello_env demo_swarm (HostSwarm (HelloRequested [5] h 0)) demo_host = Some (Inr (), hn)"
    and hn: "peer_by_node hn n = Some [5]" "node_by_transport hn [5] = Some n" "sent (hn_event_tx hn) = [PeerConnectedEvent n]"
    using demo_hello_turn [OF h] by auto
  let ?s2 = "demo_started\<lparr>rt_network := hn, rt_inputs := rt_inputs demo_started @ [(demo_swarm, HostSwarm (HelloRequested [5] h 0))]\<rparr>"
  let ?s3 = "?s2\<lparr>rt_events := rt_events ?s2 @ [PeerConnectedEvent n], rt_network_out := Suc (rt_network_out ?s2)\<rparr>"
  have started: "rt_network demo_started = demo_host" "rt_outcome demo_started = None" "rt_network_out demo_started = 0" "rt_events demo_started = []"
    "rt_network_error demo_started = None" "rt_started demo_started" "rt_actions demo_started = []" "rt_network_in demo_started = 0"
    "node_engine (rt_node demo_started) = NodeEngine_new demo_tree" "sent (network_tx (rt_node demo_started)) = []"
    "sent (wake_tx (rt_node demo_started)) = []" "rt_storage demo_started = rt_storage demo_runtime" "rt_storage_in demo_started = 0"
    "rt_storage_out demo_started = 0" "sent (storage_tx (rt_node demo_started)) = [LoadLatestSnapshotCommand]"
    by (simp_all add: demo_started_def demo_runtime_sel NodeManager_new_def open_channel_def)
  have "outside_step demo_hello_env demo_started ?s2"
    by (rule swarm_handled [OF _ _ _ turn [folded started(1)]])
      (simp_all add: started demo_host_def HostNetwork_new_def open_channel_def)
  then have s2: "demo_runs ?s2" by (rule runs_outside [OF demo_starts])
  have "task_step demo_hello_env demo_ops ?s2 ?s3"
    by (rule network_sends [where events = "[]"]) (simp_all add: started hn capacity_defs)
  then have "demo_runs ?s3" by (rule runs_task [OF s2])
  then show ?thesis by (intro exI [of _ ?s3] exI [of _ n]) (simp add: started hn)
qed

lemma action_step:
  assumes "rt_outcome s = None" and "rt_actions s = a # acts" and "action_room a s" and "channels_open (rt_node s)"
  shows "task_step E S s (s\<lparr>rt_node := after_actions [a] (rt_node s), rt_actions := acts\<rparr>)"
  by (rule node_acts [OF assms(1-3) handled_open [OF assms(4)]])

lemma demo_registered:
  "\<exists>s n. demo_runs s \<and> rt_outcome s = None \<and> rt_started s \<and> rt_actions s = [] \<and> rt_events s = [] \<and> network_queue s = [] \<and>
    network_pending s = [] \<and> rt_network_error s = None \<and> node_by_transport (rt_network s) [5] = Some n \<and>
    blockchain (node_engine (rt_node s)) = demo_tree \<and> pending_blocks (node_engine (rt_node s)) = [] \<and>
    rt_storage s = rt_storage demo_runtime \<and> rt_storage_in s = 0 \<and> rt_storage_out s = 0 \<and>
    sent (storage_tx (rt_node s)) = [LoadLatestSnapshotCommand]"
proof -
  obtain s1 n where s1: "demo_runs s1" "rt_outcome s1 = None" "rt_started s1" "rt_actions s1 = []" "rt_events s1 = [PeerConnectedEvent n]"
    "network_queue s1 = []" "network_pending s1 = []" "rt_network_error s1 = None" "peer_by_node (rt_network s1) n = Some [5]"
    "node_by_transport (rt_network s1) [5] = Some n" "node_engine (rt_node s1) = NodeEngine_new demo_tree"
    "sent (network_tx (rt_node s1)) = []" "rt_network_in s1 = 0" "sent (wake_tx (rt_node s1)) = []"
    "rt_storage s1 = rt_storage demo_runtime" "rt_storage_in s1 = 0" "rt_storage_out s1 = 0" "sent (storage_tx (rt_node s1)) = [LoadLatestSnapshotCommand]"
    using demo_greeted by (elim exE conjE) (rule that; assumption)
  obtain e at_ms where step: "engine_step demo_hello_env (node_engine (rt_node s1)) (PeerConnected n) =
      Some (e, [ReportEvent ''peer connected'', RequestBlocks n 1 100, ScheduleWake at_ms])" and e: "blockchain e = demo_tree" "pending_blocks e = []"
    using demo_engine_connected [of n] s1(11) by auto
  have open_node: "channels_open (rt_node s1)"
    using runtime_ok_reached [OF s1(1) [unfolded demo_runtime_def]] by (simp add: runtime_ok_def node_runs_def)
  let ?s2 = "s1\<lparr>rt_events := [], rt_taken := rt_taken s1 @ [PeerConnectedEvent n], rt_node := (rt_node s1)\<lparr>node_engine := e\<rparr>,
      rt_actions := [ReportEvent ''peer connected'', RequestBlocks n 1 100, ScheduleWake at_ms]\<rparr>"
  let ?s3 = "?s2\<lparr>rt_node := after_actions [ReportEvent ''peer connected''] (rt_node ?s2), rt_actions := [RequestBlocks n 1 100, ScheduleWake at_ms]\<rparr>"
  let ?s4 = "?s3\<lparr>rt_node := after_actions [RequestBlocks n 1 100] (rt_node ?s3), rt_actions := [ScheduleWake at_ms]\<rparr>"
  let ?s5 = "?s4\<lparr>rt_node := after_actions [ScheduleWake at_ms] (rt_node ?s4), rt_actions := []\<rparr>"
  have "task_step demo_hello_env demo_ops s1 ?s2" by (rule node_receives [OF s1(2-5)]) (simp add: step)
  then have s2: "demo_runs ?s2" by (rule runs_task [OF s1(1)])
  have "task_step demo_hello_env demo_ops ?s2 ?s3" by (rule action_step) (simp_all add: s1 open_node action_room_def)
  then have s3: "demo_runs ?s3" by (rule runs_task [OF s2])
  have "task_step demo_hello_env demo_ops ?s3 ?s4" by (rule action_step) (simp_all add: s1 open_node action_room_def capacity_defs)
  then have s4: "demo_runs ?s4" by (rule runs_task [OF s3])
  have "task_step demo_hello_env demo_ops ?s4 ?s5" by (rule action_step) (simp_all add: s1 open_node action_room_def capacity_defs)
  then have s5: "demo_runs ?s5" by (rule runs_task [OF s4])
  obtain hn where turn: "host_turn demo_hello_env demo_swarm (HostCommand [] (RequestBlocksCommand n 1 100)) (rt_network ?s5) = Some (Inr (), hn)"
    and hn: "hn_event_tx hn = hn_event_tx (rt_network s1)" "node_by_transport hn = node_by_transport (rt_network s1)"
    using s1(9) by (simp add: host_handle_command_def send_sync_request_def Let_def)
  have queue: "network_queue ?s5 = [RequestBlocksCommand n 1 100]" by (simp add: s1)
  let ?s6 = "?s5\<lparr>rt_network := hn, rt_network_in := Suc (rt_network_in ?s5),
      rt_inputs := rt_inputs ?s5 @ [(demo_swarm, HostCommand [] (RequestBlocksCommand n 1 100))]\<rparr>"
  have "task_step demo_hello_env demo_ops ?s5 ?s6"
    by (rule network_takes [where S = demo_ops, OF _ _ _ queue turn]) (simp_all add: s1)
  then have "demo_runs ?s6" by (rule runs_task [OF s5])
  then show ?thesis by (intro exI [of _ ?s6] exI [of _ n]) (simp add: s1 hn e)
qed

theorem runtime_can_deadlock_witness:
  "\<exists>s u. demo_runs s \<and> runs_to demo_hello_env demo_ops s u \<and> runtime_deadlocked u \<and> rt_outcome u = None \<and>
    (\<forall>v. runs_to demo_hello_env demo_ops u v \<longrightarrow>
       rt_node v = rt_node u \<and> rt_actions v = rt_actions u \<and> rt_events v = rt_events u \<and> rt_network v = rt_network u)"
proof -
  obtain s n where s: "demo_runs s" "rt_outcome s = None" "rt_started s" "rt_actions s = []" "rt_events s = []" "network_queue s = []"
    "network_pending s = []" "rt_network_error s = None" "node_by_transport (rt_network s) [5] = Some n"
    and tree: "blockchain (node_engine (rt_node s)) = demo_tree"
    using demo_registered by (elim exE conjE) (rule that; assumption)
  have frame: "message_from_bytes demo_hello_env [2] = Inr (SyncRequestMsg (SyncRequest 0 9))"
    by (simp add: message_from_bytes_def decode_or_def demo_hello_env_def net.defs demo_net_def demo_decode_def)
  obtain response where response: "sync_response (blockchain (node_engine (rt_node s))) (sync_from (SyncRequest 0 9)) (sync_to (SyncRequest 0 9)) = Some response"
    using sync_response_returns [OF demo_tree_ok] tree by metis
  obtain answer where answer: "message_to_bytes demo_hello_env (SyncResponseMsg response) = Some answer"
    by (simp add: message_to_bytes_def demo_hello_env_def net.defs demo_net_def demo_encode_def)
  show ?thesis using runtime_can_deadlock [OF s(1) [unfolded demo_runtime_def] s(2-9) frame response answer] s(1) by blast
qed

text \<open>A run in which the peer announces a block: it is imported and written to the disk.\<close>

lemma demo_hello_hash [simp]: "block_hash demo_hello_env b = block_hash demo b"
  using to_bytes_cong(4) [of demo_hello_env demo b]
  by (simp add: block_hash_def hash_def demo_hello_env_def net.defs demo_net_def demo_def)

lemma demo_hello_valid [simp]: "block_is_valid demo_hello_env b = block_is_valid demo b"
  by (simp add: block_is_valid_def split: option.split)

lemma demo_hello_accepts:
  "validate_and_apply_block demo_hello_env demo_genesis State_new demo_child = Some (Inr State_new)"
  by (simp add: validate_and_apply_block_def demo_child_def demo_genesis_def get_expected_validator_def
      State_new_def arith_defs compute_state_root_def merkle_root.simps)

lemma demo_hello_adds:
  "add_block demo_hello_env demo_tree demo_child State_new = Some (demo_tree2, Inr \<lparr> next_state = State_new, became_head = True \<rparr>)"
proof -
  have sel: "previous_hash demo_child = 1" "height demo_child = 1" "transactions demo_child = []" "height demo_genesis = 0"
    by (simp_all add: demo_child_def demo_genesis_def)
  show ?thesis
    using demo_hello_accepts
    by (simp add: add_block_def demo_tree_def demo_tree2_def sel attach_block_def bt_contains_key_def
        get_latest_block_def should_replace_head_def demo_child_hash Let_def)
qed

lemma demo_block_imported:
  assumes "blockchain e = demo_tree" and "pending_blocks e = []" and "armed e"
  shows "engine_step demo_hello_env e (FrameReceived n [1]) =
    Some (e\<lparr>blockchain := demo_tree2\<rparr>, [PersistBlock demo_child, PersistSnapshot (1 + (2 ^ 64 + 8)) (State_to_bytes State_new),
      ReportEvent ''Block added''])"
proof -
  have "previous_hash demo_child = 1" "head_hash demo_tree = 1" "state demo_tree = State_new"
    by (simp_all add: demo_child_def demo_tree_def)
  moreover have "message_from_bytes demo_hello_env [1] = Inr (AnnounceRequestMsg (announce_block demo_child))"
    by (simp add: message_from_bytes_def decode_or_def demo_hello_env_def net.defs demo_net_def demo_decode_def)
  ultimately show ?thesis
    using assms demo_hello_adds
    by (simp add: engine_step_def handle_input_def on_frame_def announce_block_def ingest_block_def import_parked_blocks_def demo_child_hash
        sync_wake_action_def)
qed

abbreviation demo_persists :: "(u8, demo_sig) NodeAction list" where
  "demo_persists \<equiv> [PersistBlock demo_child, PersistSnapshot (1 + (2 ^ 64 + 8)) (State_to_bytes State_new), ReportEvent ''Block added'']"

lemma demo_imports:
  "\<exists>s. demo_runs s \<and> rt_outcome s = None \<and> rt_actions s = demo_persists \<and> rt_events s = [] \<and> channels_open (rt_node s) \<and>
    rt_storage s = rt_storage demo_runtime \<and> rt_storage_in s = 0 \<and> rt_storage_out s = 0 \<and>
    sent (storage_tx (rt_node s)) = [LoadLatestSnapshotCommand] \<and> blockchain (node_engine (rt_node s)) = demo_tree2"
proof -
  obtain s n where s: "demo_runs s" "rt_outcome s = None" "rt_started s" "rt_actions s = []" "rt_events s = []" "network_queue s = []"
    "network_pending s = []" "rt_network_error s = None" "node_by_transport (rt_network s) [5] = Some n"
    "blockchain (node_engine (rt_node s)) = demo_tree" "pending_blocks (node_engine (rt_node s)) = []"
    "rt_storage s = rt_storage demo_runtime" "rt_storage_in s = 0" "rt_storage_out s = 0" "sent (storage_tx (rt_node s)) = [LoadLatestSnapshotCommand]"
    using demo_registered by (elim exE conjE) (rule that; assumption)
  have step: "engine_step demo_hello_env (node_engine (rt_node s)) (FrameReceived n [1]) =
      Some ((node_engine (rt_node s))\<lparr>blockchain := demo_tree2\<rparr>, demo_persists)"
    using demo_block_imported [OF s(10,11) engine_armed [OF s(1) [unfolded demo_runtime_def]]] .
  have ok: "channels_open (rt_node s)" "rt_network_out s \<le> length (sent (hn_event_tx (rt_network s)))"
    using runtime_ok_reached [OF s(1) [unfolded demo_runtime_def]] by (simp_all add: runtime_ok_def node_runs_def events_merge_def)
  then have all: "rt_network_out s = length (sent (hn_event_tx (rt_network s)))" using s(7) by simp
  let ?ev = "FrameReceivedEvent n [1]"
  let ?hn = "(rt_network s)\<lparr>hn_event_tx := (hn_event_tx (rt_network s))\<lparr>sent := sent (hn_event_tx (rt_network s)) @ [?ev]\<rparr>\<rparr>"
  let ?s1 = "s\<lparr>rt_network := ?hn, rt_inputs := rt_inputs s @ [(demo_swarm, HostSwarm (GossipMessage [5] [1]))]\<rparr>"
  let ?s2 = "?s1\<lparr>rt_events := rt_events ?s1 @ [?ev], rt_network_out := Suc (rt_network_out ?s1)\<rparr>"
  let ?s3 = "?s2\<lparr>rt_events := [], rt_taken := rt_taken ?s2 @ [?ev],
      rt_node := (rt_node ?s2)\<lparr>node_engine := (node_engine (rt_node s))\<lparr>blockchain := demo_tree2\<rparr>\<rparr>, rt_actions := demo_persists\<rparr>"
  have "host_turn demo_hello_env demo_swarm (HostSwarm (GossipMessage [5] [1])) (rt_network s) = Some (Inr (), ?hn)"
    using s(9) network_listens [OF s(1) [unfolded demo_runtime_def]] by (simp add: handle_gossip_def host_emit_def send_on_def send_def)
  from swarm_handled [OF s(2,7,8) this] have s1: "demo_runs ?s1" by (rule runs_outside [OF s(1)])
  have "task_step demo_hello_env demo_ops ?s1 ?s2" by (rule network_sends [where events = "[]"]) (simp_all add: s all capacity_defs)
  then have s2: "demo_runs ?s2" by (rule runs_task [OF s1])
  have "task_step demo_hello_env demo_ops ?s2 ?s3" by (rule node_receives) (simp_all add: s step)
  then have "demo_runs ?s3" by (rule runs_task [OF s2])
  then show ?thesis by (intro exI [of _ ?s3]) (simp add: s ok)
qed

lemma demo_stores:
  "\<exists>st'. host_storage_command demo_ops (PersistBlockCommand b) \<lparr> backend = st, storage_event_tx = ch \<rparr> =
    (Inr (), \<lparr> backend = st', storage_event_tx = ch \<rparr>)"
  "\<exists>st'. host_storage_command demo_ops (PersistSnapshotCommand h x) \<lparr> backend = st, storage_event_tx = ch \<rparr> =
    (Inr (), \<lparr> backend = st', storage_event_tx = ch \<rparr>)"
  by (simp_all add: map_err_effect_def on_backend_def sled_ops_def sled_save_block_def sled_save_snapshot_def flush_db_def demo_db_def and_then_def)

lemma demo_acted:
  "\<exists>s. demo_runs s \<and> rt_outcome s = None \<and> rt_actions s = [] \<and> rt_events s = [] \<and> rt_storage s = rt_storage demo_runtime \<and>
    rt_storage_in s = 0 \<and> rt_storage_out s = 0 \<and> blockchain (node_engine (rt_node s)) = demo_tree2 \<and>
    sent (storage_tx (rt_node s)) = [LoadLatestSnapshotCommand, PersistBlockCommand demo_child,
      PersistSnapshotCommand (1 + (2 ^ 64 + 8)) (State_to_bytes State_new)]"
proof -
  obtain s where s: "demo_runs s" "rt_outcome s = None" "rt_actions s = demo_persists" "rt_events s = []" "channels_open (rt_node s)"
    "rt_storage s = rt_storage demo_runtime" "rt_storage_in s = 0" "rt_storage_out s = 0"
    "sent (storage_tx (rt_node s)) = [LoadLatestSnapshotCommand]" "blockchain (node_engine (rt_node s)) = demo_tree2"
    using demo_imports by (elim exE conjE) (rule that; assumption)
  let ?s1 = "s\<lparr>rt_node := after_actions [PersistBlock demo_child] (rt_node s), rt_actions := tl demo_persists\<rparr>"
  let ?s2 = "?s1\<lparr>rt_node := after_actions [PersistSnapshot (1 + (2 ^ 64 + 8)) (State_to_bytes State_new)] (rt_node ?s1),
      rt_actions := [ReportEvent ''Block added'']\<rparr>"
  let ?s3 = "?s2\<lparr>rt_node := after_actions [ReportEvent ''Block added''] (rt_node ?s2), rt_actions := []\<rparr>"
  have "task_step demo_hello_env demo_ops s ?s1" by (rule action_step) (simp_all add: s action_room_def capacity_defs)
  then have s1: "demo_runs ?s1" by (rule runs_task [OF s(1)])
  have "task_step demo_hello_env demo_ops ?s1 ?s2" by (rule action_step) (simp_all add: s action_room_def capacity_defs)
  then have s2: "demo_runs ?s2" by (rule runs_task [OF s1])
  have "task_step demo_hello_env demo_ops ?s2 ?s3" by (rule action_step) (simp_all add: s action_room_def)
  then have "demo_runs ?s3" by (rule runs_task [OF s2])
  then show ?thesis by (intro exI [of _ ?s3]) (simp add: s)
qed

lemma demo_written:
  "\<exists>s. demo_runs s \<and> rt_actions s = [] \<and> storage_queue s = [] \<and> blockchain (node_engine (rt_node s)) = demo_tree2 \<and>
    sent (storage_tx (rt_node s)) = [LoadLatestSnapshotCommand, PersistBlockCommand demo_child,
      PersistSnapshotCommand (1 + (2 ^ 64 + 8)) (State_to_bytes State_new)]"
proof -
  obtain s where s: "demo_runs s" "rt_outcome s = None" "rt_actions s = []" "rt_events s = []" "rt_storage s = rt_storage demo_runtime"
    "rt_storage_in s = 0" "rt_storage_out s = 0" "blockchain (node_engine (rt_node s)) = demo_tree2"
    "sent (storage_tx (rt_node s)) = [LoadLatestSnapshotCommand, PersistBlockCommand demo_child,
      PersistSnapshotCommand (1 + (2 ^ 64 + 8)) (State_to_bytes State_new)]"
    using demo_acted by (elim exE conjE) (rule that; assumption)
  let ?ch = "\<lparr> sent = [LatestSnapshotLoadedEvent None None], receiver_dropped = False \<rparr> :: (u8, demo_sig) RuntimeEvent channel"
  let ?s1 = "s\<lparr>rt_storage := \<lparr> backend = (\<lambda>_. None), storage_event_tx = ?ch \<rparr>, rt_storage_in := Suc (rt_storage_in s)\<rparr>"
  let ?s2 = "?s1\<lparr>rt_events := rt_events ?s1 @ [LatestSnapshotLoadedEvent None None], rt_storage_out := Suc (rt_storage_out ?s1)\<rparr>"
  have "task_step demo_hello_env demo_ops s ?s1"
    by (rule storage_takes [OF _ _ _ demo_first_load [folded s(5)]]) (simp_all add: s demo_runtime_sel open_channel_def)
  then have s1: "demo_runs ?s1" by (rule runs_task [OF s(1)])
  have "task_step demo_hello_env demo_ops ?s1 ?s2" by (rule storage_sends [where events = "[]"]) (simp_all add: s capacity_defs)
  then have s2: "demo_runs ?s2" by (rule runs_task [OF s1])
  obtain st1 where st1: "host_storage_command demo_ops (PersistBlockCommand demo_child) (rt_storage ?s2) = (Inr (), \<lparr> backend = st1, storage_event_tx = ?ch \<rparr>)"
    using demo_stores(1) [of demo_child "\<lambda>_. None" ?ch] by auto
  let ?s3 = "?s2\<lparr>rt_storage := \<lparr> backend = st1, storage_event_tx = ?ch \<rparr>, rt_storage_in := Suc (rt_storage_in ?s2)\<rparr>"
  have "task_step demo_hello_env demo_ops ?s2 ?s3" by (rule storage_takes [OF _ _ _ st1]) (simp_all add: s)
  then have s3: "demo_runs ?s3" by (rule runs_task [OF s2])
  obtain st2 where st2: "host_storage_command demo_ops (PersistSnapshotCommand (1 + (2 ^ 64 + 8)) (State_to_bytes State_new)) (rt_storage ?s3) =
      (Inr (), \<lparr> backend = st2, storage_event_tx = ?ch \<rparr>)"
    using demo_stores(2) [of _ _ st1 ?ch] by auto
  let ?s4 = "?s3\<lparr>rt_storage := \<lparr> backend = st2, storage_event_tx = ?ch \<rparr>, rt_storage_in := Suc (rt_storage_in ?s3)\<rparr>"
  have "task_step demo_hello_env demo_ops ?s3 ?s4" by (rule storage_takes [OF _ _ _ st2]) (simp_all add: s)
  then have "demo_runs ?s4" by (rule runs_task [OF s3])
  then show ?thesis by (intro exI [of _ ?s4]) (simp add: s)
qed

theorem runtime_blocks_on_disk_witness:
  "\<exists>s. demo_runs s \<and> demo_child \<in> stored (chain (blockchain (node_engine (rt_node s)))) \<and> demo_child \<notin> stored (chain demo_tree) \<and>
    (demo_child \<in> restored_blocks (rt_taken s) \<or>
     (\<exists>b'. sled_load_block demo_store_env demo_db (block_hash demo_store_env demo_child) (backend (rt_storage s)) = Inr (Some b') \<and>
        block_hash demo_store_env b' = block_hash demo_store_env demo_child))"
proof -
  obtain s where s: "demo_runs s" "rt_actions s = []" "storage_queue s = []" "blockchain (node_engine (rt_node s)) = demo_tree2"
    "sent (storage_tx (rt_node s)) = [LoadLatestSnapshotCommand, PersistBlockCommand demo_child,
      PersistSnapshotCommand (1 + (2 ^ 64 + 8)) (State_to_bytes State_new)]"
    using demo_written by (elim exE conjE) (rule that; assumption)
  have "height demo_child \<noteq> height demo_genesis" by (simp add: demo_child_def demo_genesis_def)
  then have wf: "bt_wf (chain demo_tree)" and "demo_child \<in> stored (chain demo_tree2)" and new: "demo_child \<notin> stored (chain demo_tree)"
    by (auto simp: demo_tree_def demo_tree2_def bt_wf_def split: if_splits)
  then have child: "demo_child \<in> stored (chain (blockchain (node_engine (rt_node s))))" by (simp add: s(4))
  have storable: "\<forall>b. PersistBlockCommand b \<in> set (sent (storage_tx (rt_node s))) \<longrightarrow>
      postcard_ok (encode_block demo_store_env) (decode_block demo_store_env) b" by (simp add: s(5) postcard_ok_def)
  show ?thesis
    using runtime_blocks_on_disk [OF s(1) [unfolded demo_runtime_def] demo_db_ok wf s(2,3) storable child] s(1) child new by blast
qed

end
