(* ===== verification/NoiseStream.thy ===== *)
theory NoiseStream
  imports Effects
begin

text \<open>
  The encrypted byte stream of the embedded runtime (\<open>NoiseStream\<close> of
  \<open>erp-runtime/src/network/transport/noise.rs\<close>): reading and writing in terms of polls of the stream below.

  The stream below is an \<open>inner_stream\<close>: what each poll for reading, writing and flushing will give. A poll for reading may
  give any number of bytes up to the size of the buffer, may be pending or fail; a poll for writing may take any number
  of the bytes. A pending poll is tried again by the executor. The cipher states of the \<open>snow\<close> crate and their
  operations are the parameter \<open>K\<close>.
\<close>

section \<open>Polls of the stream below\<close>

datatype 'a poll = Pending | Ready 'a

datatype read_step = Chunk byte_vec | ReadPending | ReadFail IoError

datatype write_step = Accept nat | WritePending | WriteFail IoError

datatype flush_step = FlushDone | FlushPending | FlushFail IoError

record inner_stream =
  in_reads :: "read_step list"
  in_writes :: "write_step list"
  in_flushes :: "flush_step list"
  in_written :: byte_vec

text \<open>Up to \<open>n\<close> bytes; nothing is left to read when the list of steps is empty.\<close>

definition inner_poll_read :: "nat \<Rightarrow> inner_stream \<Rightarrow> (IoError, byte_vec) result poll \<times> inner_stream" where
  "inner_poll_read n s =
     (case in_reads s of
        [] \<Rightarrow> (Ready (Inr []), s)
      | Chunk bs # steps \<Rightarrow>
          (Ready (Inr (take n bs)), s\<lparr>in_reads := (if length bs \<le> n then steps else Chunk (drop n bs) # steps)\<rparr>)
      | ReadPending # steps \<Rightarrow> (Pending, s\<lparr>in_reads := steps\<rparr>)
      | ReadFail e # steps \<Rightarrow> (Ready (Inl e), s\<lparr>in_reads := steps\<rparr>))"

definition inner_poll_write :: "byte_vec \<Rightarrow> inner_stream \<Rightarrow> (IoError, nat) result poll \<times> inner_stream" where
  "inner_poll_write bs s =
     (case in_writes s of
        [] \<Rightarrow> (Ready (Inr (length bs)), s\<lparr>in_written := in_written s @ bs\<rparr>)
      | Accept n # steps \<Rightarrow>
          (Ready (Inr (min n (length bs))), s\<lparr>in_written := in_written s @ take n bs, in_writes := steps\<rparr>)
      | WritePending # steps \<Rightarrow> (Pending, s\<lparr>in_writes := steps\<rparr>)
      | WriteFail e # steps \<Rightarrow> (Ready (Inl e), s\<lparr>in_writes := steps\<rparr>))"

definition inner_poll_flush :: "inner_stream \<Rightarrow> (IoError, unit) result poll \<times> inner_stream" where
  "inner_poll_flush s =
     (case in_flushes s of
        [] \<Rightarrow> (Ready (Inr ()), s)
      | FlushDone # steps \<Rightarrow> (Ready (Inr ()), s\<lparr>in_flushes := steps\<rparr>)
      | FlushPending # steps \<Rightarrow> (Pending, s\<lparr>in_flushes := steps\<rparr>)
      | FlushFail e # steps \<Rightarrow> (Ready (Inl e), s\<lparr>in_flushes := steps\<rparr>))"

section \<open>State\<close>

record 'c cipher_env =
  tr_write_message :: "'c \<Rightarrow> byte_vec \<Rightarrow> (string, byte_vec) result \<times> 'c"
  tr_read_message :: "'c \<Rightarrow> byte_vec \<Rightarrow> (string, byte_vec) result \<times> 'c"

record 'c NoiseStream =
  ns_inner :: inner_stream
  ns_session :: 'c
  read_len_buf :: byte_vec
  read_len_pos :: nat
  read_frame_len :: "nat option"
  read_encrypted :: byte_vec
  read_encrypted_pos :: nat
  read_plaintext :: byte_vec
  read_plaintext_pos :: nat
  write_frame_buf :: byte_vec
  write_frame_pos :: nat
  write_pending_consumed :: nat

definition NOISE_TAG_LEN :: nat where "NOISE_TAG_LEN = 16"
definition MAX_NOISE_FRAME_LEN :: nat where "MAX_NOISE_FRAME_LEN = 65535"
definition MAX_NOISE_PLAINTEXT_LEN :: nat where "MAX_NOISE_PLAINTEXT_LEN = MAX_NOISE_FRAME_LEN - NOISE_TAG_LEN"

definition NoiseStream_new :: "inner_stream \<Rightarrow> 'c \<Rightarrow> 'c NoiseStream" where
  "NoiseStream_new inner session =
     \<lparr> ns_inner = inner, ns_session = session, read_len_buf = [0, 0], read_len_pos = 0, read_frame_len = None,
       read_encrypted = [], read_encrypted_pos = 0, read_plaintext = [], read_plaintext_pos = 0,
       write_frame_buf = [], write_frame_pos = 0, write_pending_consumed = 0 \<rparr>"

definition noise_to_io_error :: "string \<Rightarrow> IoError" where
  "noise_to_io_error e = IoError InvalidData (''noise transport error: '' @ e)"

section \<open>Reading\<close>

text \<open>\<open>buf[pos..pos + bs.len()]\<close> is overwritten by \<open>bs\<close>.\<close>

definition overwrite :: "byte_vec \<Rightarrow> nat \<Rightarrow> byte_vec \<Rightarrow> byte_vec" where
  "overwrite buf pos bs = take pos buf @ bs @ drop (pos + length bs) buf"

lemma nonempty_progress: "bs \<noteq> [] \<Longrightarrow> pos < n \<Longrightarrow> n - (pos + length bs) < n - pos"
  by (cases bs) auto

text \<open>The loop over the two bytes of the length; \<open>False\<close> when the stream ends before the first of them.\<close>

function fill_length :: "'c NoiseStream \<Rightarrow> (IoError, bool) result poll \<times> 'c NoiseStream" where
  "fill_length ns =
     (if read_len_pos ns < 2 then
        (case inner_poll_read (2 - read_len_pos ns) (ns_inner ns) of
           (Pending, s) \<Rightarrow> (Pending, ns\<lparr>ns_inner := s\<rparr>)
         | (Ready (Inl e), s) \<Rightarrow> (Ready (Inl e), ns\<lparr>ns_inner := s\<rparr>)
         | (Ready (Inr bs), s) \<Rightarrow>
             (if bs = [] then
                (if read_len_pos ns = 0 then (Ready (Inr False), ns\<lparr>ns_inner := s\<rparr>)
                 else (Ready (Inl (IoError UnexpectedEof ''noise frame ended while reading length prefix'')), ns\<lparr>ns_inner := s\<rparr>))
              else fill_length (ns\<lparr>ns_inner := s, read_len_buf := overwrite (read_len_buf ns) (read_len_pos ns) bs,
                     read_len_pos := read_len_pos ns + length bs\<rparr>)))
      else (Ready (Inr True), ns))"
  by pat_completeness auto
termination by (relation "measure (\<lambda>ns. 2 - read_len_pos ns)") (auto simp: nonempty_progress)

function fill_body :: "nat \<Rightarrow> 'c NoiseStream \<Rightarrow> (IoError, unit) result poll \<times> 'c NoiseStream" where
  "fill_body frame_len ns =
     (if read_encrypted_pos ns < frame_len then
        (case inner_poll_read (frame_len - read_encrypted_pos ns) (ns_inner ns) of
           (Pending, s) \<Rightarrow> (Pending, ns\<lparr>ns_inner := s\<rparr>)
         | (Ready (Inl e), s) \<Rightarrow> (Ready (Inl e), ns\<lparr>ns_inner := s\<rparr>)
         | (Ready (Inr bs), s) \<Rightarrow>
             (if bs = []
              then (Ready (Inl (IoError UnexpectedEof ''noise frame ended while reading ciphertext'')), ns\<lparr>ns_inner := s\<rparr>)
              else fill_body frame_len (ns\<lparr>ns_inner := s,
                     read_encrypted := overwrite (read_encrypted ns) (read_encrypted_pos ns) bs,
                     read_encrypted_pos := read_encrypted_pos ns + length bs\<rparr>)))
      else (Ready (Inr ()), ns))"
  by pat_completeness auto
termination by (relation "measure (\<lambda>(frame_len, ns). frame_len - read_encrypted_pos ns)") (auto simp: nonempty_progress)

declare fill_length.simps [simp del] fill_body.simps [simp del]

text \<open>The frame length is decoded once its two bytes are there.\<close>

definition fill_header :: "'c NoiseStream \<Rightarrow> (IoError, nat option) result poll \<times> 'c NoiseStream" where
  "fill_header ns =
     (case read_frame_len ns of
        Some frame_len \<Rightarrow> (Ready (Inr (Some frame_len)), ns)
      | None \<Rightarrow>
          (case fill_length ns of
             (Pending, ns') \<Rightarrow> (Pending, ns')
           | (Ready (Inl e), ns') \<Rightarrow> (Ready (Inl e), ns')
           | (Ready (Inr False), ns') \<Rightarrow> (Ready (Inr None), ns')
           | (Ready (Inr True), ns') \<Rightarrow>
               (let frame_len = unat (from_be (read_len_buf ns') :: u16)
                in (Ready (Inr (Some frame_len)), ns'\<lparr>read_frame_len := Some frame_len,
                      read_encrypted := replicate frame_len 0, read_encrypted_pos := 0\<rparr>))))"

text \<open>A complete frame is decrypted. The buffers are cleared only when that succeeds.\<close>

definition decrypt_frame :: "'c cipher_env \<Rightarrow> 'c NoiseStream \<Rightarrow> (IoError, unit) result \<times> 'c NoiseStream" where
  "decrypt_frame K ns =
     (case tr_read_message K (ns_session ns) (read_encrypted ns) of
        (Inl e, c) \<Rightarrow> (Inl (noise_to_io_error e), ns\<lparr>ns_session := c\<rparr>)
      | (Inr plaintext, c) \<Rightarrow>
          (Inr (), ns\<lparr>ns_session := c, read_plaintext := plaintext, read_plaintext_pos := 0, read_frame_len := None,
             read_len_pos := 0, read_encrypted := [], read_encrypted_pos := 0\<rparr>))"

text \<open>The bytes and steps that are left to read bound the number of frames that can still be read.\<close>

fun step_size :: "read_step \<Rightarrow> nat" where
  "step_size (Chunk bs) = Suc (length bs)"
| "step_size ReadPending = 1"
| "step_size (ReadFail e) = 1"

definition reads_size :: "'c NoiseStream \<Rightarrow> nat" where
  "reads_size ns = sum_list (map step_size (in_reads (ns_inner ns)))"

definition inner_size :: "inner_stream \<Rightarrow> nat" where
  "inner_size s = sum_list (map step_size (in_reads s))"

lemma inner_poll_read_size:
  assumes "inner_poll_read n s = (r, s')" and "0 < n"
  shows "inner_size s' \<le> inner_size s" and "r \<noteq> Ready (Inr []) \<Longrightarrow> inner_size s' < inner_size s"
  using assms by (auto simp: inner_poll_read_def inner_size_def split: list.split_asm read_step.split_asm if_split_asm)

lemma fill_length_size:
  assumes "fill_length ns = (r, ns')"
  shows "reads_size ns' \<le> reads_size ns \<and> (r = Pending \<or> r = Ready (Inr True) \<and> read_len_pos ns < 2 \<longrightarrow> reads_size ns' < reads_size ns)"
  using assms
proof (induction ns rule: fill_length.induct)
  case (1 ns)
  show ?case
  proof (cases "read_len_pos ns < 2")
    case True
    obtain q s where q: "inner_poll_read (2 - read_len_pos ns) (ns_inner ns) = (q, s)" by (cases "inner_poll_read (2 - read_len_pos ns) (ns_inner ns)")
    note size = inner_poll_read_size [OF q] True
    show ?thesis
    proof (cases "\<exists>bs. q = Ready (Inr bs) \<and> bs \<noteq> []")
      case True
      then obtain bs where bs: "q = Ready (Inr bs)" "bs \<noteq> []" by blast
      let ?ns = "ns\<lparr>ns_inner := s, read_len_buf := overwrite (read_len_buf ns) (read_len_pos ns) bs, read_len_pos := read_len_pos ns + length bs\<rparr>"
      have "fill_length ?ns = (r, ns')" using 1(2) q bs \<open>read_len_pos ns < 2\<close> by (subst (asm) fill_length.simps) simp
      from 1(1) [OF \<open>read_len_pos ns < 2\<close> q [symmetric] bs(1) _ bs(2) this] size bs show ?thesis
        by (fastforce simp: reads_size_def inner_size_def)
    next
      case False
      then show ?thesis using 1(2) q size True
        by (subst (asm) fill_length.simps)
          (auto simp: reads_size_def inner_size_def split: poll.split_asm sum.split_asm if_split_asm)
    qed
  next
    case False
    then show ?thesis using 1(2) by (subst (asm) fill_length.simps) auto
  qed
qed

lemma fill_body_size:
  assumes "fill_body frame_len ns = (r, ns')"
  shows "reads_size ns' \<le> reads_size ns \<and> (r = Pending \<longrightarrow> reads_size ns' < reads_size ns)"
  using assms
proof (induction frame_len ns rule: fill_body.induct)
  case (1 frame_len ns)
  show ?case
  proof (cases "read_encrypted_pos ns < frame_len")
    case True
    obtain q s where q: "inner_poll_read (frame_len - read_encrypted_pos ns) (ns_inner ns) = (q, s)"
      by (cases "inner_poll_read (frame_len - read_encrypted_pos ns) (ns_inner ns)")
    note size = inner_poll_read_size [OF q] True
    show ?thesis
    proof (cases "\<exists>bs. q = Ready (Inr bs) \<and> bs \<noteq> []")
      case True
      then obtain bs where bs: "q = Ready (Inr bs)" "bs \<noteq> []" by blast
      let ?ns = "ns\<lparr>ns_inner := s, read_encrypted := overwrite (read_encrypted ns) (read_encrypted_pos ns) bs,
        read_encrypted_pos := read_encrypted_pos ns + length bs\<rparr>"
      have "fill_body frame_len ?ns = (r, ns')"
        using 1(2) q bs \<open>read_encrypted_pos ns < frame_len\<close> by (subst (asm) fill_body.simps) simp
      from 1(1) [OF \<open>read_encrypted_pos ns < frame_len\<close> q [symmetric] bs(1) _ bs(2) this] size bs show ?thesis
        by (fastforce simp: reads_size_def inner_size_def)
    next
      case False
      then show ?thesis using 1(2) q size True
        by (subst (asm) fill_body.simps)
          (auto simp: reads_size_def inner_size_def split: poll.split_asm sum.split_asm if_split_asm)
    qed
  next
    case False
    then show ?thesis using 1(2) by (subst (asm) fill_body.simps) auto
  qed
qed

definition frame_started :: "'c NoiseStream \<Rightarrow> nat" where
  "frame_started ns = (if 2 \<le> read_len_pos ns \<or> read_frame_len ns \<noteq> None then 1 else 0)"

lemma fill_header_size:
  assumes "fill_header ns = (r, ns')"
  shows "reads_size ns' \<le> reads_size ns" and "r = Pending \<Longrightarrow> reads_size ns' < reads_size ns"
    and "r = Ready (Inr (Some n)) \<Longrightarrow> reads_size ns' < reads_size ns + frame_started ns"
  using assms fill_length_size [of ns]
  by (auto simp: fill_header_def reads_size_def frame_started_def Let_def
      split: option.split_asm prod.split_asm poll.split_asm sum.split_asm bool.split_asm if_split_asm)

lemma decrypt_frame_started:
  "decrypt_frame K ns = (Inr u, ns') \<Longrightarrow> frame_started ns' = 0 \<and> reads_size ns' = reads_size ns"
  by (auto simp: decrypt_frame_def frame_started_def reads_size_def split: prod.split_asm sum.split_asm)

lemma fill_progress:
  assumes "fill_header (ns\<lparr>read_plaintext := [], read_plaintext_pos := 0\<rparr>) = (Ready (Inr (Some frame_len)), ns1)"
    and "fill_body frame_len ns1 = (r, ns2)" and "decrypt_frame K ns2 = (Inr u, ns3)"
  shows "2 * reads_size ns3 + frame_started ns3 < 2 * reads_size ns + frame_started ns"
  using fill_header_size(3) [OF assms(1) refl] fill_body_size [OF assms(2)] decrypt_frame_started [OF assms(3)]
  by (auto simp: reads_size_def frame_started_def split: if_split_asm)

function poll_fill_plaintext :: "'c cipher_env \<Rightarrow> 'c NoiseStream \<Rightarrow> (IoError, bool) result poll \<times> 'c NoiseStream" where
  "poll_fill_plaintext K ns =
     (if read_plaintext_pos ns < length (read_plaintext ns) then (Ready (Inr True), ns)
      else
        (case fill_header (ns\<lparr>read_plaintext := [], read_plaintext_pos := 0\<rparr>) of
           (Pending, ns1) \<Rightarrow> (Pending, ns1)
         | (Ready (Inl e), ns1) \<Rightarrow> (Ready (Inl e), ns1)
         | (Ready (Inr None), ns1) \<Rightarrow> (Ready (Inr False), ns1)
         | (Ready (Inr (Some frame_len)), ns1) \<Rightarrow>
             (case fill_body frame_len ns1 of
                (Pending, ns2) \<Rightarrow> (Pending, ns2)
              | (Ready (Inl e), ns2) \<Rightarrow> (Ready (Inl e), ns2)
              | (Ready (Inr _), ns2) \<Rightarrow>
                  (case decrypt_frame K ns2 of
                     (Inl e, ns3) \<Rightarrow> (Ready (Inl e), ns3)
                   | (Inr _, ns3) \<Rightarrow>
                       if read_plaintext ns3 \<noteq> [] then (Ready (Inr True), ns3) else poll_fill_plaintext K ns3))))"
  by pat_completeness auto
termination
  by (relation "measure (\<lambda>(K, ns). 2 * reads_size ns + frame_started ns)")
    (auto intro: fill_progress [OF sym sym sym])

declare poll_fill_plaintext.simps [simp del]

definition noise_poll_read :: "'c cipher_env \<Rightarrow> nat \<Rightarrow> 'c NoiseStream \<Rightarrow> (IoError, byte_vec) result poll \<times> 'c NoiseStream" where
  "noise_poll_read K n ns =
     (if n = 0 then (Ready (Inr []), ns)
      else
        (case poll_fill_plaintext K ns of
           (Pending, ns') \<Rightarrow> (Pending, ns')
         | (Ready (Inl e), ns') \<Rightarrow> (Ready (Inl e), ns')
         | (Ready (Inr False), ns') \<Rightarrow> (Ready (Inr []), ns')
         | (Ready (Inr True), ns') \<Rightarrow>
             (let available = drop (read_plaintext_pos ns') (read_plaintext ns');
                  len = min (length available) n;
                  pos = read_plaintext_pos ns' + len
              in (Ready (Inr (take len available)),
                  if pos = length (read_plaintext ns') then ns'\<lparr>read_plaintext := [], read_plaintext_pos := 0\<rparr>
                  else ns'\<lparr>read_plaintext_pos := pos\<rparr>))))"

section \<open>Writing\<close>

definition queue_encrypted_frame :: "'c cipher_env \<Rightarrow> byte_vec \<Rightarrow> 'c NoiseStream \<Rightarrow> (IoError, nat) result \<times> 'c NoiseStream" where
  "queue_encrypted_frame K plaintext ns =
     (let plaintext_len = min (length plaintext) MAX_NOISE_PLAINTEXT_LEN
      in case tr_write_message K (ns_session ns) (take plaintext_len plaintext) of
           (Inl e, c) \<Rightarrow> (Inl (noise_to_io_error e), ns\<lparr>ns_session := c\<rparr>)
         | (Inr ciphertext, c) \<Rightarrow>
             (Inr plaintext_len, ns\<lparr>ns_session := c,
                write_frame_buf := to_be 2 (word_of_nat (length ciphertext) :: u16) @ ciphertext, write_frame_pos := 0\<rparr>))"

function flush_frame_bytes :: "'c NoiseStream \<Rightarrow> (IoError, unit) result poll \<times> 'c NoiseStream" where
  "flush_frame_bytes ns =
     (if write_frame_pos ns < length (write_frame_buf ns) then
        (case inner_poll_write (drop (write_frame_pos ns) (write_frame_buf ns)) (ns_inner ns) of
           (Pending, s) \<Rightarrow> (Pending, ns\<lparr>ns_inner := s\<rparr>)
         | (Ready (Inl e), s) \<Rightarrow> (Ready (Inl e), ns\<lparr>ns_inner := s\<rparr>)
         | (Ready (Inr written), s) \<Rightarrow>
             (if written = 0
              then (Ready (Inl (IoError WriteZero ''failed to flush buffered noise frame'')), ns\<lparr>ns_inner := s\<rparr>)
              else flush_frame_bytes (ns\<lparr>ns_inner := s, write_frame_pos := write_frame_pos ns + written\<rparr>)))
      else (Ready (Inr ()), ns))"
  by pat_completeness auto
termination by (relation "measure (\<lambda>ns. length (write_frame_buf ns) - write_frame_pos ns)") auto

declare flush_frame_bytes.simps [simp del]

definition poll_flush_pending_frame :: "'c NoiseStream \<Rightarrow> (IoError, unit) result poll \<times> 'c NoiseStream" where
  "poll_flush_pending_frame ns =
     (case flush_frame_bytes ns of
        (Pending, ns') \<Rightarrow> (Pending, ns')
      | (Ready (Inl e), ns') \<Rightarrow> (Ready (Inl e), ns')
      | (Ready (Inr _), ns') \<Rightarrow>
          (case inner_poll_flush (ns_inner ns') of
             (Pending, s) \<Rightarrow> (Pending, ns'\<lparr>ns_inner := s\<rparr>)
           | (Ready (Inl e), s) \<Rightarrow> (Ready (Inl e), ns'\<lparr>ns_inner := s\<rparr>)
           | (Ready (Inr _), s) \<Rightarrow> (Ready (Inr ()), ns'\<lparr>ns_inner := s, write_frame_buf := [], write_frame_pos := 0\<rparr>)))"

text \<open>Encrypting a new frame, once no older frame is left.\<close>

definition write_new_frame :: "'c cipher_env \<Rightarrow> byte_vec \<Rightarrow> 'c NoiseStream \<Rightarrow> (IoError, nat) result poll \<times> 'c NoiseStream" where
  "write_new_frame K buf ns =
     (if buf = [] then (Ready (Inr 0), ns)
      else
        (case queue_encrypted_frame K buf ns of
           (Inl e, ns') \<Rightarrow> (Ready (Inl e), ns')
         | (Inr consumed, ns') \<Rightarrow>
             (case poll_flush_pending_frame ns' of
                (Pending, ns'') \<Rightarrow> (Pending, ns''\<lparr>write_pending_consumed := consumed\<rparr>)
              | (Ready (Inl e), ns'') \<Rightarrow> (Ready (Inl e), ns'')
              | (Ready (Inr _), ns'') \<Rightarrow> (Ready (Inr consumed), ns''))))"

definition noise_poll_write :: "'c cipher_env \<Rightarrow> byte_vec \<Rightarrow> 'c NoiseStream \<Rightarrow> (IoError, nat) result poll \<times> 'c NoiseStream" where
  "noise_poll_write K buf ns =
     (if write_pending_consumed ns > 0 then
        (case poll_flush_pending_frame ns of
           (Pending, ns') \<Rightarrow> (Pending, ns')
         | (Ready (Inl e), ns') \<Rightarrow> (Ready (Inl e), ns'\<lparr>write_pending_consumed := 0\<rparr>)
         | (Ready (Inr _), ns') \<Rightarrow> (Ready (Inr (write_pending_consumed ns')), ns'\<lparr>write_pending_consumed := 0\<rparr>))
      else if write_frame_buf ns \<noteq> [] then
        (case poll_flush_pending_frame ns of
           (Pending, ns') \<Rightarrow> (Pending, ns')
         | (Ready (Inl e), ns') \<Rightarrow> (Ready (Inl e), ns')
         | (Ready (Inr _), ns') \<Rightarrow> write_new_frame K buf ns')
      else write_new_frame K buf ns)"

definition noise_poll_flush :: "'c NoiseStream \<Rightarrow> (IoError, unit) result poll \<times> 'c NoiseStream" where
  "noise_poll_flush ns =
     (case poll_flush_pending_frame ns of
        (Ready (Inr _), ns') \<Rightarrow> (case inner_poll_flush (ns_inner ns') of (r, s) \<Rightarrow> (r, ns'\<lparr>ns_inner := s\<rparr>))
      | r \<Rightarrow> r)"

section \<open>Waiting\<close>

text \<open>
  \<open>write_all\<close> and reading up to the end of the stream, as the \<open>futures\<close> library runs them: a pending poll is tried again
  with the same arguments.
\<close>

partial_function (option) noise_write_all ::
  "'c cipher_env \<Rightarrow> byte_vec \<Rightarrow> 'c NoiseStream \<Rightarrow> ((IoError, unit) result \<times> 'c NoiseStream) option" where
  "noise_write_all K buf ns =
     (if buf = [] then Some (Inr (), ns)
      else
        (case noise_poll_write K buf ns of
           (Pending, ns') \<Rightarrow> noise_write_all K buf ns'
         | (Ready (Inl e), ns') \<Rightarrow> Some (Inl e, ns')
         | (Ready (Inr n), ns') \<Rightarrow>
             (if n = 0 then Some (Inl (IoError WriteZero []), ns') else noise_write_all K (drop n buf) ns')))"

partial_function (option) noise_read_to_end ::
  "'c cipher_env \<Rightarrow> nat \<Rightarrow> byte_vec \<Rightarrow> 'c NoiseStream \<Rightarrow> ((IoError, byte_vec) result \<times> 'c NoiseStream) option" where
  "noise_read_to_end K n acc ns =
     (case noise_poll_read K n ns of
        (Pending, ns') \<Rightarrow> noise_read_to_end K n acc ns'
      | (Ready (Inl e), ns') \<Rightarrow> Some (Inl e, ns')
      | (Ready (Inr bs), ns') \<Rightarrow> (if bs = [] then Some (Inr acc, ns') else noise_read_to_end K n (acc @ bs) ns'))"

section \<open>What is written\<close>

text \<open>A stream below that takes at least one byte per write and never fails, but may be pending and take fewer bytes than offered.\<close>

definition good_writes :: "inner_stream \<Rightarrow> bool" where
  "good_writes s \<longleftrightarrow> (\<forall>w\<in>set (in_writes s). \<forall>e. w \<noteq> WriteFail e \<and> w \<noteq> Accept 0) \<and> (\<forall>f\<in>set (in_flushes s). \<forall>e. f \<noteq> FlushFail e)"

definition write_steps :: "inner_stream \<Rightarrow> nat" where
  "write_steps s = length (in_writes s) + length (in_flushes s)"

lemma flush_frame_bytes_good:
  assumes "flush_frame_bytes ns = (r, ns')" and "good_writes (ns_inner ns)" and "write_frame_pos ns \<le> length (write_frame_buf ns)"
  shows "\<exists>s pos. ns' = ns\<lparr>ns_inner := s, write_frame_pos := pos\<rparr> \<and> good_writes s \<and> in_reads s = in_reads (ns_inner ns) \<and>
    pos \<le> length (write_frame_buf ns) \<and>
    in_written s @ drop pos (write_frame_buf ns) = in_written (ns_inner ns) @ drop (write_frame_pos ns) (write_frame_buf ns) \<and>
    (r = Pending \<and> write_steps s < write_steps (ns_inner ns) \<or>
     r = Ready (Inr ()) \<and> pos = length (write_frame_buf ns) \<and> write_steps s \<le> write_steps (ns_inner ns))"
  using assms
proof (induction ns rule: flush_frame_bytes.induct)
  case (1 ns)
  let ?left = "drop (write_frame_pos ns) (write_frame_buf ns)"
  show ?case
  proof (cases "write_frame_pos ns < length (write_frame_buf ns)")
    case False
    then show ?thesis using 1(2-4)
      by (subst (asm) flush_frame_bytes.simps) (auto intro!: exI [of _ "ns_inner ns"] exI [of _ "write_frame_pos ns"])
  next
    case True
    obtain q s where q: "inner_poll_write ?left (ns_inner ns) = (q, s)" by (cases "inner_poll_write ?left (ns_inner ns)")
    have step: "good_writes s" "in_reads s = in_reads (ns_inner ns)" "write_steps s \<le> write_steps (ns_inner ns)"
      "(q = Pending \<and> in_written s = in_written (ns_inner ns) \<and> write_steps s < write_steps (ns_inner ns)) \<or>
       (\<exists>n. q = Ready (Inr n) \<and> 0 < n \<and> n \<le> length ?left \<and> in_written s = in_written (ns_inner ns) @ take n ?left)"
      using q 1(3) True
      by (auto simp: inner_poll_write_def good_writes_def write_steps_def min_def split: list.split_asm write_step.split_asm)
    from step(4) show ?thesis
    proof (elim disjE exE conjE)
      assume "q = Pending" "in_written s = in_written (ns_inner ns)" "write_steps s < write_steps (ns_inner ns)"
      moreover have "ns' = ns\<lparr>ns_inner := s\<rparr>" "r = Pending"
        using 1(2) True q \<open>q = Pending\<close> by (subst (asm) flush_frame_bytes.simps, simp)+
      ultimately show ?thesis using step True by (intro exI [of _ s] exI [of _ "write_frame_pos ns"]) simp
    next
      fix n assume n: "q = Ready (Inr n)" "0 < n" "n \<le> length ?left" "in_written s = in_written (ns_inner ns) @ take n ?left"
      let ?ns = "ns\<lparr>ns_inner := s, write_frame_pos := write_frame_pos ns + n\<rparr>"
      have run: "flush_frame_bytes ?ns = (r, ns')" using 1(2) True q n by (subst (asm) flush_frame_bytes.simps) simp
      have "write_frame_pos ?ns \<le> length (write_frame_buf ?ns)" "good_writes (ns_inner ?ns)" using n True step by simp_all
      from 1(1) [OF True q [symmetric] n(1) _ _ run this(2,1)] n(2)
      obtain s' pos where "ns' = ?ns\<lparr>ns_inner := s', write_frame_pos := pos\<rparr>" "good_writes s'" "in_reads s' = in_reads s"
        "pos \<le> length (write_frame_buf ns)"
        "in_written s' @ drop pos (write_frame_buf ns) = in_written s @ drop (write_frame_pos ns + n) (write_frame_buf ns)"
        "r = Pending \<and> write_steps s' < write_steps s \<or> r = Ready (Inr ()) \<and> pos = length (write_frame_buf ns) \<and> write_steps s' \<le> write_steps s"
        by auto
      moreover have "in_written s @ drop (write_frame_pos ns + n) (write_frame_buf ns) = in_written (ns_inner ns) @ ?left"
        using n(4) append_take_drop_id [of n ?left] by (simp add: add.commute)
      ultimately show ?thesis using step(2,3) by (intro exI [of _ s'] exI [of _ pos]) auto
    qed
  qed
qed

lemma poll_flush_pending_good:
  assumes "poll_flush_pending_frame ns = (r, ns')" and "good_writes (ns_inner ns)" and "write_frame_pos ns \<le> length (write_frame_buf ns)"
  shows "\<exists>s pos. good_writes s \<and> in_reads s = in_reads (ns_inner ns) \<and> write_steps s \<le> write_steps (ns_inner ns) \<and>
    (r = Pending \<and> ns' = ns\<lparr>ns_inner := s, write_frame_pos := pos\<rparr> \<and> pos \<le> length (write_frame_buf ns) \<and>
       write_steps s < write_steps (ns_inner ns) \<and>
       in_written s @ drop pos (write_frame_buf ns) = in_written (ns_inner ns) @ drop (write_frame_pos ns) (write_frame_buf ns) \<or>
     r = Ready (Inr ()) \<and> ns' = ns\<lparr>ns_inner := s, write_frame_buf := [], write_frame_pos := 0\<rparr> \<and>
       in_written s = in_written (ns_inner ns) @ drop (write_frame_pos ns) (write_frame_buf ns))"
proof -
  obtain r1 ns1 where run: "flush_frame_bytes ns = (r1, ns1)" by (cases "flush_frame_bytes ns")
  obtain s1 pos where ns1: "ns1 = ns\<lparr>ns_inner := s1, write_frame_pos := pos\<rparr>" and s1: "good_writes s1" "in_reads s1 = in_reads (ns_inner ns)"
    "pos \<le> length (write_frame_buf ns)"
    "in_written s1 @ drop pos (write_frame_buf ns) = in_written (ns_inner ns) @ drop (write_frame_pos ns) (write_frame_buf ns)"
    and r1: "r1 = Pending \<and> write_steps s1 < write_steps (ns_inner ns) \<or>
      r1 = Ready (Inr ()) \<and> pos = length (write_frame_buf ns) \<and> write_steps s1 \<le> write_steps (ns_inner ns)"
    using flush_frame_bytes_good [OF run assms(2,3)] by blast
  from r1 show ?thesis
  proof (elim disjE conjE)
    assume "r1 = Pending" "write_steps s1 < write_steps (ns_inner ns)"
    then show ?thesis using assms(1) run ns1 s1 by (intro exI [of _ s1] exI [of _ pos]) (simp add: poll_flush_pending_frame_def)
  next
    assume r1: "r1 = Ready (Inr ())" "pos = length (write_frame_buf ns)" "write_steps s1 \<le> write_steps (ns_inner ns)"
    obtain q s2 where q: "inner_poll_flush s1 = (q, s2)" by (cases "inner_poll_flush s1")
    then have "good_writes s2" "in_reads s2 = in_reads s1" "in_written s2 = in_written s1"
      "q = Pending \<and> write_steps s2 < write_steps s1 \<or> q = Ready (Inr ()) \<and> write_steps s2 \<le> write_steps s1"
      using s1(1) by (auto simp: inner_poll_flush_def good_writes_def write_steps_def split: list.split_asm flush_step.split_asm)
    then show ?thesis using assms(1) run ns1 s1 r1 q
      by (intro exI [of _ s2] exI [of _ pos]) (auto simp: poll_flush_pending_frame_def)
  qed
qed

text \<open>A frame that is still being written: the polls that follow finish it and report its bytes.\<close>

lemma finish_pending_frame:
  assumes "write_pending_consumed ns = n" and "0 < n" and "good_writes (ns_inner ns)"
    and "write_frame_pos ns \<le> length (write_frame_buf ns)" and "buf \<noteq> []"
  shows "\<exists>s. noise_write_all K buf ns =
      noise_write_all K (drop n buf) (ns\<lparr>ns_inner := s, write_frame_buf := [], write_frame_pos := 0, write_pending_consumed := 0\<rparr>) \<and>
    good_writes s \<and> in_written s = in_written (ns_inner ns) @ drop (write_frame_pos ns) (write_frame_buf ns)"
  using assms
proof (induction "write_steps (ns_inner ns)" arbitrary: ns rule: less_induct)
  case less
  obtain r ns1 where run: "poll_flush_pending_frame ns = (r, ns1)" by (cases "poll_flush_pending_frame ns")
  from poll_flush_pending_good [OF run less.prems(3,4)]
  obtain s pos where s: "good_writes s" "in_reads s = in_reads (ns_inner ns)" and cases: "r = Pending \<and> ns1 = ns\<lparr>ns_inner := s, write_frame_pos := pos\<rparr> \<and>
      pos \<le> length (write_frame_buf ns) \<and> write_steps s < write_steps (ns_inner ns) \<and>
      in_written s @ drop pos (write_frame_buf ns) = in_written (ns_inner ns) @ drop (write_frame_pos ns) (write_frame_buf ns) \<or>
    r = Ready (Inr ()) \<and> ns1 = ns\<lparr>ns_inner := s, write_frame_buf := [], write_frame_pos := 0\<rparr> \<and>
      in_written s = in_written (ns_inner ns) @ drop (write_frame_pos ns) (write_frame_buf ns)"
    by blast
  from cases show ?case
  proof (elim disjE conjE)
    assume *: "r = Pending" "ns1 = ns\<lparr>ns_inner := s, write_frame_pos := pos\<rparr>" "pos \<le> length (write_frame_buf ns)"
      "write_steps s < write_steps (ns_inner ns)"
      "in_written s @ drop pos (write_frame_buf ns) = in_written (ns_inner ns) @ drop (write_frame_pos ns) (write_frame_buf ns)"
    have "noise_write_all K buf ns = noise_write_all K buf ns1"
      using less.prems run * by (subst noise_write_all.simps) (simp add: noise_poll_write_def)
    then show ?thesis using less.hyps [of ns1] less.prems s * by simp
  next
    assume *: "r = Ready (Inr ())" "ns1 = ns\<lparr>ns_inner := s, write_frame_buf := [], write_frame_pos := 0\<rparr>"
      "in_written s = in_written (ns_inner ns) @ drop (write_frame_pos ns) (write_frame_buf ns)"
    have "noise_write_all K buf ns = noise_write_all K (drop n buf) (ns1\<lparr>write_pending_consumed := 0\<rparr>)"
      using less.prems run * by (subst noise_write_all.simps) (simp add: noise_poll_write_def)
    then show ?thesis using s * by (intro exI [of _ s]) simp
  qed
qed

text \<open>
  The frames on the wire: plaintexts of at most \<open>MAX_NOISE_PLAINTEXT_LEN\<close> bytes, encrypted one after the other. \<open>paired k c d\<close>
  says that the cipher states \<open>c\<close> and \<open>d\<close> belong together and that at least \<open>k\<close> more messages can be sent before the
  nonces of \<open>snow\<close> are used up. The law is that a message written with the one is read back with the other, and that
  its ciphertext is longer by the authentication tag.
\<close>

definition cipher_pair :: "'c cipher_env \<Rightarrow> (nat \<Rightarrow> 'c \<Rightarrow> 'c \<Rightarrow> bool) \<Rightarrow> bool" where
  "cipher_pair K paired \<longleftrightarrow>
     (\<forall>k c d p. paired (Suc k) c d \<and> length p \<le> MAX_NOISE_PLAINTEXT_LEN \<longrightarrow>
        (\<exists>ct c' d'. tr_write_message K c p = (Inr ct, c') \<and> length ct = length p + NOISE_TAG_LEN \<and>
           tr_read_message K d ct = (Inr p, d') \<and> paired k c' d'))"

lemma cipher_pairD:
  assumes "cipher_pair K paired" and "paired (Suc k) c d" and "length p \<le> MAX_NOISE_PLAINTEXT_LEN"
  shows "\<exists>ct c' d'. tr_write_message K c p = (Inr ct, c') \<and> length ct = length p + NOISE_TAG_LEN \<and>
    tr_read_message K d ct = (Inr p, d') \<and> paired k c' d'"
  using assms unfolding cipher_pair_def by blast

fun encode_messages :: "'c cipher_env \<Rightarrow> 'c \<Rightarrow> byte_vec list \<Rightarrow> byte_vec" where
  "encode_messages K c [] = []"
| "encode_messages K c (p # ps) =
     (case tr_write_message K c p of
        (Inl e, c') \<Rightarrow> []
      | (Inr ct, c') \<Rightarrow> to_be 2 (word_of_nat (length ct) :: u16) @ ct @ encode_messages K c' ps)"

function plaintext_chunks :: "byte_vec \<Rightarrow> byte_vec list" where
  "plaintext_chunks buf =
     (if buf = [] then [] else take MAX_NOISE_PLAINTEXT_LEN buf # plaintext_chunks (drop MAX_NOISE_PLAINTEXT_LEN buf))"
  by pat_completeness auto
termination by (relation "measure length") (auto simp: MAX_NOISE_PLAINTEXT_LEN_def MAX_NOISE_FRAME_LEN_def NOISE_TAG_LEN_def)

declare plaintext_chunks.simps [simp del]

lemma plaintext_len_pos: "0 < MAX_NOISE_PLAINTEXT_LEN"
  by (simp add: MAX_NOISE_PLAINTEXT_LEN_def MAX_NOISE_FRAME_LEN_def NOISE_TAG_LEN_def)

lemma concat_chunks: "concat (plaintext_chunks buf) = buf"
proof (induction buf rule: plaintext_chunks.induct)
  case (1 buf)
  then show ?case by (cases "buf = []") (subst plaintext_chunks.simps, simp)+
qed

lemma chunk_bounds: "p \<in> set (plaintext_chunks buf) \<Longrightarrow> p \<noteq> [] \<and> length p \<le> MAX_NOISE_PLAINTEXT_LEN"
proof (induction buf rule: plaintext_chunks.induct)
  case (1 buf)
  then show ?case using plaintext_len_pos by (subst (asm) (2) plaintext_chunks.simps) (auto split: if_split_asm)
qed

lemma length_chunks: "length (plaintext_chunks buf) \<le> length buf"
proof (induction buf rule: plaintext_chunks.induct)
  case (1 buf)
  show ?case
  proof (cases "buf = []")
    case True
    then show ?thesis by (simp add: plaintext_chunks.simps)
  next
    case False
    then have "length (plaintext_chunks (drop MAX_NOISE_PLAINTEXT_LEN buf)) \<le> length buf - MAX_NOISE_PLAINTEXT_LEN"
      using 1 by simp
    then show ?thesis using False plaintext_len_pos by (subst plaintext_chunks.simps) (cases buf; simp)
  qed
qed

definition write_idle :: "'c NoiseStream \<Rightarrow> bool" where
  "write_idle ns \<longleftrightarrow> write_frame_buf ns = [] \<and> write_frame_pos ns = 0 \<and> write_pending_consumed ns = 0"

lemma write_idle_reset:
  assumes "write_idle ns"
  shows "ns\<lparr>ns_session := c, ns_inner := s, write_frame_buf := [], write_frame_pos := 0, write_pending_consumed := 0\<rparr> =
      ns\<lparr>ns_inner := s, ns_session := c\<rparr>"
    and "ns\<lparr>ns_session := c, ns_inner := s, write_frame_buf := [], write_frame_pos := 0\<rparr> = ns\<lparr>ns_inner := s, ns_session := c\<rparr>"
    and "ns\<lparr>ns_inner := s, ns_session := c, write_pending_consumed := 0\<rparr> = ns\<lparr>ns_inner := s, ns_session := c\<rparr>"
  using assms by (cases ns; simp add: write_idle_def)+

lemma write_one_frame:
  assumes "tr_write_message K (ns_session ns) (take MAX_NOISE_PLAINTEXT_LEN buf) = (Inr ct, c')" and "write_idle ns"
    and "good_writes (ns_inner ns)" and "buf \<noteq> []"
  shows "\<exists>s. noise_write_all K buf ns = noise_write_all K (drop MAX_NOISE_PLAINTEXT_LEN buf) (ns\<lparr>ns_inner := s, ns_session := c'\<rparr>) \<and>
    good_writes s \<and> in_written s = in_written (ns_inner ns) @ to_be 2 (word_of_nat (length ct) :: u16) @ ct"
proof -
  let ?n = "min (length buf) MAX_NOISE_PLAINTEXT_LEN" and ?frame = "to_be 2 (word_of_nat (length ct) :: u16) @ ct"
  let ?q = "ns\<lparr>ns_session := c', write_frame_buf := ?frame, write_frame_pos := 0\<rparr>"
  have n: "0 < ?n" using assms(4) plaintext_len_pos by simp
  have drop_n: "drop ?n buf = drop MAX_NOISE_PLAINTEXT_LEN buf" by (simp add: min_def)
  have "take ?n buf = take MAX_NOISE_PLAINTEXT_LEN buf" by (simp add: min_def)
  then have queue: "queue_encrypted_frame K buf ns = (Inr ?n, ?q)" using assms(1) by (simp add: queue_encrypted_frame_def Let_def)
  obtain r ns1 where run: "poll_flush_pending_frame ?q = (r, ns1)" by (cases "poll_flush_pending_frame ?q")
  have "good_writes (ns_inner ?q)" "write_frame_pos ?q \<le> length (write_frame_buf ?q)" using assms(3) by simp_all
  from poll_flush_pending_good [OF run this]
  obtain s pos where s: "good_writes s" and cases: "r = Pending \<and> ns1 = ?q\<lparr>ns_inner := s, write_frame_pos := pos\<rparr> \<and>
      pos \<le> length ?frame \<and> in_written s @ drop pos ?frame = in_written (ns_inner ns) @ ?frame \<or>
    r = Ready (Inr ()) \<and> ns1 = ?q\<lparr>ns_inner := s, write_frame_buf := [], write_frame_pos := 0\<rparr> \<and>
      in_written s = in_written (ns_inner ns) @ ?frame"
    by auto
  from cases show ?thesis
  proof (elim disjE conjE)
    assume *: "r = Pending" "ns1 = ?q\<lparr>ns_inner := s, write_frame_pos := pos\<rparr>" "pos \<le> length ?frame"
      "in_written s @ drop pos ?frame = in_written (ns_inner ns) @ ?frame"
    let ?ns = "ns1\<lparr>write_pending_consumed := ?n\<rparr>"
    have step: "noise_write_all K buf ns = noise_write_all K buf ?ns"
      using assms(2,4) run queue * by (subst noise_write_all.simps) (simp add: noise_poll_write_def write_new_frame_def write_idle_def)
    from finish_pending_frame [of ?ns ?n buf K] n * s assms(4)
    obtain s' where "noise_write_all K buf ?ns = noise_write_all K (drop ?n buf)
        (?ns\<lparr>ns_inner := s', write_frame_buf := [], write_frame_pos := 0, write_pending_consumed := 0\<rparr>)"
      "good_writes s'" "in_written s' = in_written (ns_inner ns) @ ?frame" by auto
    then show ?thesis using step * assms(2) by (intro exI [of _ s']) (simp add: drop_n write_idle_reset)
  next
    assume *: "r = Ready (Inr ())" "ns1 = ?q\<lparr>ns_inner := s, write_frame_buf := [], write_frame_pos := 0\<rparr>"
      "in_written s = in_written (ns_inner ns) @ ?frame"
    have "noise_write_all K buf ns = noise_write_all K (drop ?n buf) ns1"
      using assms(2,4) run queue * n
      by (subst noise_write_all.simps) (auto simp: noise_poll_write_def write_new_frame_def write_idle_def min_def split: if_split_asm)
    then show ?thesis using * s assms(2) by (intro exI [of _ s]) (simp add: drop_n write_idle_reset)
  qed
qed

lemma noise_write_all_frames:
  assumes "cipher_pair K paired" and "paired k (ns_session ns) d" and "length (plaintext_chunks buf) \<le> k"
    and "write_idle ns" and "good_writes (ns_inner ns)"
  shows "\<exists>ns'. noise_write_all K buf ns = Some (Inr (), ns') \<and>
    in_written (ns_inner ns') = in_written (ns_inner ns) @ encode_messages K (ns_session ns) (plaintext_chunks buf)"
  using assms(2-5)
proof (induction buf arbitrary: k ns d rule: plaintext_chunks.induct)
  case (1 buf)
  show ?case
  proof (cases "buf = []")
    case True
    then show ?thesis by (subst noise_write_all.simps) (simp add: plaintext_chunks.simps)
  next
    case False
    let ?p = "take MAX_NOISE_PLAINTEXT_LEN buf" and ?rest = "drop MAX_NOISE_PLAINTEXT_LEN buf"
    have chunks: "plaintext_chunks buf = ?p # plaintext_chunks ?rest" using False by (subst plaintext_chunks.simps) simp
    then obtain k' where k: "k = Suc k'" using 1(3) by (cases k) auto
    obtain ct c' d' where wr: "tr_write_message K (ns_session ns) ?p = (Inr ct, c')" and "paired k' c' d'"
      using cipher_pairD [OF assms(1) 1(2) [unfolded k], of ?p] by auto
    obtain s where s: "noise_write_all K buf ns = noise_write_all K ?rest (ns\<lparr>ns_inner := s, ns_session := c'\<rparr>)" "good_writes s"
      "in_written s = in_written (ns_inner ns) @ to_be 2 (word_of_nat (length ct) :: u16) @ ct"
      using write_one_frame [OF wr 1(4,5) False] by blast
    let ?ns = "ns\<lparr>ns_inner := s, ns_session := c'\<rparr>"
    have "paired k' (ns_session ?ns) d'" "length (plaintext_chunks ?rest) \<le> k'" "write_idle ?ns" "good_writes (ns_inner ?ns)"
      using \<open>paired k' c' d'\<close> 1(3,4) chunks k s by (simp_all add: write_idle_def)
    from 1(1) [OF False this] s chunks wr show ?thesis by auto
  qed
qed

section \<open>What is read\<close>

text \<open>A stream below that does not fail, but may be pending and deliver the bytes in any pieces.\<close>

definition good_step :: "read_step \<Rightarrow> bool" where
  "good_step r = (case r of Chunk bs \<Rightarrow> bs \<noteq> [] | ReadPending \<Rightarrow> True | ReadFail e \<Rightarrow> False)"

definition good_reads :: "inner_stream \<Rightarrow> bool" where
  "good_reads s = list_all good_step (in_reads s)"

definition step_bytes :: "read_step \<Rightarrow> byte_vec" where
  "step_bytes r = (case r of Chunk bs \<Rightarrow> bs | _ \<Rightarrow> [])"

definition bytes_left :: "inner_stream \<Rightarrow> byte_vec" where
  "bytes_left s = concat (map step_bytes (in_reads s))"

lemma inner_poll_read_good:
  assumes "inner_poll_read n s = (r, s')" and "good_reads s" and "0 < n"
  shows "good_reads s' \<and>
    (r = Pending \<and> bytes_left s' = bytes_left s \<or>
     (\<exists>bs. r = Ready (Inr bs) \<and> length bs \<le> n \<and> bytes_left s = bs @ bytes_left s' \<and> (bs = [] \<longrightarrow> bytes_left s = [])))"
  using assms
  by (auto simp: inner_poll_read_def good_reads_def good_step_def bytes_left_def step_bytes_def
      split: list.split_asm read_step.split_asm if_split_asm)

lemma overwrite_prefix:
  assumes "pos + length bs \<le> length buf"
  shows "take (pos + length bs) (overwrite buf pos bs) = take pos buf @ bs" and "length (overwrite buf pos bs) = length buf"
  using assms by (simp_all add: overwrite_def)

lemma fill_length_good:
  assumes "fill_length ns = (r, ns')" and "good_reads (ns_inner ns)" and "length (read_len_buf ns) = 2" and "read_len_pos ns \<le> 2"
  shows "\<exists>s buf pos. ns' = ns\<lparr>ns_inner := s, read_len_buf := buf, read_len_pos := pos\<rparr> \<and> good_reads s \<and> length buf = 2 \<and> pos \<le> 2 \<and>
    take pos buf @ bytes_left s = take (read_len_pos ns) (read_len_buf ns) @ bytes_left (ns_inner ns) \<and>
    (r = Pending \<or> r = Ready (Inr True) \<and> pos = 2 \<or> r = Ready (Inr False) \<and> pos = 0 \<and> bytes_left s = [] \<or>
     (\<exists>e. r = Ready (Inl e)) \<and> pos = 1 \<and> bytes_left s = [])"
  using assms
proof (induction ns rule: fill_length.induct)
  case (1 ns)
  show ?case
  proof (cases "read_len_pos ns < 2")
    case False
    then show ?thesis using 1(2-5)
      by (subst (asm) fill_length.simps)
        (auto intro!: exI [of _ "ns_inner ns"] exI [of _ "read_len_buf ns"] exI [of _ "read_len_pos ns"])
  next
    case True
    obtain q s where q: "inner_poll_read (2 - read_len_pos ns) (ns_inner ns) = (q, s)" by (cases "inner_poll_read (2 - read_len_pos ns) (ns_inner ns)")
    have good: "good_reads s" and step: "q = Pending \<and> bytes_left s = bytes_left (ns_inner ns) \<or>
        (\<exists>bs. q = Ready (Inr bs) \<and> length bs \<le> 2 - read_len_pos ns \<and> bytes_left (ns_inner ns) = bs @ bytes_left s \<and>
          (bs = [] \<longrightarrow> bytes_left (ns_inner ns) = []))"
      using inner_poll_read_good [OF q 1(3)] True by auto
    show ?thesis
    proof (cases "\<exists>bs. q = Ready (Inr bs) \<and> bs \<noteq> []")
      case False
      from step have "q = Pending \<and> bytes_left s = bytes_left (ns_inner ns) \<or>
          q = Ready (Inr []) \<and> bytes_left (ns_inner ns) = [] \<and> bytes_left s = []"
      proof (elim disjE exE conjE)
        fix bs assume "q = Ready (Inr bs)" "bytes_left (ns_inner ns) = bs @ bytes_left s" "bs = [] \<longrightarrow> bytes_left (ns_inner ns) = []"
        moreover have "bs = []" using False \<open>q = Ready (Inr bs)\<close> by blast
        ultimately show ?thesis by simp
      qed simp
      then have q': "q = Pending \<or> q = Ready (Inr [])" and left: "bytes_left s = bytes_left (ns_inner ns)"
        and eof: "q = Pending \<or> bytes_left s = []" by auto
      have "ns' = ns\<lparr>ns_inner := s\<rparr> \<and> (r = Pending \<or> q \<noteq> Pending \<and> (if read_len_pos ns = 0 then r = Ready (Inr False) else \<exists>e. r = Ready (Inl e)))"
        using 1(2) q' by (subst (asm) fill_length.simps) (auto simp: q True split: if_split_asm)
      then have "ns' = ns\<lparr>ns_inner := s\<rparr>" and "bytes_left s = bytes_left (ns_inner ns)"
        and "r = Pending \<or> bytes_left s = [] \<and> (if read_len_pos ns = 0 then r = Ready (Inr False) else \<exists>e. r = Ready (Inl e))"
        using left eof by blast+
      moreover have "read_len_pos ns = 0 \<or> read_len_pos ns = 1" using True by auto
      ultimately show ?thesis using good 1(4,5)
        by (intro exI [of _ s] exI [of _ "read_len_buf ns"] exI [of _ "read_len_pos ns"]) (auto split: if_split_asm)
    next
      case nonempty: True
      then obtain bs where bs: "q = Ready (Inr bs)" "bs \<noteq> []" "length bs \<le> 2 - read_len_pos ns" "bytes_left (ns_inner ns) = bs @ bytes_left s"
        using step by auto
      let ?buf = "overwrite (read_len_buf ns) (read_len_pos ns) bs" and ?pos = "read_len_pos ns + length bs"
      let ?ns = "ns\<lparr>ns_inner := s, read_len_buf := ?buf, read_len_pos := ?pos\<rparr>"
      have fits: "?pos \<le> length (read_len_buf ns)" using bs(3) True 1(4) by simp
      have run: "fill_length ?ns = (r, ns')" using 1(2) q bs True by (subst (asm) fill_length.simps) simp
      have "good_reads (ns_inner ?ns)" "length (read_len_buf ?ns) = 2" "read_len_pos ?ns \<le> 2"
        using good overwrite_prefix(2) [OF fits] fits 1(4) by simp_all
      from 1(1) [OF True q [symmetric] bs(1) _ bs(2) run this]
      show ?thesis using overwrite_prefix(1) [OF fits] bs(4) by auto
    qed
  qed
qed

lemma fill_body_good:
  assumes "fill_body frame_len ns = (r, ns')" and "good_reads (ns_inner ns)" and "length (read_encrypted ns) = frame_len"
    and "read_encrypted_pos ns \<le> frame_len"
  shows "\<exists>s buf pos. ns' = ns\<lparr>ns_inner := s, read_encrypted := buf, read_encrypted_pos := pos\<rparr> \<and> good_reads s \<and>
    length buf = frame_len \<and> pos \<le> frame_len \<and>
    take pos buf @ bytes_left s = take (read_encrypted_pos ns) (read_encrypted ns) @ bytes_left (ns_inner ns) \<and>
    (r = Pending \<or> r = Ready (Inr ()) \<and> pos = frame_len \<or> (\<exists>e. r = Ready (Inl e)) \<and> pos < frame_len \<and> bytes_left s = [])"
  using assms
proof (induction frame_len ns rule: fill_body.induct)
  case (1 frame_len ns)
  show ?case
  proof (cases "read_encrypted_pos ns < frame_len")
    case False
    then show ?thesis using 1(2-5)
      by (subst (asm) fill_body.simps)
        (auto intro!: exI [of _ "ns_inner ns"] exI [of _ "read_encrypted ns"] exI [of _ "read_encrypted_pos ns"])
  next
    case True
    obtain q s where q: "inner_poll_read (frame_len - read_encrypted_pos ns) (ns_inner ns) = (q, s)"
      by (cases "inner_poll_read (frame_len - read_encrypted_pos ns) (ns_inner ns)")
    have good: "good_reads s" and step: "q = Pending \<and> bytes_left s = bytes_left (ns_inner ns) \<or>
        (\<exists>bs. q = Ready (Inr bs) \<and> length bs \<le> frame_len - read_encrypted_pos ns \<and> bytes_left (ns_inner ns) = bs @ bytes_left s \<and>
          (bs = [] \<longrightarrow> bytes_left (ns_inner ns) = []))"
      using inner_poll_read_good [OF q 1(3)] True by auto
    show ?thesis
    proof (cases "\<exists>bs. q = Ready (Inr bs) \<and> bs \<noteq> []")
      case False
      from step have "q = Pending \<and> bytes_left s = bytes_left (ns_inner ns) \<or>
          q = Ready (Inr []) \<and> bytes_left (ns_inner ns) = [] \<and> bytes_left s = []"
      proof (elim disjE exE conjE)
        fix bs assume "q = Ready (Inr bs)" "bytes_left (ns_inner ns) = bs @ bytes_left s" "bs = [] \<longrightarrow> bytes_left (ns_inner ns) = []"
        moreover have "bs = []" using False \<open>q = Ready (Inr bs)\<close> by blast
        ultimately show ?thesis by simp
      qed simp
      then have q': "q = Pending \<or> q = Ready (Inr [])" and left: "bytes_left s = bytes_left (ns_inner ns)"
        and eof: "q = Pending \<or> bytes_left s = []" by auto
      have "ns' = ns\<lparr>ns_inner := s\<rparr> \<and> (r = Pending \<or> q \<noteq> Pending \<and> (\<exists>e. r = Ready (Inl e)))"
        using 1(2) q' by (subst (asm) fill_body.simps) (auto simp: q True split: if_split_asm)
      then have "ns' = ns\<lparr>ns_inner := s\<rparr>" and "bytes_left s = bytes_left (ns_inner ns)"
        and "r = Pending \<or> bytes_left s = [] \<and> (\<exists>e. r = Ready (Inl e))"
        using left eof by blast+
      then show ?thesis using good 1(4,5) True
        by (intro exI [of _ s] exI [of _ "read_encrypted ns"] exI [of _ "read_encrypted_pos ns"]) auto
    next
      case nonempty: True
      then obtain bs where bs: "q = Ready (Inr bs)" "bs \<noteq> []" "length bs \<le> frame_len - read_encrypted_pos ns"
        "bytes_left (ns_inner ns) = bs @ bytes_left s"
        using step by auto
      let ?buf = "overwrite (read_encrypted ns) (read_encrypted_pos ns) bs" and ?pos = "read_encrypted_pos ns + length bs"
      let ?ns = "ns\<lparr>ns_inner := s, read_encrypted := ?buf, read_encrypted_pos := ?pos\<rparr>"
      have fits: "?pos \<le> length (read_encrypted ns)" using bs(3) True 1(4) by simp
      have run: "fill_body frame_len ?ns = (r, ns')" using 1(2) q bs True by (subst (asm) fill_body.simps) simp
      have "good_reads (ns_inner ?ns)" "length (read_encrypted ?ns) = frame_len" "read_encrypted_pos ?ns \<le> frame_len"
        using good overwrite_prefix(2) [OF fits] fits 1(4) by simp_all
      from 1(1) [OF True q [symmetric] bs(1) _ bs(2) run this]
      show ?thesis using overwrite_prefix(1) [OF fits] bs(4) by auto
    qed
  qed
qed

text \<open>
  The state of a reader: the bytes of the frame that is being read and of the stream below are the frames of the
  messages \<open>ms\<close>, encrypted with the cipher state \<open>c\<close> of the sender.
\<close>

definition read_wf :: "'c NoiseStream \<Rightarrow> bool" where
  "read_wf ns \<longleftrightarrow> good_reads (ns_inner ns) \<and> length (read_len_buf ns) = 2 \<and> read_len_pos ns \<le> 2 \<and>
     (\<forall>n. read_frame_len ns = Some n \<longrightarrow>
        read_len_pos ns = 2 \<and> n = unat (from_be (read_len_buf ns) :: u16) \<and> length (read_encrypted ns) = n \<and> read_encrypted_pos ns \<le> n)"

definition unread :: "'c NoiseStream \<Rightarrow> byte_vec" where
  "unread ns = take (read_len_pos ns) (read_len_buf ns) @
     (case read_frame_len ns of None \<Rightarrow> [] | Some n \<Rightarrow> take (read_encrypted_pos ns) (read_encrypted ns)) @ bytes_left (ns_inner ns)"

definition available_plaintext :: "'c NoiseStream \<Rightarrow> byte_vec" where
  "available_plaintext ns = drop (read_plaintext_pos ns) (read_plaintext ns)"

definition receives :: "'c cipher_env \<Rightarrow> (nat \<Rightarrow> 'c \<Rightarrow> 'c \<Rightarrow> bool) \<Rightarrow> byte_vec list \<Rightarrow> 'c NoiseStream \<Rightarrow> bool" where
  "receives K paired ms ns \<longleftrightarrow> read_wf ns \<and> (\<forall>m\<in>set ms. m \<noteq> [] \<and> length m \<le> MAX_NOISE_PLAINTEXT_LEN) \<and>
     (\<exists>k c. paired k c (ns_session ns) \<and> length ms \<le> k \<and> unread ns = encode_messages K c ms)"

text \<open>The header of the next frame.\<close>

lemma fill_header_good:
  assumes "fill_header ns = (r, ns')" and "read_wf ns"
  shows "read_wf ns' \<and> unread ns' = unread ns \<and> ns_session ns' = ns_session ns \<and> read_plaintext ns' = read_plaintext ns \<and>
    read_plaintext_pos ns' = read_plaintext_pos ns \<and>
    (r = Pending \<or> (\<exists>n. r = Ready (Inr (Some n)) \<and> read_frame_len ns' = Some n) \<or> r = Ready (Inr None) \<and> unread ns = [] \<or>
     (\<exists>e. r = Ready (Inl e)) \<and> length (unread ns) = 1)"
proof (cases "read_frame_len ns")
  case (Some n)
  then show ?thesis using assms by (simp add: fill_header_def)
next
  case None
  obtain q ns1 where q: "fill_length ns = (q, ns1)" by (cases "fill_length ns")
  have "good_reads (ns_inner ns)" "length (read_len_buf ns) = 2" "read_len_pos ns \<le> 2" using assms(2) by (simp_all add: read_wf_def)
  from fill_length_good [OF q this]
  obtain s buf pos where ns1: "ns1 = ns\<lparr>ns_inner := s, read_len_buf := buf, read_len_pos := pos\<rparr>" and s: "good_reads s" "length buf = 2" "pos \<le> 2"
    and left: "take pos buf @ bytes_left s = unread ns"
    and q': "q = Pending \<or> q = Ready (Inr True) \<and> pos = 2 \<or> q = Ready (Inr False) \<and> pos = 0 \<and> bytes_left s = [] \<or>
       (\<exists>e. q = Ready (Inl e)) \<and> pos = 1 \<and> bytes_left s = []"
    using None by (auto simp: unread_def)
  have wf1: "read_wf ns1" "unread ns1 = unread ns" using ns1 s None left by (simp_all add: read_wf_def unread_def)
  from q' show ?thesis
  proof (elim disjE exE conjE)
    assume "q = Ready (Inr True)" "pos = 2"
    then show ?thesis using assms(1) None q ns1 s wf1 left
      by (auto simp: fill_header_def Let_def read_wf_def unread_def)
  next
    fix e assume *: "q = Ready (Inl e)" "pos = 1" "bytes_left s = []"
    have "length (unread ns) = length (take pos buf)" using left * by (metis append_Nil2)
    then have "length (unread ns) = 1" using s * by simp
    then show ?thesis using assms(1) None q ns1 wf1 * by (auto simp: fill_header_def)
  qed (use assms(1) None q ns1 wf1 left in \<open>auto simp: fill_header_def\<close>)
qed

lemma unread_clear [simp]:
  "unread (ns\<lparr>read_plaintext := p\<rparr>) = unread ns" "unread (ns\<lparr>read_plaintext_pos := i\<rparr>) = unread ns"
  "read_wf (ns\<lparr>read_plaintext := p\<rparr>) = read_wf ns" "read_wf (ns\<lparr>read_plaintext_pos := i\<rparr>) = read_wf ns"
  by (simp_all add: unread_def read_wf_def split: option.split)

lemma frame_length_bytes:
  assumes "n < 2 ^ 16"
  shows "unat (from_be (to_be 2 (word_of_nat n :: u16)) :: u16) = n"
proof -
  have "unat (word_of_nat n :: u16) = n" using assms by (simp add: unat_of_nat take_bit_eq_mod)
  then have "be_value (to_be 2 (word_of_nat n :: u16)) = n" using assms by (simp add: be_value_to_be)
  then show ?thesis using assms by (simp add: from_be_def unat_of_nat take_bit_eq_mod)
qed

lemma read_frame_good:
  assumes "fill_body n ns = (r, ns')" and "read_wf ns" and "read_frame_len ns = Some n" and "length ct < 2 ^ 16"
    and "unread ns = to_be 2 (word_of_nat (length ct) :: u16) @ ct @ rest"
  shows "ns_session ns' = ns_session ns \<and> read_plaintext ns' = read_plaintext ns \<and> read_plaintext_pos ns' = read_plaintext_pos ns \<and>
    (r = Pending \<and> read_wf ns' \<and> unread ns' = unread ns \<or>
     r = Ready (Inr ()) \<and> read_encrypted ns' = ct \<and> bytes_left (ns_inner ns') = rest \<and> good_reads (ns_inner ns') \<and> length (read_len_buf ns') = 2)"
proof -
  have wf: "good_reads (ns_inner ns)" "length (read_len_buf ns) = 2" "read_len_pos ns = 2" "n = unat (from_be (read_len_buf ns) :: u16)"
    "length (read_encrypted ns) = n" "read_encrypted_pos ns \<le> n"
    using assms(2,3) by (simp_all add: read_wf_def)
  have split: "read_len_buf ns = to_be 2 (word_of_nat (length ct) :: u16)"
      "take (read_encrypted_pos ns) (read_encrypted ns) @ bytes_left (ns_inner ns) = ct @ rest"
    using assms(3,5) wf(2,3) by (auto simp: unread_def)
  then have n: "n = length ct" using wf(4) frame_length_bytes [OF assms(4)] by simp
  from fill_body_good [OF assms(1) wf(1,5,6)]
  obtain s buf pos where ns': "ns' = ns\<lparr>ns_inner := s, read_encrypted := buf, read_encrypted_pos := pos\<rparr>" and s: "good_reads s" "length buf = n" "pos \<le> n"
    and left: "take pos buf @ bytes_left s = ct @ rest"
    and cases: "r = Pending \<or> r = Ready (Inr ()) \<and> pos = n \<or> (\<exists>e. r = Ready (Inl e)) \<and> pos < n \<and> bytes_left s = []"
    using split by auto
  from cases show ?thesis
  proof (elim disjE exE conjE)
    assume "r = Pending"
    then show ?thesis using ns' s left assms(3) wf split by (simp add: read_wf_def unread_def)
  next
    assume "r = Ready (Inr ())" "pos = n"
    then show ?thesis using ns' s left n wf(2) by simp
  next
    fix e assume "pos < n" "bytes_left s = []"
    then have "length (take pos buf) = length (ct @ rest)" using left by (metis append_Nil2)
    then show ?thesis using \<open>pos < n\<close> n s by simp
  qed
qed

text \<open>The next frame of a reader, and its plaintext once the frame is complete.\<close>

lemma next_frame:
  assumes "cipher_pair K paired" and "receives K paired (m # ms) ns"
  shows "\<exists>ct c d k. tr_read_message K (ns_session ns) ct = (Inr m, d) \<and> paired k c d \<and> length ms \<le> k \<and> length ct < 2 ^ 16 \<and>
    unread ns = to_be 2 (word_of_nat (length ct) :: u16) @ ct @ encode_messages K c ms"
proof -
  obtain k c where pair: "paired k c (ns_session ns)" "Suc (length ms) \<le> k" and unread: "unread ns = encode_messages K c (m # ms)"
    and m: "length m \<le> MAX_NOISE_PLAINTEXT_LEN"
    using assms(2) by (auto simp: receives_def)
  obtain k' where k: "k = Suc k'" using pair(2) by (cases k) auto
  show ?thesis using cipher_pairD [OF assms(1) pair(1) [unfolded k] m] unread m pair(2) k
    by (fastforce simp: MAX_NOISE_PLAINTEXT_LEN_def MAX_NOISE_FRAME_LEN_def NOISE_TAG_LEN_def)
qed

lemma receive_frame:
  assumes "cipher_pair K paired" and "receives K paired (m # ms) ns" and "read_frame_len ns = Some n" and "fill_body n ns = (b, ns')"
  shows "b = Pending \<and> receives K paired (m # ms) ns' \<and> available_plaintext ns' = available_plaintext ns \<or>
    b = Ready (Inr ()) \<and> (\<exists>ns''. decrypt_frame K ns' = (Inr (), ns'') \<and> receives K paired ms ns'' \<and> read_plaintext ns'' = m \<and>
      read_plaintext_pos ns'' = 0 \<and> reads_size ns'' = reads_size ns')"
proof -
  obtain ct c d k where rd: "tr_read_message K (ns_session ns) ct = (Inr m, d)" and pair: "paired k c d" "length ms \<le> k"
    and ct: "length ct < 2 ^ 16" and split: "unread ns = to_be 2 (word_of_nat (length ct) :: u16) @ ct @ encode_messages K c ms"
    using next_frame [OF assms(1,2)] by blast
  have "read_wf ns" using assms(2) by (simp add: receives_def)
  note g = read_frame_good [OF assms(4) this assms(3) ct split]
  then consider "b = Pending" "read_wf ns'" "unread ns' = unread ns" | "b = Ready (Inr ())" "read_encrypted ns' = ct"
    "bytes_left (ns_inner ns') = encode_messages K c ms" "good_reads (ns_inner ns')" "length (read_len_buf ns') = 2" by blast
  then show ?thesis
  proof cases
    case 1
    then show ?thesis using assms(2) g by (simp add: receives_def available_plaintext_def)
  next
    case 2
    let ?ns = "ns'\<lparr>ns_session := d, read_plaintext := m, read_plaintext_pos := 0, read_frame_len := None, read_len_pos := 0,
      read_encrypted := [], read_encrypted_pos := 0\<rparr>"
    have "decrypt_frame K ns' = (Inr (), ?ns)" using rd 2 g by (simp add: decrypt_frame_def)
    moreover have "receives K paired ms ?ns"
      using 2 assms(2) pair unfolding receives_def by (auto simp: read_wf_def unread_def intro!: exI [of _ k] exI [of _ c])
    ultimately show ?thesis using 2 by (simp add: reads_size_def)
  qed
qed

text \<open>The length of what is unread: nothing, or at least the two bytes of a frame length.\<close>

lemma unread_length:
  assumes "cipher_pair K paired" and "receives K paired ms ns"
  shows "if ms = [] then unread ns = [] else 2 \<le> length (unread ns)"
proof (cases ms)
  case Nil
  then show ?thesis using assms(2) by (auto simp: receives_def)
next
  case (Cons m ms')
  then show ?thesis using next_frame [OF assms(1)] assms(2) by fastforce
qed

text \<open>One poll for plaintext: it is pending after having taken a step of the stream below, or it has plaintext, or all is read.\<close>

lemma poll_fill_good:
  assumes "cipher_pair K paired" and "receives K paired ms ns" and "poll_fill_plaintext K ns = (r, ns')"
  shows "\<exists>ms'. receives K paired ms' ns' \<and> available_plaintext ns' @ concat ms' = available_plaintext ns @ concat ms \<and>
    reads_size ns' \<le> reads_size ns \<and>
    (r = Pending \<and> reads_size ns' < reads_size ns \<or> r = Ready (Inr True) \<and> available_plaintext ns' \<noteq> [] \<or>
     r = Ready (Inr False) \<and> available_plaintext ns' @ concat ms' = [])"
proof (cases "read_plaintext_pos ns < length (read_plaintext ns)")
  case True
  then have "r = Ready (Inr True)" "ns' = ns" using assms(3) by (auto simp: poll_fill_plaintext.simps)
  then show ?thesis using assms(2) True by (auto simp: available_plaintext_def)
next
  case False
  let ?ns = "ns\<lparr>read_plaintext := [], read_plaintext_pos := 0\<rparr>"
  have none: "available_plaintext ns = []" using False by (simp add: available_plaintext_def)
  obtain q ns1 where q: "fill_header ?ns = (q, ns1)" by (cases "fill_header ?ns")
  have "read_wf ?ns" using assms(2) by (simp add: receives_def)
  note h = fill_header_good [OF q this] and hs = fill_header_size [OF q]
  have again: "receives K paired ms ns1" using h assms(2) by (simp add: receives_def)
  have size: "reads_size ?ns = reads_size ns" by (simp add: reads_size_def)
  have avail1: "available_plaintext ns1 = []" using h by (simp add: available_plaintext_def)
  note len = unread_length [OF assms(1) again]
  show ?thesis
  proof (cases "\<exists>n. q = Ready (Inr (Some n))")
    case no_frame: False
    then have "q = Pending \<or> q = Ready (Inr None) \<and> ms = []" using h len by (auto split: if_split_asm)
    then show ?thesis using assms(3) False q again hs none avail1 size
      by (subst (asm) poll_fill_plaintext.simps) (auto intro!: exI [of _ ms])
  next
    case True
    then obtain n where n: "q = Ready (Inr (Some n))" "read_frame_len ns1 = Some n" using h by auto
    then have "unread ns1 \<noteq> []" using h by (auto simp: unread_def read_wf_def)
    then obtain m ms' where m: "ms = m # ms'" using len by (cases ms) auto
    obtain b ns2 where body: "fill_body n ns1 = (b, ns2)" by (cases "fill_body n ns1")
    note bs = fill_body_size [OF body]
    from receive_frame [OF assms(1) again [unfolded m] n(2) body] show ?thesis
    proof (elim disjE conjE exE)
      assume b: "b = Pending" "receives K paired (m # ms') ns2" "available_plaintext ns2 = available_plaintext ns1"
      then have "r = Pending" "ns' = ns2" using assms(3) False q n(1) body by (simp_all add: poll_fill_plaintext.simps)
      then show ?thesis using none b bs hs size m avail1 by (auto intro!: exI [of _ ms])
    next
      fix ns3 assume b: "b = Ready (Inr ())" "decrypt_frame K ns2 = (Inr (), ns3)" "receives K paired ms' ns3" "read_plaintext ns3 = m"
        "read_plaintext_pos ns3 = 0" "reads_size ns3 = reads_size ns2"
      have "m \<noteq> []" using assms(2) m by (simp add: receives_def)
      then have "r = Ready (Inr True)" "ns' = ns3" using assms(3) False q n(1) body b by (simp_all add: poll_fill_plaintext.simps)
      then show ?thesis using none m \<open>m \<noteq> []\<close> b bs hs size by (auto simp: available_plaintext_def intro!: exI [of _ ms'])
    qed
  qed
qed

lemma noise_poll_read_good:
  assumes "cipher_pair K paired" and "receives K paired ms ns" and "0 < n" and "noise_poll_read K n ns = (r, ns')"
  shows "\<exists>ms' bs. receives K paired ms' ns' \<and> bs @ available_plaintext ns' @ concat ms' = available_plaintext ns @ concat ms \<and>
    reads_size ns' \<le> reads_size ns \<and>
    (r = Pending \<and> bs = [] \<and> reads_size ns' < reads_size ns \<or>
     r = Ready (Inr bs) \<and> (bs = [] \<longrightarrow> available_plaintext ns @ concat ms = []))"
proof -
  obtain q ns1 where q: "poll_fill_plaintext K ns = (q, ns1)" by (cases "poll_fill_plaintext K ns")
  from poll_fill_good [OF assms(1,2) q]
  obtain ms' where ms': "receives K paired ms' ns1" "available_plaintext ns1 @ concat ms' = available_plaintext ns @ concat ms"
      "reads_size ns1 \<le> reads_size ns"
    and cases: "q = Pending \<and> reads_size ns1 < reads_size ns \<or> q = Ready (Inr True) \<and> available_plaintext ns1 \<noteq> [] \<or>
      q = Ready (Inr False) \<and> available_plaintext ns1 @ concat ms' = []" by blast
  from cases show ?thesis
  proof (elim disjE conjE)
    assume q': "q = Ready (Inr True)" and some: "available_plaintext ns1 \<noteq> []"
    let ?len = "min (length (available_plaintext ns1)) n"
    let ?pos = "read_plaintext_pos ns1 + ?len"
    have ns': "r = Ready (Inr (take ?len (available_plaintext ns1)))"
      "ns' = (if ?pos = length (read_plaintext ns1) then ns1\<lparr>read_plaintext := [], read_plaintext_pos := 0\<rparr> else ns1\<lparr>read_plaintext_pos := ?pos\<rparr>)"
      using assms(3,4) q q' by (auto simp: noise_poll_read_def Let_def available_plaintext_def)
    have "available_plaintext ns' = drop ?len (available_plaintext ns1)"
      using ns'(2) by (auto simp: available_plaintext_def add.commute)
    then obtain bs where bs: "r = Ready (Inr bs)" "bs @ available_plaintext ns' = available_plaintext ns1" "bs \<noteq> []"
      using ns'(1) some assms(3) by fastforce
    moreover have "receives K paired ms' ns'" "reads_size ns' = reads_size ns1"
      using ms'(1) ns'(2) by (simp_all add: receives_def reads_size_def)
    ultimately show ?thesis using ms'(2,3) by (intro exI [of _ ms'] exI [of _ bs]) (simp flip: append_assoc)
  next
    assume "q = Pending" "reads_size ns1 < reads_size ns"
    then show ?thesis using assms(3,4) q ms' by (intro exI [of _ ms'] exI [of _ "[]"]) (simp add: noise_poll_read_def)
  next
    assume "q = Ready (Inr False)" "available_plaintext ns1 @ concat ms' = []"
    then show ?thesis using assms(3,4) q ms' by (intro exI [of _ ms'] exI [of _ "[]"]) (simp add: noise_poll_read_def)
  qed
qed

lemma noise_read_all:
  assumes "cipher_pair K paired" and "receives K paired ms ns" and "0 < n"
  shows "\<exists>ns'. noise_read_to_end K n acc ns = Some (Inr (acc @ available_plaintext ns @ concat ms), ns')"
  using assms(2)
proof (induction "length (available_plaintext ns @ concat ms) + reads_size ns" arbitrary: ns ms acc rule: less_induct)
  case less
  obtain r ns1 where run: "noise_poll_read K n ns = (r, ns1)" by (cases "noise_poll_read K n ns")
  from noise_poll_read_good [OF assms(1) less.prems assms(3) run]
  obtain ms' bs where ms': "receives K paired ms' ns1" and eq: "bs @ available_plaintext ns1 @ concat ms' = available_plaintext ns @ concat ms"
    and size: "reads_size ns1 \<le> reads_size ns" and cases: "r = Pending \<and> bs = [] \<and> reads_size ns1 < reads_size ns \<or>
      r = Ready (Inr bs) \<and> (bs = [] \<longrightarrow> available_plaintext ns @ concat ms = [])" by blast
  have len: "length (available_plaintext ns @ concat ms) = length bs + length (available_plaintext ns1 @ concat ms')"
    by (simp flip: eq)
  show ?case
  proof (cases "r = Ready (Inr [])")
    case True
    then have "available_plaintext ns @ concat ms = []" using cases by simp
    then show ?thesis using run True by (subst noise_read_to_end.simps) simp
  next
    case False
    from cases have step: "noise_read_to_end K n acc ns = noise_read_to_end K n (acc @ bs) ns1"
    proof (elim disjE conjE)
      assume "r = Ready (Inr bs)"
      then show ?thesis using run False by (subst noise_read_to_end.simps) simp
    next
      assume "r = Pending" "bs = []"
      then show ?thesis using run by (subst noise_read_to_end.simps) simp
    qed
    have "reads_size ns1 < length bs + reads_size ns"
      using cases False size by (cases bs) auto
    then have "length (available_plaintext ns1 @ concat ms') + reads_size ns1 < length (available_plaintext ns @ concat ms) + reads_size ns"
      using len by linarith
    from less.hyps [OF this ms', of "acc @ bs"] show ?thesis by (simp add: step flip: eq)
  qed
qed

section \<open>The secure stream delivers what was written\<close>

text \<open>
  C30: The secure stream is a stream. Bytes that one side writes through its noise stream, over a stream below that takes
  them in pieces of any size and may be pending at any time, arrive at the other side exactly and in order, however
  the stream below cuts them into pieces and however large the buffers of the reader are; after the last byte the reader
  sees the end of the stream. Both sides return. The cipher states must belong together and have a message left for
  every byte.
\<close>

theorem noise_stream_roundtrip:
  assumes "cipher_pair K paired" and "paired (length buf) c d" and "good_writes out" and "in_written out = []" and "0 < n"
  shows "\<exists>ns. noise_write_all K buf (NoiseStream_new out c) = Some (Inr (), ns) \<and>
    (\<forall>inp. good_reads inp \<and> bytes_left inp = in_written (ns_inner ns) \<longrightarrow>
       (\<exists>ns'. noise_read_to_end K n [] (NoiseStream_new inp d) = Some (Inr buf, ns')))"
proof -
  let ?w = "NoiseStream_new out c"
  have "paired (length buf) (ns_session ?w) d" "write_idle ?w" "good_writes (ns_inner ?w)"
    using assms(2,3) by (simp_all add: NoiseStream_new_def write_idle_def)
  from noise_write_all_frames [OF assms(1) this(1) length_chunks this(2,3)]
  obtain ns where ns: "noise_write_all K buf ?w = Some (Inr (), ns)" "in_written (ns_inner ns) = encode_messages K c (plaintext_chunks buf)"
    using assms(4) by (auto simp: NoiseStream_new_def)
  have "\<exists>ns'. noise_read_to_end K n [] (NoiseStream_new inp d) = Some (Inr buf, ns')"
    if "good_reads inp" "bytes_left inp = in_written (ns_inner ns)" for inp
  proof -
    have "receives K paired (plaintext_chunks buf) (NoiseStream_new inp d)"
      unfolding receives_def using that ns(2) assms(2) length_chunks [of buf] chunk_bounds
      by (auto simp: NoiseStream_new_def read_wf_def unread_def)
    from noise_read_all [OF assms(1) this assms(5), of "[]"] show ?thesis
      by (simp add: concat_chunks available_plaintext_def NoiseStream_new_def)
  qed
  then show ?thesis using ns(1) by blast
qed

section \<open>A concrete cipher\<close>

definition demo_cipher :: "nat cipher_env" where
  "demo_cipher = \<lparr> tr_write_message = (\<lambda>c p. (Inr (p @ replicate 16 (word_of_nat c)), Suc c)),
     tr_read_message = (\<lambda>d ct. if 16 \<le> length ct \<and> drop (length ct - 16) ct = replicate 16 (word_of_nat d)
        then (Inr (take (length ct - 16) ct), Suc d) else (Inl ''decrypt error'', d)) \<rparr>"

lemma demo_cipher_pair: "cipher_pair demo_cipher (\<lambda>k c d. c = d)"
  by (simp add: cipher_pair_def demo_cipher_def NOISE_TAG_LEN_def)

theorem noise_stream_roundtrip_witness:
  "\<exists>ns. noise_write_all demo_cipher [1, 2, 3]
      (NoiseStream_new \<lparr> in_reads = [], in_writes = [Accept 1, WritePending, Accept 7], in_flushes = [FlushPending], in_written = [] \<rparr> 0) = Some (Inr (), ns) \<and>
    (\<forall>inp. good_reads inp \<and> bytes_left inp = in_written (ns_inner ns) \<longrightarrow>
       (\<exists>ns'. noise_read_to_end demo_cipher 2 [] (NoiseStream_new inp 0) = Some (Inr [1, 2, 3], ns')))"
  by (rule noise_stream_roundtrip [OF demo_cipher_pair]) (simp_all add: good_writes_def)

end
