(* ===== verification/TransportKeys.thy ===== *)
theory TransportKeys
  imports NodeHello NvsStorage
begin

text \<open>
  Keys of the embedded runtime.

  \<^item> \<open>erp-runtime/src/identity/manager.rs\<close>: signing with the key in the efuse block through the PSA
    interface. Every call imports an opaque key, uses it and destroys it when its handle is dropped.
  \<^item> \<open>erp-runtime/src/network/transport_identity.rs\<close>: the key that authenticates the transport, the one in
    the efuse block or one that is generated once and kept in the flash.

  The PSA functions are the parameter \<open>H\<close>, the key types of libp2p the parameter \<open>L\<close>; the state of the PSA
  part is the list of keys that have been imported and not destroyed.
\<close>

section \<open>PSA constants\<close>

definition PSA_SUCCESS :: "32 word" where "PSA_SUCCESS = 0"
definition PSA_ECC_FAMILY_SECP_R1 :: u8 where "PSA_ECC_FAMILY_SECP_R1 = 0x12"
definition PSA_KEY_TYPE_ECC_KEY_PAIR_BASE :: u16 where "PSA_KEY_TYPE_ECC_KEY_PAIR_BASE = 0x7100"
definition PSA_KEY_USAGE_SIGN_HASH :: u32 where "PSA_KEY_USAGE_SIGN_HASH = 0x1000"
definition PSA_ALG_SHA_256 :: u32 where "PSA_ALG_SHA_256 = 0x02000009"
definition PSA_ALG_ECDSA_BASE :: u32 where "PSA_ALG_ECDSA_BASE = 0x06000600"
definition PSA_KEY_LOCATION_ESP_ECDSA :: u32 where "PSA_KEY_LOCATION_ESP_ECDSA = 0x800001"
definition PSA_KEY_PERSISTENCE_VOLATILE :: u8 where "PSA_KEY_PERSISTENCE_VOLATILE = 0"
definition P256_KEY_BITS :: u16 where "P256_KEY_BITS = 256"
definition P256_SIGNATURE_COMPONENT_SIZE :: nat where "P256_SIGNATURE_COMPONENT_SIZE = 32"
definition UNCOMPRESSED_P256_PUBLIC_KEY_SIZE :: nat where "UNCOMPRESSED_P256_PUBLIC_KEY_SIZE = 65"

unbundle bit_operations_syntax

definition psa_key_type_ecc_key_pair :: "u8 \<Rightarrow> u16" where
  "psa_key_type_ecc_key_pair curve = PSA_KEY_TYPE_ECC_KEY_PAIR_BASE OR ucast curve"

definition psa_alg_ecdsa :: "u32 \<Rightarrow> u32" where
  "psa_alg_ecdsa hash_alg = PSA_ALG_ECDSA_BASE OR (hash_alg AND 0xff)"

definition psa_key_lifetime_esp_ecdsa_volatile :: u32 where
  "psa_key_lifetime_esp_ecdsa_volatile = push_bit 8 PSA_KEY_LOCATION_ESP_ECDSA OR ucast PSA_KEY_PERSISTENCE_VOLATILE"

lemma psa_encodings:
  "psa_key_type_ecc_key_pair PSA_ECC_FAMILY_SECP_R1 = 0x7112" "psa_alg_ecdsa PSA_ALG_SHA_256 = 0x06000609"
  "psa_key_lifetime_esp_ecdsa_volatile = 0x80000100"
  by (simp_all add: psa_key_type_ecc_key_pair_def PSA_KEY_TYPE_ECC_KEY_PAIR_BASE_def PSA_ECC_FAMILY_SECP_R1_def psa_alg_ecdsa_def
      PSA_ALG_ECDSA_BASE_def PSA_ALG_SHA_256_def psa_key_lifetime_esp_ecdsa_volatile_def PSA_KEY_LOCATION_ESP_ECDSA_def
      PSA_KEY_PERSISTENCE_VOLATILE_def)

section \<open>Keys in the efuse block\<close>

record psa_attributes =
  attr_type :: u16
  attr_bits :: u16
  attr_lifetime :: u32
  attr_usage :: u32
  attr_alg :: u32
  attr_alg2 :: u32
  attr_id :: u32

record psa_opaque_key =
  opaque_use_km_key :: bool
  opaque_efuse_block :: u8

text \<open>A PSA function returns a status and, through its out parameters, a value.\<close>

record psa =
  psa_crypto_init :: "32 word"
  psa_import_key :: "psa_attributes \<Rightarrow> psa_opaque_key \<Rightarrow> 32 word \<times> u32"
  psa_export_public_key :: "u32 \<Rightarrow> nat \<Rightarrow> 32 word \<times> byte_vec"
  psa_sign_hash :: "u32 \<Rightarrow> u32 \<Rightarrow> byte_vec \<Rightarrow> nat \<Rightarrow> 32 word \<times> byte_vec"

type_synonym 'a with_keys = "(u32 list, string, 'a) effect"

definition psa_status_ok :: "32 word \<Rightarrow> (32 word, unit) result" where
  "psa_status_ok status = (if status = PSA_SUCCESS then Inr () else Inl status)"

definition efuse_attributes :: psa_attributes where
  "efuse_attributes = \<lparr> attr_type = psa_key_type_ecc_key_pair PSA_ECC_FAMILY_SECP_R1, attr_bits = P256_KEY_BITS,
     attr_lifetime = psa_key_lifetime_esp_ecdsa_volatile, attr_usage = PSA_KEY_USAGE_SIGN_HASH,
     attr_alg = psa_alg_ecdsa PSA_ALG_SHA_256, attr_alg2 = 0, attr_id = 0 \<rparr>"

text \<open>\<open>efuse_block as u8\<close> keeps the low byte of the block number.\<close>

definition imported_key :: "psa \<Rightarrow> u32 \<Rightarrow> (string, u32) result" where
  "imported_key H efuse_block =
     bind_result (map_err (\<lambda>_. ''psa_crypto_init failed'') (psa_status_ok (psa_crypto_init H)))
       (\<lambda>_. let (status, key_id) =
               psa_import_key H efuse_attributes \<lparr> opaque_use_km_key = False, opaque_efuse_block = ucast efuse_block \<rparr>
             in bind_result (map_err (\<lambda>_. ''failed to import opaque efuse ECDSA key into PSA'') (psa_status_ok status))
               (\<lambda>_. if key_id = 0 then Inl ''PSA returned an invalid opaque ECDSA key id'' else Inr key_id))"

definition import_psa_opaque_key :: "psa \<Rightarrow> u32 \<Rightarrow> u32 with_keys" where
  "import_psa_opaque_key H efuse_block open_keys =
     (case imported_key H efuse_block of
        Inl e \<Rightarrow> (Inl e, open_keys)
      | Inr key \<Rightarrow> (Inr key, key # open_keys))"

text \<open>The handle of the key is dropped when the body is done, on every path.\<close>

definition using_psa_key :: "psa \<Rightarrow> u32 \<Rightarrow> (u32 \<Rightarrow> (string, 'a) result) \<Rightarrow> 'a with_keys" where
  "using_psa_key H efuse_block body =
     and_then (import_psa_opaque_key H efuse_block)
       (\<lambda>key open_keys. (body key, remove1 key open_keys))"

definition load_verifying_key_from_efuse :: "('vk, 'sig, 'z) hello_env_scheme \<Rightarrow> (byte_vec \<Rightarrow> 'vk option) \<Rightarrow> psa \<Rightarrow> u32 \<Rightarrow> 'vk with_keys" where
  "load_verifying_key_from_efuse E parse_sec1 H efuse_block =
     using_psa_key H efuse_block
       (\<lambda>key. case psa_export_public_key H key UNCOMPRESSED_P256_PUBLIC_KEY_SIZE of
          (status, public_key_bytes) \<Rightarrow>
            bind_result (map_err (\<lambda>_. ''failed to export public key from opaque PSA ECDSA key'') (psa_status_ok status))
              (\<lambda>_. ok_or ''invalid P-256 public key exported from efuse'' (parse_sec1 public_key_bytes)))"

definition sign_message_with_psa :: "('vk, 'sig, 'z) hello_env_scheme \<Rightarrow> psa \<Rightarrow> byte_vec \<Rightarrow> u32 \<Rightarrow> 'sig with_keys" where
  "sign_message_with_psa E H message efuse_block =
     using_psa_key H efuse_block
       (\<lambda>key. case psa_sign_hash H key (psa_alg_ecdsa PSA_ALG_SHA_256) (to_be 32 (sha256 E message)) 64 of
          (status, signature_bytes) \<Rightarrow>
            bind_result (map_err (\<lambda>_. ''psa_sign_hash failed for opaque ECDSA key'') (psa_status_ok status))
              (\<lambda>_. if length signature_bytes \<noteq> P256_SIGNATURE_COMPONENT_SIZE * 2
                 then Inl ''opaque ECDSA signer returned unexpected signature length''
                 else ok_or ''invalid p256 signature bytes'' (sig_from_slice E signature_bytes)))"

definition find_ecdsa_key_block :: "bool \<times> u32 \<Rightarrow> (string, u32) result" where
  "find_ecdsa_key_block found =
     (if fst found then Inr (snd found) else Inl ''no efuse key with ECDSA_KEY purpose found'')"

text \<open>The identity in the efuse block of this hardware: \<open>try_efuse\<close> with the PSA functions.\<close>

definition hardware_identity ::
  "('vk, 'sig, 'z) hello_env_scheme \<Rightarrow> (byte_vec \<Rightarrow> 'vk option) \<Rightarrow> psa \<Rightarrow> bool \<times> u32 \<Rightarrow> u16
    \<Rightarrow> (RuntimeError, ('vk, 'sig) IdentityManager option) result" where
  "hardware_identity E parse_sec1 H found chip_revision =
     try_efuse E (find_ecdsa_key_block found) chip_revision
       (\<lambda>key_block. fst (load_verifying_key_from_efuse E parse_sec1 H key_block []))
       (\<lambda>key_block message. fst (sign_message_with_psa E H message key_block []))"

lemma using_psa_key_eq: "using_psa_key H efuse_block body open_keys = (bind_result (imported_key H efuse_block) body, open_keys)"
  by (simp add: using_psa_key_def import_psa_opaque_key_def and_then_def split: sum.split)

text \<open>
  The PSA contract: the signature that the opaque key gives for a digest verifies for the key that it
  exports, on the message with that digest.
\<close>

definition psa_signs :: "('vk, 'sig, 'z) hello_env_scheme \<Rightarrow> (byte_vec \<Rightarrow> 'vk option) \<Rightarrow> psa \<Rightarrow> bool" where
  "psa_signs E parse_sec1 H \<longleftrightarrow>
     (\<forall>key pk vk message sg_bytes sg.
        psa_export_public_key H key UNCOMPRESSED_P256_PUBLIC_KEY_SIZE = (PSA_SUCCESS, pk) \<and> parse_sec1 pk = Some vk \<and>
        psa_sign_hash H key (psa_alg_ecdsa PSA_ALG_SHA_256) (to_be 32 (sha256 E message)) 64 = (PSA_SUCCESS, sg_bytes) \<and>
        sig_from_slice E sg_bytes = Some sg \<longrightarrow> ecdsa_verify E vk message sg)"

lemma hardware_identity_ok:
  assumes "psa_signs E parse_sec1 H" and "hardware_identity E parse_sec1 H found chip_revision = Inr (Some identity)"
  shows "identity_ok E identity"
proof -
  obtain blk where load: "from_efuse_block E (fst (load_verifying_key_from_efuse E parse_sec1 H blk []))
      (\<lambda>message. fst (sign_message_with_psa E H message blk [])) = Inr identity"
    using assms(2)
    by (auto simp: hardware_identity_def try_efuse_def bind_result_Inr split: sum.split_asm option.split_asm if_split_asm)
  obtain vk where vk: "fst (load_verifying_key_from_efuse E parse_sec1 H blk []) = Inr vk"
    using load by (auto simp: from_efuse_block_def bind_result_Inr)
  have "ecdsa_verify E vk message sg" if sg: "fst (sign_message_with_psa E H message blk []) = Inr sg" for message sg
  proof -
    let ?sign = "\<lambda>key. psa_sign_hash H key (psa_alg_ecdsa PSA_ALG_SHA_256) (to_be 32 (sha256 E message)) 64"
    let ?export = "\<lambda>key. psa_export_public_key H key UNCOMPRESSED_P256_PUBLIC_KEY_SIZE"
    obtain key where key: "imported_key H blk = Inr key" and ex: "fst (?export key) = PSA_SUCCESS" "parse_sec1 (snd (?export key)) = Some vk"
      using vk by (auto simp: load_verifying_key_from_efuse_def using_psa_key_eq bind_result_Inr psa_status_ok_def case_prod_unfold
          split: if_split_asm)
    have sig: "fst (?sign key) = PSA_SUCCESS" "sig_from_slice E (snd (?sign key)) = Some sg"
      using sg key by (auto simp: sign_message_with_psa_def using_psa_key_eq bind_result_Inr psa_status_ok_def case_prod_unfold
          split: if_split_asm)
    have "?export key = (PSA_SUCCESS, snd (?export key))" "?sign key = (PSA_SUCCESS, snd (?sign key))"
      using ex(1) sig(1) by (simp_all add: prod_eq_iff)
    then show ?thesis using assms(1) [unfolded psa_signs_def, rule_format] ex(2) sig(2) by simp
  qed
  then show ?thesis using efuse_identity_ok [OF load [unfolded vk]] by blast
qed

section \<open>The transport identity\<close>

datatype TransportIdentityAlgorithm = Ed25519 | EcdsaP256

datatype KeyType = Ed25519KeyType | RsaKeyType | Secp256k1KeyType | EcdsaKeyType

record TransportIdentityRecord =
  record_algorithm :: TransportIdentityAlgorithm
  private_key_protobuf :: byte_vec

text \<open>Key pairs and public keys of libp2p, the DER form of a P-256 signature and postcard on the stored record.\<close>

record ('kp, 'pk, 'sig) libp2p =
  kp_from_protobuf :: "byte_vec \<Rightarrow> 'kp option"
  kp_to_protobuf :: "'kp \<Rightarrow> byte_vec option"
  kp_type :: "'kp \<Rightarrow> KeyType"
  kp_public :: "'kp \<Rightarrow> 'pk"
  kp_sign :: "'kp \<Rightarrow> byte_vec \<Rightarrow> byte_vec option"
  pk_encode :: "'pk \<Rightarrow> byte_vec"
  pk_decode :: "byte_vec \<Rightarrow> 'pk option"
  pk_verify :: "'pk \<Rightarrow> byte_vec \<Rightarrow> byte_vec \<Rightarrow> bool"
  pk_peer_id :: "'pk \<Rightarrow> byte_vec"
  ecdsa_pk_from_bytes :: "byte_vec \<Rightarrow> 'pk option"
  sig_to_der :: "'sig \<Rightarrow> byte_vec"
  record_encode :: "TransportIdentityRecord \<Rightarrow> byte_vec option"
  record_decode :: "byte_vec \<Rightarrow> TransportIdentityRecord option"

datatype ('kp, 'vk, 'sig) TransportIdentityBackend = SoftwareTransport 'kp | HardwareTransport "('vk, 'sig) IdentityManager"

record ('kp, 'vk, 'sig) TransportIdentityManager =
  tim_algorithm :: TransportIdentityAlgorithm
  tim_peer_id :: byte_vec
  tim_public_key_protobuf :: byte_vec
  tim_backend :: "('kp, 'vk, 'sig) TransportIdentityBackend"

definition TRANSPORT_IDENTITY_KEY :: string where "TRANSPORT_IDENTITY_KEY = ''transport_id''"

definition transport_sign ::
  "('kp, 'pk, 'sig) libp2p \<Rightarrow> ('vk, 'sig, 'z) hello_env_scheme \<Rightarrow> ('kp, 'vk, 'sig) TransportIdentityManager \<Rightarrow> byte_vec
    \<Rightarrow> (RuntimeError, byte_vec) result" where
  "transport_sign L E T message =
     (case tim_backend T of
        SoftwareTransport keypair \<Rightarrow>
          ok_or (Crypto ''failed to sign message with transport identity'') (kp_sign L keypair message)
      | HardwareTransport identity \<Rightarrow>
          bind_result (map_err (\<lambda>_. Crypto ''failed to sign message with hardware transport identity'') (identity_sign E identity message))
            (\<lambda>raw_signature. bind_result
               (ok_or (Crypto ''hardware transport signature was not a valid P-256 signature'') (sig_from_slice E raw_signature))
               (\<lambda>signature. Inr (sig_to_der L signature))))"

definition algorithm_from_key_type :: "KeyType \<Rightarrow> (RuntimeError, TransportIdentityAlgorithm) result" where
  "algorithm_from_key_type key_type =
     (case key_type of
        EcdsaKeyType \<Rightarrow> Inr EcdsaP256
      | Ed25519KeyType \<Rightarrow> Inr Ed25519
      | _ \<Rightarrow> Inl (Config ''unsupported libp2p transport identity algorithm''))"

definition from_keypair ::
  "('kp, 'pk, 'sig) libp2p \<Rightarrow> 'kp \<Rightarrow> (RuntimeError, ('kp, 'vk, 'sig) TransportIdentityManager) result" where
  "from_keypair L keypair =
     bind_result (algorithm_from_key_type (kp_type L keypair))
       (\<lambda>algorithm. Inr \<lparr> tim_algorithm = algorithm, tim_peer_id = pk_peer_id L (kp_public L keypair),
          tim_public_key_protobuf = pk_encode L (kp_public L keypair), tim_backend = SoftwareTransport keypair \<rparr>)"

definition from_record ::
  "('kp, 'pk, 'sig) libp2p \<Rightarrow> TransportIdentityRecord \<Rightarrow> (RuntimeError, ('kp, 'vk, 'sig) TransportIdentityManager) result" where
  "from_record L r =
     bind_result (ok_or (Crypto ''failed to decode persisted transport identity keypair'') (kp_from_protobuf L (private_key_protobuf r)))
       (\<lambda>keypair. bind_result (algorithm_from_key_type (kp_type L keypair))
         (\<lambda>algorithm. if algorithm \<noteq> record_algorithm r
            then Inl (Crypto ''transport identity algorithm does not match persisted keypair'')
            else from_keypair L keypair))"

definition from_hardware_identity ::
  "('kp, 'pk, 'sig) libp2p \<Rightarrow> ('vk, 'sig) IdentityManager \<Rightarrow> (RuntimeError, ('kp, 'vk, 'sig) TransportIdentityManager) result" where
  "from_hardware_identity L identity =
     bind_result (ok_or (Crypto ''failed to convert hardware public key into libp2p ECDSA identity'')
         (ecdsa_pk_from_bytes L (public_key identity)))
       (\<lambda>pk. Inr \<lparr> tim_algorithm = EcdsaP256, tim_peer_id = pk_peer_id L pk, tim_public_key_protobuf = pk_encode L pk,
          tim_backend = HardwareTransport identity \<rparr>)"

definition load_record :: "('kp, 'pk, 'sig) libp2p \<Rightarrow> 'st kv_store \<Rightarrow> 'st \<Rightarrow> (RuntimeError, TransportIdentityRecord option) result" where
  "load_record L K st =
     bind_result (map_err Esp (kv_len K st TRANSPORT_IDENTITY_KEY))
       (\<lambda>len. case len of
          None \<Rightarrow> Inr None
        | Some n \<Rightarrow>
            bind_result (map_err Esp (kv_get_raw K st TRANSPORT_IDENTITY_KEY n))
              (\<lambda>bytes. case bytes of
                 None \<Rightarrow> Inr None
               | Some bytes \<Rightarrow>
                   bind_result (ok_or (Crypto ''invalid persisted transport identity record'') (record_decode L bytes))
                     (\<lambda>r. Inr (Some r))))"

definition store_record :: "('kp, 'pk, 'sig) libp2p \<Rightarrow> 'st kv_store \<Rightarrow> TransportIdentityRecord \<Rightarrow> ('st, RuntimeError, unit) effect" where
  "store_record L K r =
     and_then (of_result (ok_or (Crypto ''failed to serialize transport identity record'') (record_encode L r)))
       (\<lambda>bytes. and_then (map_err_effect Esp (kv_set_raw K TRANSPORT_IDENTITY_KEY bytes)) (\<lambda>_. done_with ()))"

text \<open>\<open>hardware\<close> is what \<open>try_efuse\<close> returns, \<open>opened\<close> whether the namespace could be opened, \<open>fresh\<close> a generated key pair.\<close>

definition transport_load_or_create ::
  "('kp, 'pk, 'sig) libp2p \<Rightarrow> 'st kv_store \<Rightarrow> (RuntimeError, ('vk, 'sig) IdentityManager option) result \<Rightarrow> (EspError, unit) result
    \<Rightarrow> 'kp \<Rightarrow> ('st, RuntimeError, ('kp, 'vk, 'sig) TransportIdentityManager) effect" where
  "transport_load_or_create L K hardware opened fresh =
     and_then (of_result hardware)
       (\<lambda>h. case h of
          Some identity \<Rightarrow> of_result (from_hardware_identity L identity)
        | None \<Rightarrow>
            and_then (of_result (map_err Esp opened))
              (\<lambda>_. and_then (\<lambda>st. (load_record L K st, st))
                (\<lambda>found. case found of
                   Some r \<Rightarrow> of_result (from_record L r)
                 | None \<Rightarrow>
                     and_then (of_result (ok_or (Crypto ''failed to encode transport identity keypair'') (kp_to_protobuf L fresh)))
                       (\<lambda>bytes. let r = \<lparr> record_algorithm = EcdsaP256, private_key_protobuf = bytes \<rparr>
                          in and_then (store_record L K r) (\<lambda>_. of_result (from_record L r))))))"

section \<open>The transport identity of the host\<close>

text \<open>\<open>HostTransportIdentity::load_or_create\<close> of \<open>rp-runtime/src/network/manager.rs\<close>: the key pair in a file, with the bytes the file has afterwards.\<close>

definition host_transport_load_or_create ::
  "('kp, 'pk, 'sig) libp2p \<Rightarrow> 'kp \<Rightarrow> (byte_vec \<Rightarrow> (string, unit) result) \<Rightarrow> (string, byte_vec) result option
    \<Rightarrow> (HostError, byte_vec \<times> 'kp \<times> byte_vec) result" where
  "host_transport_load_or_create L fresh write_file file =
     bind_result
       (case file of
          Some read_result \<Rightarrow>
            bind_result (map_err host_io_other read_result)
              (\<lambda>bytes. bind_result (ok_or (HostCrypto ''invalid persisted transport identity bytes'') (kp_from_protobuf L bytes))
                (\<lambda>keypair. Inr (keypair, bytes)))
        | None \<Rightarrow>
            bind_result (ok_or (HostCrypto ''failed to encode transport identity keypair'') (kp_to_protobuf L fresh))
              (\<lambda>encoded. bind_result (map_err host_io_other (write_file encoded)) (\<lambda>_. Inr (fresh, encoded))))
       (\<lambda>(keypair, bytes). Inr (pk_peer_id L (kp_public L keypair), keypair, bytes))"

section \<open>What a transport identity promises\<close>

definition libp2p_ok :: "('kp, 'pk, 'sig) libp2p \<Rightarrow> ('vk, 'sig, 'z) hello_env_scheme \<Rightarrow> bool" where
  "libp2p_ok L E \<longleftrightarrow>
     (\<forall>pk. pk_decode L (pk_encode L pk) = Some pk \<and> pk_encode L pk \<noteq> []) \<and>
     (\<forall>kp message sg. kp_sign L kp message = Some sg \<longrightarrow> pk_verify L (kp_public L kp) message sg \<and> sg \<noteq> []) \<and>
     (\<forall>kp bytes. kp_to_protobuf L kp = Some bytes \<longrightarrow> kp_from_protobuf L bytes = Some kp) \<and>
     (\<forall>vk pk message sg. ecdsa_pk_from_bytes L (verifying_key_bytes E vk) = Some pk \<and> ecdsa_verify E vk message sg \<longrightarrow>
        pk_verify L pk message (sig_to_der L sg)) \<and>
     (\<forall>sg. sig_to_der L sg \<noteq> []) \<and>
     (\<forall>r bytes. record_encode L r = Some bytes \<longrightarrow> record_decode L bytes = Some r)"

definition transport_ok ::
  "('kp, 'pk, 'sig) libp2p \<Rightarrow> ('vk, 'sig, 'z) hello_env_scheme \<Rightarrow> ('kp, 'vk, 'sig) TransportIdentityManager \<Rightarrow> bool" where
  "transport_ok L E T \<longleftrightarrow>
     tim_public_key_protobuf T \<noteq> [] \<and>
     (\<exists>pk. pk_decode L (tim_public_key_protobuf T) = Some pk \<and> tim_peer_id T = pk_peer_id L pk \<and>
        (\<forall>message sg. transport_sign L E T message = Inr sg \<longrightarrow> pk_verify L pk message sg \<and> sg \<noteq> []))"

lemma from_record_ok:
  assumes "libp2p_ok L E" and "from_record L r = Inr T"
  shows "transport_ok L E T"
proof -
  obtain kp where T: "tim_public_key_protobuf T = pk_encode L (kp_public L kp)" "tim_peer_id T = pk_peer_id L (kp_public L kp)"
      "tim_backend T = SoftwareTransport kp"
    using assms(2) by (auto simp: from_record_def from_keypair_def bind_result_Inr split: if_split_asm)
  have law: "pk_decode L (pk_encode L (kp_public L kp)) = Some (kp_public L kp)" "pk_encode L (kp_public L kp) \<noteq> []"
      "\<And>message sg. kp_sign L kp message = Some sg \<Longrightarrow> pk_verify L (kp_public L kp) message sg \<and> sg \<noteq> []"
    using assms(1) unfolding libp2p_ok_def by blast+
  then show ?thesis by (simp add: transport_ok_def T transport_sign_def)
qed

lemma from_hardware_ok:
  assumes "libp2p_ok L E" and "signatures_ok E" and "identity_ok E identity" and "from_hardware_identity L identity = Inr T"
  shows "transport_ok L E T"
proof -
  obtain pk where pk: "ecdsa_pk_from_bytes L (verifying_key_bytes E (id_verifying_key identity)) = Some pk"
    and T: "tim_public_key_protobuf T = pk_encode L pk" "tim_peer_id T = pk_peer_id L pk" "tim_backend T = HardwareTransport identity"
    using assms(3,4) by (auto simp: from_hardware_identity_def bind_result_Inr identity_ok_def)
  have law: "pk_decode L (pk_encode L pk) = Some pk" "pk_encode L pk \<noteq> []" "\<And>sg. sig_to_der L sg \<noteq> []"
      "\<And>message sg. ecdsa_verify E (id_verifying_key identity) message sg \<Longrightarrow> pk_verify L pk message (sig_to_der L sg)"
    using assms(1) pk unfolding libp2p_ok_def by blast+
  have "pk_verify L pk message sg \<and> sg \<noteq> []" if signed: "transport_sign L E T message = Inr sg" for message sg
  proof -
    obtain raw s where raw: "identity_sign E identity message = Inr raw" "sig_from_slice E raw = Some s" "sg = sig_to_der L s"
      using signed by (auto simp: transport_sign_def T bind_result_Inr)
    obtain s' where "sig_from_slice E raw = Some s'" "ecdsa_verify E (id_verifying_key identity) message s'"
      using identity_signD [OF raw(1) assms(3,2)] .
    then show ?thesis using raw law by simp
  qed
  then show ?thesis by (simp add: transport_ok_def T law(1,2))
qed

lemma stored_record_found:
  assumes "libp2p_ok L E" and "kv_ok K" and "store_record L K r st = (Inr (), st')"
  shows "load_record L K st' = Inr (Some r)"
proof -
  obtain bytes written where enc: "record_encode L r = Some bytes" and "kv_set_raw K TRANSPORT_IDENTITY_KEY bytes st = (Inr written, st')"
    using assms(3) by (auto simp: store_record_def and_then_Inr of_result_def)
  then have "kv_len K st' TRANSPORT_IDENTITY_KEY = Inr (Some (length bytes))"
      "kv_get_raw K st' TRANSPORT_IDENTITY_KEY (length bytes) = Inr (Some bytes)"
    using assms(2) unfolding kv_ok_def by blast+
  moreover have "record_decode L bytes = Some r" using assms(1) enc unfolding libp2p_ok_def by blast
  ultimately show ?thesis by (simp add: load_record_def)
qed

text \<open>
  C31: A node keeps its transport identity. The identity that starting the node returns, from the efuse block, from the
  flash or freshly generated, signs messages that verify for the public key it shows, whose peer id it is;
  and starting the node again on the flash it leaves returns the same identity, whatever key pair would be generated
  then, and writes nothing.
\<close>

theorem transport_identity_persistent:
  assumes "libp2p_ok L E" and "kv_ok K" and "signatures_ok E" and "psa_signs E parse_sec1 H"
    and "transport_load_or_create L K (hardware_identity E parse_sec1 H found chip_revision) opened fresh st = (Inr T, st')"
  shows "transport_ok L E T \<and>
    (\<forall>fresh'. transport_load_or_create L K (hardware_identity E parse_sec1 H found chip_revision) opened fresh' st' = (Inr T, st'))"
proof (cases "hardware_identity E parse_sec1 H found chip_revision")
  case (Inl e)
  then show ?thesis using assms(5) by (simp add: transport_load_or_create_def)
next
  case (Inr h)
  show ?thesis
  proof (cases h)
    case (Some identity)
    have "identity_ok E identity" using hardware_identity_ok [OF assms(4)] Inr Some by blast
    moreover have "from_hardware_identity L identity = Inr T" "st' = st"
      using assms(5) Inr Some by (simp_all add: transport_load_or_create_def)
    ultimately show ?thesis
      using from_hardware_ok [OF assms(1,3)] Inr Some by (simp add: transport_load_or_create_def)
  next
    case None
    then obtain r where r: "from_record L r = Inr T" "load_record L K st' = Inr (Some r)" "opened = Inr ()"
      using assms(5) Inr stored_record_found [OF assms(1,2)]
      by (auto simp: transport_load_or_create_def and_then_Inr of_result_def Let_def split: option.split_asm)
    then show ?thesis
      using from_record_ok [OF assms(1)] Inr None by (simp add: transport_load_or_create_def and_then_def)
  qed
qed

section \<open>A concrete node\<close>

definition demo_libp2p :: "(u8, u8, demo_sig) libp2p" where
  "demo_libp2p = \<lparr> kp_from_protobuf = (\<lambda>bytes. case bytes of [k] \<Rightarrow> Some k | _ \<Rightarrow> None), kp_to_protobuf = (\<lambda>k. Some [k]),
     kp_type = (\<lambda>_. EcdsaKeyType), kp_public = id, kp_sign = (\<lambda>k m. Some (k # m)), pk_encode = (\<lambda>k. [k]),
     pk_decode = (\<lambda>bytes. case bytes of [k] \<Rightarrow> Some k | _ \<Rightarrow> None), pk_verify = (\<lambda>k m sg. sg = k # m), pk_peer_id = (\<lambda>k. [k]),
     ecdsa_pk_from_bytes = (\<lambda>bytes. demo_key_of (from_be bytes)), sig_to_der = (\<lambda>(k, m). k # m),
     record_encode = (\<lambda>r. Some ((case record_algorithm r of Ed25519 \<Rightarrow> 0 | EcdsaP256 \<Rightarrow> 1) # private_key_protobuf r)),
     record_decode = (\<lambda>bytes. case bytes of [] \<Rightarrow> None
       | a # rest \<Rightarrow> Some \<lparr> record_algorithm = (if a = 0 then Ed25519 else EcdsaP256), private_key_protobuf = rest \<rparr>) \<rparr>"

text \<open>A chip without a key in its efuse block.\<close>

definition demo_psa :: psa where
  "demo_psa = \<lparr> psa_crypto_init = 0, psa_import_key = (\<lambda>_ _. (1, 0)), psa_export_public_key = (\<lambda>_ _. (1, [])),
     psa_sign_hash = (\<lambda>_ _ _ _. (1, [])) \<rparr>"

lemma demo_key_parses: "demo_key_of (from_be (verifying_key_bytes demo_hello_env vk)) = Some vk"
proof -
  have "identity_ok demo_hello_env (demo_identity vk)" by (rule demo_identity_ok)
  from identity_key_parses(2) [OF demo_hello_env_ok(1) this] show ?thesis
    by (simp add: demo_identity_def from_software_signing_key_def Let_def verifying_key_from_bytes_def split: option.split_asm)
qed

lemma demo_libp2p_ok: "libp2p_ok demo_libp2p demo_hello_env"
  by (auto simp: libp2p_ok_def demo_libp2p_def demo_key_parses TransportIdentityRecord.equality split: TransportIdentityAlgorithm.split)

lemma demo_psa_signs: "psa_signs E parse_sec1 demo_psa"
  by (simp add: psa_signs_def demo_psa_def PSA_SUCCESS_def)

lemma demo_no_hardware: "hardware_identity demo_hello_env (\<lambda>_. None) demo_psa (False, 0) 300 = Inr None"
  by (simp add: hardware_identity_def try_efuse_def find_ecdsa_key_block_def)

theorem transport_identity_persistent_witness:
  "\<exists>T st'. transport_load_or_create demo_libp2p demo_kv (hardware_identity demo_hello_env (\<lambda>_. None) demo_psa (False, 0) 300)
      (Inr ()) 9 Map.empty = (Inr T, st') \<and> tim_peer_id T = [9] \<and>
    transport_load_or_create demo_libp2p demo_kv (hardware_identity demo_hello_env (\<lambda>_. None) demo_psa (False, 0) 300)
      (Inr ()) 4 st' = (Inr T, st')"
proof -
  obtain T st' where run: "transport_load_or_create demo_libp2p demo_kv (hardware_identity demo_hello_env (\<lambda>_. None) demo_psa (False, 0) 300)
      (Inr ()) 9 Map.empty = (Inr T, st')" and "tim_peer_id T = [9]"
    by (simp add: demo_no_hardware transport_load_or_create_def load_record_def demo_kv_def and_then_def store_record_def demo_libp2p_def
        map_err_effect_def Let_def from_record_def from_keypair_def algorithm_from_key_type_def)
  then show ?thesis
    using transport_identity_persistent [OF demo_libp2p_ok demo_kv_ok demo_hello_env_ok(2) demo_psa_signs run] by blast
qed

end
