(* ===== verification/NoiseHandshake.thy ===== *)
theory NoiseHandshake
  imports NoiseStream TransportKeys Session
begin

text \<open>
  The noise handshake (\<open>erp-runtime/src/network/transport/noise.rs\<close>), the yamux upgrade after it
  (\<open>transport/yamux.rs\<close>) and how a session runs them on a new connection (\<open>network/session.rs\<close>).

  The handshake and cipher states of \<open>snow\<close> are the parameter \<open>N\<close>; protobuf readers and writers are those of
  \<open>Identify\<close>. A handshake works on the byte stream and on the handshake state of \<open>snow\<close>. \<open>D\<close> is the
  rest of the connection as the poll-level stream of \<open>NoiseStream\<close>.
\<close>

definition NOISE_PROTOCOL :: byte_vec where "NOISE_PROTOCOL = str_bytes ''/noise''"
definition NOISE_PROTOCOL_NAME :: string where "NOISE_PROTOCOL_NAME = ''Noise_XX_25519_ChaChaPoly_SHA256''"
definition STATIC_KEY_DOMAIN :: byte_vec where "STATIC_KEY_DOMAIN = str_bytes ''noise-libp2p-static-key:''"

section \<open>Parameters\<close>

record ('h, 'c) noise_env =
  noise_params :: "string \<Rightarrow> bool"
  static_public :: "byte_vec \<Rightarrow> byte_vec"
  build_initiator :: "byte_vec \<Rightarrow> (string, 'h) result"
  build_responder :: "byte_vec \<Rightarrow> (string, 'h) result"
  hs_write_message :: "byte_vec \<Rightarrow> ('h, string, byte_vec) effect"
  hs_read_message :: "byte_vec \<Rightarrow> ('h, string, byte_vec) effect"
  hs_remote_static :: "'h \<Rightarrow> byte_vec option"
  into_transport_mode :: "'h \<Rightarrow> (string, 'c) result"
  pb_write_header :: "nat \<Rightarrow> nat \<Rightarrow> (string, byte_vec) result"

definition noise_to_runtime_error :: "string \<Rightarrow> RuntimeError" where
  "noise_to_runtime_error e = NetworkError (noise_to_io_error e)"

section \<open>The handshake payload\<close>

record NoiseExtensions =
  webtransport_certhashes :: "byte_vec list"
  stream_muxers :: "byte_vec list"

record NoiseHandshakePayload =
  identity_key :: byte_vec
  identity_sig :: byte_vec
  extensions :: "NoiseExtensions option"

definition extensions_default :: NoiseExtensions where
  "extensions_default = \<lparr> webtransport_certhashes = [], stream_muxers = [] \<rparr>"

definition payload_default :: NoiseHandshakePayload where
  "payload_default = \<lparr> identity_key = [], identity_sig = [], extensions = None \<rparr>"

definition payload_is_empty :: "NoiseHandshakePayload \<Rightarrow> bool" where
  "payload_is_empty p \<longleftrightarrow> identity_key p = [] \<and> identity_sig p = [] \<and> extensions p = None"

text \<open>The loop of a protobuf reader: a tag, then the value that goes with it, until the bytes are used up.\<close>

partial_function (option) pb_loop ::
  "identify_env \<Rightarrow> (nat \<Rightarrow> byte_vec \<Rightarrow> 'm \<Rightarrow> (string, 'm \<times> byte_vec) result exec) \<Rightarrow> byte_vec \<Rightarrow> 'm \<Rightarrow> (string, 'm) result exec" where
  "pb_loop P field bytes message =
     (if bytes = [] then Some (Inr message)
      else (case pb_next_tag P bytes of
              Inl e \<Rightarrow> Some (Inl e)
            | Inr (tag, body) \<Rightarrow>
                (case field tag body message of
                   None \<Rightarrow> None
                 | Some (Inl e) \<Rightarrow> Some (Inl e)
                 | Some (Inr (message', rest)) \<Rightarrow> pb_loop P field rest message')))"

definition extensions_field ::
  "identify_env \<Rightarrow> nat \<Rightarrow> byte_vec \<Rightarrow> NoiseExtensions \<Rightarrow> (string, NoiseExtensions \<times> byte_vec) result exec" where
  "extensions_field P tag bytes m =
     Some (if tag = 10 then bind_result (pb_read_bytes P bytes)
             (\<lambda>(v, rest). Inr (m\<lparr>webtransport_certhashes := webtransport_certhashes m @ [v]\<rparr>, rest))
           else if tag = 18 then bind_result (pb_read_string P bytes)
             (\<lambda>(v, rest). Inr (m\<lparr>stream_muxers := stream_muxers m @ [v]\<rparr>, rest))
           else bind_result (pb_read_unknown P tag bytes) (\<lambda>rest. Inr (m, rest)))"

definition extensions_from_reader :: "identify_env \<Rightarrow> byte_vec \<Rightarrow> (string, NoiseExtensions) result exec" where
  "extensions_from_reader P bytes = pb_loop P (extensions_field P) bytes extensions_default"

definition extensions_get_size :: "identify_env \<Rightarrow> NoiseExtensions \<Rightarrow> nat" where
  "extensions_get_size P x =
     sum_list (map (\<lambda>v. 1 + pb_sizeof_len P (length v)) (webtransport_certhashes x)) +
     sum_list (map (\<lambda>v. 1 + pb_sizeof_len P (length v)) (stream_muxers x))"

definition write_extensions :: "identify_env \<Rightarrow> NoiseExtensions \<Rightarrow> (string, byte_vec) result" where
  "write_extensions P x =
     write_all_fields (map (pb_write_bytes P 10) (webtransport_certhashes x) @ map (pb_write_string P 18) (stream_muxers x))"

text \<open>An embedded message is read as the bytes of its length and then parsed; it is written as its tag and size and then its fields.\<close>

definition payload_field ::
  "identify_env \<Rightarrow> nat \<Rightarrow> byte_vec \<Rightarrow> NoiseHandshakePayload \<Rightarrow> (string, NoiseHandshakePayload \<times> byte_vec) result exec" where
  "payload_field P tag bytes m =
     (if tag = 10 then Some (bind_result (pb_read_bytes P bytes) (\<lambda>(v, rest). Inr (m\<lparr>identity_key := v\<rparr>, rest)))
      else if tag = 18 then Some (bind_result (pb_read_bytes P bytes) (\<lambda>(v, rest). Inr (m\<lparr>identity_sig := v\<rparr>, rest)))
      else if tag = 34 then
        (case pb_read_bytes P bytes of
           Inl e \<Rightarrow> Some (Inl e)
         | Inr (v, rest) \<Rightarrow>
             map_option (\<lambda>r. bind_result r (\<lambda>x. Inr (m\<lparr>extensions := Some x\<rparr>, rest))) (extensions_from_reader P v))
      else Some (bind_result (pb_read_unknown P tag bytes) (\<lambda>rest. Inr (m, rest))))"

definition payload_from_reader :: "identify_env \<Rightarrow> byte_vec \<Rightarrow> (string, NoiseHandshakePayload) result exec" where
  "payload_from_reader P bytes = pb_loop P (payload_field P) bytes payload_default"

definition payload_get_size :: "identify_env \<Rightarrow> NoiseHandshakePayload \<Rightarrow> nat" where
  "payload_get_size P p =
     (if identity_key p = [] then 0 else 1 + pb_sizeof_len P (length (identity_key p))) +
     (if identity_sig p = [] then 0 else 1 + pb_sizeof_len P (length (identity_sig p))) +
     (case extensions p of None \<Rightarrow> 0 | Some x \<Rightarrow> 1 + pb_sizeof_len P (extensions_get_size P x))"

definition write_nested :: "identify_env \<Rightarrow> ('h, 'c) noise_env \<Rightarrow> nat \<Rightarrow> NoiseExtensions \<Rightarrow> (string, byte_vec) result" where
  "write_nested P N tag x =
     bind_result (pb_write_header N tag (extensions_get_size P x))
       (\<lambda>header. bind_result (write_extensions P x) (\<lambda>body. Inr (header @ body)))"

definition write_payload :: "identify_env \<Rightarrow> ('h, 'c) noise_env \<Rightarrow> NoiseHandshakePayload \<Rightarrow> (string, byte_vec) result" where
  "write_payload P N p =
     write_all_fields
       ((if identity_key p = [] then [] else [pb_write_bytes P 10 (identity_key p)]) @
        (if identity_sig p = [] then [] else [pb_write_bytes P 18 (identity_sig p)]) @
        map (write_nested P N 34) (opt_list (extensions p)))"

definition encode_payload :: "identify_env \<Rightarrow> ('h, 'c) noise_env \<Rightarrow> NoiseHandshakePayload \<Rightarrow> (RuntimeError, byte_vec) result" where
  "encode_payload P N payload =
     map_err (\<lambda>_. Crypto ''failed to encode noise handshake payload'') (write_payload P N payload)"

definition decode_payload :: "identify_env \<Rightarrow> byte_vec \<Rightarrow> (RuntimeError, NoiseHandshakePayload) result exec" where
  "decode_payload P bytes =
     map_option (map_err (\<lambda>_. Crypto ''failed to decode noise handshake payload'')) (payload_from_reader P bytes)"

section \<open>Keys and identities\<close>

definition generate_local_static_keypair ::
  "('h, 'c) noise_env \<Rightarrow> (string, byte_vec \<times> byte_vec) result \<Rightarrow> (RuntimeError, byte_vec \<times> byte_vec) result" where
  "generate_local_static_keypair N generated =
     (if \<not> noise_params N NOISE_PROTOCOL_NAME then Inl (Config ''invalid noise protocol parameters'')
      else map_err noise_to_runtime_error generated)"

definition build_handshake_state :: "('h, 'c) noise_env \<Rightarrow> bool \<Rightarrow> byte_vec \<Rightarrow> (RuntimeError, 'h) result" where
  "build_handshake_state N initiator local_private_key =
     (if \<not> noise_params N NOISE_PROTOCOL_NAME then Inl (Config ''invalid noise protocol parameters'')
      else if initiator then map_err noise_to_runtime_error (build_initiator N local_private_key)
      else map_err noise_to_runtime_error (build_responder N local_private_key))"

definition build_local_identity_payload ::
  "('kp, 'pk, 'sig) libp2p \<Rightarrow> ('vk, 'sig, 'z) hello_env_scheme \<Rightarrow> byte_vec \<Rightarrow> ('kp, 'vk, 'sig) TransportIdentityManager
    \<Rightarrow> (RuntimeError, NoiseHandshakePayload) result" where
  "build_local_identity_payload L E local_static_public_key T =
     bind_result (transport_sign L E T (STATIC_KEY_DOMAIN @ local_static_public_key))
       (\<lambda>signature. Inr \<lparr> identity_key = tim_public_key_protobuf T, identity_sig = signature, extensions = None \<rparr>)"

definition verify_remote_identity ::
  "('kp, 'pk, 'sig) libp2p \<Rightarrow> ('h, 'c) noise_env \<Rightarrow> 'h \<Rightarrow> NoiseHandshakePayload \<Rightarrow> (RuntimeError, 'pk) result" where
  "verify_remote_identity L N handshake payload =
     bind_result (ok_or (Config ''noise handshake did not expose a remote static key'') (hs_remote_static N handshake))
       (\<lambda>remote_static.
          if identity_key payload = [] then Inl (Config ''noise handshake payload is missing a transport public key'')
          else if identity_sig payload = [] then Inl (Config ''noise handshake payload is missing a transport signature'')
          else bind_result (ok_or (Crypto ''noise handshake payload contains an invalid transport public key'')
                 (pk_decode L (identity_key payload)))
            (\<lambda>pk. if \<not> pk_verify L pk (STATIC_KEY_DOMAIN @ remote_static) (identity_sig payload)
               then Inl (Config ''noise handshake transport signature verification failed'')
               else Inr pk))"

section \<open>The messages of the handshake\<close>

definition on_stream :: "(io_stream, IoError, 'a) effect \<Rightarrow> (io_stream \<times> 'h, RuntimeError, 'a) effect" where
  "on_stream m sh = (let (r, s') = m (fst sh) in (map_err NetworkError r, (s', snd sh)))"

definition on_handshake :: "('h, string, 'a) effect \<Rightarrow> (io_stream \<times> 'h, RuntimeError, 'a) effect" where
  "on_handshake m sh = (let (r, h') = m (snd sh) in (map_err noise_to_runtime_error r, (fst sh, h')))"

definition send_handshake_payload ::
  "identify_env \<Rightarrow> ('h, 'c) noise_env \<Rightarrow> NoiseHandshakePayload \<Rightarrow> (io_stream \<times> 'h, RuntimeError, unit) effect" where
  "send_handshake_payload P N payload =
     and_then (of_result (encode_payload P N payload))
       (\<lambda>payload_bytes. and_then (on_handshake (hs_write_message N payload_bytes))
         (\<lambda>ciphertext. and_then (on_stream (write_all (to_be 2 (word_of_nat (length ciphertext) :: u16))))
           (\<lambda>_. and_then (on_stream (write_all ciphertext)) (\<lambda>_. on_stream flush))))"

definition recv_handshake_payload ::
  "identify_env \<Rightarrow> ('h, 'c) noise_env \<Rightarrow> (io_stream \<times> 'h, RuntimeError, NoiseHandshakePayload) xeffect" where
  "recv_handshake_payload P N =
     x_then (returns (and_then (on_stream (read_exact 2))
         (\<lambda>len_bytes. and_then (on_stream (read_exact (unat (from_be len_bytes :: u16))))
           (\<lambda>ciphertext. on_handshake (hs_read_message N ciphertext)))))
       (\<lambda>plaintext. of_exec (decode_payload P plaintext))"

section \<open>The upgrades\<close>

record 'c NoiseUpgradeOutput =
  up_stream :: "'c NoiseStream"
  remote_transport_peer_id :: byte_vec
  remote_transport_public_key :: byte_vec

definition finish_upgrade ::
  "('kp, 'pk, 'sig) libp2p \<Rightarrow> ('h, 'c) noise_env \<Rightarrow> (io_stream \<Rightarrow> inner_stream) \<Rightarrow> 'pk \<Rightarrow> NoiseHandshakePayload
    \<Rightarrow> (io_stream \<times> 'h, RuntimeError, 'c NoiseUpgradeOutput) effect" where
  "finish_upgrade L N D remote_identity remote_payload sh =
     (bind_result (map_err noise_to_runtime_error (into_transport_mode N (snd sh)))
        (\<lambda>transport. Inr \<lparr> up_stream = NoiseStream_new (D (fst sh)) transport,
           remote_transport_peer_id = pk_peer_id L remote_identity,
           remote_transport_public_key = identity_key remote_payload \<rparr>), sh)"

text \<open>What happens on the stream once the keys are there: the three messages, from the side that dialed and from the other.\<close>

definition outbound_messages ::
  "identify_env \<Rightarrow> ('kp, 'pk, 'sig) libp2p \<Rightarrow> ('h, 'c) noise_env \<Rightarrow> (io_stream \<Rightarrow> inner_stream) \<Rightarrow> NoiseHandshakePayload
    \<Rightarrow> (io_stream \<times> 'h, RuntimeError, 'c NoiseUpgradeOutput) xeffect" where
  "outbound_messages P L N D local_payload =
     x_then (returns (send_handshake_payload P N payload_default))
       (\<lambda>_. x_then (recv_handshake_payload P N)
         (\<lambda>remote_payload. x_then (returns (\<lambda>sh. (verify_remote_identity L N (snd sh) remote_payload, sh)))
           (\<lambda>remote_identity. x_then (returns (send_handshake_payload P N local_payload))
             (\<lambda>_. returns (finish_upgrade L N D remote_identity remote_payload)))))"

definition inbound_messages ::
  "identify_env \<Rightarrow> ('kp, 'pk, 'sig) libp2p \<Rightarrow> ('h, 'c) noise_env \<Rightarrow> (io_stream \<Rightarrow> inner_stream) \<Rightarrow> NoiseHandshakePayload
    \<Rightarrow> (io_stream \<times> 'h, RuntimeError, 'c NoiseUpgradeOutput) xeffect" where
  "inbound_messages P L N D local_payload =
     x_then (recv_handshake_payload P N)
       (\<lambda>first_payload.
          if \<not> payload_is_empty first_payload
          then returns (fail_with (Config ''noise initiator sent a non-empty first payload''))
          else x_then (returns (send_handshake_payload P N local_payload))
            (\<lambda>_. x_then (recv_handshake_payload P N)
              (\<lambda>remote_payload. x_then (returns (\<lambda>sh. (verify_remote_identity L N (snd sh) remote_payload, sh)))
                (\<lambda>remote_identity. returns (finish_upgrade L N D remote_identity remote_payload)))))"

definition noise_upgrade ::
  "identify_env \<Rightarrow> ('kp, 'pk, 'sig) libp2p \<Rightarrow> ('h, 'c) noise_env \<Rightarrow> ('vk, 'sig, 'z) hello_env_scheme
    \<Rightarrow> ('kp, 'vk, 'sig) TransportIdentityManager \<Rightarrow> bool \<Rightarrow> (string, byte_vec \<times> byte_vec) result
    \<Rightarrow> (NoiseHandshakePayload \<Rightarrow> (io_stream \<times> 'h, RuntimeError, 'a) xeffect) \<Rightarrow> (io_stream, RuntimeError, 'a) xeffect" where
  "noise_upgrade P L N E T initiator generated messages s =
     (case bind_result (generate_local_static_keypair N generated)
             (\<lambda>(private, public). bind_result (build_local_identity_payload L E public T)
               (\<lambda>local_payload. bind_result (build_handshake_state N initiator private)
                 (\<lambda>handshake. Inr (local_payload, handshake)))) of
        Inl e \<Rightarrow> Some (Inl e, s)
      | Inr (local_payload, handshake) \<Rightarrow>
          map_option (\<lambda>(r, sh). (r, fst sh)) (messages local_payload (s, handshake)))"

definition noise_upgrade_outbound ::
  "identify_env \<Rightarrow> ('kp, 'pk, 'sig) libp2p \<Rightarrow> ('h, 'c) noise_env \<Rightarrow> ('vk, 'sig, 'z) hello_env_scheme \<Rightarrow> (io_stream \<Rightarrow> inner_stream)
    \<Rightarrow> ('kp, 'vk, 'sig) TransportIdentityManager \<Rightarrow> (string, byte_vec \<times> byte_vec) result
    \<Rightarrow> (io_stream, RuntimeError, 'c NoiseUpgradeOutput) xeffect" where
  "noise_upgrade_outbound P L N E D T generated = noise_upgrade P L N E T True generated (outbound_messages P L N D)"

definition noise_upgrade_inbound ::
  "identify_env \<Rightarrow> ('kp, 'pk, 'sig) libp2p \<Rightarrow> ('h, 'c) noise_env \<Rightarrow> ('vk, 'sig, 'z) hello_env_scheme \<Rightarrow> (io_stream \<Rightarrow> inner_stream)
    \<Rightarrow> ('kp, 'vk, 'sig) TransportIdentityManager \<Rightarrow> (string, byte_vec \<times> byte_vec) result
    \<Rightarrow> (io_stream, RuntimeError, 'c NoiseUpgradeOutput) xeffect" where
  "noise_upgrade_inbound P L N E D T generated = noise_upgrade P L N E T False generated (inbound_messages P L N D)"


section \<open>From a connection to a session\<close>

definition YAMUX_PROTOCOL :: byte_vec where "YAMUX_PROTOCOL = str_bytes ''/yamux/1.0.0''"

definition upgrade_noise_transport ::
  "varint \<Rightarrow> identify_env \<Rightarrow> ('kp, 'pk, 'sig) libp2p \<Rightarrow> ('h, 'c) noise_env \<Rightarrow> ('vk, 'sig, 'z) hello_env_scheme
    \<Rightarrow> (io_stream \<Rightarrow> inner_stream) \<Rightarrow> ('kp, 'vk, 'sig) TransportIdentityManager \<Rightarrow> (string, byte_vec \<times> byte_vec) result
    \<Rightarrow> ConnectionRole \<Rightarrow> (io_stream, RuntimeError, 'c NoiseUpgradeOutput) xeffect" where
  "upgrade_noise_transport V P L N E D T generated role =
     (case role of
        Outbound \<Rightarrow> x_then (returns (dialer_select V NOISE_PROTOCOL)) (\<lambda>_. noise_upgrade_outbound P L N E D T generated)
      | Inbound \<Rightarrow> x_then (returns (listener_select V [NOISE_PROTOCOL])) (\<lambda>_. noise_upgrade_inbound P L N E D T generated))"

text \<open>\<open>mux\<close> is the yamux connection on the negotiated stream; the stream is the plaintext of the noise stream.\<close>

definition yamux_upgrade_outbound :: "varint \<Rightarrow> (io_stream \<Rightarrow> muxer) \<Rightarrow> io_stream \<Rightarrow> (RuntimeError, muxer) result" where
  "yamux_upgrade_outbound V mux stream =
     (case dialer_select V YAMUX_PROTOCOL stream of (r, stream') \<Rightarrow> bind_result r (\<lambda>_. Inr (mux stream')))"

definition yamux_upgrade_inbound :: "varint \<Rightarrow> (io_stream \<Rightarrow> muxer) \<Rightarrow> io_stream \<Rightarrow> (RuntimeError, muxer) result" where
  "yamux_upgrade_inbound V mux stream =
     (case listener_select V [YAMUX_PROTOCOL] stream of (r, stream') \<Rightarrow> bind_result r (\<lambda>_. Inr (mux stream')))"

definition upgrade_yamux_transport :: "varint \<Rightarrow> (io_stream \<Rightarrow> muxer) \<Rightarrow> ConnectionRole \<Rightarrow> io_stream \<Rightarrow> (RuntimeError, muxer) result" where
  "upgrade_yamux_transport V mux role stream =
     (case role of Outbound \<Rightarrow> yamux_upgrade_outbound V mux stream | Inbound \<Rightarrow> yamux_upgrade_inbound V mux stream)"

definition tid_of :: "('kp, 'vk, 'sig) TransportIdentityManager \<Rightarrow> TransportIdentity" where
  "tid_of T = \<lparr> tid_public_key_protobuf = tim_public_key_protobuf T, tid_peer_id = tim_peer_id T \<rparr>"

definition session_on_stream ::
  "varint \<Rightarrow> identify_env \<Rightarrow> ('kp, 'pk, 'sig) libp2p \<Rightarrow> ('h, 'c) noise_env \<Rightarrow> ('vk, 'sig, 'z) hello_env_scheme
    \<Rightarrow> (io_stream \<Rightarrow> inner_stream) \<Rightarrow> ('c NoiseStream \<Rightarrow> io_stream) \<Rightarrow> (io_stream \<Rightarrow> muxer) \<Rightarrow> ConnectionRole
    \<Rightarrow> ('vk, 'sig) IdentityManager \<Rightarrow> ('kp, 'vk, 'sig) TransportIdentityManager \<Rightarrow> (string, byte_vec \<times> byte_vec) result
    \<Rightarrow> NetworkConfig \<Rightarrow> byte_vec option \<Rightarrow> io_stream \<Rightarrow> (RuntimeError, (muxer \<times> VerifiedPeer) option) result exec" where
  "session_on_stream V P L N E D plain mux role identity T generated config expected s =
     (case upgrade_noise_transport V P L N E D T generated role s of
        None \<Rightarrow> None
      | Some (r, _) \<Rightarrow>
          establish_session V E P
            (bind_result r (\<lambda>out. Inr (remote_transport_peer_id out, upgrade_yamux_transport V mux role (plain (up_stream out)))))
            role identity (tid_of T) config expected)"

section \<open>Who is at the other end of the connection\<close>

text \<open>
  Documented behaviour of \<open>snow\<close>: once the static key of the remote side is known, it does not change. The output of an
  upgrade is authenticated when the key it shows has signed the static key of the handshake that gave its cipher.
\<close>

definition static_stable :: "('h, 'c) noise_env \<Rightarrow> bool" where
  "static_stable N \<longleftrightarrow>
     (\<forall>h k bytes r h'. hs_remote_static N h = Some k \<and> hs_write_message N bytes h = (r, h') \<longrightarrow> hs_remote_static N h' = Some k)"

definition noise_authenticated :: "('kp, 'pk, 'sig) libp2p \<Rightarrow> ('h, 'c) noise_env \<Rightarrow> 'c NoiseUpgradeOutput \<Rightarrow> bool" where
  "noise_authenticated L N out \<longleftrightarrow>
     (\<exists>h static pk signature. into_transport_mode N h = Inr (ns_session (up_stream out)) \<and> hs_remote_static N h = Some static \<and>
        pk_decode L (remote_transport_public_key out) = Some pk \<and>
        pk_verify L pk (STATIC_KEY_DOMAIN @ static) signature \<and> remote_transport_peer_id out = pk_peer_id L pk)"

lemma verify_remote_identity_Inr:
  "verify_remote_identity L N h payload = Inr pk \<longleftrightarrow>
     (\<exists>static. hs_remote_static N h = Some static \<and> identity_key payload \<noteq> [] \<and> identity_sig payload \<noteq> [] \<and>
        pk_decode L (identity_key payload) = Some pk \<and> pk_verify L pk (STATIC_KEY_DOMAIN @ static) (identity_sig payload))"
  by (auto simp: verify_remote_identity_def bind_result_Inr)

lemma finish_authenticated:
  assumes "finish_upgrade L N D pk payload (s, h) = (Inr out, sh)" and "verify_remote_identity L N h0 payload = Inr pk"
    and "\<And>k. hs_remote_static N h0 = Some k \<Longrightarrow> hs_remote_static N h = Some k"
  shows "noise_authenticated L N out"
  using assms
  by (auto simp: finish_upgrade_def bind_result_Inr noise_authenticated_def verify_remote_identity_Inr NoiseStream_new_def; blast)

lemma send_keeps_static:
  assumes "static_stable N" and "send_handshake_payload P N payload (s, h) = (r, (s', h'))" and "hs_remote_static N h = Some k"
  shows "hs_remote_static N h' = Some k"
proof -
  have "h' = h \<or> (\<exists>bytes r'. hs_write_message N bytes h = (r', h'))"
    using assms(2)
    by (auto simp: send_handshake_payload_def and_then_def on_handshake_def on_stream_def of_result_def Let_def map_err_def
        split: prod.split_asm sum.split_asm)
  then show ?thesis using assms(1,3) unfolding static_stable_def by blast
qed

lemma outbound_authenticated:
  assumes "static_stable N" and "outbound_messages P L N D local_payload sh = Some (Inr out, sh')"
  shows "noise_authenticated L N out"
proof -
  obtain payload s h pk s' h' where verify: "verify_remote_identity L N h payload = Inr pk"
    and send: "send_handshake_payload P N local_payload (s, h) = (Inr (), (s', h'))"
    and fin: "finish_upgrade L N D pk payload (s', h') = (Inr out, sh')"
    using assms(2) by (auto simp: outbound_messages_def x_then_Inr)
  from finish_authenticated [OF fin verify] send_keeps_static [OF assms(1) send] show ?thesis by blast
qed

lemma inbound_authenticated:
  assumes "inbound_messages P L N D local_payload sh = Some (Inr out, sh')"
  shows "noise_authenticated L N out"
proof -
  obtain payload s h pk where verify: "verify_remote_identity L N h payload = Inr pk"
    and fin: "finish_upgrade L N D pk payload (s, h) = (Inr out, sh')"
    using assms by (auto simp: inbound_messages_def x_then_Inr split: if_split_asm)
  from finish_authenticated [OF fin verify] show ?thesis by blast
qed

lemma noise_upgrade_Inr:
  assumes "noise_upgrade P L N E T initiator generated messages s = Some (Inr a, s')"
  obtains local_payload sh sh' where "messages local_payload sh = Some (Inr a, sh')"
  using assms by (auto simp: noise_upgrade_def split: sum.split_asm)

lemma upgrade_authenticated:
  assumes "static_stable N" and "upgrade_noise_transport V P L N E D T generated role s = Some (Inr out, s')"
  shows "noise_authenticated L N out"
  using assms outbound_authenticated [OF assms(1)] inbound_authenticated
  by (auto simp: upgrade_noise_transport_def x_then_Inr noise_upgrade_outbound_def noise_upgrade_inbound_def
      split: ConnectionRole.split_asm elim!: noise_upgrade_Inr)


section \<open>Payloads survive the wire\<close>

text \<open>A field that was written is read back: the bytes are not empty, and the reader applies \<open>upd\<close> and goes on with the rest.\<close>

definition field_reads ::
  "identify_env \<Rightarrow> (nat \<Rightarrow> byte_vec \<Rightarrow> 'm \<Rightarrow> (string, 'm \<times> byte_vec) result exec) \<Rightarrow> (string, byte_vec) result \<Rightarrow> ('m \<Rightarrow> 'm) \<Rightarrow> bool" where
  "field_reads P field w upd \<longleftrightarrow>
     (\<exists>bytes. w = Inr bytes \<and> bytes \<noteq> [] \<and>
        (\<forall>rest m. \<exists>tag body. pb_next_tag P (bytes @ rest) = Inr (tag, body) \<and> field tag body m = Some (Inr (upd m, rest))))"

lemma pb_loop_written:
  assumes "\<forall>f\<in>set fs. field_reads P field (fst f) (snd f)"
  shows "\<exists>bytes. write_all_fields (map fst fs) = Inr bytes \<and> (\<forall>m. pb_loop P field bytes m = Some (Inr (fold snd fs m)))"
  using assms
proof (induction fs)
  case Nil
  then show ?case by (simp add: pb_loop.simps)
next
  case (Cons f fs)
  then obtain bytes where bytes: "write_all_fields (map fst fs) = Inr bytes"
    and read: "\<And>m. pb_loop P field bytes m = Some (Inr (fold snd fs m))" by auto
  obtain w where w: "fst f = Inr w" "w \<noteq> []"
    and field: "\<And>rest m. \<exists>tag body. pb_next_tag P (w @ rest) = Inr (tag, body) \<and> field tag body m = Some (Inr (snd f m, rest))"
    using Cons.prems by (auto simp: field_reads_def)
  have "pb_loop P field (w @ bytes) m = Some (Inr (fold snd (f # fs) m))" for m
  proof -
    obtain tag body where "pb_next_tag P (w @ bytes) = Inr (tag, body)" "field tag body m = Some (Inr (snd f m, bytes))"
      using field by blast
    then show ?thesis using w(2) read by (subst pb_loop.simps) simp
  qed
  then show ?case using bytes w by simp
qed

text \<open>The writer of an embedded message: its header and its bytes together are the field with these bytes.\<close>

definition nested_ok :: "identify_env \<Rightarrow> ('h, 'c) noise_env \<Rightarrow> bool" where
  "nested_ok P N \<longleftrightarrow>
     (\<forall>tag v w. pb_write_bytes P tag v = Inr w \<longrightarrow> (\<exists>header. pb_write_header N tag (length v) = Inr header \<and> w = header @ v)) \<and>
     (\<forall>tag v w. tag < 128 \<and> (pb_write_string P tag v = Inr w \<or> pb_write_bytes P tag v = Inr w) \<longrightarrow> length w = 1 + pb_sizeof_len P (length v))"

definition extensions_valid :: "NoiseExtensions \<Rightarrow> bool" where
  "extensions_valid x \<longleftrightarrow> (\<forall>v\<in>set (stream_muxers x). utf8_valid v)"

lemma bytes_field:
  assumes "protobuf_ok P" and "\<And>body m rest. pb_read_bytes P body = Inr (v, rest) \<Longrightarrow> field tag body m = Some (Inr (upd m, rest))"
  shows "field_reads P field (pb_write_bytes P tag v) upd"
proof -
  have "field_ok P (pb_write_bytes P) (pb_read_bytes P) tag v" using assms(1) unfolding protobuf_ok_def by blast
  then show ?thesis unfolding field_reads_def field_ok_def using assms(2) by blast
qed

lemma string_field:
  assumes "protobuf_ok P" and "utf8_valid v"
    and "\<And>body m rest. pb_read_string P body = Inr (v, rest) \<Longrightarrow> field tag body m = Some (Inr (upd m, rest))"
  shows "field_reads P field (pb_write_string P tag v) upd"
proof -
  have "field_ok P (pb_write_string P) (pb_read_string P) tag v" using assms(1,2) unfolding protobuf_ok_def by blast
  then show ?thesis unfolding field_reads_def field_ok_def using assms(3) by blast
qed

definition push_certhash :: "byte_vec \<Rightarrow> NoiseExtensions \<Rightarrow> NoiseExtensions" where
  "push_certhash v m = m\<lparr>webtransport_certhashes := webtransport_certhashes m @ [v]\<rparr>"

definition push_muxer :: "byte_vec \<Rightarrow> NoiseExtensions \<Rightarrow> NoiseExtensions" where
  "push_muxer v m = m\<lparr>stream_muxers := stream_muxers m @ [v]\<rparr>"

lemma fold_pushes:
  "fold push_certhash vs m = m\<lparr>webtransport_certhashes := webtransport_certhashes m @ vs\<rparr>"
  "fold push_muxer vs m = m\<lparr>stream_muxers := stream_muxers m @ vs\<rparr>"
  by (induction vs arbitrary: m) (simp_all add: push_certhash_def push_muxer_def)

lemma extensions_roundtrip:
  assumes "protobuf_ok P" and "extensions_valid x"
  shows "\<exists>bytes. write_extensions P x = Inr bytes \<and> extensions_from_reader P bytes = Some (Inr x)"
proof -
  let ?fs = "map (\<lambda>v. (pb_write_bytes P 10 v, push_certhash v)) (webtransport_certhashes x) @
    map (\<lambda>v. (pb_write_string P 18 v, push_muxer v)) (stream_muxers x)"
  have "\<forall>f\<in>set ?fs. field_reads P (extensions_field P) (fst f) (snd f)"
    using assms
    by (auto simp: extensions_valid_def extensions_field_def push_certhash_def push_muxer_def intro!: bytes_field string_field)
  from pb_loop_written [OF this] obtain bytes where "write_extensions P x = Inr bytes"
      "pb_loop P (extensions_field P) bytes extensions_default = Some (Inr (fold snd ?fs extensions_default))"
    by (auto simp: write_extensions_def comp_def)
  moreover have "fold snd ?fs extensions_default = x"
    by (cases x) (simp add: fold_map comp_def fold_pushes [unfolded fold_map] extensions_default_def)
  ultimately show ?thesis by (auto simp: extensions_from_reader_def)
qed


lemma write_all_fields_append:
  "write_all_fields (ws @ vs) = Inr bytes \<longleftrightarrow>
     (\<exists>a b. write_all_fields ws = Inr a \<and> write_all_fields vs = Inr b \<and> bytes = a @ b)"
  by (induction ws arbitrary: bytes) (auto simp: bind_result_Inr)

lemma written_length:
  assumes "write_all_fields (map wr vs) = Inr bytes" and "\<And>v w. wr v = Inr w \<Longrightarrow> length w = len v"
  shows "length bytes = sum_list (map len vs)"
  using assms(1) by (induction vs arbitrary: bytes) (auto simp: bind_result_Inr assms(2))

lemma written_extensions_length:
  assumes "nested_ok P N" and "write_extensions P x = Inr bytes"
  shows "length bytes = extensions_get_size P x"
proof -
  have len: "pb_write_string P 18 v = Inr w \<Longrightarrow> length w = 1 + pb_sizeof_len P (length v)"
      "pb_write_bytes P 10 v = Inr w \<Longrightarrow> length w = 1 + pb_sizeof_len P (length v)" for v w
    using assms(1) [unfolded nested_ok_def, THEN conjunct2, rule_format, of 18] assms(1) [unfolded nested_ok_def, THEN conjunct2, rule_format, of 10]
    by simp_all
  obtain a b where ab: "write_all_fields (map (pb_write_bytes P 10) (webtransport_certhashes x)) = Inr a"
      "write_all_fields (map (pb_write_string P 18) (stream_muxers x)) = Inr b" "bytes = a @ b"
    using assms(2) by (auto simp: write_extensions_def write_all_fields_append)
  have "length a = sum_list (map (\<lambda>v. 1 + pb_sizeof_len P (length v)) (webtransport_certhashes x))"
    by (rule written_length [OF ab(1) len(2)])
  moreover have "length b = sum_list (map (\<lambda>v. 1 + pb_sizeof_len P (length v)) (stream_muxers x))"
    by (rule written_length [OF ab(2) len(1)])
  ultimately show ?thesis using ab(3) by (simp add: extensions_get_size_def)
qed

lemma nested_field:
  assumes "protobuf_ok P" and "nested_ok P N" and "extensions_valid x"
  shows "field_reads P (payload_field P) (write_nested P N 34 x) (\<lambda>m. m\<lparr>extensions := Some x\<rparr>)"
proof -
  obtain b where b: "write_extensions P x = Inr b" "extensions_from_reader P b = Some (Inr x)"
    using extensions_roundtrip [OF assms(1,3)] by blast
  have "field_reads P (payload_field P) (pb_write_bytes P 34 b) (\<lambda>m. m\<lparr>extensions := Some x\<rparr>)"
    by (rule bytes_field [OF assms(1)]) (simp add: payload_field_def b(2))
  moreover obtain w where w: "pb_write_bytes P 34 b = Inr w" using calculation by (auto simp: field_reads_def)
  moreover have "write_nested P N 34 x = Inr w"
    using assms(2) w b(1) written_extensions_length [OF assms(2) b(1)]
    unfolding nested_ok_def write_nested_def by fastforce
  ultimately show ?thesis by simp
qed

definition payload_valid :: "NoiseHandshakePayload \<Rightarrow> bool" where
  "payload_valid p \<longleftrightarrow> (\<forall>x. extensions p = Some x \<longrightarrow> extensions_valid x)"

lemma payload_roundtrip:
  assumes "protobuf_ok P" and "nested_ok P N" and "payload_valid p"
  shows "\<exists>bytes. encode_payload P N p = Inr bytes \<and> decode_payload P bytes = Some (Inr p)"
proof -
  let ?fs = "(if identity_key p = [] then [] else [(pb_write_bytes P 10 (identity_key p), \<lambda>m :: NoiseHandshakePayload. m\<lparr>identity_key := identity_key p\<rparr>)]) @
    (if identity_sig p = [] then [] else [(pb_write_bytes P 18 (identity_sig p), \<lambda>m. m\<lparr>identity_sig := identity_sig p\<rparr>)]) @
    map (\<lambda>x. (write_nested P N 34 x, \<lambda>m. m\<lparr>extensions := Some x\<rparr>)) (opt_list (extensions p))"
  have "\<forall>f\<in>set ?fs. field_reads P (payload_field P) (fst f) (snd f)"
  proof (cases "extensions p")
    case None
    then show ?thesis by (auto simp: payload_field_def opt_list_def intro!: bytes_field [OF assms(1)])
  next
    case (Some x)
    have "field_reads P (payload_field P) (write_nested P N 34 x) (\<lambda>m. m\<lparr>extensions := Some x\<rparr>)"
      by (rule nested_field [OF assms(1,2)]) (use assms(3) Some in \<open>simp add: payload_valid_def\<close>)
    then show ?thesis using Some by (auto simp: payload_field_def opt_list_def intro!: bytes_field [OF assms(1)])
  qed
  from pb_loop_written [OF this] obtain bytes where "write_all_fields (map fst ?fs) = Inr bytes"
      and read: "pb_loop P (payload_field P) bytes payload_default = Some (Inr (fold snd ?fs payload_default))"
    by blast
  moreover have "map fst ?fs = (if identity_key p = [] then [] else [pb_write_bytes P 10 (identity_key p)]) @
      (if identity_sig p = [] then [] else [pb_write_bytes P 18 (identity_sig p)]) @ map (write_nested P N 34) (opt_list (extensions p))"
    by (simp add: comp_def)
  ultimately have "write_payload P N p = Inr bytes" by (simp only: write_payload_def)
  moreover have "fold snd ?fs payload_default = p"
    by (cases p) (auto simp: payload_default_def opt_list_def split: option.split)
  ultimately show ?thesis using read by (auto simp: encode_payload_def decode_payload_def payload_from_reader_def)
qed

lemma default_payload: "encode_payload P N payload_default = Inr []" "decode_payload P [] = Some (Inr payload_default)"
  "payload_is_empty payload_default"
  by (simp_all add: encode_payload_def write_payload_def payload_default_def opt_list_def decode_payload_def payload_from_reader_def
      pb_loop.simps payload_is_empty_def)


section \<open>Two honest nodes\<close>

definition noise_frame :: "byte_vec \<Rightarrow> byte_vec" where
  "noise_frame ciphertext = to_be 2 (word_of_nat (length ciphertext) :: u16) @ ciphertext"

lemma send_ok:
  assumes "encode_payload P N payload = Inr bytes" and "hs_write_message N bytes h = (Inr ct, h')" and "tx_fault s = None"
  shows "send_handshake_payload P N payload (s, h) = (Inr (), (s\<lparr>tx := tx s @ noise_frame ct\<rparr>, h'))"
  using assms
  by (simp add: send_handshake_payload_def and_then_def on_handshake_def on_stream_def write_all_open flush_open noise_frame_def)

lemma recv_ok:
  assumes "rx s = noise_frame ct @ rest" and "length ct \<le> MAX_NOISE_FRAME_LEN" and "hs_read_message N ct h = (Inr bytes, h')"
    and "decode_payload P bytes = Some (Inr payload)"
  shows "recv_handshake_payload P N (s, h) = Some (Inr payload, (s\<lparr>rx := rest\<rparr>, h'))"
proof -
  have "length ct < 2 ^ 16" using assms(2) by (simp add: MAX_NOISE_FRAME_LEN_def)
  then have len: "unat (from_be (to_be 2 (word_of_nat (length ct) :: u16)) :: u16) = length ct" by (rule frame_length_bytes)
  have "read_exact 2 s = (Inr (to_be 2 (word_of_nat (length ct) :: u16)), s\<lparr>rx := ct @ rest\<rparr>)"
    using assms(1) by (intro read_exact_append) (simp_all add: noise_frame_def)
  moreover have "read_exact (length ct) (s\<lparr>rx := ct @ rest\<rparr>) = (Inr ct, s\<lparr>rx := rest\<rparr>)"
    using read_exact_append [of "length ct" ct "s\<lparr>rx := ct @ rest\<rparr>" rest] by simp
  ultimately show ?thesis
    using assms(3,4)
    by (simp add: recv_handshake_payload_def x_then_def and_then_def on_stream_def on_handshake_def len)
qed

text \<open>
  Documented behaviour of the XX pattern of noise: the three messages of an initiator and a responder carry their payloads, each
  side learns the static key of the other, and the cipher states belong together. A message is at most 96 bytes longer
  than its payload.
\<close>

definition xx_completes :: "('h, 'c) noise_env \<Rightarrow> ('c \<Rightarrow> 'c \<Rightarrow> bool) \<Rightarrow> byte_vec \<Rightarrow> byte_vec \<Rightarrow> 'h \<Rightarrow> 'h \<Rightarrow> byte_vec \<Rightarrow> byte_vec \<Rightarrow> bool" where
  "xx_completes N paired ki kr hi hr p2 p3 \<longleftrightarrow>
     (\<exists>m1 hi1 hr1 m2 hr2 hi2 m3 hi3 hr3 ci cr.
        hs_write_message N [] hi = (Inr m1, hi1) \<and> hs_read_message N m1 hr = (Inr [], hr1) \<and>
        hs_write_message N p2 hr1 = (Inr m2, hr2) \<and> hs_read_message N m2 hi1 = (Inr p2, hi2) \<and>
        hs_remote_static N hi2 = Some (static_public N kr) \<and>
        hs_write_message N p3 hi2 = (Inr m3, hi3) \<and> hs_read_message N m3 hr2 = (Inr p3, hr3) \<and>
        hs_remote_static N hr3 = Some (static_public N ki) \<and>
        into_transport_mode N hi3 = Inr ci \<and> into_transport_mode N hr3 = Inr cr \<and> paired ci cr \<and>
        length m1 \<le> 96 \<and> length m2 \<le> length p2 + 96 \<and> length m3 \<le> length p3 + 96)"

definition snow_ok :: "('h, 'c) noise_env \<Rightarrow> ('c \<Rightarrow> 'c \<Rightarrow> bool) \<Rightarrow> bool" where
  "snow_ok N paired \<longleftrightarrow>
     (\<forall>ki kr hi hr p2 p3. build_initiator N ki = Inr hi \<and> build_responder N kr = Inr hr \<and>
        length p2 + 96 \<le> MAX_NOISE_FRAME_LEN \<and> length p3 + 96 \<le> MAX_NOISE_FRAME_LEN \<longrightarrow>
        xx_completes N paired ki kr hi hr p2 p3)"

lemma local_payload_verifies:
  assumes "transport_ok L E T" and "build_local_identity_payload L E (static_public N k) T = Inr p"
    and "hs_remote_static N h = Some (static_public N k)"
  shows "\<exists>pk. verify_remote_identity L N h p = Inr pk \<and> pk_peer_id L pk = tim_peer_id T"
    and "payload_valid p"
proof -
  obtain sg where p: "p = \<lparr> identity_key = tim_public_key_protobuf T, identity_sig = sg, extensions = None \<rparr>"
    and sg: "transport_sign L E T (STATIC_KEY_DOMAIN @ static_public N k) = Inr sg"
    using assms(2) by (auto simp: build_local_identity_payload_def bind_result_Inr)
  then show "payload_valid p" by (simp add: payload_valid_def)
  show "\<exists>pk. verify_remote_identity L N h p = Inr pk \<and> pk_peer_id L pk = tim_peer_id T"
    using assms(1,3) sg by (auto simp: transport_ok_def verify_remote_identity_Inr p)
qed


definition upgraded :: "('kp, 'pk, 'sig) libp2p \<Rightarrow> (io_stream \<Rightarrow> inner_stream) \<Rightarrow> io_stream \<Rightarrow> 'c \<Rightarrow> 'pk \<Rightarrow> byte_vec \<Rightarrow> 'c NoiseUpgradeOutput" where
  "upgraded L D s c pk key =
     \<lparr> up_stream = NoiseStream_new (D s) c, remote_transport_peer_id = pk_peer_id L pk, remote_transport_public_key = key \<rparr>"

lemma outbound_run:
  assumes "hs_write_message N [] h = (Inr m1, h1)" and "hs_read_message N m2 h1 = (Inr bytes, h2)" and "length m2 \<le> MAX_NOISE_FRAME_LEN"
    and "decode_payload P bytes = Some (Inr remote)" and "verify_remote_identity L N h2 remote = Inr pk"
    and "encode_payload P N local = Inr local_bytes" and "hs_write_message N local_bytes h2 = (Inr m3, h3)"
    and "into_transport_mode N h3 = Inr c" and "rx s = noise_frame m2 @ rest" and "tx_fault s = None"
    and "s' = s\<lparr>rx := rest, tx := tx s @ noise_frame m1 @ noise_frame m3\<rparr>"
  shows "outbound_messages P L N D local (s, h) = Some (Inr (upgraded L D s' c pk (identity_key remote)), (s', h3))"
proof -
  let ?s1 = "s\<lparr>tx := tx s @ noise_frame m1\<rparr>"
  have "send_handshake_payload P N payload_default (s, h) = (Inr (), (?s1, h1))"
    by (rule send_ok [OF default_payload(1) assms(1,10)])
  moreover have "recv_handshake_payload P N (?s1, h1) = Some (Inr remote, (?s1\<lparr>rx := rest\<rparr>, h2))"
    by (rule recv_ok [OF _ assms(3,2,4)]) (simp add: assms(9))
  moreover have "send_handshake_payload P N local (?s1\<lparr>rx := rest\<rparr>, h2) = (Inr (), (s', h3))"
    using send_ok [OF assms(6,7), of "?s1\<lparr>rx := rest\<rparr>"] assms(10,11) by simp
  ultimately show ?thesis
    using assms(5,8) by (simp add: outbound_messages_def x_then_def finish_upgrade_def upgraded_def)
qed

lemma inbound_run:
  assumes "hs_read_message N m1 h = (Inr [], h1)" and "length m1 \<le> MAX_NOISE_FRAME_LEN"
    and "encode_payload P N local = Inr local_bytes" and "hs_write_message N local_bytes h1 = (Inr m2, h2)"
    and "hs_read_message N m3 h2 = (Inr bytes, h3)" and "length m3 \<le> MAX_NOISE_FRAME_LEN"
    and "decode_payload P bytes = Some (Inr remote)" and "verify_remote_identity L N h3 remote = Inr pk"
    and "into_transport_mode N h3 = Inr c" and "rx s = noise_frame m1 @ noise_frame m3 @ rest" and "tx_fault s = None"
    and "s' = s\<lparr>rx := rest, tx := tx s @ noise_frame m2\<rparr>"
  shows "inbound_messages P L N D local (s, h) = Some (Inr (upgraded L D s' c pk (identity_key remote)), (s', h3))"
proof -
  let ?s1 = "s\<lparr>rx := noise_frame m3 @ rest\<rparr>"
  let ?s2 = "?s1\<lparr>tx := tx s @ noise_frame m2\<rparr>"
  have "recv_handshake_payload P N (s, h) = Some (Inr payload_default, (?s1, h1))"
    by (rule recv_ok [OF assms(10,2,1) default_payload(2)])
  moreover have "send_handshake_payload P N local (?s1, h1) = (Inr (), (?s2, h2))"
    using send_ok [OF assms(3,4), of ?s1] assms(11) by simp
  moreover have "recv_handshake_payload P N (?s2, h2) = Some (Inr remote, (s', h3))"
    using recv_ok [OF _ assms(6,5,7), of ?s2 rest] assms(12) by simp
  ultimately show ?thesis
    using assms(8,9) default_payload(3) by (simp add: inbound_messages_def x_then_def finish_upgrade_def upgraded_def)
qed

lemma upgrade_started:
  assumes "noise_params N NOISE_PROTOCOL_NAME" and "build_local_identity_payload L E public T = Inr p"
    and "(if initiator then build_initiator N private else build_responder N private) = Inr h"
    and "messages p (s, h) = Some (Inr out, (s', h'))"
  shows "noise_upgrade P L N E T initiator (Inr (private, public)) messages s = Some (Inr out, s')"
  using assms by (cases initiator) (simp_all add: noise_upgrade_def generate_local_static_keypair_def build_handshake_state_def)

lemma noise_protocol_name: "protocol_name NOISE_PROTOCOL"
  by (simp add: protocol_name_def NOISE_PROTOCOL_def str_bytes_def ends_with_newline_def newline_def MAX_PROTOCOL_FRAME_LEN_def)

lemma honest_noise_handshake:
  assumes "varint_ok V" and "protobuf_ok P" and "nested_ok P N" and "snow_ok N paired" and "noise_params N NOISE_PROTOCOL_NAME"
    and "transport_ok L E Ta" and "transport_ok L E Tb" and "build_initiator N ka = Inr ha" and "build_responder N kb = Inr hb"
    and "build_local_identity_payload L E (static_public N ka) Ta = Inr pa" and "build_local_identity_payload L E (static_public N kb) Tb = Inr pb"
    and "encode_payload P N pa = Inr ba" and "encode_payload P N pb = Inr bb"
    and "length ba + 96 \<le> MAX_NOISE_FRAME_LEN" and "length bb + 96 \<le> MAX_NOISE_FRAME_LEN"
  shows "\<exists>to_listener to_dialer outa outb.
    upgrade_noise_transport V P L N E D Ta (Inr (ka, static_public N ka)) Outbound (fresh_stream to_dialer) =
      Some (Inr outa, (fresh_stream [])\<lparr>tx := to_listener\<rparr>) \<and>
    upgrade_noise_transport V P L N E D Tb (Inr (kb, static_public N kb)) Inbound (fresh_stream to_listener) =
      Some (Inr outb, (fresh_stream [])\<lparr>tx := to_dialer\<rparr>) \<and>
    remote_transport_peer_id outa = tim_peer_id Tb \<and> remote_transport_peer_id outb = tim_peer_id Ta \<and>
    paired (ns_session (up_stream outa)) (ns_session (up_stream outb))"
proof -
  have "xx_completes N paired ka kb ha hb bb ba" using assms(4,8,9,14,15) unfolding snow_ok_def by blast
  then obtain m1 hi1 hr1 m2 hr2 hi2 m3 hi3 hr3 ci cr where
    xx: "hs_write_message N [] ha = (Inr m1, hi1)" "hs_read_message N m1 hb = (Inr [], hr1)"
      "hs_write_message N bb hr1 = (Inr m2, hr2)" "hs_read_message N m2 hi1 = (Inr bb, hi2)"
      "hs_write_message N ba hi2 = (Inr m3, hi3)" "hs_read_message N m3 hr2 = (Inr ba, hr3)"
    and static: "hs_remote_static N hi2 = Some (static_public N kb)" "hs_remote_static N hr3 = Some (static_public N ka)"
    and tr: "into_transport_mode N hi3 = Inr ci" "into_transport_mode N hr3 = Inr cr" "paired ci cr"
    and len: "length m1 \<le> MAX_NOISE_FRAME_LEN" "length m2 \<le> MAX_NOISE_FRAME_LEN" "length m3 \<le> MAX_NOISE_FRAME_LEN"
    using assms(14,15) unfolding xx_completes_def by (auto simp: MAX_NOISE_FRAME_LEN_def)
  obtain pkb where pkb: "verify_remote_identity L N hi2 pb = Inr pkb" "pk_peer_id L pkb = tim_peer_id Tb"
    using local_payload_verifies(1) [OF assms(7,11) static(1)] by blast
  obtain pka where pka: "verify_remote_identity L N hr3 pa = Inr pka" "pk_peer_id L pka = tim_peer_id Ta"
    using local_payload_verifies(1) [OF assms(6,10) static(2)] by blast
  have dec: "decode_payload P ba = Some (Inr pa)" "decode_payload P bb = Some (Inr pb)"
    using payload_roundtrip [OF assms(2,3) local_payload_verifies(2) [OF assms(6,10) static(2)]]
      payload_roundtrip [OF assms(2,3) local_payload_verifies(2) [OF assms(7,11) static(1)]] assms(12,13) by auto
  let ?hello = "protocol_frame V MULTISTREAM_V1 @ protocol_frame V NOISE_PROTOCOL"
  let ?to_l = "?hello @ noise_frame m1 @ noise_frame m3" and ?to_d = "?hello @ noise_frame m2"
  let ?sa = "(fresh_stream (noise_frame m2))\<lparr>tx := ?hello\<rparr>" and ?sb = "(fresh_stream (noise_frame m1 @ noise_frame m3))\<lparr>tx := ?hello\<rparr>"
  let ?sa' = "(fresh_stream [])\<lparr>tx := ?to_l\<rparr>" and ?sb' = "(fresh_stream [])\<lparr>tx := ?to_d\<rparr>"
  have "dialer_select V NOISE_PROTOCOL (fresh_stream ?to_d) = (Inr (), ?sa)"
    using dialer_ok [OF assms(1) noise_protocol_name noise_protocol_name, of "fresh_stream ?to_d"] by (simp add: fresh_stream_def)
  moreover have "outbound_messages P L N D pa (?sa, ha) = Some (Inr (upgraded L D ?sa' ci pkb (identity_key pb)), (?sa', hi3))"
    by (rule outbound_run [OF xx(1,4) len(2) dec(2) pkb(1) assms(12) xx(5) tr(1), where rest = "[]"]) (simp_all add: fresh_stream_def)
  moreover have "listener_select V [NOISE_PROTOCOL] (fresh_stream ?to_l) = (Inr NOISE_PROTOCOL, ?sb)"
    using listener_ok [OF assms(1) noise_protocol_name, of "[NOISE_PROTOCOL]" "fresh_stream ?to_l"] noise_protocol_name
    by (simp add: fresh_stream_def listener_select_def and_then_def)
  moreover have "inbound_messages P L N D pb (?sb, hb) = Some (Inr (upgraded L D ?sb' cr pka (identity_key pa)), (?sb', hr3))"
    by (rule inbound_run [OF xx(2) len(1) assms(13) xx(3,6) len(3) dec(1) pka(1) tr(2), where rest = "[]"]) (simp_all add: fresh_stream_def)
  ultimately have up: "upgrade_noise_transport V P L N E D Ta (Inr (ka, static_public N ka)) Outbound (fresh_stream ?to_d) =
      Some (Inr (upgraded L D ?sa' ci pkb (identity_key pb)), ?sa')"
    "upgrade_noise_transport V P L N E D Tb (Inr (kb, static_public N kb)) Inbound (fresh_stream ?to_l) =
      Some (Inr (upgraded L D ?sb' cr pka (identity_key pa)), ?sb')"
    using upgrade_started [OF assms(5,10), where initiator = True] upgrade_started [OF assms(5,11), where initiator = False] assms(8,9)
    by (simp_all add: upgrade_noise_transport_def x_then_def noise_upgrade_outbound_def noise_upgrade_inbound_def)
  show ?thesis
    by (rule exI, rule exI, rule exI, rule exI, rule conjI [OF up(1)], rule conjI [OF up(2)])
      (simp add: upgraded_def NoiseStream_new_def pka(2) pkb(2) tr(3))
qed

text \<open>
  C32: The end of a session is who it says it is. A session on a connection is established only when the noise handshake on this
  connection gave the cipher, the static key of that handshake is signed by the transport key that the remote side
  showed, and the node hello is signed by the node key for the peer id of that transport key; the node id is the hash of
  the node key, and the transport peer is the expected one where one is expected. This holds whatever bytes
  arrive on the connection, for both roles.
\<close>

theorem session_peer_authenticated:
  assumes "static_stable N"
    and "session_on_stream V P L N E D plain mux role identity T generated config expected s = Some (Inr (Some (m, v)))"
  shows "\<exists>out s' h static pk signature hello.
    upgrade_noise_transport V P L N E D T generated role s = Some (Inr out, s') \<and>
    into_transport_mode N h = Inr (ns_session (up_stream out)) \<and> hs_remote_static N h = Some static \<and>
    pk_decode L (remote_transport_public_key out) = Some pk \<and> pk_verify L pk (STATIC_KEY_DOMAIN @ static) signature \<and>
    v = peer_of_hello hello \<and> hello_signed_by_key E hello \<and> hello_transport_peer_id hello = pk_peer_id L pk \<and>
    verified_node_peer_id v = hash E (verified_public_key v) \<and> (\<forall>x. expected = Some x \<longrightarrow> x = pk_peer_id L pk)"
proof -
  obtain r s' where up: "upgrade_noise_transport V P L N E D T generated role s = Some (r, s')"
    and est: "establish_session V E P
        (bind_result r (\<lambda>out. Inr (remote_transport_peer_id out, upgrade_yamux_transport V mux role (plain (up_stream out)))))
        role identity (tid_of T) config expected = Some (Inr (Some (m, v)))"
    using assms(2) by (auto simp: session_on_stream_def split: option.split_asm)
  obtain out where out: "r = Inr out" and exp: "\<forall>x. expected = Some x \<longrightarrow> x = remote_transport_peer_id out"
    and bound: "bound_peer E (remote_transport_peer_id out) v"
    using establish_bound [OF est] by (auto simp: bind_result_Inr)
  from upgrade_authenticated [OF assms(1) up [unfolded out]] obtain h static pk signature where
    auth: "into_transport_mode N h = Inr (ns_session (up_stream out))" "hs_remote_static N h = Some static"
      "pk_decode L (remote_transport_public_key out) = Some pk" "pk_verify L pk (STATIC_KEY_DOMAIN @ static) signature"
    and pid: "remote_transport_peer_id out = pk_peer_id L pk"
    unfolding noise_authenticated_def by blast
  from bound obtain hello where "v = peer_of_hello hello" "hello_transport_peer_id hello = pk_peer_id L pk"
      "hello_node_peer_id hello = hash E (node_public_key hello)" "hello_signed_by_key E hello"
    by (auto simp: bound_peer_def pid)
  moreover from this have "verified_node_peer_id v = hash E (verified_public_key v)" by (simp add: peer_of_hello_def)
  ultimately show ?thesis using up [unfolded out] auth exp [unfolded pid] by blast
qed

text \<open>
  C33: Two honest nodes secure their connection. A dialer and a listener with working transport identities, each reading what the other
  writes, agree on noise, complete the handshake and hold cipher states that belong together; each has the
  transport peer id of the other, and no byte of the handshake is left for what follows. Neither waits for more bytes.
\<close>

theorem noise_handshake_completes:
  assumes "varint_ok V" and "protobuf_ok P" and "nested_ok P N" and "snow_ok N paired" and "noise_params N NOISE_PROTOCOL_NAME"
    and "transport_ok L E Ta" and "transport_ok L E Tb" and "build_initiator N ka = Inr ha" and "build_responder N kb = Inr hb"
    and "build_local_identity_payload L E (static_public N ka) Ta = Inr pa" and "build_local_identity_payload L E (static_public N kb) Tb = Inr pb"
    and "encode_payload P N pa = Inr ba" and "encode_payload P N pb = Inr bb"
    and "length ba + 96 \<le> MAX_NOISE_FRAME_LEN" and "length bb + 96 \<le> MAX_NOISE_FRAME_LEN"
  shows "\<exists>to_listener to_dialer outa outb.
    upgrade_noise_transport V P L N E D Ta (Inr (ka, static_public N ka)) Outbound (fresh_stream to_dialer) =
      Some (Inr outa, (fresh_stream [])\<lparr>tx := to_listener\<rparr>) \<and>
    upgrade_noise_transport V P L N E D Tb (Inr (kb, static_public N kb)) Inbound (fresh_stream to_listener) =
      Some (Inr outb, (fresh_stream [])\<lparr>tx := to_dialer\<rparr>) \<and>
    remote_transport_peer_id outa = tim_peer_id Tb \<and> remote_transport_peer_id outb = tim_peer_id Ta \<and>
    paired (ns_session (up_stream outa)) (ns_session (up_stream outb))"
  using honest_noise_handshake [OF assms] .

section \<open>A concrete connection\<close>

text \<open>The handshake state is the own private key and the static key of the remote side; every message carries the sender's static key.\<close>

definition demo_noise :: "(byte_vec \<times> byte_vec option, nat) noise_env" where
  "demo_noise = \<lparr> noise_params = (\<lambda>name. name = NOISE_PROTOCOL_NAME), static_public = take 32,
     build_initiator = (\<lambda>k. Inr (k, None)), build_responder = (\<lambda>k. Inr (k, None)),
     hs_write_message = (\<lambda>p h. (Inr (word_of_nat (length (take 32 (fst h))) # take 32 (fst h) @ p), h)),
     hs_read_message = (\<lambda>m h. case m of
        [] \<Rightarrow> (Inl ''input error'', h)
      | n # rest \<Rightarrow> (Inr (drop (unat n) rest), (fst h, Some (take (unat n) rest)))),
     hs_remote_static = snd, into_transport_mode = (\<lambda>_. Inr 0),
     pb_write_header = (\<lambda>tag n. Inr (demo_tag tag @ unary n)) \<rparr>"

lemma demo_noise_ok: "static_stable demo_noise" "nested_ok demo_identify_env demo_noise" "snow_ok demo_noise (=)"
proof -
  show "static_stable demo_noise" by (auto simp: static_stable_def demo_noise_def)
  show "nested_ok demo_identify_env demo_noise" by (auto simp: nested_ok_def demo_identify_env_def demo_noise_def demo_tag_def unary_def)
  have "unat (word_of_nat (min (length k) 32) :: u8) = min (length k) 32" for k :: byte_vec
    by (simp add: unat_of_nat take_bit_eq_mod)
  moreover have "take (min (length k) 32) k = take 32 k" "min (length k) 32 \<le> 95" for k :: byte_vec by (simp_all add: min_def)
  ultimately show "snow_ok demo_noise (=)" by (simp add: snow_ok_def xx_completes_def demo_noise_def)
qed

definition demo_tim :: "u8 \<Rightarrow> (u8, u8, demo_sig) TransportIdentityManager" where
  "demo_tim k = \<lparr> tim_algorithm = EcdsaP256, tim_peer_id = [k], tim_public_key_protobuf = [k], tim_backend = SoftwareTransport k \<rparr>"

lemma demo_tim_ok: "transport_ok demo_libp2p E (demo_tim k)"
  by (simp add: transport_ok_def demo_libp2p_def demo_tim_def transport_sign_def)

lemma demo_tid: "tid_of (demo_tim k) = demo_transport k"
  by (simp add: tid_of_def demo_tim_def demo_transport_def)

definition demo_payload :: "u8 \<Rightarrow> byte_vec \<Rightarrow> NoiseHandshakePayload" where
  "demo_payload k static = \<lparr> identity_key = [k], identity_sig = k # STATIC_KEY_DOMAIN @ static, extensions = None \<rparr>"

lemma demo_payload_built: "build_local_identity_payload demo_libp2p E (static_public demo_noise private) (demo_tim k) = Inr (demo_payload k (take 32 private))"
  by (simp add: build_local_identity_payload_def transport_sign_def demo_tim_def demo_libp2p_def demo_payload_def demo_noise_def)

lemma demo_payload_encoded:
  "\<exists>bytes. encode_payload demo_identify_env demo_noise (demo_payload k (take 32 private)) = Inr bytes \<and> length bytes + 96 \<le> MAX_NOISE_FRAME_LEN"
  by (simp add: encode_payload_def write_payload_def demo_payload_def demo_identify_env_def opt_list_def demo_tag_def unary_def
      STATIC_KEY_DOMAIN_def str_bytes_def MAX_NOISE_FRAME_LEN_def)


lemma demo_noise_sel:
  "noise_params demo_noise NOISE_PROTOCOL_NAME" "build_initiator demo_noise [1] = Inr ([1], None)"
  "build_responder demo_noise [2] = Inr ([2], None)" "static_public demo_noise [1] = [1]" "static_public demo_noise [2] = [2]"
  "tim_peer_id (demo_tim k) = [k]"
  by (simp_all add: demo_noise_def demo_tim_def)

lemma demo_honest_handshake:
  obtains to_listener to_dialer outa outb where
    "upgrade_noise_transport demo_varint demo_identify_env demo_libp2p demo_noise demo_session_env D (demo_tim 5) (Inr ([1], [1])) Outbound
      (fresh_stream to_dialer) = Some (Inr outa, (fresh_stream [])\<lparr>tx := to_listener\<rparr>)"
    "upgrade_noise_transport demo_varint demo_identify_env demo_libp2p demo_noise demo_session_env D (demo_tim 7) (Inr ([2], [2])) Inbound
      (fresh_stream to_listener) = Some (Inr outb, (fresh_stream [])\<lparr>tx := to_dialer\<rparr>)"
    "remote_transport_peer_id outa = [7]" "remote_transport_peer_id outb = [5]"
proof -
  note thesis_rule = that
  obtain ba where ba: "encode_payload demo_identify_env demo_noise (demo_payload 5 (take 32 [1])) = Inr ba" "length ba + 96 \<le> MAX_NOISE_FRAME_LEN"
    using demo_payload_encoded by blast
  obtain bb where bb: "encode_payload demo_identify_env demo_noise (demo_payload 7 (take 32 [2])) = Inr bb" "length bb + 96 \<le> MAX_NOISE_FRAME_LEN"
    using demo_payload_encoded by blast
  show ?thesis
    using honest_noise_handshake [OF demo_varint_ok demo_protobuf_ok demo_noise_ok(2,3) _ demo_tim_ok demo_tim_ok _ _ demo_payload_built
        demo_payload_built ba(1) bb(1) ba(2) bb(2), of "([1], None)" "([2], None)" demo_session_env D] thesis_rule demo_noise_sel by auto
qed

theorem noise_handshake_completes_witness:
  "\<exists>to_listener to_dialer outa outb.
    upgrade_noise_transport demo_varint demo_identify_env demo_libp2p demo_noise demo_session_env (\<lambda>_. \<lparr> in_reads = [], in_writes = [],
        in_flushes = [], in_written = [] \<rparr>) (demo_tim 5) (Inr ([1], [1])) Outbound (fresh_stream to_dialer) =
      Some (Inr outa, (fresh_stream [])\<lparr>tx := to_listener\<rparr>) \<and>
    upgrade_noise_transport demo_varint demo_identify_env demo_libp2p demo_noise demo_session_env (\<lambda>_. \<lparr> in_reads = [], in_writes = [],
        in_flushes = [], in_written = [] \<rparr>) (demo_tim 7) (Inr ([2], [2])) Inbound (fresh_stream to_listener) =
      Some (Inr outb, (fresh_stream [])\<lparr>tx := to_dialer\<rparr>) \<and>
    remote_transport_peer_id outa = [7] \<and> remote_transport_peer_id outb = [5]"
proof -
  obtain ba where ba: "encode_payload demo_identify_env demo_noise (demo_payload 5 (take 32 [1])) = Inr ba" "length ba + 96 \<le> MAX_NOISE_FRAME_LEN"
    using demo_payload_encoded by blast
  obtain bb where bb: "encode_payload demo_identify_env demo_noise (demo_payload 7 (take 32 [2])) = Inr bb" "length bb + 96 \<le> MAX_NOISE_FRAME_LEN"
    using demo_payload_encoded by blast
  show ?thesis
    using noise_handshake_completes [OF demo_varint_ok demo_protobuf_ok demo_noise_ok(2,3) _ demo_tim_ok demo_tim_ok _ _ demo_payload_built
        demo_payload_built ba(1) bb(1) ba(2) bb(2), of "([1], None)" "([2], None)" demo_session_env
        "\<lambda>_. \<lparr> in_reads = [], in_writes = [], in_flushes = [], in_written = [] \<rparr>"] demo_noise_sel by auto
qed

theorem session_peer_authenticated_witness:
  "\<exists>plain mux bytes m. session_on_stream demo_varint demo_identify_env demo_libp2p demo_noise demo_session_env
      (\<lambda>_. \<lparr> in_reads = [], in_writes = [], in_flushes = [], in_written = [] \<rparr>) plain mux Inbound (demo_identity 7) (demo_tim 7)
      (Inr ([2], [2])) NetworkConfig_default (Some [5]) (fresh_stream bytes) = Some (Inr (Some (m, peer_of_hello (demo_hello 5)))) \<and>
    verified_node_peer_id (peer_of_hello (demo_hello 5)) = hash demo_session_env (verified_public_key (peer_of_hello (demo_hello 5)))"
proof -
  let ?D = "\<lambda>_. \<lparr> in_reads = [], in_writes = [], in_flushes = [], in_written = [] \<rparr>"
  obtain bytes out s where up: "upgrade_noise_transport demo_varint demo_identify_env demo_libp2p demo_noise demo_session_env ?D (demo_tim 7)
      (Inr ([2], [2])) Inbound (fresh_stream bytes) = Some (Inr out, s)" and remote: "remote_transport_peer_id out = [5]"
    using demo_honest_handshake by blast
  obtain m0 m where est: "establish_session demo_varint demo_session_env demo_identify_env (Inr ([5], Inr m0)) Inbound (demo_identity 7)
      (demo_transport 7) NetworkConfig_default (Some [5]) = Some (Inr (Some (m, peer_of_hello (demo_hello 5))))"
    using demo_session_established by blast
  let ?plain = "\<lambda>_ :: nat NoiseStream. fresh_stream (protocol_frame demo_varint MULTISTREAM_V1 @ protocol_frame demo_varint YAMUX_PROTOCOL)"
  have "protocol_name YAMUX_PROTOCOL"
    by (simp add: protocol_name_def YAMUX_PROTOCOL_def str_bytes_def ends_with_newline_def newline_def MAX_PROTOCOL_FRAME_LEN_def)
  then have "upgrade_yamux_transport demo_varint (\<lambda>_. m0) Inbound (?plain x) = Inr m0" for x :: "nat NoiseStream"
    using listener_ok [OF demo_varint_ok, of YAMUX_PROTOCOL "[YAMUX_PROTOCOL]" "?plain x" "[]"]
    by (simp add: upgrade_yamux_transport_def yamux_upgrade_inbound_def listener_select_def and_then_def)
  then have run: "session_on_stream demo_varint demo_identify_env demo_libp2p demo_noise demo_session_env ?D ?plain (\<lambda>_. m0) Inbound
      (demo_identity 7) (demo_tim 7) (Inr ([2], [2])) NetworkConfig_default (Some [5]) (fresh_stream bytes) =
      Some (Inr (Some (m, peer_of_hello (demo_hello 5))))"
    using up remote est by (simp add: session_on_stream_def demo_tid)
  from session_peer_authenticated [OF demo_noise_ok(1) run] run show ?thesis by blast
qed

end
