(* ===== verification/Yamux.thy ===== *)
theory Yamux
  imports NoiseStream
begin

text \<open>
  The multiplexer (\<open>erp-runtime/src/network/transport/yamux.rs\<close>). A substream of the \<open>yamux\<close> crate does not advance
  the connection below it, so every read or write that cannot go on drives the connection itself, and the
  substreams that the remote side opens in the meantime wait in \<open>pending_inbound\<close> until they are taken.

  The connection of the crate is what its polls for inbound substreams will return, in order; after the last one it
  stays pending. A substream is the poll-level stream of \<open>NoiseStream\<close>.
\<close>

section \<open>The connection\<close>

datatype 's inbound_poll = NewSubstream 's | InboundPending | InboundError string | InboundClosed

record 's YamuxMuxer =
  ym_connection :: "'s inbound_poll list"
  pending_inbound :: "'s list"

definition map_connection_error :: "string \<Rightarrow> RuntimeError" where
  "map_connection_error e = NetworkError (IoError OtherKind (''yamux connection error: '' @ e))"

definition connection_error_to_io :: "string \<Rightarrow> IoError" where
  "connection_error_to_io e = IoError OtherKind (''yamux connection error: '' @ e)"

definition poll_next_inbound :: "'s YamuxMuxer \<Rightarrow> 's inbound_poll \<times> 's YamuxMuxer" where
  "poll_next_inbound m =
     (case ym_connection m of
        [] \<Rightarrow> (InboundPending, m)
      | p # ps \<Rightarrow> (p, m\<lparr>ym_connection := ps\<rparr>))"

section \<open>Driving the connection\<close>

text \<open>The loop with its flag \<open>queued_stream\<close>.\<close>

function drive_loop :: "bool \<Rightarrow> 's YamuxMuxer \<Rightarrow> (IoError, unit) result poll \<times> 's YamuxMuxer" where
  "drive_loop queued_stream m =
     (case poll_next_inbound m of
        (NewSubstream s, m') \<Rightarrow> drive_loop True (m'\<lparr>pending_inbound := pending_inbound m' @ [s]\<rparr>)
      | (InboundError e, m') \<Rightarrow> (Ready (Inl (connection_error_to_io e)), m')
      | (InboundClosed, m') \<Rightarrow> (Ready (Inl (IoError UnexpectedEof ''yamux connection closed'')), m')
      | (InboundPending, m') \<Rightarrow> (if queued_stream then Ready (Inr ()) else Pending, m'))"
  by pat_completeness auto
termination
  by (relation "measure (\<lambda>(q, m). length (ym_connection m))") (auto simp: poll_next_inbound_def split: list.split_asm)

declare drive_loop.simps [simp del]

definition poll_drive_connection :: "'s YamuxMuxer \<Rightarrow> (IoError, unit) result poll \<times> 's YamuxMuxer" where
  "poll_drive_connection = drive_loop False"

text \<open>What the connection still holds: the substreams that wait and those its polls will return, in order.\<close>

definition announced_substreams :: "'s inbound_poll list \<Rightarrow> 's list" where
  "announced_substreams ps = List.map_filter (\<lambda>p. case p of NewSubstream s \<Rightarrow> Some s | _ \<Rightarrow> None) ps"

lemma announced_simps [simp]:
  "announced_substreams [] = []" "announced_substreams (NewSubstream s # ps) = s # announced_substreams ps"
  "announced_substreams (InboundPending # ps) = announced_substreams ps"
  "announced_substreams (InboundError e # ps) = announced_substreams ps"
  "announced_substreams (InboundClosed # ps) = announced_substreams ps"
  by (simp_all add: announced_substreams_def List.map_filter_simps)

definition substreams_ahead :: "'s YamuxMuxer \<Rightarrow> 's list" where
  "substreams_ahead m = pending_inbound m @ announced_substreams (ym_connection m)"

text \<open>One round of the loop, and what the loop as a whole does to the connection.\<close>

lemma drive_loop_cases:
  "ym_connection m = [] \<Longrightarrow> drive_loop q m = (if q then Ready (Inr ()) else Pending, m)"
  "ym_connection m = NewSubstream s # ps \<Longrightarrow>
     drive_loop q m = drive_loop True (m\<lparr>ym_connection := ps, pending_inbound := pending_inbound m @ [s]\<rparr>)"
  "ym_connection m = InboundPending # ps \<Longrightarrow> drive_loop q m = (if q then Ready (Inr ()) else Pending, m\<lparr>ym_connection := ps\<rparr>)"
  "ym_connection m = InboundError e # ps \<Longrightarrow> drive_loop q m = (Ready (Inl (connection_error_to_io e)), m\<lparr>ym_connection := ps\<rparr>)"
  "ym_connection m = InboundClosed # ps \<Longrightarrow>
     drive_loop q m = (Ready (Inl (IoError UnexpectedEof ''yamux connection closed'')), m\<lparr>ym_connection := ps\<rparr>)"
  by (simp_all add: drive_loop.simps [of q m] poll_next_inbound_def)

lemma drive_loop_result:
  assumes "ym_connection m = ps"
  shows "substreams_ahead (snd (drive_loop q m)) = substreams_ahead m \<and>
    set (ym_connection (snd (drive_loop q m))) \<subseteq> set (ym_connection m) \<and>
    length (ym_connection (snd (drive_loop q m))) \<le> length (ym_connection m) \<and>
    (fst (drive_loop q m) = Ready (Inr ()) \<longrightarrow> \<not> q \<longrightarrow> length (ym_connection (snd (drive_loop q m))) < length (ym_connection m))"
  using assms
proof (induction ps arbitrary: q m)
  case Nil
  then show ?case by (simp add: drive_loop_cases(1))
next
  case (Cons p ps)
  show ?case
  proof (cases p)
    case (NewSubstream s)
    let ?m = "m\<lparr>ym_connection := ps, pending_inbound := pending_inbound m @ [s]\<rparr>"
    have "drive_loop q m = drive_loop True ?m" using Cons.prems NewSubstream by (simp add: drive_loop_cases(2))
    moreover have "substreams_ahead ?m = substreams_ahead m"
      using Cons.prems NewSubstream by (simp add: substreams_ahead_def)
    ultimately show ?thesis using Cons.IH [of ?m True] Cons.prems by auto
  qed (use Cons.prems in \<open>auto simp: drive_loop_cases substreams_ahead_def\<close>)
qed

lemma poll_driveD:
  assumes "poll_drive_connection m = (r, m')"
  shows "substreams_ahead m' = substreams_ahead m" and "set (ym_connection m') \<subseteq> set (ym_connection m)"
    and "r = Ready (Inr ()) \<Longrightarrow> length (ym_connection m') < length (ym_connection m)"
  using drive_loop_result [of m "ym_connection m" False] assms by (simp_all add: poll_drive_connection_def)

section \<open>Substreams\<close>

text \<open>One poll of \<open>accept_substream\<close>, and the future that is polled until it is ready (or for ever).\<close>

definition poll_accept :: "'s YamuxMuxer \<Rightarrow> (RuntimeError, 's option) result poll \<times> 's YamuxMuxer" where
  "poll_accept m =
     (case pending_inbound m of
        s # rest \<Rightarrow> (Ready (Inr (Some s)), m\<lparr>pending_inbound := rest\<rparr>)
      | [] \<Rightarrow>
          (case poll_next_inbound m of
             (NewSubstream s, m') \<Rightarrow> (Ready (Inr (Some s)), m')
           | (InboundError e, m') \<Rightarrow> (Ready (Inl (map_connection_error e)), m')
           | (InboundClosed, m') \<Rightarrow> (Ready (Inr None), m')
           | (InboundPending, m') \<Rightarrow> (Pending, m')))"

function yamux_accept_substream :: "'s YamuxMuxer \<Rightarrow> ((RuntimeError, 's option) result \<times> 's YamuxMuxer) option" where
  "yamux_accept_substream m =
     (if pending_inbound m = [] \<and> ym_connection m = [] then None
      else (case poll_accept m of
              (Ready r, m') \<Rightarrow> Some (r, m')
            | (Pending, m') \<Rightarrow> yamux_accept_substream m'))"
  by pat_completeness auto
termination
  by (relation "measure (\<lambda>m. length (ym_connection m))")
    (auto simp: poll_accept_def poll_next_inbound_def split: list.split_asm inbound_poll.split_asm)

declare yamux_accept_substream.simps [simp del]

text \<open>\<open>YamuxStreamIo\<close>: the muxer and the substream it works on.\<close>

function yamux_poll_read ::
  "nat \<Rightarrow> 's YamuxMuxer \<Rightarrow> inner_stream \<Rightarrow> (IoError, byte_vec) result poll \<times> 's YamuxMuxer \<times> inner_stream" where
  "yamux_poll_read n m s =
     (case inner_poll_read n s of
        (Ready r, s') \<Rightarrow> (Ready r, m, s')
      | (Pending, s') \<Rightarrow>
          (case poll_drive_connection m of
             (Ready (Inr _), m') \<Rightarrow> yamux_poll_read n m' s'
           | (Ready (Inl e), m') \<Rightarrow> (Ready (Inl e), m', s')
           | (Pending, m') \<Rightarrow> (Pending, m', s')))"
  by pat_completeness auto
termination
  by (relation "measure (\<lambda>(n, m, s). length (ym_connection m))") (auto dest!: sym [of _ "poll_drive_connection _"] poll_driveD(3))

declare yamux_poll_read.simps [simp del]

text \<open>Writing, flushing and closing poll the substream once and drive the connection when it is not ready.\<close>

definition drive_when_pending :: "(IoError, 'a) result poll \<Rightarrow> 's YamuxMuxer \<Rightarrow> (IoError, 'a) result poll \<times> 's YamuxMuxer" where
  "drive_when_pending r m =
     (case r of
        Ready x \<Rightarrow> (Ready x, m)
      | Pending \<Rightarrow>
          (case poll_drive_connection m of
             (Ready (Inl e), m') \<Rightarrow> (Ready (Inl e), m')
           | (_, m') \<Rightarrow> (Pending, m')))"

definition yamux_poll_write ::
  "byte_vec \<Rightarrow> 's YamuxMuxer \<Rightarrow> inner_stream \<Rightarrow> (IoError, nat) result poll \<times> 's YamuxMuxer \<times> inner_stream" where
  "yamux_poll_write buf m s =
     (let (r, s') = inner_poll_write buf s; (r', m') = drive_when_pending r m in (r', m', s'))"

definition yamux_poll_flush ::
  "'s YamuxMuxer \<Rightarrow> inner_stream \<Rightarrow> (IoError, unit) result poll \<times> 's YamuxMuxer \<times> inner_stream" where
  "yamux_poll_flush m s =
     (let (r, s') = inner_poll_flush s; (r', m') = drive_when_pending r m in (r', m', s'))"

text \<open>\<open>closed\<close> is what closing the substream returned.\<close>

definition yamux_poll_close :: "(IoError, unit) result poll \<Rightarrow> 's YamuxMuxer \<Rightarrow> (IoError, unit) result poll \<times> 's YamuxMuxer" where
  "yamux_poll_close closed m = drive_when_pending closed m"

section \<open>No substream is lost\<close>

text \<open>
  What a session does with the multiplexer, in any order: polls for an inbound substream (a poll that is not ready may be
  dropped), and reads, writes, flushes and closes on substreams.
\<close>

datatype mux_op = AcceptPoll | ReadPoll nat inner_stream | WritePoll byte_vec inner_stream | FlushPoll inner_stream
  | ClosePoll "(IoError, unit) result poll"

fun mux_step :: "mux_op \<Rightarrow> 's YamuxMuxer \<Rightarrow> 's list \<times> 's YamuxMuxer" where
  "mux_step AcceptPoll m = (case poll_accept m of (Ready (Inr (Some s)), m') \<Rightarrow> ([s], m') | (_, m') \<Rightarrow> ([], m'))"
| "mux_step (ReadPoll n s) m = ([], fst (snd (yamux_poll_read n m s)))"
| "mux_step (WritePoll buf s) m = ([], fst (snd (yamux_poll_write buf m s)))"
| "mux_step (FlushPoll s) m = ([], fst (snd (yamux_poll_flush m s)))"
| "mux_step (ClosePoll r) m = ([], snd (yamux_poll_close r m))"

fun mux_steps :: "mux_op list \<Rightarrow> 's YamuxMuxer \<Rightarrow> 's list \<times> 's YamuxMuxer" where
  "mux_steps [] m = ([], m)"
| "mux_steps (op # ops) m = (let (taken, m') = mux_step op m; (later, m'') = mux_steps ops m' in (taken @ later, m''))"

definition keeps_substreams :: "'s YamuxMuxer \<Rightarrow> 's list \<Rightarrow> 's YamuxMuxer \<Rightarrow> bool" where
  "keeps_substreams m taken m' \<longleftrightarrow>
     taken @ substreams_ahead m' = substreams_ahead m \<and> set (ym_connection m') \<subseteq> set (ym_connection m)"

lemma drive_when_pending_keeps: "keeps_substreams m [] (snd (drive_when_pending r m))"
  using poll_driveD [of m]
  by (auto simp: drive_when_pending_def keeps_substreams_def split: poll.split prod.split sum.split)

lemma poll_read_keeps: "keeps_substreams m [] (fst (snd (yamux_poll_read n m s)))"
proof (induction n m s rule: yamux_poll_read.induct)
  case (1 n m s)
  show ?case
  proof (cases "inner_poll_read n s")
    case (Pair r s')
    show ?thesis
    proof (cases r)
      case (Ready x)
      then show ?thesis using Pair by (simp add: yamux_poll_read.simps keeps_substreams_def)
    next
      case Pending
      obtain d m' where drive: "poll_drive_connection m = (d, m')" by (cases "poll_drive_connection m")
      have "keeps_substreams m [] m'" using poll_driveD(1,2) [OF drive] by (simp add: keeps_substreams_def)
      moreover have "keeps_substreams m' [] (fst (snd (yamux_poll_read n m' s')))" if "d = Ready (Inr ())"
        by (rule "1.IH" [OF Pair [symmetric] Pending drive [symmetric] that refl])
      ultimately show ?thesis using Pair Pending drive
        by (subst yamux_poll_read.simps) (auto simp: keeps_substreams_def split: poll.split sum.split)
    qed
  qed
qed

lemma poll_accept_keeps:
  "keeps_substreams m (case fst (poll_accept m) of Ready (Inr (Some s)) \<Rightarrow> [s] | _ \<Rightarrow> []) (snd (poll_accept m))"
  by (cases "pending_inbound m"; cases "ym_connection m"; cases "hd (ym_connection m)")
    (auto simp: poll_accept_def poll_next_inbound_def keeps_substreams_def substreams_ahead_def)

lemma mux_step_keeps: "keeps_substreams m (fst (mux_step op m)) (snd (mux_step op m))"
proof (cases op)
  case AcceptPoll
  then show ?thesis using poll_accept_keeps [of m]
    by (cases "poll_accept m") (auto split: poll.split sum.split option.split)
qed (use poll_read_keeps drive_when_pending_keeps in
    \<open>auto simp: yamux_poll_write_def yamux_poll_flush_def yamux_poll_close_def case_prod_unfold Let_def\<close>)

lemma mux_steps_keep: "mux_steps ops m = (taken, m') \<Longrightarrow> keeps_substreams m taken m'"
proof (induction ops arbitrary: m taken m')
  case Nil
  then show ?case by (simp add: keeps_substreams_def)
next
  case (Cons op ops)
  obtain later where later: "mux_steps ops (snd (mux_step op m)) = (later, m')" "taken = fst (mux_step op m) @ later"
    using Cons.prems by (auto simp: case_prod_unfold Let_def prod_eq_iff)
  from Cons.IH [OF later(1)] mux_step_keeps [of m op] show ?case
    by (auto simp: keeps_substreams_def later(2))
qed

lemma accept_next:
  assumes "\<forall>p\<in>set (ym_connection m). p = InboundPending \<or> (\<exists>s. p = NewSubstream s)" and "substreams_ahead m = s # rest"
  shows "\<exists>m'. yamux_accept_substream m = Some (Inr (Some s), m') \<and> substreams_ahead m' = rest"
  using assms
proof (induction "length (ym_connection m)" arbitrary: m)
  case 0
  then show ?case
    by (cases "pending_inbound m") (auto simp: yamux_accept_substream.simps [of m] poll_accept_def substreams_ahead_def)
next
  case (Suc n)
  then obtain p ps where conn: "ym_connection m = p # ps" by (cases "ym_connection m") auto
  show ?case
  proof (cases "pending_inbound m = [] \<and> p = InboundPending")
    case True
    let ?m = "m\<lparr>ym_connection := ps\<rparr>"
    have "yamux_accept_substream m = yamux_accept_substream ?m"
      using True conn by (simp add: yamux_accept_substream.simps [of m] poll_accept_def poll_next_inbound_def)
    then show ?thesis using Suc.hyps(1) [of ?m] Suc.hyps(2) Suc.prems True conn by (simp add: substreams_ahead_def)
  next
    case False
    then show ?thesis using Suc.prems conn
      by (cases "pending_inbound m") (auto simp: yamux_accept_substream.simps [of m] poll_accept_def poll_next_inbound_def substreams_ahead_def)
  qed
qed

text \<open>
  C34: No substream is lost or reordered. Whatever a session reads, writes, flushes, closes and polls, in any order and with any polls
  that are not ready and dropped, the substreams it accepts are those the remote side opened, in the order it opened them,
  also those that arrived while a read or write drove the connection; and on a connection that does not fail the next accept
  returns the first of the others.
\<close>

theorem substreams_accepted_in_order:
  assumes "mux_steps ops \<lparr> ym_connection = polls, pending_inbound = [] \<rparr> = (taken, m)"
  shows "taken @ substreams_ahead m = announced_substreams polls \<and>
    ((\<forall>p\<in>set polls. p = InboundPending \<or> (\<exists>s. p = NewSubstream s)) \<longrightarrow> substreams_ahead m = s # rest \<longrightarrow>
      (\<exists>m'. yamux_accept_substream m = Some (Inr (Some s), m') \<and> substreams_ahead m' = rest))"
proof -
  have keep: "taken @ substreams_ahead m = announced_substreams polls" "set (ym_connection m) \<subseteq> set polls"
    using mux_steps_keep [OF assms] by (simp_all add: keeps_substreams_def substreams_ahead_def)
  then show ?thesis using accept_next [of m s rest] by blast
qed

theorem substreams_accepted_in_order_witness:
  "\<exists>m. mux_steps [ReadPoll 4 \<lparr> in_reads = [ReadPending, Chunk [9]], in_writes = [], in_flushes = [], in_written = [] \<rparr>, AcceptPoll]
      \<lparr> ym_connection = [NewSubstream (1 :: nat), NewSubstream 2], pending_inbound = [] \<rparr> = ([1], m) \<and>
    (\<exists>m'. yamux_accept_substream m = Some (Inr (Some 2), m') \<and> substreams_ahead m' = [])"
proof -
  have run: "mux_steps [ReadPoll 4 \<lparr> in_reads = [ReadPending, Chunk [9]], in_writes = [], in_flushes = [], in_written = [] \<rparr>, AcceptPoll]
      \<lparr> ym_connection = [NewSubstream (1 :: nat), NewSubstream 2], pending_inbound = [] \<rparr> = ([1], \<lparr> ym_connection = [], pending_inbound = [2] \<rparr>)"
    by (simp add: yamux_poll_read.simps inner_poll_read_def poll_drive_connection_def drive_loop_cases poll_accept_def)
  from substreams_accepted_in_order [OF run, of 2 "[]"] run show ?thesis by (simp add: substreams_ahead_def)
qed

end
