(* ===== verification/SocketIo.thy ===== *)
theory SocketIo
  imports NoiseStream PeerRegistry
begin

text \<open>
  The TCP sockets of the embedded runtime (\<open>erp-runtime/src/network/socket/esp_idf.rs\<close>). The sockets do not block and
  give no wake-up, so a poll that would block sets a timer of 10 ms and tries again when it has elapsed; connecting polls
  the socket every 50 ms until it is connected, failed or timed out.

  What the socket will return to its calls is part of the state, in order. A poll of a timer finds it elapsed or not: the list
  of these answers is an argument, and a timer whose answers are used up has not elapsed. \<open>einprogress\<close> is the
  number that the C library gives to \<open>EINPROGRESS\<close>.
\<close>

definition SOCKET_RETRY_DELAY_MS :: u64 where "SOCKET_RETRY_DELAY_MS = 10"
definition CONNECT_TIMEOUT_SECS :: u64 where "CONNECT_TIMEOUT_SECS = 5"
definition CONNECT_POLL_MS :: u64 where "CONNECT_POLL_MS = 50"

section \<open>A connected socket\<close>

record os_error =
  os_io :: IoError
  raw_os_error :: "int option"

definition is_would_block :: "int \<Rightarrow> os_error \<Rightarrow> bool" where
  "is_would_block einprogress e \<longleftrightarrow> io_kind (os_io e) = WouldBlock \<or> raw_os_error e = Some einprogress"

record socket =
  sock_reads :: "(os_error, byte_vec) result list"
  sock_writes :: "(os_error, nat) result list"
  sock_flushes :: "(os_error, unit) result list"
  sock_written :: byte_vec

definition socket_read :: "nat \<Rightarrow> socket \<Rightarrow> (os_error, byte_vec) result \<times> socket" where
  "socket_read n s =
     (case sock_reads s of
        [] \<Rightarrow> (Inr [], s)
      | Inl e # rest \<Rightarrow> (Inl e, s\<lparr>sock_reads := rest\<rparr>)
      | Inr bs # rest \<Rightarrow> (Inr (take n bs), s\<lparr>sock_reads := (if length bs \<le> n then rest else Inr (drop n bs) # rest)\<rparr>))"

definition socket_write :: "byte_vec \<Rightarrow> socket \<Rightarrow> (os_error, nat) result \<times> socket" where
  "socket_write buf s =
     (case sock_writes s of
        [] \<Rightarrow> (Inr (length buf), s\<lparr>sock_written := sock_written s @ buf\<rparr>)
      | Inl e # rest \<Rightarrow> (Inl e, s\<lparr>sock_writes := rest\<rparr>)
      | Inr k # rest \<Rightarrow> (Inr (min k (length buf)), s\<lparr>sock_writes := rest, sock_written := sock_written s @ take k buf\<rparr>))"

definition socket_flush :: "socket \<Rightarrow> (os_error, unit) result \<times> socket" where
  "socket_flush s =
     (case sock_flushes s of
        [] \<Rightarrow> (Inr (), s)
      | r # rest \<Rightarrow> (r, s\<lparr>sock_flushes := rest\<rparr>))"

record EspTcpStream =
  esp_socket :: socket
  read_retry :: bool
  write_retry :: bool
  flush_retry :: bool

definition EspTcpStream_new :: "socket \<Rightarrow> EspTcpStream" where
  "EspTcpStream_new s = \<lparr> esp_socket = s, read_retry = False, write_retry = False, flush_retry = False \<rparr>"

text \<open>\<open>poll_retry\<close>: the timer is set if it was not, and unset once it has elapsed. The first answer is used.\<close>

definition poll_retry :: "bool list \<Rightarrow> bool \<times> bool \<times> bool list" where
  "poll_retry elapsed =
     (case elapsed of
        True # rest \<Rightarrow> (True, False, rest)
      | False # rest \<Rightarrow> (False, True, rest)
      | [] \<Rightarrow> (False, True, []))"

text \<open>The loop that \<open>poll_read\<close>, \<open>poll_write\<close> and \<open>poll_flush\<close> share: the call on the socket, and whether the timer is set afterwards.\<close>

function retry_loop ::
  "int \<Rightarrow> (socket \<Rightarrow> (os_error, 'a) result \<times> socket) \<Rightarrow> bool list \<Rightarrow> socket \<Rightarrow> (IoError, 'a) result poll \<times> bool \<times> bool list \<times> socket" where
  "retry_loop einprogress call elapsed s =
     (case call s of
        (Inr a, s') \<Rightarrow> (Ready (Inr a), False, elapsed, s')
      | (Inl e, s') \<Rightarrow>
          (if is_would_block einprogress e
           then (case poll_retry elapsed of
                   (True, armed, rest) \<Rightarrow> retry_loop einprogress call rest s'
                 | (False, armed, rest) \<Rightarrow> (Pending, armed, rest, s'))
           else (Ready (Inl (os_io e)), False, elapsed, s')))"
  by pat_completeness auto
termination
  by (relation "measure (\<lambda>(k, call, elapsed, s). length elapsed)") (auto simp: poll_retry_def split: list.split_asm bool.split_asm)

declare retry_loop.simps [simp del]

definition esp_poll_read ::
  "int \<Rightarrow> nat \<Rightarrow> bool list \<Rightarrow> EspTcpStream \<Rightarrow> (IoError, byte_vec) result poll \<times> bool list \<times> EspTcpStream" where
  "esp_poll_read einprogress n elapsed t =
     (let (r, armed, rest, s) = retry_loop einprogress (socket_read n) elapsed (esp_socket t)
      in (r, rest, t\<lparr>esp_socket := s, read_retry := armed\<rparr>))"

definition esp_poll_write ::
  "int \<Rightarrow> byte_vec \<Rightarrow> bool list \<Rightarrow> EspTcpStream \<Rightarrow> (IoError, nat) result poll \<times> bool list \<times> EspTcpStream" where
  "esp_poll_write einprogress buf elapsed t =
     (let (r, armed, rest, s) = retry_loop einprogress (socket_write buf) elapsed (esp_socket t)
      in (r, rest, t\<lparr>esp_socket := s, write_retry := armed\<rparr>))"

definition esp_poll_flush :: "int \<Rightarrow> bool list \<Rightarrow> EspTcpStream \<Rightarrow> (IoError, unit) result poll \<times> bool list \<times> EspTcpStream" where
  "esp_poll_flush einprogress elapsed t =
     (let (r, armed, rest, s) = retry_loop einprogress socket_flush elapsed (esp_socket t)
      in (r, rest, t\<lparr>esp_socket := s, flush_retry := armed\<rparr>))"

text \<open>\<open>poll_close\<close> shuts the socket down for writing; \<open>shut\<close> is what that returns.\<close>

definition esp_poll_close :: "(IoError, unit) result \<Rightarrow> (IoError, unit) result poll" where
  "esp_poll_close shut = Ready shut"

section \<open>Listening and connecting\<close>

text \<open>\<open>bind\<close>: the address with the given port, and the calls that set up the listening socket, each of which may fail.\<close>

definition bind_addr :: "SocketAddr \<Rightarrow> u16 \<Rightarrow> SocketAddr" where
  "bind_addr addr port = (case addr of SocketV4 ip _ \<Rightarrow> SocketV4 ip port | SocketV6 ip _ \<Rightarrow> SocketV6 ip port)"

definition esp_bind ::
  "(bool \<Rightarrow> (IoError, 'l) result) \<Rightarrow> ('l \<Rightarrow> (IoError, unit) result) \<Rightarrow> ('l \<Rightarrow> SocketAddr \<Rightarrow> (IoError, unit) result)
    \<Rightarrow> ('l \<Rightarrow> nat \<Rightarrow> (IoError, unit) result) \<Rightarrow> ('l \<Rightarrow> (IoError, unit) result) \<Rightarrow> SocketAddr \<Rightarrow> u16 \<Rightarrow> (RuntimeError, 'l) result" where
  "esp_bind new_socket set_reuse_address bind_socket listen set_nonblocking addr port =
     map_err NetworkError
       (bind_result (new_socket (is_ipv4 (bind_addr addr port)))
         (\<lambda>s. bind_result (set_reuse_address s)
           (\<lambda>_. bind_result (bind_socket s (bind_addr addr port))
             (\<lambda>_. bind_result (listen s 128)
               (\<lambda>_. bind_result (set_nonblocking s) (\<lambda>_. Inr s))))))"

text \<open>
  \<open>accept\<close>: what the listening socket returns, one call after the other; after a call that would block it waits and tries again, and an
  empty list is waiting for ever. An accepted socket is made non-blocking and loses its delay, which may fail.
\<close>

fun esp_accept ::
  "(socket \<Rightarrow> (IoError, unit) result) \<Rightarrow> (socket \<Rightarrow> (IoError, unit) result) \<Rightarrow> (os_error, socket \<times> 'a) result list
    \<Rightarrow> ((RuntimeError, EspTcpStream \<times> 'a) result \<times> (os_error, socket \<times> 'a) result list) option" where
  "esp_accept set_nonblocking set_nodelay [] = None"
| "esp_accept set_nonblocking set_nodelay (Inr (s, addr) # calls) =
     Some (bind_result (map_err NetworkError (set_nonblocking s))
             (\<lambda>_. bind_result (map_err NetworkError (set_nodelay s)) (\<lambda>_. Inr (EspTcpStream_new s, addr))), calls)"
| "esp_accept set_nonblocking set_nodelay (Inl e # calls) =
     (if io_kind (os_io e) = WouldBlock then esp_accept set_nonblocking set_nodelay calls
      else Some (Inl (NetworkError (os_io e)), calls))"

text \<open>What one round of the connect loop sees after its wait: the pending error of the socket, whether it has a peer, and the time in ms.\<close>

record connect_poll =
  cp_take_error :: "(IoError, IoError option) result"
  cp_has_peer :: bool
  cp_now :: nat

fun connect_wait :: "nat \<Rightarrow> connect_poll list \<Rightarrow> (RuntimeError, unit) result option" where
  "connect_wait deadline [] = None"
| "connect_wait deadline (p # ps) =
     (case cp_take_error p of
        Inr (Some e) \<Rightarrow> Some (Inl (NetworkError e))
      | Inl e \<Rightarrow> Some (Inl (NetworkError e))
      | Inr None \<Rightarrow>
          if cp_has_peer p then Some (Inr ())
          else if cp_now p > deadline then Some (Inl (NetworkError (IoError TimedOut ''connection timed out'')))
          else connect_wait deadline ps)"

record connect_calls =
  cc_socket :: "(IoError, socket) result"
  cc_set_nonblocking :: "(IoError, unit) result"
  cc_connect :: "(os_error, unit) result"
  cc_start :: nat
  cc_polls :: "connect_poll list"
  cc_last_error :: "(IoError, IoError option) result"
  cc_set_nodelay :: "(IoError, unit) result"

definition finish_connect :: "connect_calls \<Rightarrow> socket \<Rightarrow> (RuntimeError, EspTcpStream) result" where
  "finish_connect c s =
     (case cc_last_error c of
        Inr (Some e) \<Rightarrow> Inl (NetworkError e)
      | _ \<Rightarrow> bind_result (map_err NetworkError (cc_set_nodelay c)) (\<lambda>_. Inr (EspTcpStream_new s)))"

definition esp_connect :: "int \<Rightarrow> connect_calls \<Rightarrow> (RuntimeError, EspTcpStream) result option" where
  "esp_connect einprogress c =
     (case bind_result (map_err NetworkError (cc_socket c))
             (\<lambda>s. bind_result (map_err NetworkError (cc_set_nonblocking c)) (\<lambda>_. Inr s)) of
        Inl e \<Rightarrow> Some (Inl e)
      | Inr s \<Rightarrow>
          (case cc_connect c of
             Inr _ \<Rightarrow> Some (finish_connect c s)
           | Inl e \<Rightarrow>
               if is_would_block einprogress e
               then map_option (\<lambda>r. bind_result r (\<lambda>_. finish_connect c s))
                      (connect_wait (cc_start c + 1000 * unat CONNECT_TIMEOUT_SECS) (cc_polls c))
               else Some (Inl (NetworkError (os_io e)))))"

section \<open>What the polls promise\<close>

definition bytes_ahead :: "socket \<Rightarrow> byte_vec" where
  "bytes_ahead s = concat (map (\<lambda>r. case r of Inr bs \<Rightarrow> bs | Inl _ \<Rightarrow> []) (sock_reads s))"

text \<open>A fact that every call on the socket keeps and that only a successful call changes carries over to the loop.\<close>

lemma retry_loop_result:
  assumes "\<forall>s e s'. call s = (Inl e, s') \<longrightarrow> view s' = view s"
    and "retry_loop einprogress call elapsed s = (r, armed, rest, s')"
  shows "(r = Pending \<longrightarrow> armed \<and> view s' = view s) \<and> (\<forall>e. r = Ready (Inl e) \<longrightarrow> view s' = view s) \<and>
    (\<forall>a. r = Ready (Inr a) \<longrightarrow> (\<exists>s0. view s0 = view s \<and> call s0 = (Inr a, s')))"
  using assms(2)
proof (induction "length elapsed" arbitrary: elapsed s rule: less_induct)
  case less
  show ?case
  proof (cases "call s")
    case (Pair x s1)
    show ?thesis
    proof (cases x)
      case (Inr a)
      then show ?thesis using less.prems Pair by (auto simp: retry_loop.simps [of _ _ elapsed s])
    next
      case (Inl e)
      then have same: "view s1 = view s" using assms(1) Pair by simp
      show ?thesis
      proof (cases "is_would_block einprogress e \<and> elapsed \<noteq> [] \<and> hd elapsed")
        case True
        then obtain later where "elapsed = True # later" by (cases elapsed) auto
        then have "retry_loop einprogress call later s1 = (r, armed, rest, s')"
          using less.prems Pair Inl True by (simp add: retry_loop.simps [of _ _ "True # later" s] poll_retry_def)
        from less.hyps [OF _ this] \<open>elapsed = True # later\<close> same show ?thesis by simp
      next
        case False
        then show ?thesis using less.prems Pair Inl same
          by (auto simp: retry_loop.simps [of _ _ elapsed s] poll_retry_def split: list.split_asm bool.split_asm if_split_asm)
      qed
    qed
  qed
qed

lemma socket_read_view:
  "socket_read n s = (Inl e, s') \<Longrightarrow> bytes_ahead s' = bytes_ahead s"
  "socket_read n s = (Inr bs, s') \<Longrightarrow> bytes_ahead s = bs @ bytes_ahead s' \<and> length bs \<le> n"
  by (auto simp: socket_read_def bytes_ahead_def split: list.split_asm sum.split_asm if_split_asm)

lemma socket_write_view:
  "socket_write buf s = (Inl e, s') \<Longrightarrow> sock_written s' = sock_written s"
  "socket_write buf s = (Inr k, s') \<Longrightarrow> sock_written s' = sock_written s @ take k buf \<and> k \<le> length buf"
  by (auto simp: socket_write_def min_def split: list.split_asm sum.split_asm)

text \<open>
  C35: Retrying neither loses nor repeats a byte, and a poll that is not ready is woken. However often the socket would block, a read
  returns the next bytes it has and leaves the others, a write has passed on exactly the bytes it reports, a poll that is
  not ready or fails has read and written nothing, and one that is not ready has its timer set.
\<close>

theorem socket_polls_faithful:
  assumes "esp_poll_read einprogress n elapsed t = (r, elapsed', t')"
    and "esp_poll_write einprogress buf elapsed2 u = (q, elapsed2', u')"
  shows "(case r of
        Ready (Inr bs) \<Rightarrow> bytes_ahead (esp_socket t) = bs @ bytes_ahead (esp_socket t') \<and> length bs \<le> n
      | Ready (Inl _) \<Rightarrow> bytes_ahead (esp_socket t') = bytes_ahead (esp_socket t)
      | Pending \<Rightarrow> bytes_ahead (esp_socket t') = bytes_ahead (esp_socket t) \<and> read_retry t') \<and>
    (case q of
        Ready (Inr k) \<Rightarrow> sock_written (esp_socket u') = sock_written (esp_socket u) @ take k buf \<and> k \<le> length buf
      | Ready (Inl _) \<Rightarrow> sock_written (esp_socket u') = sock_written (esp_socket u)
      | Pending \<Rightarrow> sock_written (esp_socket u') = sock_written (esp_socket u) \<and> write_retry u')"
proof -
  obtain armed s where "retry_loop einprogress (socket_read n) elapsed (esp_socket t) = (r, armed, elapsed', s)"
    and t': "t' = t\<lparr>esp_socket := s, read_retry := armed\<rparr>"
    using assms(1) by (auto simp: esp_poll_read_def case_prod_unfold Let_def prod_eq_iff)
  have rd: "(r = Pending \<longrightarrow> armed \<and> bytes_ahead s = bytes_ahead (esp_socket t)) \<and> (\<forall>e. r = Ready (Inl e) \<longrightarrow> bytes_ahead s = bytes_ahead (esp_socket t)) \<and>
      (\<forall>bs. r = Ready (Inr bs) \<longrightarrow> (\<exists>s0. bytes_ahead s0 = bytes_ahead (esp_socket t) \<and> socket_read n s0 = (Inr bs, s)))"
    by (rule retry_loop_result [OF _ \<open>retry_loop _ (socket_read n) _ _ = _\<close>]) (use socket_read_view(1) in blast)
  obtain armed2 s2 where "retry_loop einprogress (socket_write buf) elapsed2 (esp_socket u) = (q, armed2, elapsed2', s2)"
    and u': "u' = u\<lparr>esp_socket := s2, write_retry := armed2\<rparr>"
    using assms(2) by (auto simp: esp_poll_write_def case_prod_unfold Let_def prod_eq_iff)
  have wr: "(q = Pending \<longrightarrow> armed2 \<and> sock_written s2 = sock_written (esp_socket u)) \<and> (\<forall>e. q = Ready (Inl e) \<longrightarrow> sock_written s2 = sock_written (esp_socket u)) \<and>
      (\<forall>k. q = Ready (Inr k) \<longrightarrow> (\<exists>s0. sock_written s0 = sock_written (esp_socket u) \<and> socket_write buf s0 = (Inr k, s2)))"
    by (rule retry_loop_result [OF _ \<open>retry_loop _ (socket_write buf) _ _ = _\<close>]) (use socket_write_view(1) in blast)
  show ?thesis
  proof (rule conjI)
    show "case r of
        Ready (Inr bs) \<Rightarrow> bytes_ahead (esp_socket t) = bs @ bytes_ahead (esp_socket t') \<and> length bs \<le> n
      | Ready (Inl _) \<Rightarrow> bytes_ahead (esp_socket t') = bytes_ahead (esp_socket t)
      | Pending \<Rightarrow> bytes_ahead (esp_socket t') = bytes_ahead (esp_socket t) \<and> read_retry t'"
      using rd t' by (fastforce dest!: socket_read_view(2) split: poll.split sum.split)
    show "case q of
        Ready (Inr k) \<Rightarrow> sock_written (esp_socket u') = sock_written (esp_socket u) @ take k buf \<and> k \<le> length buf
      | Ready (Inl _) \<Rightarrow> sock_written (esp_socket u') = sock_written (esp_socket u)
      | Pending \<Rightarrow> sock_written (esp_socket u') = sock_written (esp_socket u) \<and> write_retry u'"
      using wr u' by (fastforce dest!: socket_write_view(2) split: poll.split sum.split)
  qed
qed

theorem socket_polls_faithful_witness:
  "\<exists>t' u'. esp_poll_read 119 4 [True] (EspTcpStream_new \<lparr> sock_reads = [Inl \<lparr> os_io = IoError WouldBlock [], raw_os_error = None \<rparr>, Inr [1, 2]],
      sock_writes = [], sock_flushes = [], sock_written = [] \<rparr>) = (Ready (Inr [1, 2]), [], t') \<and>
    esp_poll_write 119 [7, 8] [False] (EspTcpStream_new \<lparr> sock_reads = [], sock_writes = [Inl \<lparr> os_io = IoError OtherKind [],
      raw_os_error = Some 119 \<rparr>], sock_flushes = [], sock_written = [] \<rparr>) = (Pending, [], u') \<and> write_retry u'"
proof -
  let ?t = "EspTcpStream_new \<lparr> sock_reads = [Inl \<lparr> os_io = IoError WouldBlock [], raw_os_error = None \<rparr>, Inr [1, 2]],
      sock_writes = [], sock_flushes = [], sock_written = [] \<rparr>"
  let ?u = "EspTcpStream_new \<lparr> sock_reads = [], sock_writes = [Inl \<lparr> os_io = IoError OtherKind [],
      raw_os_error = Some 119 \<rparr>], sock_flushes = [], sock_written = [] \<rparr>"
  obtain t' where rd: "esp_poll_read 119 4 [True] ?t = (Ready (Inr [1, 2]), [], t')"
    by (simp add: esp_poll_read_def retry_loop.simps socket_read_def is_would_block_def poll_retry_def EspTcpStream_new_def)
  obtain u' where wr: "esp_poll_write 119 [7, 8] [False] ?u = (Pending, [], u')"
    by (simp add: esp_poll_write_def retry_loop.simps socket_write_def is_would_block_def poll_retry_def EspTcpStream_new_def)
  from socket_polls_faithful [OF rd wr] rd wr show ?thesis by auto
qed

lemma connect_wait_returns:
  assumes "\<exists>p\<in>set ps. cp_now p > deadline"
  shows "\<exists>r. connect_wait deadline ps = Some r"
  using assms by (induction ps) (auto split: sum.split option.split)

text \<open>
  C36: Connecting does not wait for ever. When every round of the loop waits at least 50 ms, \<open>connect\<close> returns after at most 101 rounds, with
  the stream or an error, whatever the calls on the socket return.
\<close>

theorem socket_connect_returns:
  assumes "101 \<le> length (cc_polls c)" and "\<forall>i<length (cc_polls c). cc_start c + unat CONNECT_POLL_MS * Suc i \<le> cp_now (cc_polls c ! i)"
  shows "\<exists>r. esp_connect einprogress c = Some r"
proof -
  have "cc_start c + 5050 \<le> cp_now (cc_polls c ! 100)" using assms(1) assms(2) [rule_format, of 100] by (simp add: CONNECT_POLL_MS_def)
  then have "\<exists>p\<in>set (cc_polls c). cp_now p > cc_start c + 1000 * unat CONNECT_TIMEOUT_SECS"
    using assms(1) by (intro bexI [of _ "cc_polls c ! 100"]) (auto simp: CONNECT_TIMEOUT_SECS_def)
  from connect_wait_returns [OF this] show ?thesis by (auto simp: esp_connect_def split: sum.split)
qed

definition demo_connect :: connect_calls where
  "demo_connect = \<lparr> cc_socket = Inr \<lparr> sock_reads = [], sock_writes = [], sock_flushes = [], sock_written = [] \<rparr>, cc_set_nonblocking = Inr (),
     cc_connect = Inl \<lparr> os_io = IoError WouldBlock [], raw_os_error = None \<rparr>, cc_start = 7,
     cc_polls = map (\<lambda>i. \<lparr> cp_take_error = Inr None, cp_has_peer = False, cp_now = 7 + 50 * Suc i \<rparr>) [0..<101],
     cc_last_error = Inr None, cc_set_nodelay = Inr () \<rparr>"

theorem socket_connect_returns_witness: "\<exists>r. esp_connect 119 demo_connect = Some r"
  by (rule socket_connect_returns) (simp_all add: demo_connect_def CONNECT_POLL_MS_def del: upt_Suc upt_rec_numeral)

end
