(* ===== verification/EspHost.thy ===== *)
theory EspHost
  imports ErpNetwork SocketIo
begin

text \<open>
  The start of the firmware (\<open>erp-runtime/src/runtime/host.rs\<close>) and of its network task (\<open>ensure_wifi_connected\<close> and the first
  lines of \<open>run\<close> in \<open>erp-runtime/src/network/manager.rs\<close>). What ESP-IDF answers to a call is a parameter; the calls that change
  the radio are recorded in the order in which they are made. The last section is about the node manager after another task has ended:
  the channel of that task then has no receiver.
\<close>

section \<open>Configuration of the radio\<close>

definition WIFI_SSID_MISSING :: string where "WIFI_SSID_MISSING = ''missing WIFI_SSID environment variable''"
definition WIFI_PASS_MISSING :: string where "WIFI_PASS_MISSING = ''missing WIFI_PASS environment variable''"
definition WIFI_SSID_INVALID :: string where "WIFI_SSID_INVALID = ''WIFI_SSID exceeds ESP-IDF client configuration limits''"
definition WIFI_PASS_INVALID :: string where "WIFI_PASS_INVALID = ''WIFI_PASS exceeds ESP-IDF client configuration limits''"

record wifi_setup =
  ws_peripherals :: "(EspError, unit) result"
  ws_sys_loop :: "(EspError, unit) result"
  ws_timer_service :: "(EspError, unit) result"
  ws_new :: "(EspError, unit) result"
  ws_wrap :: "(EspError, unit) result"
  ws_ssid_fits :: "string \<Rightarrow> bool"
  ws_password_fits :: "string \<Rightarrow> bool"
  ws_set_configuration :: "string \<Rightarrow> string \<Rightarrow> (EspError, unit) result"

definition esp_call :: "(EspError, 'a) result \<Rightarrow> (RuntimeError, 'a) result" where
  "esp_call r = map_err Esp r"

text \<open>The result is the configuration the radio has been given.\<close>

definition create_wifi :: "wifi_setup \<Rightarrow> string option \<Rightarrow> string option \<Rightarrow> (RuntimeError, string \<times> string) result" where
  "create_wifi W env_ssid env_pass =
     bind_result (ok_or (Config WIFI_SSID_MISSING) env_ssid)
       (\<lambda>ssid. bind_result (ok_or (Config WIFI_PASS_MISSING) env_pass)
         (\<lambda>password. bind_result (esp_call (ws_peripherals W))
           (\<lambda>_. bind_result (esp_call (ws_sys_loop W))
             (\<lambda>_. bind_result (esp_call (ws_timer_service W))
               (\<lambda>_. bind_result (esp_call (ws_new W))
                 (\<lambda>_. bind_result (esp_call (ws_wrap W))
                   (\<lambda>_. if \<not> ws_ssid_fits W ssid then Inl (Config WIFI_SSID_INVALID)
                        else if \<not> ws_password_fits W password then Inl (Config WIFI_PASS_INVALID)
                        else bind_result (esp_call (ws_set_configuration W ssid password)) (\<lambda>_. Inr (ssid, password)))))))))"

lemma create_wifi_Inr:
  "create_wifi W env_ssid env_pass = Inr (ssid, password) \<Longrightarrow>
    env_ssid = Some ssid \<and> env_pass = Some password \<and> ws_ssid_fits W ssid \<and> ws_password_fits W password \<and>
    ws_set_configuration W ssid password = Inr ()"
  by (auto simp: create_wifi_def bind_result_Inr esp_call_def split: if_split_asm)

section \<open>Bringing up the network\<close>

datatype wifi_call = StartWifi | DisablePowerSave | ConnectWifi | WaitNetifUp | Settle

record wifi_env =
  is_started :: "(EspError, bool) result"
  is_connected :: "(EspError, bool) result"
  wifi_answer :: "wifi_call \<Rightarrow> (EspError, unit) result"

definition wifi_do :: "wifi_env \<Rightarrow> wifi_call \<Rightarrow> (wifi_call list, RuntimeError, unit) effect" where
  "wifi_do W c calls = (esp_call (wifi_answer W c), calls @ [c])"

definition ensure_wifi_connected :: "wifi_env \<Rightarrow> (wifi_call list, RuntimeError, unit) effect" where
  "ensure_wifi_connected W =
     and_then (of_result (esp_call (is_started W)))
       (\<lambda>started. and_then (if \<not> started then wifi_do W StartWifi else done_with ())
         (\<lambda>_. and_then (wifi_do W DisablePowerSave)
           (\<lambda>_. and_then (of_result (esp_call (is_connected W)))
             (\<lambda>connected. and_then (if \<not> connected then wifi_do W ConnectWifi else done_with ())
               (\<lambda>_. and_then (wifi_do W WaitNetifUp) (\<lambda>_ calls. (Inr (), calls @ [Settle])))))))"

text \<open>When the radio is up, it was started first if it was not, connected next, and the calls have succeeded.\<close>

lemma ensure_wifi_connected_Inr:
  assumes "ensure_wifi_connected W calls = (Inr (), calls')"
  obtains started connected where "is_started W = Inr started" and "is_connected W = Inr connected"
    and "calls' = calls @ (if started then [] else [StartWifi]) @ [DisablePowerSave] @ (if connected then [] else [ConnectWifi]) @
      [WaitNetifUp, Settle]"
    and "\<forall>c \<in> set (drop (length calls) calls') - {Settle}. wifi_answer W c = Inr ()"
proof -
  obtain started connected where s: "is_started W = Inr started" and c: "is_connected W = Inr connected"
    using assms by (auto simp: ensure_wifi_connected_def and_then_Inr esp_call_def)
  show thesis
    using assms by (intro that [OF s c]) (cases started; cases connected;
        auto simp: ensure_wifi_connected_def and_then_Inr esp_call_def s c wifi_do_def)+
qed

text \<open>
  \<open>run\<close> of the network task: the radio, the address of the station, the listener, and then the loop of theory \<open>ErpNetwork\<close>. \<open>bind_listener\<close>
  is \<open>esp_bind\<close> of theory \<open>SocketIo\<close> on the sockets of the system.
\<close>

definition esp_network_run ::
  "('vk, 'sig, 'z) net_scheme \<Rightarrow> addr_env \<Rightarrow> wifi_env \<Rightarrow> (EspError, u32) result \<Rightarrow> (SocketAddr \<Rightarrow> u16 \<Rightarrow> (RuntimeError, 'l) result)
    \<Rightarrow> net_input list \<Rightarrow> ('vk, 'sig) NetworkManager \<Rightarrow> ((RuntimeError, unit) result \<times> ('vk, 'sig) NetworkManager) exec" where
  "esp_network_run E A W ip_info bind_listener inputs nm =
     (case fst (ensure_wifi_connected W []) of
        Inl e \<Rightarrow> Some (Inl e, nm)
      | Inr _ \<Rightarrow>
          (case esp_call ip_info of
             Inl e \<Rightarrow> Some (Inl e, nm)
           | Inr ip \<Rightarrow>
               (case bind_listener (SocketV4 ip (listen_port (nm_config nm))) (listen_port (nm_config nm)) of
                  Inl e \<Rightarrow> Some (Inl e, nm)
                | Inr _ \<Rightarrow> network_loop E A inputs 0 nm)))"

section \<open>The threads\<close>

text \<open>What the three tasks of the io thread return, joined, and what \<open>run\<close> returns from the two threads.\<close>

definition run_io_runtime :: "(RuntimeError, unit) result \<Rightarrow> (RuntimeError, unit) result \<Rightarrow> (RuntimeError, unit) result \<Rightarrow> (RuntimeError, unit) result" where
  "run_io_runtime network_res storage_res wake_res = bind_result network_res (\<lambda>_. bind_result storage_res (\<lambda>_. bind_result wake_res (\<lambda>_. Inr ())))"

record esp_start =
  es_blockchain :: "(NodeError, unit) result"
  es_identity :: "(RuntimeError, unit) result"
  es_nvs_partition :: "(EspError, unit) result"
  es_wifi :: wifi_setup
  es_ssid :: "string option"
  es_password :: "string option"
  es_network_manager :: "(RuntimeError, unit) result"
  es_nvs_storage :: "(EspError, unit) result"

definition esp_run :: "esp_start \<Rightarrow> (RuntimeError, unit) result \<Rightarrow> (RuntimeError, unit) result \<Rightarrow> (RuntimeError, unit) result" where
  "esp_run P node_res io_res =
     bind_result (map_err NodeFailure (es_blockchain P))
       (\<lambda>_. bind_result (es_identity P)
         (\<lambda>_. bind_result (esp_call (es_nvs_partition P))
           (\<lambda>_. bind_result (create_wifi (es_wifi P) (es_ssid P) (es_password P))
             (\<lambda>_. bind_result (es_network_manager P)
               (\<lambda>_. bind_result (map_err StorageInit (es_nvs_storage P))
                 (\<lambda>_. bind_result node_res (\<lambda>_. bind_result io_res (\<lambda>_. Inr ()))))))))"

lemma esp_run_Inr:
  "esp_run P node_res (run_io_runtime network_res storage_res wake_res) = Inr () \<longleftrightarrow>
    es_blockchain P = Inr () \<and> es_identity P = Inr () \<and> es_nvs_partition P = Inr () \<and>
    (\<exists>c. create_wifi (es_wifi P) (es_ssid P) (es_password P) = Inr c) \<and> es_network_manager P = Inr () \<and> es_nvs_storage P = Inr () \<and>
    node_res = Inr () \<and> network_res = Inr () \<and> storage_res = Inr () \<and> wake_res = Inr ()"
  by (auto simp: esp_run_def run_io_runtime_def bind_result_Inr esp_call_def)

section \<open>A task that has ended\<close>

text \<open>
  When the network task has ended, the node manager goes on with every action that needs no network command and fails at the first that
  does: only then does \<open>run\<close> end. Until then the node runs without a network.
\<close>

definition silent_action :: "('vk, 'sig) NodeAction \<Rightarrow> bool" where
  "silent_action a \<longleftrightarrow> network_commands [a] = []"

lemma silent_action_step:
  assumes "receiver_dropped (network_tx nm)" and "\<not> receiver_dropped (storage_tx nm)" and "\<not> receiver_dropped (wake_tx nm)"
  shows "handle_action a nm = (if silent_action a then Inr () else Inl (network_send Disconnected), if silent_action a then after_actions [a] nm else nm)"
  using assms by (cases a) (simp_all add: silent_action_def after_actions_def send_defs send_on_def send_def)

lemma after_actions_flags [simp]:
  "receiver_dropped (network_tx (after_actions acts nm)) = receiver_dropped (network_tx nm)"
  "receiver_dropped (storage_tx (after_actions acts nm)) = receiver_dropped (storage_tx nm)"
  "receiver_dropped (wake_tx (after_actions acts nm)) = receiver_dropped (wake_tx nm)"
  by (simp_all add: after_actions_def)

lemma network_end_noticed_late:
  assumes "receiver_dropped (network_tx nm)" and "\<not> receiver_dropped (storage_tx nm)" and "\<not> receiver_dropped (wake_tx nm)"
  shows "handle_actions acts nm =
    (if list_all silent_action acts then Inr () else Inl (network_send Disconnected), after_actions (takeWhile silent_action acts) nm)"
  using assms
proof (induction acts arbitrary: nm)
  case Nil
  then show ?case by (simp add: after_actions_def)
next
  case (Cons a acts)
  show ?case
  proof (cases "silent_action a")
    case True
    then show ?thesis
      using Cons.IH [of "after_actions [a] nm"] Cons.prems silent_action_step [OF Cons.prems, of a]
      by (simp add: and_then_def after_actions_Cons)
  next
    case False
    then show ?thesis using silent_action_step [OF Cons.prems, of a] by (simp add: and_then_def after_actions_def)
  qed
qed

end
