(* ===== verification/Spec2Isabelle.thy ===== *)
theory Spec2Isabelle
  imports EngineProperties Framing WakeTimer NvsStorage SledStorage Session HostCodec HostRuntime NoiseHandshake Yamux EspHost
begin

text \<open>
  A verification of the proof-of-stake chain in \<open>src/\<close>: the ledger, the node and its two runtimes.

  \<^bold>\<open>The program.\<close> \<open>rp-core\<close> has accounts, transactions, blocks, block validation and the fork choice. \<open>rp-node\<close> keeps a tree of
  blocks with a pool of transactions and runs the protocol as a state machine: \<open>NodeEngine::step\<close> takes one input (a tick, a frame of a
  peer, a reply of the storage) and returns actions (send a frame, persist a block, arm the timer). A runtime feeds it: four tasks,
  joined by bounded channels, run the engine (\<open>NodeManager\<close>), the network, the storage and the timer. \<open>erp-runtime\<close> is the runtime of
  an ESP32 with its own libp2p stack (sockets, multistream, noise, yamux, identify) and flash storage; \<open>rp-runtime\<close> is that of a host, on
  tokio, the libp2p crate and sled. \<open>rp-codec\<close> has the frames both use.

  \<^bold>\<open>Conventions.\<close> A Rust integer of \<open>w\<close> bits is a \<open>w word\<close>; an operation that panics on overflow in a debug build and wraps in a release
  build takes the flag \<open>overflow_checks\<close> of its environment. A function that may panic or not return has type \<open>exec\<close> (an option, \<open>None\<close>
  for a panic), a \<open>Result\<close> is a sum with the error on the left, and \<open>?\<close> is \<open>bind_result\<close> or \<open>and_then\<close> (theory \<open>Effects\<close>). Asynchronous
  functions are effects on the state they own; where waiting matters it is explicit (polls in \<open>NoiseStream\<close>, \<open>Yamux\<close>, \<open>SocketIo\<close>; the
  steps of \<open>HostRuntime\<close>). There is no fuel: loops are structural, have a termination proof, or are partial functions in the option
  monad that are proved to return (\<open>engine_step_returns\<close>, \<open>get_blocks_contiguous\<close>, \<open>noise_stream_roundtrip\<close>). Code outside the
  repository is a parameter: a record of functions (\<open>crypto\<close> for p256 and sha2, \<open>net\<close> and its extensions for postcard, \<open>varint\<close>, the flash \<open>K\<close>,
  the database \<open>D\<close>, snow, protobuf, multiaddr, ESP-IDF), with what its documentation promises as a named predicate (\<open>varint_ok\<close>,
  \<open>kv_ok\<close>, \<open>sled_ok\<close>, \<open>postcard_ok\<close>, \<open>sec1_ok\<close>, \<open>signatures_ok\<close>, \<open>collision_free\<close> on the blocks that reach the node) that a concrete instance
  satisfies (\<open>Concrete\<close>, \<open>DemoNet\<close> and the \<open>demo\<close> definitions).

  \<^bold>\<open>Shared theories.\<close> \<open>Prelude\<close> has the integer operations, bytes and the collections \<open>arith_defs\<close> and \<open>exec_simps\<close> of rules; \<open>Collections\<close> the
  ordered maps and sets of Rust's standard library, with the locale \<open>ordered_map\<close> (its interpretation \<open>btm\<close> gives the laws of lookup
  after insertion and removal) and the locale \<open>cmp_order\<close> (interpreted for the order of transactions in \<open>Models\<close>).

  \<^bold>\<open>rp-core.\<close>
  \<^item> \<open>Models\<close> (\<open>crypto.rs\<close>, \<open>models/*.rs\<close>, \<open>traits.rs\<close>): the data, its canonical bytes, hashes and signatures; the bytes are prefix free.
  \<^item> \<open>Ledger\<close> (\<open>state.rs\<close>): validity and application of transactions; balances, stakes and requests keep their sum.
  \<^item> \<open>Selection\<close> (\<open>get_expected_validator\<close>): over any period of heights the share of a validator is its share of the stake;
    a slashed one is not chosen again before it sends a transaction of its own.
  \<^item> \<open>StateRoot\<close> (\<open>compute_state_root\<close>): equal roots mean equal balances. \<open>StateCodec\<close>: the bytes of a state are read back.
  \<^item> \<open>CoreChain\<close> (\<open>blockchain.rs\<close>): an accepted block keeps the supply and has each sender's transactions in sequence.

  \<^bold>\<open>rp-node.\<close>
  \<^item> \<open>Mempool\<close> (\<open>mempool.rs\<close>): bounded, ordered by fee, keeps the best. \<open>Blockchain\<close> (\<open>blockchain.rs\<close>): the invariant of the block tree,
    that imports of the same blocks in different orders end at the same head, and the ranges that are served.
  \<^item> \<open>Contract\<close> (\<open>contract.rs\<close>, \<open>network/message.rs\<close>), \<open>NodeEngine\<close> (\<open>node_engine.rs\<close>, every handler of \<open>step\<close>), \<open>EngineInvariant\<close> (the
    invariant, by rule induction over reachable engines) and \<open>EngineProperties\<close>: every input is handled, except a corrupt snapshot that makes
    \<open>State::from_bytes\<close> panic; the timer is armed for the earliest deadline, syncing makes progress, blocks are persisted and restored, a
    transaction is relayed once.

  \<^bold>\<open>What the runtimes share.\<close>
  \<^item> \<open>Effects\<close> (errors, streams, channels), \<open>Framing\<close> (\<open>rp-codec\<close> and the wrappers of both runtimes): a frame is read back, with the
    bytes after it left alone. \<open>NodeManager\<close> (\<open>runtime/manager.rs\<close>): both runtimes run the node alike.
  \<^item> \<open>WakeTimer\<close> (\<open>wake/manager.rs\<close>, \<open>run_wake_loop\<close>): with the engine, in any interleaving, no wake-up is lost.
  \<^item> \<open>StorageContract\<close> (trait \<open>Storage\<close>, the storage tasks): the locale \<open>storage_contract\<close> has the laws of a backend, and its lemmas
    refine an abstract store; \<open>NvsStorage\<close> (flash, slots per hash prefix) and \<open>SledStorage\<close> are its interpretations \<open>nvs\<close> and \<open>sled\<close>.

  \<^bold>\<open>erp-runtime.\<close>
  \<^item> \<open>NodeHello\<close>, \<open>TransportKeys\<close> (\<open>identity/manager.rs\<close>, \<open>protocol/node_hello.rs\<close>, \<open>network/transport_identity.rs\<close>): keys in software and
    in the efuse, the hello that binds a node to a transport key; the transport identity survives a restart.
  \<^item> \<open>PeerRegistry\<close>, \<open>ErpNetwork\<close> (\<open>peer_registry.rs\<close>, \<open>config.rs\<close>, \<open>bootstrap.rs\<close>, \<open>network/manager.rs\<close>): registry, index and sessions stay
    consistent; how a full registry or a second session of a node ends the task.
  \<^item> \<open>SocketIo\<close> (\<open>socket/esp_idf.rs\<close>), \<open>Multistream\<close>, \<open>Exchange\<close>, \<open>NoiseStream\<close>, \<open>NoiseHandshake\<close> (\<open>transport/noise.rs\<close>), \<open>Yamux\<close>, \<open>Identify\<close>, \<open>Session\<close>
    (\<open>session.rs\<close>): a session from the socket up. Retries lose no byte, connecting ends, both ends agree on a protocol, the encrypted
    stream delivers what was written whatever the polls do, the handshake of two honest nodes completes, a session is only established
    with a peer that owns both keys, substreams and commands keep their order. \<open>Exchange\<close> interleaves the two ends of a connection: a byte
    is delivered only after it was written, so that a wait cycle would show; programs that play mirrored scripts have none.
  \<^item> \<open>EspHost\<close> (\<open>runtime/host.rs\<close> and the start of the network task): configuration of the radio, and how the ends of the tasks are joined.

  \<^bold>\<open>rp-runtime.\<close>
  \<^item> \<open>HostNetwork\<close> (\<open>network/manager.rs\<close>, \<open>network/config.rs\<close>): only peers with a verified hello are registered, and a hello of one
    runtime is accepted by the other. \<open>HostCodec\<close>: so are their frames.
  \<^item> \<open>HostRuntime\<close> (\<open>run\<close> of \<open>main.rs\<close>): the four tasks on bounded channels, with their capacities from the code, as step relations. Each
    task does what its own model does (\<open>runtime_runs_tasks\<close>), which carries the properties of the tasks over to the whole; blocks reach the
    disk; and the tasks can only block each other in one way, which a peer can bring about (\<open>runtime_can_deadlock\<close>).

  \<^bold>\<open>Not modelled.\<close> \<open>build_swarm\<close> of \<open>rp-runtime/src/network/manager.rs\<close> and \<open>yamux_config\<close> only pass constants to crates. \<open>rp-client\<close> prints two
  messages. \<open>main.rs\<close>, \<open>utils.rs\<close> and \<open>build.rs\<close> of \<open>erp-runtime\<close> start logging, read a version number that is not used, and configure the
  build. Creating threads and executors, log messages, \<open>Debug\<close> output and the tests have no counterpart. The embedded runtime as a system of
  threads is not composed the way \<open>HostRuntime\<close> composes the host: its channels have the same shape, but its sessions are threads of
  their own, and only the pairs engine and timer (\<open>WakeTimer\<close>), network task and sessions (\<open>ErpNetwork\<close>, \<open>Session\<close>) are composed.
\<close>

end
